(* ===== verification/Rrd_Prelude.thy ===== *)
theory Rrd_Prelude
  imports Complex_Main "HOL-Library.Log_Nat" "HOL-Library.Multiset"
begin

text \<open>
  Shared ground of the development: C's integer types as unbounded integers with the
  reduction to their width written out, the C string functions the sources call, results
  of fallible functions, and the lemmas and collections every component uses.

  The platform is the one the default build targets: LP64 (\<open>int\<close> 32 bit, \<open>long\<close>,
  \<open>time_t\<close> and pointers 64 bit), IEEE binary64 \<open>double\<close>, \<open>HAVE_MMAP\<close> defined, no RADOS.
\<close>

section \<open>Fact collections\<close>

named_theorems c_int_simps \<open>reduction of C integers whose value is in range\<close>
named_theorems rrd_wf_simps \<open>what the operations keep of the database layout\<close>

section \<open>C integers\<close>

type_synonym ulong = int
type_synonym time_t = int
type_synonym clong = int
type_synonym cint = int

definition u64 :: "int \<Rightarrow> ulong" where
  "u64 x = x mod 2 ^ 64"

definition s64 :: "int \<Rightarrow> clong" where
  "s64 x = (x + 2 ^ 63) mod 2 ^ 64 - 2 ^ 63"

definition s32 :: "int \<Rightarrow> cint" where
  "s32 x = (x + 2 ^ 31) mod 2 ^ 32 - 2 ^ 31"

definition s16 :: "int \<Rightarrow> int" where
  "s16 x = (x + 2 ^ 15) mod 2 ^ 16 - 2 ^ 15"

definition u16 :: "int \<Rightarrow> int" where
  "u16 x = x mod 2 ^ 16"

text \<open>C division and remainder truncate towards zero.\<close>

definition cdiv :: "int \<Rightarrow> int \<Rightarrow> int" where
  "cdiv a b = sgn a * sgn b * (\<bar>a\<bar> div \<bar>b\<bar>)"

definition cmod :: "int \<Rightarrow> int \<Rightarrow> int" where
  "cmod a b = a - b * cdiv a b"

lemma u64_id [c_int_simps]: "0 \<le> x \<Longrightarrow> x < 2 ^ 64 \<Longrightarrow> u64 x = x"
  by (simp add: u64_def)

lemma s64_id [c_int_simps]: "- (2 ^ 63) \<le> x \<Longrightarrow> x < 2 ^ 63 \<Longrightarrow> s64 x = x"
  by (simp add: s64_def)

lemma s32_id [c_int_simps]: "- (2 ^ 31) \<le> x \<Longrightarrow> x < 2 ^ 31 \<Longrightarrow> s32 x = x"
  by (simp add: s32_def)

lemma s16_id [c_int_simps]: "- (2 ^ 15) \<le> x \<Longrightarrow> x < 2 ^ 15 \<Longrightarrow> s16 x = x"
  by (simp add: s16_def)

lemma u16_id [c_int_simps]: "0 \<le> x \<Longrightarrow> x < 2 ^ 16 \<Longrightarrow> u16 x = x"
  by (simp add: u16_def)

lemma u64_range: "0 \<le> u64 x" "u64 x < 2 ^ 64"
  by (simp_all add: u64_def)

lemma cdiv_nonneg: "0 \<le> a \<Longrightarrow> 0 < b \<Longrightarrow> cdiv a b = a div b"
  by (cases "a = 0") (simp_all add: cdiv_def)

lemma cmod_nonneg: "0 \<le> a \<Longrightarrow> 0 < b \<Longrightarrow> cmod a b = a mod b"
  by (simp add: cmod_def cdiv_nonneg minus_mult_div_eq_mod)

lemma cdiv_mult_exact: "0 < b \<Longrightarrow> cdiv (k * b) b = k"
  using nonzero_mult_div_cancel_right [of b "- k"]
  by (cases k "0 :: int" rule: linorder_cases)
    (simp_all add: cdiv_def abs_mult sgn_mult)

section \<open>C strings\<close>

text \<open>A C string is the list of its bytes without the terminating NUL.\<close>

definition is_digit :: "char \<Rightarrow> bool" where
  "is_digit c \<longleftrightarrow> 48 \<le> (of_char c :: nat) \<and> (of_char c :: nat) \<le> 57"

definition digit_val :: "char \<Rightarrow> int" where
  "digit_val c = of_char c - 48"

text \<open>\<open>isspace\<close> in the C locale: space, \\t, \\n, \\v, \\f and \\r.\<close>

definition is_space :: "char \<Rightarrow> bool" where
  "is_space c \<longleftrightarrow> (of_char c :: nat) = 32 \<or> 9 \<le> (of_char c :: nat) \<and> (of_char c :: nat) \<le> 13"

definition to_lower :: "char \<Rightarrow> char" where
  "to_lower c = (if 65 \<le> (of_char c :: nat) \<and> (of_char c :: nat) \<le> 90
                 then char_of ((of_char c :: nat) + 32) else c)"

text \<open>\<open>strncasecmp(str, pat, strlen(pat)) == 0\<close>\<close>

definition has_prefix_nocase :: "string \<Rightarrow> string \<Rightarrow> bool" where
  "has_prefix_nocase pat str \<longleftrightarrow>
     length pat \<le> length str \<and> map to_lower (take (length pat) str) = map to_lower pat"

text \<open>Splitting at every occurrence of a separator, as the loops that overwrite the
  separators with NUL and remember the starts do.\<close>

fun split_at_char :: "char \<Rightarrow> string \<Rightarrow> string list" where
  "split_at_char c [] = [[]]"
| "split_at_char c (x # xs) =
     (if x = c then [] # split_at_char c xs
      else (case split_at_char c xs of
              [] \<Rightarrow> [[x]]
            | f # fs \<Rightarrow> (x # f) # fs))"

lemma split_at_char_nonempty [simp]: "split_at_char c xs \<noteq> []"
  by (induction xs) (auto split: list.splits)

lemma length_split_at_char: "length (split_at_char c xs) = Suc (count_list xs c)"
  by (induction xs) (auto split: list.splits)

lemma split_at_char_fields: "f \<in> set (split_at_char c xs) \<Longrightarrow> c \<notin> set f"
  by (induction xs arbitrary: f) (fastforce split: list.splits if_splits)+

text \<open>\<open>strncpy(dst, src, n-1); dst[n-1] = 0\<close>\<close>

definition strlcpy_take :: "nat \<Rightarrow> string \<Rightarrow> string" where
  "strlcpy_take n s = take (n - 1) s"

lemma length_strlcpy_take [simp]: "length (strlcpy_take n s) \<le> n - 1"
  by (simp add: strlcpy_take_def)

text \<open>The value of a string of decimal digits, and the digits of a number as \<open>%lu\<close> prints it.\<close>

fun dec_val :: "int \<Rightarrow> string \<Rightarrow> int" where
  "dec_val a [] = a"
| "dec_val a (c # cs) = dec_val (a * 10 + digit_val c) cs"

definition digit_char :: "int \<Rightarrow> char" where
  "digit_char d = char_of (nat (d + 48))"

fun dec_string :: "nat \<Rightarrow> string" where
  "dec_string n = (if n < 10 then [digit_char (int n)]
                   else dec_string (n div 10) @ [digit_char (int (n mod 10))])"

declare dec_string.simps [simp del]

lemma of_char_digit_char: "0 \<le> d \<Longrightarrow> d \<le> 9 \<Longrightarrow> (of_char (digit_char d) :: nat) = nat d + 48"
  by (simp add: digit_char_def nat_add_distrib)

lemma is_digit_digit_char [simp]: "0 \<le> d \<Longrightarrow> d \<le> 9 \<Longrightarrow> is_digit (digit_char d)"
  by (simp add: is_digit_def of_char_digit_char)

lemma digit_val_digit_char [simp]: "0 \<le> d \<Longrightarrow> d \<le> 9 \<Longrightarrow> digit_val (digit_char d) = d"
proof -
  assume d: "0 \<le> d" "d \<le> 9"
  have "(of_char (digit_char d) :: int) = int (of_char (digit_char d))"
    by (simp add: of_nat_of_char)
  with d show ?thesis by (simp add: digit_val_def of_char_digit_char)
qed

lemma digit_val_range: "is_digit c \<Longrightarrow> 0 \<le> digit_val c \<and> digit_val c \<le> 9"
proof -
  have "(of_char c :: int) = int (of_char c)" by (simp add: of_nat_of_char)
  then show "is_digit c \<Longrightarrow> ?thesis" by (simp add: is_digit_def digit_val_def)
qed

lemma dec_val_append: "dec_val a (xs @ ys) = dec_val (dec_val a xs) ys"
  by (induction xs arbitrary: a) auto

lemma dec_val_mono: "list_all is_digit cs \<Longrightarrow> 0 \<le> a \<Longrightarrow> a \<le> dec_val a cs"
proof (induction cs arbitrary: a)
  case (Cons c cs)
  then have "0 \<le> digit_val c" using digit_val_range by simp
  then have "a \<le> a * 10 + digit_val c" using Cons.prems by simp
  also have "\<dots> \<le> dec_val (a * 10 + digit_val c) cs"
    using Cons \<open>0 \<le> digit_val c\<close> by simp
  finally show ?case by simp
qed simp

lemma dec_string_digits: "list_all is_digit (dec_string n)"
  by (induction n rule: dec_string.induct) (subst dec_string.simps, auto)

lemma dec_string_nonempty [simp]: "dec_string n \<noteq> []"
  by (subst dec_string.simps) simp

lemma dec_val_dec_string [simp]: "dec_val 0 (dec_string n) = int n"
proof (induction n rule: dec_string.induct)
  case (1 n)
  show ?case
  proof (cases "n < 10")
    case True
    then show ?thesis by (subst dec_string.simps) simp
  next
    case False
    with 1 have "dec_val 0 (dec_string (n div 10)) = int (n div 10)" by simp
    moreover have "int (n div 10) * 10 + int (n mod 10) = int n"
      by (simp add: zdiv_int zmod_int)
    ultimately show ?thesis
      using False by (subst dec_string.simps) (simp add: dec_val_append)
  qed
qed

definition int_string :: "int \<Rightarrow> string" where
  "int_string k = (if k < 0 then CHR ''-'' # dec_string (nat (- k)) else dec_string (nat k))"

text \<open>\<open>isalpha\<close> in the C locale.\<close>

definition is_alpha :: "char \<Rightarrow> bool" where
  "is_alpha c \<longleftrightarrow>
     65 \<le> (of_char c :: nat) \<and> (of_char c :: nat) \<le> 90 \<or>
     97 \<le> (of_char c :: nat) \<and> (of_char c :: nat) \<le> 122"

text \<open>\<open>atol\<close> and \<open>atoi\<close> of the C library: the longest prefix that is a number, 0 if there is none. A
  value out of range, which the standard leaves undefined, is clamped and truncated as glibc does.\<close>

definition atol :: "string \<Rightarrow> clong" where
  "atol s =
     (let t = dropWhile is_space s;
          neg = (take 1 t = ''-'');
          ds = takeWhile is_digit (if neg \<or> take 1 t = ''+'' then tl t else t);
          v = (if neg then - dec_val 0 ds else dec_val 0 ds)
      in max (- (2 ^ 63)) (min (2 ^ 63 - 1) v))"

definition atoi :: "string \<Rightarrow> cint" where
  "atoi s = s32 (atol s)"

text \<open>\<open>struct tm\<close>\<close>

record tm =
  tm_sec :: cint
  tm_min :: cint
  tm_hour :: cint
  tm_mday :: cint
  tm_mon :: cint
  tm_year :: cint
  tm_wday :: cint
  tm_yday :: cint
  tm_isdst :: cint

lemma is_digit_not_space: "is_digit c \<Longrightarrow> \<not> is_space c"
  by (auto simp: is_digit_def is_space_def)

lemma atol_digits:
  assumes "list_all is_digit s" and "dec_val 0 s < 2 ^ 63"
  shows "atol s = dec_val 0 s"
proof -
  have "dropWhile is_space s = s" using assms(1) by (cases s) (auto simp: is_digit_not_space)
  moreover have "take 1 s \<noteq> ''-''" "take 1 s \<noteq> ''+''" using assms(1) by (cases s; auto simp: is_digit_def)+
  moreover have "takeWhile is_digit s = s" using assms(1) by (simp add: list_all_iff takeWhile_eq_all_conv)
  ultimately show ?thesis
    using assms dec_val_mono [OF assms(1), of 0] by (simp add: atol_def del: takeWhile_eq_all_conv)
qed

section \<open>Lists addressed by C integers\<close>

abbreviation nthi :: "'a list \<Rightarrow> int \<Rightarrow> 'a" where
  "nthi xs i \<equiv> xs ! nat i"

abbreviation updi :: "'a list \<Rightarrow> int \<Rightarrow> 'a \<Rightarrow> 'a list" where
  "updi xs i v \<equiv> list_update xs (nat i) v"

lemma list_update_nth_neq: "i \<noteq> j \<Longrightarrow> list_update xs i v ! j = xs ! j"
  by simp

lemma row_index_less:
  fixes r c n m :: nat
  assumes "r < n" and "c < m"
  shows "r * m + c < n * m"
proof -
  have "r * m + c < r * m + m" using assms(2) by simp
  also have "\<dots> = Suc r * m" by simp
  also have "\<dots> \<le> n * m" using assms(1) by (intro mult_le_mono1) simp
  finally show ?thesis .
qed

lemma row_index_inj:
  fixes r c r' c' m :: nat
  assumes "c < m" and "c' < m" and "r * m + c = r' * m + c'"
  shows "r = r' \<and> c = c'"
proof -
  have "(r * m + c) div m = r" "(r' * m + c') div m = r'"
    using assms(1,2) by simp_all
  moreover have "(r * m + c) mod m = c" "(r' * m + c') mod m = c'"
    using assms(1,2) by simp_all
  ultimately show ?thesis using assms(3) by metis
qed

end
