(* ===== verification/Rrd_Double.thy ===== *)
theory Rrd_Double
  imports Rrd_Prelude
begin

text \<open>
  The C type \<open>double\<close> (\<open>rrd_value_t\<close>): IEEE 754 binary64 with rounding to nearest, ties to
  even. A finite non-zero double is the rational number it stands for; infinities, both
  zeros and one NaN (payloads and signs of NaN are never inspected by the sources) are
  constructors of their own. Every operation computes the exact rational result and rounds
  it once, so that the functions evaluate and rounding is never idealised away. The same
  rounding with 24 digits gives \<open>float\<close>.
\<close>

section \<open>Rounding of rationals\<close>

definition pow2 :: "int \<Rightarrow> rat" where
  "pow2 e = (if 0 \<le> e then 2 ^ nat e else 1 / 2 ^ nat (- e))"

text \<open>The exponent of the leading binary digit of a positive rational.\<close>

definition ilog2 :: "rat \<Rightarrow> int" where
  "ilog2 x = (case quotient_of x of (a, b) \<Rightarrow>
     (let k = bitlen a - bitlen b in if pow2 k \<le> x then k else k - 1))"

text \<open>Nearest integer, ties to the even neighbour.\<close>

definition rne :: "rat \<Rightarrow> int" where
  "rne x = (let f = \<lfloor>x\<rfloor>; d = x - of_int f
            in if d < 1 / 2 then f else if 1 / 2 < d then f + 1
               else if even f then f else f + 1)"

text \<open>\<open>prec\<close> binary digits, no digit below \<open>2 ^ emin\<close>.\<close>

definition quantum :: "int \<Rightarrow> int \<Rightarrow> rat \<Rightarrow> int" where
  "quantum prec emin x = max (ilog2 \<bar>x\<bar> - (prec - 1)) emin"

definition rnd_to :: "int \<Rightarrow> int \<Rightarrow> rat \<Rightarrow> rat" where
  "rnd_to prec emin x =
     (if x = 0 then 0
      else (let q = pow2 (quantum prec emin x) in of_int (rne (x / q)) * q))"

definition rnd53 :: "rat \<Rightarrow> rat" where
  "rnd53 x = rnd_to 53 (- 1074) x"

definition rnd24 :: "rat \<Rightarrow> rat" where
  "rnd24 x = rnd_to 24 (- 149) x"


lemma pow2_powi: "pow2 e = 2 powi e"
  by (simp add: pow2_def power_int_def inverse_eq_divide power_divide)

lemma pow2_pos [simp]: "0 < pow2 e"
  by (simp add: pow2_powi)

lemma pow2_nonneg [simp]: "0 \<le> pow2 e"
  using pow2_pos [of e] by linarith

lemma pow2_neq_0 [simp]: "pow2 e \<noteq> 0"
  using pow2_pos [of e] by linarith

lemma pow2_add: "pow2 (a + b) = pow2 a * pow2 b"
  by (simp add: pow2_powi power_int_add)

lemma pow2_diff: "pow2 (a - b) = pow2 a / pow2 b"
  by (simp add: pow2_powi power_int_diff)

lemma pow2_nat: "0 \<le> e \<Longrightarrow> pow2 e = of_int (2 ^ nat e)"
  by (simp add: pow2_def)

lemma pow2_mono: "a \<le> b \<Longrightarrow> pow2 a \<le> pow2 b"
  by (simp add: pow2_powi power_int_increasing)

lemma pow2_less_iff [simp]: "pow2 a < pow2 b \<longleftrightarrow> a < b"
  by (metis pow2_mono linorder_not_le order_le_less power_int_strict_increasing
      pow2_powi one_less_numeral_iff semiring_norm(76))

lemma ilog2_bounds:
  assumes "0 < x"
  shows "pow2 (ilog2 x) \<le> x" and "x < pow2 (ilog2 x + 1)"
proof -
  obtain a b where ab: "quotient_of x = (a, b)" by (cases "quotient_of x")
  have b: "0 < b" using quotient_of_denom_pos [OF ab] .
  have x: "x = of_int a / of_int b" using quotient_of_div [OF ab] .
  have a: "0 < a" using assms b by (simp add: x zero_less_divide_iff)
  define m n where "m = bitlen a" and "n = bitlen b"
  have m0: "0 < m" and n0: "0 < n"
    using a b bitlen_nonneg [of a] bitlen_nonneg [of b] bitlen_eq_zero_iff [of a]
      bitlen_eq_zero_iff [of b] by (simp_all add: m_def n_def order_less_le)
  have A: "2 ^ nat (m - 1) \<le> a" "a < 2 ^ nat m"
    using bitlen_bounds [OF a] by (simp_all add: m_def)
  have B: "2 ^ nat (n - 1) \<le> b" "b < 2 ^ nat n"
    using bitlen_bounds [OF b] by (simp_all add: n_def)
  have A1: "pow2 (m - 1) \<le> of_int a" and A2: "of_int a < pow2 m"
    using A m0 by (simp_all only: pow2_nat of_int_le_iff of_int_less_iff)
  have B1: "pow2 (n - 1) \<le> of_int b" and B2: "of_int b < pow2 n"
    using B n0 by (simp_all only: pow2_nat of_int_le_iff of_int_less_iff)
  have "x < pow2 m / pow2 (n - 1)"
    using A2 B1 b a by (simp add: x) (rule frac_less, simp_all)
  then have up: "x < pow2 (m - n + 1)"
    by (simp add: pow2_diff [symmetric] algebra_simps)
  have "pow2 (m - 1) / pow2 n \<le> x"
    using A1 B2 b a by (simp add: x) (rule frac_le, simp_all)
  then have lo: "pow2 (m - n - 1) \<le> x"
    by (simp add: pow2_diff [symmetric] algebra_simps)
  have il: "ilog2 x = (if pow2 (m - n) \<le> x then m - n else m - n - 1)"
    by (simp add: ilog2_def ab m_def n_def Let_def)
  show "pow2 (ilog2 x) \<le> x" using lo by (simp add: il)
  show "x < pow2 (ilog2 x + 1)" using up by (simp add: il)
qed

lemma ilog2_less: "0 < x \<Longrightarrow> x < pow2 k \<Longrightarrow> ilog2 x < k"
  using ilog2_bounds(1) [of x] by (metis order_le_less_trans pow2_less_iff)

lemma ilog2_mono: "0 < x \<Longrightarrow> x \<le> y \<Longrightarrow> ilog2 x \<le> ilog2 y"
  using ilog2_less [of x "ilog2 y + 1"] ilog2_bounds(2) [of y] by linarith

lemma rne_of_int [simp]: "rne (of_int k) = k"
  by (simp add: rne_def)

lemma rne_cases: "rne x = \<lfloor>x\<rfloor> \<or> rne x = \<lfloor>x\<rfloor> + 1 \<and> 1 / 2 \<le> x - of_int \<lfloor>x\<rfloor>"
  by (auto simp: rne_def Let_def)

lemma rne_mono: "x \<le> y \<Longrightarrow> rne x \<le> rne y"
proof -
  assume xy: "x \<le> y"
  then have f: "\<lfloor>x\<rfloor> \<le> \<lfloor>y\<rfloor>" by (rule floor_mono)
  show ?thesis
  proof (cases "\<lfloor>x\<rfloor> = \<lfloor>y\<rfloor>")
    case True
    with xy show ?thesis by (auto simp: rne_def Let_def)
  next
    case False
    with f have "\<lfloor>x\<rfloor> + 1 \<le> \<lfloor>y\<rfloor>" by simp
    with rne_cases [of x] rne_cases [of y] show ?thesis by linarith
  qed
qed

lemma rne_uminus: "rne (- x) = - rne x"
proof (cases "x = of_int \<lfloor>x\<rfloor>")
  case True
  then show ?thesis by (metis of_int_minus rne_of_int)
next
  case False
  then have fl: "\<lfloor>- x\<rfloor> = - \<lfloor>x\<rfloor> - 1"
    by (simp add: floor_minus ceiling_altdef)
  show ?thesis
    unfolding rne_def Let_def fl by auto
qed

lemma rnd_to_0 [simp]: "rnd_to p e 0 = 0"
  by (simp add: rnd_to_def)

lemma quantum_uminus: "quantum p e (- x) = quantum p e x"
  by (simp add: quantum_def)

lemma rnd_to_uminus: "rnd_to p e (- x) = - rnd_to p e x"
  by (simp add: rnd_to_def quantum_uminus Let_def rne_uminus)

text \<open>A number with at most \<open>prec\<close> digits above \<open>2 ^ emin\<close> is not changed.\<close>

lemma rnd_to_exact:
  assumes m: "\<bar>m\<bar> < 2 ^ nat p" and e: "emin \<le> e" and p: "0 < p"
  shows "rnd_to p emin (of_int m * pow2 e) = of_int m * pow2 e"
proof (cases "m = 0")
  case False
  let ?x = "of_int m * pow2 e" and ?q = "quantum p emin (of_int m * pow2 e)"
  have ax: "\<bar>?x\<bar> = of_int \<bar>m\<bar> * pow2 e" by (simp add: abs_mult)
  have "of_int \<bar>m\<bar> < pow2 p" using m p by (simp only: pow2_nat of_int_less_iff)
  then have "\<bar>?x\<bar> < pow2 (p + e)" by (simp add: ax pow2_add abs_mult)
  then have "ilog2 \<bar>?x\<bar> < p + e" using False by (intro ilog2_less) simp_all
  then have qe: "?q \<le> e" using e by (simp add: quantum_def)
  have "?x / pow2 ?q = of_int m * pow2 (e - ?q)" by (simp add: pow2_diff)
  also have "\<dots> = of_int (m * 2 ^ nat (e - ?q))" using qe by (simp add: pow2_nat)
  finally have "rne (?x / pow2 ?q) = m * 2 ^ nat (e - ?q)"
    by (metis rne_of_int)
  then have "of_int (rne (?x / pow2 ?q)) * pow2 ?q = of_int m * (pow2 (e - ?q) * pow2 ?q)"
    using qe by (simp add: pow2_nat)
  also have "\<dots> = ?x" by (simp add: pow2_add [symmetric])
  finally show ?thesis using False by (simp add: rnd_to_def Let_def)
qed simp


lemma rnd_to_le_grid:
  assumes x: "0 < x" and g: "x \<le> of_int k * pow2 (quantum p emin x)"
  shows "rnd_to p emin x \<le> of_int k * pow2 (quantum p emin x)"
proof -
  let ?q = "pow2 (quantum p emin x)"
  have "x / ?q \<le> of_int k" using g by (simp add: pos_divide_le_eq)
  then have "rne (x / ?q) \<le> k" using rne_mono by fastforce
  then show ?thesis using x by (simp add: rnd_to_def Let_def)
qed

lemma rnd_to_ge_grid:
  assumes x: "0 < x" and g: "of_int k * pow2 (quantum p emin x) \<le> x"
  shows "of_int k * pow2 (quantum p emin x) \<le> rnd_to p emin x"
proof -
  let ?q = "pow2 (quantum p emin x)"
  have "of_int k \<le> x / ?q" using g by (simp add: pos_le_divide_eq)
  then have "k \<le> rne (x / ?q)" using rne_mono by fastforce
  then show ?thesis using x by (simp add: rnd_to_def Let_def)
qed

lemma rnd_to_nonneg: "0 \<le> x \<Longrightarrow> 0 \<le> rnd_to p emin x"
  using rnd_to_ge_grid [of x 0] by (cases "x = 0") auto

lemma rnd_to_mono_pos:
  assumes x: "0 < x" and xy: "x \<le> y" and p: "0 < p"
  shows "rnd_to p emin x \<le> rnd_to p emin y"
proof (cases "quantum p emin x = quantum p emin y")
  case True
  have "x / pow2 (quantum p emin y) \<le> y / pow2 (quantum p emin y)"
    using xy by (simp add: divide_right_mono)
  then show ?thesis using x xy True by (simp add: rnd_to_def Let_def rne_mono)
next
  case False
  let ?l = "ilog2 y"
  have y: "0 < y" using x xy by simp
  have "ilog2 x \<le> ?l" using ilog2_mono [OF x xy] .
  with False have q: "quantum p emin x \<le> ?l" "ilog2 x < ?l" "quantum p emin y \<le> ?l"
    using x y p by (auto simp: quantum_def max_def split: if_splits)
  have g: "pow2 ?l = of_int (2 ^ nat (?l - q)) * pow2 q" if "q \<le> ?l" for q
    using that by (simp add: pow2_nat [symmetric] pow2_add [symmetric] del: of_int_power)
  have "x < pow2 (ilog2 x + 1)" by (rule ilog2_bounds(2) [OF x])
  also have "\<dots> \<le> pow2 ?l" using q(2) by (intro pow2_mono) simp
  finally have "rnd_to p emin x \<le> pow2 ?l"
    using rnd_to_le_grid [OF x] g [OF q(1)] by (metis less_imp_le)
  also have "\<dots> \<le> rnd_to p emin y"
    using rnd_to_ge_grid [OF y] g [OF q(3)] ilog2_bounds(1) [OF y] by metis
  finally show ?thesis .
qed

lemma rnd_to_mono:
  assumes xy: "x \<le> y" and p: "0 < p"
  shows "rnd_to p emin x \<le> rnd_to p emin y"
proof -
  consider "0 < x" | "x \<le> 0" "0 \<le> y" | "y < 0" by linarith
  then show ?thesis
  proof cases
    case 1
    then show ?thesis using rnd_to_mono_pos xy p by blast
  next
    case 2
    then have "rnd_to p emin x \<le> 0"
      using rnd_to_nonneg [of "- x" p emin] by (simp add: rnd_to_uminus)
    also have "0 \<le> rnd_to p emin y" using 2 by (intro rnd_to_nonneg)
    finally show ?thesis .
  next
    case 3
    then show ?thesis
      using rnd_to_mono_pos [of "- y" "- x" p emin] xy p by (simp add: rnd_to_uminus)
  qed
qed

text \<open>A rounded number has at most \<open>prec\<close> digits, so that rounding it again is exact.\<close>

lemma rnd_to_idem:
  assumes p: "0 < p"
  shows "rnd_to p emin (rnd_to p emin x) = rnd_to p emin x"
proof (cases "x = 0")
  case False
  let ?q = "quantum p emin x" let ?n = "rne (x / pow2 ?q)"
  have "\<bar>x\<bar> < pow2 (ilog2 \<bar>x\<bar> + 1)" using False by (intro ilog2_bounds(2)) simp
  also have "\<dots> \<le> pow2 (p + ?q)" by (intro pow2_mono) (simp add: quantum_def)
  finally have "\<bar>x / pow2 ?q\<bar> \<le> of_int (2 ^ nat p)"
    using p by (simp add: pow2_add pow2_nat divide_le_eq)
  then have "x / pow2 ?q \<le> of_int (2 ^ nat p)" "of_int (- (2 ^ nat p)) \<le> x / pow2 ?q"
    by (simp_all only: abs_le_iff of_int_minus) (simp add: minus_le_iff)
  from this [THEN rne_mono] have "\<bar>?n\<bar> \<le> 2 ^ nat p"
    by (simp only: rne_of_int abs_le_iff) (simp add: minus_le_iff)
  then consider "\<bar>?n\<bar> < 2 ^ nat p" | "\<bar>?n\<bar> = 2 ^ nat p" by linarith
  then have "rnd_to p emin (of_int ?n * pow2 ?q) = of_int ?n * pow2 ?q"
  proof cases
    case 1
    then show ?thesis using p by (intro rnd_to_exact) (simp_all add: quantum_def)
  next
    case 2
    define h where "h = sgn ?n * 2 ^ (nat p - 1)"
    have "(2 :: int) ^ nat p = 2 ^ (nat p - 1) * 2"
      using p by (metis power_Suc2 Suc_diff_1 zero_less_nat_eq)
    then have h: "?n = h * 2" "\<bar>h\<bar> < 2 ^ nat p"
      using 2 sgn_mult_abs [of ?n] by (simp_all add: h_def abs_mult abs_sgn_eq)
    have "of_int ?n * pow2 ?q = of_int h * pow2 (?q + 1)"
      unfolding h(1) by (simp add: pow2_add pow2_def [of 1])
    then show ?thesis
      using p rnd_to_exact [OF h(2), of emin "?q + 1"] by (simp add: quantum_def)
  qed
  then show ?thesis using False by (simp add: rnd_to_def [of p emin x] Let_def)
qed simp


lemma rnd_to_int:
  assumes "\<bar>k\<bar> \<le> 2 ^ nat p" and "emin \<le> 0" and "0 < p"
  shows "rnd_to p emin (of_int k) = of_int k"
proof (cases "\<bar>k\<bar> < 2 ^ nat p")
  case True
  then show ?thesis using rnd_to_exact [of k p emin 0] assms(2,3) by (simp add: pow2_def)
next
  case False
  define h where "h = sgn k * 2 ^ (nat p - 1)"
  have "(2 :: int) ^ nat p = 2 ^ (nat p - 1) * 2"
    using assms(3) by (metis power_Suc2 Suc_diff_1 zero_less_nat_eq)
  then have h: "k = h * 2" "\<bar>h\<bar> < 2 ^ nat p"
    using False assms(1) sgn_mult_abs [of k] by (simp_all add: h_def abs_mult abs_sgn_eq)
  then have "of_int k = of_int h * pow2 1" by (simp add: pow2_def)
  then show ?thesis using rnd_to_exact [OF h(2), of emin 1] assms(2,3) by simp
qed

section \<open>Doubles\<close>

datatype dbl = NaN | PInf | NInf | NZero | Fin rat

primrec dval :: "dbl \<Rightarrow> rat" where
  "dval NaN = 0"
| "dval PInf = 0"
| "dval NInf = 0"
| "dval NZero = 0"
| "dval (Fin r) = r"

primrec is_neg :: "dbl \<Rightarrow> bool" where
  "is_neg NaN = False"
| "is_neg PInf = False"
| "is_neg NInf = True"
| "is_neg NZero = True"
| "is_neg (Fin r) = (r < 0)"

definition isnan :: "dbl \<Rightarrow> bool" where
  "isnan d = (d = NaN)"

text \<open>\<open>isinf\<close> with the sign, as glibc and the comment in \<open>rpn_compare_double\<close> have it.\<close>

definition isinf :: "dbl \<Rightarrow> int" where
  "isinf d = (if d = PInf then 1 else if d = NInf then - 1 else 0)"

definition is_zero :: "dbl \<Rightarrow> bool" where
  "is_zero d = (d = NZero \<or> d = Fin 0)"

text \<open>Packing an exact result; \<open>s\<close> is the sign an exact zero gets.\<close>

definition dpack :: "bool \<Rightarrow> rat \<Rightarrow> dbl" where
  "dpack s x =
     (let r = rnd53 x in
      if r = 0 then (if x < 0 \<or> x = 0 \<and> s then NZero else Fin 0)
      else if 2 ^ 1024 \<le> r then PInf
      else if r \<le> - (2 ^ 1024) then NInf
      else Fin r)"

text \<open>A value of the type \<open>double\<close> is one that packing produces.\<close>

primrec dbl_ok :: "dbl \<Rightarrow> bool" where
  "dbl_ok NaN = True"
| "dbl_ok PInf = True"
| "dbl_ok NInf = True"
| "dbl_ok NZero = True"
| "dbl_ok (Fin r) = (rnd53 r = r \<and> \<bar>r\<bar> < 2 ^ 1024)"

definition dlit :: "rat \<Rightarrow> dbl" where
  "dlit r = dpack False r"

definition dint :: "int \<Rightarrow> dbl" where
  "dint k = dpack False (of_int k)"

text \<open>The test for overflow in the form that evaluates.\<close>

lemma ilog2_ge_iff:
  assumes "0 < x"
  shows "k \<le> ilog2 x \<longleftrightarrow> pow2 k \<le> x"
proof
  assume "k \<le> ilog2 x"
  then show "pow2 k \<le> x" using pow2_mono [of k "ilog2 x"] ilog2_bounds(1) [OF assms] by linarith
next
  assume "pow2 k \<le> x"
  then show "k \<le> ilog2 x"
    using ilog2_bounds(2) [OF assms] pow2_mono [of "ilog2 x + 1" k] by (rule_tac ccontr) linarith
qed

lemma dpack_code [code]:
  "dpack s x =
     (let r = rnd53 x in
      if r = 0 then (if x < 0 \<or> x = 0 \<and> s then NZero else Fin 0)
      else if 0 < r \<and> 1024 \<le> ilog2 r then PInf
      else if r < 0 \<and> 1024 \<le> ilog2 (- r) then NInf
      else Fin r)"
proof -
  have "pow2 1024 = 2 ^ 1024" by (simp add: pow2_def)
  then have "(2 ^ 1024 \<le> r) = (0 < r \<and> 1024 \<le> ilog2 r)" for r
    using ilog2_ge_iff [of r 1024] pow2_pos [of 1024] by (metis order_less_le_trans)
  moreover from this have "(r \<le> - (2 ^ 1024)) = (r < 0 \<and> 1024 \<le> ilog2 (- r))" for r
    by (metis neg_0_less_iff_less le_minus_iff)
  ultimately show ?thesis by (simp only: dpack_def)
qed
instantiation dbl :: "{zero, one, plus, uminus, minus, times, inverse, ord}"
begin

definition zero_dbl :: dbl where
  "zero_dbl = Fin 0"

definition one_dbl :: dbl where
  "one_dbl = Fin 1"

definition plus_dbl :: "dbl \<Rightarrow> dbl \<Rightarrow> dbl" where
  "plus_dbl a b =
     (if a = NaN \<or> b = NaN then NaN
      else if a = PInf then (if b = NInf then NaN else PInf)
      else if a = NInf then (if b = PInf then NaN else NInf)
      else if b = PInf then PInf
      else if b = NInf then NInf
      else dpack (a = NZero \<and> b = NZero) (dval a + dval b))"

definition uminus_dbl :: "dbl \<Rightarrow> dbl" where
  "uminus_dbl a =
     (case a of NaN \<Rightarrow> NaN | PInf \<Rightarrow> NInf | NInf \<Rightarrow> PInf | NZero \<Rightarrow> Fin 0
      | Fin r \<Rightarrow> (if r = 0 then NZero else Fin (- r)))"

definition minus_dbl :: "dbl \<Rightarrow> dbl \<Rightarrow> dbl" where
  "minus_dbl a b = a + (- b)"

definition times_dbl :: "dbl \<Rightarrow> dbl \<Rightarrow> dbl" where
  "times_dbl a b =
     (if a = NaN \<or> b = NaN then NaN
      else if isinf a \<noteq> 0 \<or> isinf b \<noteq> 0
      then (if is_zero a \<or> is_zero b then NaN
            else if is_neg a = is_neg b then PInf else NInf)
      else dpack (is_neg a \<noteq> is_neg b) (dval a * dval b))"

definition divide_dbl :: "dbl \<Rightarrow> dbl \<Rightarrow> dbl" where
  "divide_dbl a b =
     (if a = NaN \<or> b = NaN then NaN
      else if isinf a \<noteq> 0
      then (if isinf b \<noteq> 0 then NaN else if is_neg a = is_neg b then PInf else NInf)
      else if isinf b \<noteq> 0 then (if is_neg a = is_neg b then Fin 0 else NZero)
      else if is_zero b
      then (if is_zero a then NaN else if is_neg a = is_neg b then PInf else NInf)
      else dpack (is_neg a \<noteq> is_neg b) (dval a / dval b))"

definition inverse_dbl :: "dbl \<Rightarrow> dbl" where
  "inverse_dbl a = Fin 1 div a"

definition less_dbl :: "dbl \<Rightarrow> dbl \<Rightarrow> bool" where
  "less_dbl a b =
     (if a = NaN \<or> b = NaN then False
      else if a = PInf \<or> b = NInf then False
      else if a = NInf \<or> b = PInf then True
      else dval a < dval b)"

definition less_eq_dbl :: "dbl \<Rightarrow> dbl \<Rightarrow> bool" where
  "less_eq_dbl a b = (a \<noteq> NaN \<and> b \<noteq> NaN \<and> \<not> b < a)"

instance ..

end

text \<open>\<open>==\<close> on doubles: false on NaN, and the two zeros are equal.\<close>

definition deq :: "dbl \<Rightarrow> dbl \<Rightarrow> bool" where
  "deq a b = (a \<le> b \<and> b \<le> a)"

definition dfabs :: "dbl \<Rightarrow> dbl" where
  "dfabs a = (if is_neg a then - a else a)"

definition dfloor :: "dbl \<Rightarrow> dbl" where
  "dfloor a = (case a of Fin r \<Rightarrow> Fin (of_int \<lfloor>r\<rfloor>) | _ \<Rightarrow> a)"

definition signed_int :: "bool \<Rightarrow> int \<Rightarrow> dbl" where
  "signed_int neg k = (if k = 0 \<and> neg then NZero else Fin (of_int k))"

definition dceil :: "dbl \<Rightarrow> dbl" where
  "dceil a = (case a of Fin r \<Rightarrow> signed_int (r < 0) \<lceil>r\<rceil> | _ \<Rightarrow> a)"

text \<open>C's \<open>round\<close>: ties away from zero.\<close>

definition dround :: "dbl \<Rightarrow> dbl" where
  "dround a = (case a of
     Fin r \<Rightarrow> signed_int (r < 0) (if 0 \<le> r then \<lfloor>r + 1 / 2\<rfloor> else \<lceil>r - 1 / 2\<rceil>)
   | _ \<Rightarrow> a)"

definition rtrunc :: "rat \<Rightarrow> int" where
  "rtrunc r = (if 0 \<le> r then \<lfloor>r\<rfloor> else \<lceil>r\<rceil>)"

definition dfmod :: "dbl \<Rightarrow> dbl \<Rightarrow> dbl" where
  "dfmod a b =
     (if a = NaN \<or> b = NaN \<or> isinf a \<noteq> 0 \<or> is_zero b then NaN
      else if isinf b \<noteq> 0 then a
      else dpack (is_neg a) (dval a - of_int (rtrunc (dval a / dval b)) * dval b))"

section \<open>Conversions to the integer types\<close>

text \<open>
  C leaves the conversion of a NaN, an infinity or a value out of range undefined. The model
  takes what x86-64 computes (\<open>cvttsd2si\<close>: the smallest value of the signed type); no
  theorem relies on it.
\<close>

definition d2s64 :: "dbl \<Rightarrow> clong" where
  "d2s64 a = (if a = NaN \<or> isinf a \<noteq> 0 then - (2 ^ 63)
     else let k = rtrunc (dval a) in if - (2 ^ 63) \<le> k \<and> k < 2 ^ 63 then k else - (2 ^ 63))"

definition d2s32 :: "dbl \<Rightarrow> cint" where
  "d2s32 a = (if a = NaN \<or> isinf a \<noteq> 0 then - (2 ^ 31)
     else let k = rtrunc (dval a) in if - (2 ^ 31) \<le> k \<and> k < 2 ^ 31 then k else - (2 ^ 31))"

definition d2u64 :: "dbl \<Rightarrow> ulong" where
  "d2u64 a = (if a = NaN \<or> isinf a \<noteq> 0 then 2 ^ 63
     else let k = rtrunc (dval a) in if - (2 ^ 63) \<le> k \<and> k < 2 ^ 64 then u64 k else 2 ^ 63)"

text \<open>
  A \<open>(float)\<close> cast, kept as the double of the same value. A \<open>float\<close> division rounds the
  exact quotient to 24 digits; rounding to 53 digits in between does not change the result.
\<close>

definition to_float :: "dbl \<Rightarrow> dbl" where
  "to_float a = (case a of
     Fin r \<Rightarrow> (let q = rnd24 r in
       if q = 0 then (if r < 0 then NZero else Fin 0)
       else if 2 ^ 128 \<le> q then PInf else if q \<le> - (2 ^ 128) then NInf else Fin q)
   | _ \<Rightarrow> a)"

definition fdiv :: "dbl \<Rightarrow> dbl \<Rightarrow> dbl" where
  "fdiv a b = to_float (to_float a / to_float b)"


section \<open>Laws of the arithmetic\<close>

lemmas dbl_arith_defs = plus_dbl_def minus_dbl_def uminus_dbl_def times_dbl_def divide_dbl_def
lemmas dbl_order_defs = less_eq_dbl_def less_dbl_def

named_theorems dbl_simps \<open>values of double operations\<close>

lemma isnan_simps [simp]:
  "isnan NaN" "\<not> isnan PInf" "\<not> isnan NInf" "\<not> isnan NZero" "\<not> isnan (Fin r)"
  by (simp_all add: isnan_def)

lemma isnan_zero [simp]: "\<not> isnan 0" "\<not> isnan 1"
  by (simp_all add: zero_dbl_def one_dbl_def)

lemma isinf_simps [simp]:
  "isinf NaN = 0" "isinf PInf = 1" "isinf NInf = - 1" "isinf NZero = 0" "isinf (Fin r) = 0"
  by (simp_all add: isinf_def)

lemma nan_arith [simp]:
  "NaN + b = NaN" "a + NaN = NaN" "NaN - b = NaN" "a - NaN = NaN" "- NaN = NaN"
  "NaN * b = NaN" "a * NaN = NaN" "NaN / b = NaN" "a / NaN = NaN"
  by (simp_all add: dbl_arith_defs)

lemma nan_cmp [simp]:
  "\<not> NaN < b" "\<not> a < NaN" "\<not> NaN \<le> b" "\<not> a \<le> NaN" "\<not> deq NaN b" "\<not> deq a NaN"
  by (simp_all add: dbl_order_defs deq_def)

lemma dbl_less_irrefl [simp]: "\<not> (a :: dbl) < a"
  by (simp add: less_dbl_def)

lemma dbl_less_trans: "(a :: dbl) < b \<Longrightarrow> b < c \<Longrightarrow> a < c"
  by (auto simp: less_dbl_def split: if_splits)

lemma dbl_le_trans: "(a :: dbl) \<le> b \<Longrightarrow> b \<le> c \<Longrightarrow> a \<le> c"
  by (auto simp: dbl_order_defs split: if_splits)

lemma dbl_le_refl: "\<not> isnan a \<Longrightarrow> (a :: dbl) \<le> a"
  by (auto simp: dbl_order_defs isnan_def)

lemma dbl_less_imp_le: "(a :: dbl) < b \<Longrightarrow> a \<le> b"
  by (auto simp: dbl_order_defs split: if_splits)

lemma dbl_linear: "\<not> isnan a \<Longrightarrow> \<not> isnan b \<Longrightarrow> (a :: dbl) < b \<or> b \<le> a"
  by (auto simp: dbl_order_defs isnan_def)

lemma dbl_not_less: "\<not> isnan a \<Longrightarrow> \<not> isnan b \<Longrightarrow> \<not> (a :: dbl) < b \<longleftrightarrow> b \<le> a"
  by (auto simp: dbl_order_defs isnan_def)

lemma Fin_less [simp]: "Fin a < Fin b \<longleftrightarrow> a < b"
  by (simp add: less_dbl_def)

lemma Fin_le [simp]: "Fin a \<le> Fin b \<longleftrightarrow> a \<le> b"
  by (auto simp: dbl_order_defs)

lemma deq_Fin [simp]: "deq (Fin a) (Fin b) \<longleftrightarrow> a = b"
  by (auto simp: deq_def)

lemma dpack_ok [simp]: "dbl_ok (dpack s x)"
proof -
  have "rnd53 (rnd53 x) = rnd53 x"
    unfolding rnd53_def by (rule rnd_to_idem) simp
  then show ?thesis by (auto simp: dpack_def Let_def abs_less_iff)
qed

lemma rnd53_0 [simp]: "rnd53 0 = 0"
  by (simp add: rnd53_def)

lemma dpack_exact: "dbl_ok (Fin r) \<Longrightarrow> r \<noteq> 0 \<or> \<not> s \<Longrightarrow> dpack s r = Fin r"
  by (auto simp: dpack_def Let_def abs_less_iff)

lemma dpack_0 [simp]: "dpack False 0 = Fin 0" "dpack True 0 = NZero"
  by (simp_all add: dpack_def)

lemma ok_int: "\<bar>k\<bar> \<le> 2 ^ 53 \<Longrightarrow> dbl_ok (Fin (of_int k))"
proof -
  assume k: "\<bar>k\<bar> \<le> 2 ^ 53"
  have "rnd53 (of_int k) = of_int k"
    unfolding rnd53_def using k by (intro rnd_to_int) simp_all
  moreover have "\<bar>of_int k :: rat\<bar> < 2 ^ 1024"
  proof -
    have "\<bar>of_int k :: rat\<bar> = of_int \<bar>k\<bar>" by simp
    also have "\<dots> \<le> of_int (2 ^ 53)" using k by (simp only: of_int_le_iff)
    also have "\<dots> < (2 :: rat) ^ 1024" by simp
    finally show ?thesis .
  qed
  ultimately show ?thesis by simp
qed

lemma dint_exact [dbl_simps]: "\<bar>k\<bar> \<le> 2 ^ 53 \<Longrightarrow> dint k = Fin (of_int k)"
  unfolding dint_def by (rule dpack_exact [OF ok_int]) simp_all

lemma dint_not_nan [simp]: "\<not> isnan (dint k)"
  by (simp add: dint_def dpack_def Let_def)

lemma dint_ok [simp]: "dbl_ok (dint k)"
  by (simp add: dint_def)

lemma ok_zero_one [simp]: "dbl_ok 0" "dbl_ok 1"
  using ok_int [of 0] ok_int [of 1] by (simp_all add: zero_dbl_def one_dbl_def)

lemma ok_uminus [simp]: "dbl_ok (- a) = dbl_ok a"
proof -
  have "rnd53 (- r) = - rnd53 r" for r by (simp add: rnd53_def rnd_to_uminus)
  then show ?thesis by (cases a) (auto simp: uminus_dbl_def)
qed

lemma ok_arith [simp]: "dbl_ok (a + b)" "dbl_ok (a - b)" "dbl_ok (a * b)" "dbl_ok (a / b)"
proof -
  show "dbl_ok (a + b)" for a b :: dbl by (simp add: plus_dbl_def)
  then show "dbl_ok (a - b)" by (simp add: minus_dbl_def)
  show "dbl_ok (a * b)" by (simp add: times_dbl_def)
  show "dbl_ok (a / b)" using ok_int [of 0] by (simp add: divide_dbl_def)
qed

lemma Fin_add_int [dbl_simps]:
  "\<bar>a + b\<bar> \<le> 2 ^ 53 \<Longrightarrow> Fin (of_int a) + Fin (of_int b) = Fin (of_int (a + b))"
  using dpack_exact [OF ok_int [of "a + b"], of False] by (simp add: plus_dbl_def)

lemma uminus_Fin_nz: "r \<noteq> 0 \<Longrightarrow> - Fin r = Fin (- r)"
  by (simp add: uminus_dbl_def)

lemma Fin_sub_int [dbl_simps]:
  "\<bar>a - b\<bar> \<le> 2 ^ 53 \<Longrightarrow> Fin (of_int a) - Fin (of_int b) = Fin (of_int (a - b))"
  using dpack_exact [OF ok_int [of "a - b"], of False]
  by (auto simp: minus_dbl_def uminus_dbl_def plus_dbl_def)

lemma Fin_mult_int [dbl_simps]:
  "\<bar>a * b\<bar> \<le> 2 ^ 53 \<Longrightarrow> a * b \<noteq> 0 \<or> 0 \<le> a \<and> 0 \<le> b \<Longrightarrow>
   Fin (of_int a) * Fin (of_int b) = Fin (of_int (a * b))"
proof -
  assume b: "\<bar>a * b\<bar> \<le> 2 ^ 53" and s: "a * b \<noteq> 0 \<or> 0 \<le> a \<and> 0 \<le> b"
  have "dpack (is_neg (Fin (of_int a)) \<noteq> is_neg (Fin (of_int b))) (of_int (a * b))
    = Fin (of_int (a * b))"
    by (rule dpack_exact [OF ok_int [OF b]]) (use s in auto)
  then show ?thesis by (simp add: times_dbl_def)
qed

lemma dbl_mult_1 [simp]: "dbl_ok a \<Longrightarrow> a * 1 = a" "dbl_ok a \<Longrightarrow> 1 * a = a"
  by (cases a; cases "dval a = 0"; simp add: times_dbl_def one_dbl_def is_zero_def dpack_exact)+

lemma dbl_div_1 [simp]: "dbl_ok a \<Longrightarrow> a / 1 = a"
  by (cases a; cases "dval a = 0"; simp add: divide_dbl_def one_dbl_def is_zero_def dpack_exact)

lemma dbl_add_0: "dbl_ok a \<Longrightarrow> a \<noteq> NZero \<Longrightarrow> 0 + a = a"
  "dbl_ok a \<Longrightarrow> a \<noteq> NZero \<Longrightarrow> a + 0 = a"
  by (cases a; simp add: plus_dbl_def zero_dbl_def dpack_exact)+

lemma dbl_add_commute: "a + b = b + (a :: dbl)"
  by (auto simp: plus_dbl_def add.commute conj_commute)

lemma dbl_mult_commute: "a * b = b * (a :: dbl)"
  unfolding times_dbl_def by (simp add: mult.commute disj_commute) 

lemma dint_1 [simp]: "dint 1 = 1" and dint_0 [simp]: "dint 0 = 0"
  by (simp_all add: dint_exact one_dbl_def zero_dbl_def)

section \<open>Signs\<close>

lemma dbl_nonneg_iff: "0 \<le> a \<longleftrightarrow> \<not> isnan a \<and> a \<noteq> NInf \<and> 0 \<le> dval a"
  by (cases a) (auto simp: dbl_order_defs zero_dbl_def)

lemma dpack_nonneg: "0 \<le> x \<Longrightarrow> 0 \<le> dpack s x"
proof -
  assume "0 \<le> x"
  then have "0 \<le> rnd53 x" by (simp add: rnd53_def rnd_to_nonneg)
  moreover have "\<not> 0 \<le> r" if "r \<le> - (2 ^ 1024)" for r :: rat
    using that by (simp add: not_le order.strict_trans1)
  ultimately show ?thesis using \<open>0 \<le> x\<close> by (auto simp: dpack_def Let_def dbl_nonneg_iff)
qed

lemma dfabs_nonneg: "isnan a \<or> 0 \<le> dfabs a"
  by (cases a) (auto simp: dfabs_def dbl_nonneg_iff uminus_dbl_def)

lemma dbl_add_nonneg: "0 \<le> a \<Longrightarrow> 0 \<le> b \<Longrightarrow> (0 :: dbl) \<le> a + b"
  by (cases a; cases b) (auto simp: plus_dbl_def dpack_nonneg dbl_nonneg_iff [of PInf]
      dbl_nonneg_iff [of NInf] dbl_nonneg_iff [of NaN] dbl_nonneg_iff [of "Fin r" for r])

lemma dbl_mult_nonneg: "0 \<le> a \<Longrightarrow> 0 \<le> b \<Longrightarrow> isnan (a * b) \<or> (0 :: dbl) \<le> a * b"
  by (cases a; cases b) (auto simp: times_dbl_def is_zero_def dpack_nonneg dbl_nonneg_iff [of PInf]
      dbl_nonneg_iff [of NInf] dbl_nonneg_iff [of NaN] dbl_nonneg_iff [of "Fin r" for r])

lemma dbl_diff_nonneg:
  assumes "b \<le> a" and "isinf b = 0"
  shows "(0 :: dbl) \<le> a - b"
proof (cases "a = PInf")
  case True
  with assms show ?thesis
    by (cases b) (auto simp: minus_dbl_def uminus_dbl_def plus_dbl_def dbl_nonneg_iff [of PInf])
next
  case False
  with assms have "dval b \<le> dval a" "\<not> isnan a" "a \<noteq> NInf" "\<not> isnan b" "b \<noteq> NInf" "b \<noteq> PInf"
    by (auto simp: dbl_order_defs isinf_def isnan_def split: if_splits)
  with False show ?thesis
    by (cases a; cases b) (auto simp: minus_dbl_def uminus_dbl_def plus_dbl_def dpack_nonneg
      dbl_nonneg_iff [of NZero] dbl_nonneg_iff [of "Fin 0"])
qed

section \<open>Sums and the negative zero\<close>

text \<open>All doubles are multiples of the smallest one, so that the rounding of a sum is never zero
  unless the sum is; a sum is the negative zero only if both terms are.\<close>

lemma ok_grid:
  assumes "dbl_ok (Fin r)"
  obtains m where "r = of_int m * pow2 (- 1074)"
proof (cases "r = 0")
  case False
  let ?q = "quantum 53 (- 1074) r"
  have q: "- 1074 \<le> ?q" by (simp add: quantum_def)
  define n where "n = rne (r / pow2 ?q)"
  have r: "r = of_int n * pow2 ?q"
    using assms False by (simp add: rnd53_def rnd_to_def Let_def n_def)
  have "pow2 ?q = of_int (2 ^ nat (?q + 1074)) * pow2 (- 1074)"
    using q by (simp add: pow2_nat [symmetric] pow2_add [symmetric] del: of_int_power)
  with r have "r = of_int (n * 2 ^ nat (?q + 1074)) * pow2 (- 1074)"
    by (metis (no_types) mult.assoc of_int_mult)
  then show thesis by (rule that)
qed (use that [of 0] in simp)

lemma rnd53_grid_pos: "0 < k \<Longrightarrow> 0 < rnd53 (of_int k * pow2 (- 1074))"
proof -
  assume "0 < k"
  then have "of_int 1 * pow2 (- 1074) \<le> of_int k * pow2 (- 1074)"
    by (intro mult_right_mono) simp_all
  then have "rnd53 (of_int 1 * pow2 (- 1074)) \<le> rnd53 (of_int k * pow2 (- 1074))"
    unfolding rnd53_def by (rule rnd_to_mono) simp
  moreover have "rnd53 (of_int 1 * pow2 (- 1074)) = of_int 1 * pow2 (- 1074)"
    unfolding rnd53_def by (rule rnd_to_exact) simp_all
  ultimately show ?thesis using pow2_pos [of "- 1074"] by (metis of_int_1 mult_1 less_le_trans)
qed

lemma dbl_add_not_NZero:
  assumes "dbl_ok a" "a \<noteq> NZero" and "dbl_ok b" "b \<noteq> NZero"
  shows "a + b \<noteq> NZero"
proof (cases "\<exists>r s. a = Fin r \<and> b = Fin s")
  case True
  then obtain r s where ab: "a = Fin r" "b = Fin s" by auto
  obtain m n where m: "r = of_int m * pow2 (- 1074)" and n: "s = of_int n * pow2 (- 1074)"
    using ok_grid assms(1,3) unfolding ab by metis
  have sum: "r + s = of_int (m + n) * pow2 (- 1074)" by (simp add: m n distrib_right)
  have "rnd53 (r + s) \<noteq> 0" if "r + s < 0"
  proof -
    have "m + n < 0" using that unfolding sum mult_less_0_iff by (metis less_asym of_int_less_0_iff pow2_pos)
    moreover have "- (r + s) = of_int (- (m + n)) * pow2 (- 1074)"
      unfolding sum by (simp only: of_int_minus mult_minus_left)
    ultimately have "0 < rnd53 (- (r + s))"
      using rnd53_grid_pos [of "- (m + n)"] by (simp only: neg_0_less_iff_less)
    then show ?thesis unfolding rnd53_def rnd_to_uminus by simp
  qed
  then show ?thesis by (auto simp: ab plus_dbl_def dpack_def Let_def)
qed (use assms in \<open>cases a; cases b; auto simp: plus_dbl_def\<close>)

lemma sum_not_NZero:
  "dbl_ok a \<Longrightarrow> a \<noteq> NZero \<Longrightarrow> list_all (\<lambda>v. dbl_ok v \<and> v \<noteq> NZero) vs \<Longrightarrow>
   dbl_ok (foldl (+) a vs) \<and> foldl (+) a vs \<noteq> NZero"
  by (induction vs arbitrary: a) (simp_all add: dbl_add_not_NZero)

end
