(* ===== verification/Rrd_Format.thy ===== *)
theory Rrd_Format
  imports Rrd_Double
begin

text \<open>
  The database as \<open>rrd_format.h\<close> lays it out and the helpers of \<open>rrd_format.c\<close>. Structs are
  records with the source's field names. The \<open>unival\<close> arrays are read as the fields their
  index enumerations name: every index is used with one member of the union, but for the overlays named below, in the modelled
  sources, and enumerators that share an index share the field here (\<open>rra_par1\<close>, \<open>rra_par2\<close>,
  \<open>rra_par4\<close> and the abbreviations below). Three overlays of another type are fields of their
  own: the compacted RPN program of a \<open>COMPUTE\<close> source (\<open>ds_cdef\<close>, over \<open>par\<close>), the
  violations of a \<open>FAILURES\<close> archive (\<open>violations\<close>, over the first bytes of \<open>scratch\<close>) and the period
  of a \<open>HWPREDICT\<close> archive (\<open>rra_period\<close>, a double over the count \<open>rra_par4\<close> of the others).
\<close>

section \<open>Enumerations\<close>

datatype dst_en = DST_COUNTER | DST_ABSOLUTE | DST_GAUGE | DST_DERIVE | DST_CDEF | DST_DCOUNTER
  | DST_DDERIVE

datatype cf_en = CF_AVERAGE | CF_MINIMUM | CF_MAXIMUM | CF_LAST | CF_HWPREDICT | CF_SEASONAL
  | CF_DEVPREDICT | CF_DEVSEASONAL | CF_FAILURES | CF_MHWPREDICT

text \<open>The order of the enumerators is the order of their numbers.\<close>

primrec cf_code :: "cf_en \<Rightarrow> nat" where
  "cf_code CF_AVERAGE = 0"
| "cf_code CF_MINIMUM = 1"
| "cf_code CF_MAXIMUM = 2"
| "cf_code CF_LAST = 3"
| "cf_code CF_HWPREDICT = 4"
| "cf_code CF_SEASONAL = 5"
| "cf_code CF_DEVPREDICT = 6"
| "cf_code CF_DEVSEASONAL = 7"
| "cf_code CF_FAILURES = 8"
| "cf_code CF_MHWPREDICT = 9"

lemma cf_code_inj: "cf_code a = cf_code b \<Longrightarrow> a = b"
  by (cases a; cases b) simp_all

instantiation cf_en :: linorder
begin

definition less_eq_cf_en :: "cf_en \<Rightarrow> cf_en \<Rightarrow> bool" where
  "less_eq_cf_en a b = (cf_code a \<le> cf_code b)"

definition less_cf_en :: "cf_en \<Rightarrow> cf_en \<Rightarrow> bool" where
  "less_cf_en a b = (cf_code a < cf_code b)"

instance
  by standard (auto simp: less_eq_cf_en_def less_cf_en_def intro: cf_code_inj)

end

section \<open>Errors\<close>

text \<open>The \<open>rrd_set_error\<close> calls of the modelled functions, one constructor per message.
  \<open>Undefined\<close> stands for a step the C standard leaves undefined (an access outside an array).\<close>

datatype rrd_error =
    Unknown_dst string
  | Unknown_cf string
  | Unknown_ds_name string
  | Beyond_end_of_file
  | Seek_error
  | Read_error
  | Not_enough_arguments
  | Template_too_long
  | Timestamp_not_found
  | Extra_data
  | Wrong_reading_count
  | Bad_time string
  | Relative_time
  | Time_not_after_last_update
  | Not_simple_integer string
  | Bad_number string
  | No_valid_dependency
  | No_matching_rra
  | Rpn_underflow
  | Rpn_final_stack
  | Rpn_out_of_memory
  | Rpn_vdef
  | Rpn_percentile
  | Rpn_malformed_trend
  | Rpn_negative_shift
  | Rpn_too_many_nodes
  | Rpn_not_short
  | Rpn_empty
  | Rpn_not_understood
  | Rpn_garbage
  | Rpn_unsupported
  | Rpn_parse_failed
  | Template_mismatch
  | Undefined

section \<open>The database structures\<close>

record stat_head_t =
  version :: string
  ds_cnt :: ulong
  rra_cnt :: ulong
  pdp_step :: ulong

text \<open>The compact RPN node of a \<open>COMPUTE\<close> source: operator number and a 16 bit value.\<close>

record rpn_cdefds_t =
  rpnc_op :: int
  rpnc_val :: int

record ds_def_t =
  ds_nam :: string
  dst :: string
  ds_mrhb_cnt :: ulong
  ds_min_val :: dbl
  ds_max_val :: dbl
  ds_cdef :: "rpn_cdefds_t list"

record rra_def_t =
  cf_nam :: string
  row_cnt :: ulong
  pdp_cnt :: ulong
  rra_cdp_xff_val :: dbl
  rra_par1 :: dbl
  rra_par2 :: dbl
  rra_dependent_rra_idx :: ulong
  rra_par4 :: ulong
  rra_failure_threshold :: ulong
  rra_period :: dbl

abbreviation "rra_hw_alpha \<equiv> rra_par1"
abbreviation "rra_seasonal_gamma \<equiv> rra_par1"
abbreviation "rra_delta_pos \<equiv> rra_par1"
abbreviation "rra_hw_beta \<equiv> rra_par2"
abbreviation "rra_seasonal_smoothing_window \<equiv> rra_par2"
abbreviation "rra_delta_neg \<equiv> rra_par2"
abbreviation "rra_seasonal_smooth_idx \<equiv> rra_par4"
abbreviation "rra_window_len \<equiv> rra_par4"

record live_head_t =
  last_up :: time_t
  last_up_usec :: clong

record pdp_prep_t =
  last_ds :: string
  pdp_unkn_sec_cnt :: ulong
  pdp_val :: dbl

record cdp_prep_t =
  cdp_val :: dbl
  cdp_unkn_pdp_cnt :: ulong
  cdp_hw_intercept :: dbl
  cdp_hw_last_intercept :: dbl
  cdp_hw_slope :: dbl
  cdp_hw_last_slope :: dbl
  cdp_null_count :: ulong
  cdp_last_null_count :: ulong
  cdp_primary_val :: dbl
  cdp_secondary_val :: dbl
  violations :: "int list"

abbreviation "cdp_hw_seasonal \<equiv> cdp_hw_intercept"
abbreviation "cdp_hw_last_seasonal \<equiv> cdp_hw_last_intercept"
abbreviation "cdp_seasonal_deviation \<equiv> cdp_hw_intercept"
abbreviation "cdp_last_seasonal_deviation \<equiv> cdp_hw_last_intercept"
abbreviation "cdp_init_seasonal \<equiv> cdp_null_count"

text \<open>\<open>CDP_scratch_idx\<close>: which of the two values of a bulk update is worked on.\<close>

datatype scratch_idx = CDP_primary_val | CDP_secondary_val

primrec scratch_get :: "scratch_idx \<Rightarrow> cdp_prep_t \<Rightarrow> dbl" where
  "scratch_get CDP_primary_val c = cdp_primary_val c"
| "scratch_get CDP_secondary_val c = cdp_secondary_val c"

primrec scratch_set :: "scratch_idx \<Rightarrow> dbl \<Rightarrow> cdp_prep_t \<Rightarrow> cdp_prep_t" where
  "scratch_set CDP_primary_val v c = c\<lparr>cdp_primary_val := v\<rparr>"
| "scratch_set CDP_secondary_val v c = c\<lparr>cdp_secondary_val := v\<rparr>"

record rrd_t =
  stat_head :: stat_head_t
  ds_def :: "ds_def_t list"
  rra_def :: "rra_def_t list"
  live_head :: live_head_t
  legacy_last_up :: time_t
  pdp_prep :: "pdp_prep_t list"
  cdp_prep :: "cdp_prep_t list"
  rra_ptr :: "ulong list"

section \<open>Conversions\<close>

definition dst_conv :: "string \<Rightarrow> dst_en option" where
  "dst_conv s =
     (if s = ''COUNTER'' then Some DST_COUNTER
      else if s = ''ABSOLUTE'' then Some DST_ABSOLUTE
      else if s = ''GAUGE'' then Some DST_GAUGE
      else if s = ''DERIVE'' then Some DST_DERIVE
      else if s = ''COMPUTE'' then Some DST_CDEF
      else if s = ''DCOUNTER'' then Some DST_DCOUNTER
      else if s = ''DDERIVE'' then Some DST_DDERIVE
      else None)"

definition rrd_cf_conv :: "string \<Rightarrow> cf_en option" where
  "rrd_cf_conv s =
     (if s = ''AVERAGE'' then Some CF_AVERAGE
      else if s = ''MIN'' then Some CF_MINIMUM
      else if s = ''MAX'' then Some CF_MAXIMUM
      else if s = ''LAST'' then Some CF_LAST
      else if s = ''HWPREDICT'' then Some CF_HWPREDICT
      else if s = ''MHWPREDICT'' then Some CF_MHWPREDICT
      else if s = ''DEVPREDICT'' then Some CF_DEVPREDICT
      else if s = ''SEASONAL'' then Some CF_SEASONAL
      else if s = ''DEVSEASONAL'' then Some CF_DEVSEASONAL
      else if s = ''FAILURES'' then Some CF_FAILURES
      else None)"

primrec cf_to_string :: "cf_en \<Rightarrow> string" where
  "cf_to_string CF_AVERAGE = ''AVERAGE''"
| "cf_to_string CF_MINIMUM = ''MIN''"
| "cf_to_string CF_MAXIMUM = ''MAX''"
| "cf_to_string CF_LAST = ''LAST''"
| "cf_to_string CF_HWPREDICT = ''HWPREDICT''"
| "cf_to_string CF_SEASONAL = ''SEASONAL''"
| "cf_to_string CF_DEVPREDICT = ''DEVPREDICT''"
| "cf_to_string CF_DEVSEASONAL = ''DEVSEASONAL''"
| "cf_to_string CF_FAILURES = ''FAILURES''"
| "cf_to_string CF_MHWPREDICT = ''MHWPREDICT''"

text \<open>The index of the first data source with the name, the loop of \<open>ds_match\<close>.\<close>

fun ds_match_loop :: "int \<Rightarrow> ds_def_t list \<Rightarrow> string \<Rightarrow> int" where
  "ds_match_loop i [] nam = - 1"
| "ds_match_loop i (d # ds) nam = (if nam = ds_nam d then i else ds_match_loop (i + 1) ds nam)"

definition ds_match :: "rrd_t \<Rightarrow> string \<Rightarrow> int" where
  "ds_match rrd nam = ds_match_loop 0 (take (nat (ds_cnt (stat_head rrd))) (ds_def rrd)) nam"

text \<open>\<open>atoi\<close> of the version field, which holds a four digit number.\<close>

definition version_num :: "rrd_t \<Rightarrow> int" where
  "version_num rrd = atoi (version (stat_head rrd))"

definition rrd_get_header_size :: "rrd_t \<Rightarrow> int" where
  "rrd_get_header_size rrd =
     (let h = stat_head rrd in
      128 + 120 * ds_cnt h + 120 * rra_cnt h + (if version_num rrd < 3 then 8 else 16)
      + 112 * ds_cnt h + 80 * ds_cnt h * rra_cnt h + 8 * rra_cnt h)"

section \<open>Layout invariant\<close>

abbreviation "nds rrd \<equiv> length (ds_def rrd)"
abbreviation "nrra rrd \<equiv> length (rra_def rrd)"

definition rra_ok :: "rrd_t \<Rightarrow> nat \<Rightarrow> bool" where
  "rra_ok rrd i \<longleftrightarrow>
     0 < row_cnt (rra_def rrd ! i) \<and> 0 < pdp_cnt (rra_def rrd ! i) \<and>
     0 \<le> rra_ptr rrd ! i \<and> rra_ptr rrd ! i < row_cnt (rra_def rrd ! i) \<and>
     row_cnt (rra_def rrd ! i) < 2 ^ 62 \<and> pdp_cnt (rra_def rrd ! i) < 2 ^ 31"

definition rrd_wf :: "rrd_t \<Rightarrow> bool" where
  "rrd_wf rrd \<longleftrightarrow>
     ds_cnt (stat_head rrd) = int (nds rrd) \<and> rra_cnt (stat_head rrd) = int (nrra rrd) \<and>
     length (pdp_prep rrd) = nds rrd \<and> length (rra_ptr rrd) = nrra rrd \<and>
     length (cdp_prep rrd) = nrra rrd * nds rrd \<and>
     0 < pdp_step (stat_head rrd) \<and> pdp_step (stat_head rrd) < 2 ^ 31 \<and>
     (\<forall>i < nrra rrd. rra_ok rrd i)"

text \<open>What no operation of an update changes.\<close>

definition same_layout :: "rrd_t \<Rightarrow> rrd_t \<Rightarrow> bool" where
  "same_layout a b \<longleftrightarrow> stat_head a = stat_head b \<and> ds_def a = ds_def b \<and> rra_def a = rra_def b"

lemma same_layout_refl [simp]: "same_layout a a"
  by (simp add: same_layout_def)

lemma same_layout_trans: "same_layout a b \<Longrightarrow> same_layout b c \<Longrightarrow> same_layout a c"
  by (simp add: same_layout_def)

lemma rrd_wfD:
  assumes "rrd_wf rrd"
  shows "ds_cnt (stat_head rrd) = int (nds rrd)" "rra_cnt (stat_head rrd) = int (nrra rrd)"
    "length (pdp_prep rrd) = nds rrd" "length (rra_ptr rrd) = nrra rrd"
    "length (cdp_prep rrd) = nrra rrd * nds rrd"
    "0 < pdp_step (stat_head rrd)" "pdp_step (stat_head rrd) < 2 ^ 31"
  using assms by (simp_all add: rrd_wf_def)

lemma rrd_wf_rra: "rrd_wf rrd \<Longrightarrow> i < nrra rrd \<Longrightarrow> rra_ok rrd i"
  by (simp add: rrd_wf_def)

lemma cdp_idx_less:
  assumes "rrd_wf rrd" and "r < nrra rrd" and "d < nds rrd"
  shows "r * nds rrd + d < length (cdp_prep rrd)"
  using row_index_less [OF assms(2,3)] rrd_wfD(5) [OF assms(1)] by simp

lemma cf_conv_to_string [simp]: "rrd_cf_conv (cf_to_string cf) = Some cf"
  by (cases cf) (simp_all add: rrd_cf_conv_def)

lemma cf_to_string_conv: "rrd_cf_conv s = Some cf \<Longrightarrow> cf_to_string cf = s"
  by (auto simp: rrd_cf_conv_def split: if_splits)

lemma ds_match_loop_found:
  "ds_match_loop k ds nam = i \<Longrightarrow> 0 \<le> k \<Longrightarrow> i \<noteq> - 1 \<Longrightarrow>
     k \<le> i \<and> i < k + int (length ds) \<and> ds_nam (ds ! nat (i - k)) = nam"
proof (induction k ds nam rule: ds_match_loop.induct)
  case (2 k d ds nam)
  show ?case
  proof (cases "nam = ds_nam d")
    case False
    with 2 have "k + 1 \<le> i" "i < k + 1 + int (length ds)" "ds_nam (ds ! nat (i - (k + 1))) = nam"
      by simp_all
    moreover have "nat (i - k) - 1 = nat (i - (k + 1))" by simp
    ultimately show ?thesis by (auto simp: nth_Cons')
  qed (use 2 in auto)
qed simp

text \<open>the names of the consolidation functions and the enumerators determine each other: what
  \<open>rrd_cf_conv\<close> accepts is exactly what \<open>cf_to_string\<close> prints.\<close>

theorem cf_names_round_trip: "rrd_cf_conv s = Some cf \<longleftrightarrow> s = cf_to_string cf"
  using cf_to_string_conv [of s cf] by auto

lemma ds_match_loop_index:
  assumes "0 \<le> k"
  shows "ds_match_loop k ds nam = k + int i \<longleftrightarrow>
    i < length ds \<and> ds_nam (ds ! i) = nam \<and> (\<forall>j < i. ds_nam (ds ! j) \<noteq> nam)"
  using assms
proof (induction ds arbitrary: k i)
  case (Cons d ds)
  have first: "(\<forall>j < Suc i'. ds_nam ((d # ds) ! j) \<noteq> nam) \<longleftrightarrow>
      ds_nam d \<noteq> nam \<and> (\<forall>j < i'. ds_nam (ds ! j) \<noteq> nam)" for i'
    by (auto simp: less_Suc_eq_0_disj)
  show ?case
  proof (cases i)
    case 0
    have "ds_match_loop (k + 1) ds nam \<noteq> k"
      using ds_match_loop_found [of "k + 1" ds nam k] Cons.prems by auto
    with 0 show ?thesis by auto
  next
    case (Suc i')
    have "ds_match_loop (k + 1) ds nam = k + 1 + int i' \<longleftrightarrow>
        i' < length ds \<and> ds_nam (ds ! i') = nam \<and> (\<forall>j < i'. ds_nam (ds ! j) \<noteq> nam)"
      using Cons.IH [of "k + 1" i'] Cons.prems by simp
    with Suc first show ?thesis by (auto simp: add.assoc)
  qed
qed (use assms in auto)

text \<open>\<open>ds_match\<close> returns the index of the first data source with the name, and -1 exactly if
  there is none.\<close>

theorem ds_match_first:
  assumes "rrd_wf rrd"
  shows "(ds_match rrd nam = int i \<longleftrightarrow>
      i < nds rrd \<and> ds_nam (ds_def rrd ! i) = nam \<and> (\<forall>j < i. ds_nam (ds_def rrd ! j) \<noteq> nam)) \<and>
    (ds_match rrd nam = - 1 \<longleftrightarrow> (\<forall>d \<in> set (ds_def rrd). ds_nam d \<noteq> nam))"
proof (intro conjI)
  have m: "ds_match rrd nam = ds_match_loop 0 (ds_def rrd) nam"
    by (simp add: ds_match_def rrd_wfD(1) [OF assms])
  show "ds_match rrd nam = int i \<longleftrightarrow>
      i < nds rrd \<and> ds_nam (ds_def rrd ! i) = nam \<and> (\<forall>j < i. ds_nam (ds_def rrd ! j) \<noteq> nam)"
    using ds_match_loop_index [of 0 "ds_def rrd" nam i] by (simp add: m)
  have "ds_match_loop k ds nam = - 1 \<longleftrightarrow> (\<forall>d \<in> set ds. ds_nam d \<noteq> nam)" if "0 \<le> k" for k ds
    using that by (induction ds arbitrary: k) auto
  then show "ds_match rrd nam = - 1 \<longleftrightarrow> (\<forall>d \<in> set (ds_def rrd). ds_nam d \<noteq> nam)" by (simp add: m)
qed

end
