(* ===== verification/Rrd_Strtod.thy ===== *)
theory Rrd_Strtod
  imports Rrd_Double
begin

text \<open>
  \<open>rrd_strtod.c\<close>: the locale-independent string to double conversion. A returned string is
  the rest the end pointer points at; where the C code leaves the end pointer alone, the rest
  is the whole input, which is what its only caller initialised it to.
\<close>

section \<open>Definitions\<close>

fun scan_sign :: "string \<Rightarrow> bool \<times> string" where
  "scan_sign [] = (False, [])"
| "scan_sign (c # cs) =
     (if c = CHR ''-'' then (True, cs) else if c = CHR ''+'' then (False, cs) else (False, c # cs))"

text \<open>One of the two digit loops: the number so far, the rest, the digits read.\<close>

fun scan_digits :: "dbl \<Rightarrow> string \<Rightarrow> dbl \<times> string \<times> int" where
  "scan_digits number [] = (number, [], 0)"
| "scan_digits number (c # cs) =
     (if is_digit c
      then (case scan_digits (number * dint 10 + dint (digit_val c)) cs of
              (v, rest, n) \<Rightarrow> (v, rest, n + 1))
      else (number, c # cs, 0))"

text \<open>The digits of the exponent, accumulated in an \<open>int\<close>.\<close>

fun scan_exp :: "cint \<Rightarrow> string \<Rightarrow> cint \<times> string" where
  "scan_exp n [] = (n, [])"
| "scan_exp n (c # cs) =
     (if is_digit c then scan_exp (s32 (n * 10 + digit_val c)) cs else (n, c # cs))"

text \<open>The final loop: multiply or divide by \<open>10 ^ n\<close> by repeated squaring.\<close>

fun scale10 :: "bool \<Rightarrow> nat \<Rightarrow> dbl \<Rightarrow> dbl \<Rightarrow> dbl" where
  "scale10 neg n p10 number =
     (if n = 0 then number
      else scale10 neg (n div 2) (p10 * p10)
             (if odd n then (if neg then number / p10 else number * p10) else number))"

declare scale10.simps [simp del]

definition rrd_strtod :: "string \<Rightarrow> dbl \<times> string" where
  "rrd_strtod str =
     (let (negative, p1) = scan_sign (dropWhile is_space str);
          (num1, p2, nd1) = scan_digits 0 p1;
          (num2, p3, nd2, ndec) =
            (case p2 of
               [] \<Rightarrow> (num1, p2, nd1, 0)
             | c # cs \<Rightarrow> (if c = CHR ''.''
                 then (case scan_digits num1 cs of (v, r, k) \<Rightarrow> (v, r, nd1 + k, k))
                 else (num1, p2, nd1, 0)))
      in if nd2 = 0 then (0, str)
         else
           let number = (if negative then - num2 else num2);
               (expo, p4) =
                 (case p3 of
                    [] \<Rightarrow> (- ndec, p3)
                  | c # cs \<Rightarrow> (if c = CHR ''e'' \<or> c = CHR ''E''
                      then (case scan_sign cs of (eneg, q) \<Rightarrow>
                            (case scan_exp 0 q of (n, q') \<Rightarrow>
                              (s32 (if eneg then - ndec - n else - ndec + n), q')))
                      else (- ndec, p3)))
           in if expo < - 1021 \<or> expo > 1024 then (PInf, str)
              else (scale10 (expo < 0) (nat \<bar>expo\<bar>) (dint 10) number, p4))"

text \<open>\<open>nan\<close> and \<open>inf\<close>, any case; only a prefix is compared.\<close>

definition parse_special :: "string \<Rightarrow> dbl option" where
  "parse_special str =
     (if has_prefix_nocase ''-nan'' str then Some NaN
      else if has_prefix_nocase ''nan'' str then Some (- NaN)
      else if has_prefix_nocase ''inf'' str then Some PInf
      else if has_prefix_nocase ''-inf'' str then Some (- PInf)
      else None)"

text \<open>The return code (2: success, 1: trailing garbage, 0: no number), the value, the rest.\<close>

definition rrd_strtodbl :: "string \<Rightarrow> nat \<times> dbl \<times> string" where
  "rrd_strtodbl str =
     (case rrd_strtod str of (d, rest) \<Rightarrow>
       if rest = str
       then (case parse_special str of Some v \<Rightarrow> (2, v, rest) | None \<Rightarrow> (0, d, rest))
       else if rest \<noteq> [] then (1, d, rest)
       else (2, d, rest))"

section \<open>Decimal integers\<close>

lemma scan_digits_all:
  assumes "list_all is_digit cs" and "0 \<le> a" and "dec_val a cs \<le> 2 ^ 53"
    and "rest = [] \<or> \<not> is_digit (hd rest)"
  shows "scan_digits (Fin (of_int a)) (cs @ rest)
    = (Fin (of_int (dec_val a cs)), rest, int (length cs))"
  using assms
proof (induction cs arbitrary: a)
  case Nil
  then show ?case by (cases rest) auto
next
  case (Cons c cs)
  have d: "0 \<le> digit_val c" "digit_val c \<le> 9" using Cons.prems(1) digit_val_range by simp_all
  have le: "a * 10 + digit_val c \<le> 2 ^ 53"
    using dec_val_mono [of cs "a * 10 + digit_val c"] Cons.prems d by simp
  have "Fin (of_int a) * dint 10 = Fin (of_int (a * 10))"
    using Fin_mult_int [of a 10] Cons.prems(2) le d by (simp add: dint_exact)
  moreover have "Fin (of_int (a * 10)) + dint (digit_val c) = Fin (of_int (a * 10 + digit_val c))"
    using Fin_add_int [of "a * 10" "digit_val c"] Cons.prems(2) le d by (simp add: dint_exact)
  ultimately have step: "Fin (of_int a) * dint 10 + dint (digit_val c)
    = Fin (of_int (a * 10 + digit_val c))" by simp
  show ?case
    using Cons.IH [of "a * 10 + digit_val c"] Cons.prems d by (simp add: step del: of_int_add)
qed

lemma is_digit_not_special:
  "is_digit c \<Longrightarrow> c \<noteq> CHR ''-'' \<and> c \<noteq> CHR ''+'' \<and> c \<noteq> CHR ''.'' \<and> \<not> is_space c"
  by (auto simp: is_digit_def is_space_def)

lemma rrd_strtod_digits:
  assumes "list_all is_digit cs" and "cs \<noteq> []" and "dec_val 0 cs \<le> 2 ^ 53"
    and sp: "list_all is_space ws"
  shows "rrd_strtod (ws @ cs) = (Fin (of_int (dec_val 0 cs)), [])"
proof -
  obtain c cs' where c: "cs = c # cs'" using assms(2) by (cases cs) auto
  have dig: "is_digit c" using assms(1) c by simp
  have ws: "dropWhile is_space (ws @ cs) = cs"
    using sp c is_digit_not_special [OF dig] by (induction ws) auto
  have sg: "scan_sign cs = (False, cs)" using c is_digit_not_special [OF dig] by simp
  have sc: "scan_digits 0 cs = (Fin (of_int (dec_val 0 cs)), [], int (length cs))"
    using scan_digits_all [of cs 0 "[]"] assms by (simp add: zero_dbl_def)
  show ?thesis using assms(2) by (simp add: rrd_strtod_def ws sg sc scale10.simps)
qed

lemma rrd_strtodbl_digits:
  assumes "list_all is_digit cs" and "cs \<noteq> []" and "dec_val 0 cs \<le> 2 ^ 53"
    and "list_all is_space ws"
  shows "rrd_strtodbl (ws @ cs) = (2, Fin (of_int (dec_val 0 cs)), [])"
  using rrd_strtod_digits [OF assms] assms(2) by (simp add: rrd_strtodbl_def)

end
