(* ===== verification/Rrd_Rpn_Ops.thy ===== *)
theory Rrd_Rpn_Ops
  imports Rrd_Format Rrd_Strtod
begin

text \<open>
  The RPN operators of \<open>rrd_rpncalc.h\<close>, the compact form a \<open>COMPUTE\<close> data source stores and
  the conversions between the two (\<open>rpn_compact\<close>, \<open>rpn_expand\<close>). A program is the list of
  its nodes before \<open>OP_END\<close>.
\<close>

section \<open>Operators and nodes\<close>

datatype (plugins only: code size) op_en =
    OP_NUMBER | OP_VARIABLE | OP_INF | OP_PREV | OP_NEGINF
  | OP_UNKN | OP_NOW | OP_TIME | OP_ADD | OP_MOD | OP_SUB | OP_MUL
  | OP_DIV | OP_SIN | OP_DUP | OP_EXC | OP_POP
  | OP_COS | OP_LOG | OP_EXP | OP_LT | OP_LE | OP_GT | OP_GE | OP_EQ | OP_IF
  | OP_MIN | OP_MAX | OP_LIMIT | OP_FLOOR | OP_CEIL
  | OP_UN | OP_END | OP_LTIME | OP_NE | OP_ISINF | OP_PREV_OTHER | OP_COUNT
  | OP_ATAN | OP_SQRT | OP_SORT | OP_REV | OP_TREND | OP_TRENDNAN
  | OP_ATAN2 | OP_RAD2DEG | OP_DEG2RAD
  | OP_PREDICT | OP_PREDICTSIGMA
  | OP_AVG | OP_ABS | OP_ADDNAN
  | OP_MINNAN | OP_MAXNAN
  | OP_MEDIAN | OP_PREDICTPERC
  | OP_DEPTH | OP_COPY | OP_ROLL | OP_INDEX | OP_STEPWIDTH
  | OP_NEWDAY | OP_NEWWEEK | OP_NEWMONTH | OP_NEWYEAR
  | OP_SMIN | OP_SMAX | OP_STDEV | OP_PERCENT | OP_POW | OP_ROUND

text \<open>The enumerators in the order of their numbers.\<close>

definition op_list :: "op_en list" where
  "op_list =
    [OP_NUMBER, OP_VARIABLE, OP_INF, OP_PREV, OP_NEGINF,
     OP_UNKN, OP_NOW, OP_TIME, OP_ADD, OP_MOD, OP_SUB, OP_MUL,
     OP_DIV, OP_SIN, OP_DUP, OP_EXC, OP_POP,
     OP_COS, OP_LOG, OP_EXP, OP_LT, OP_LE, OP_GT, OP_GE, OP_EQ, OP_IF,
     OP_MIN, OP_MAX, OP_LIMIT, OP_FLOOR, OP_CEIL,
     OP_UN, OP_END, OP_LTIME, OP_NE, OP_ISINF, OP_PREV_OTHER, OP_COUNT,
     OP_ATAN, OP_SQRT, OP_SORT, OP_REV, OP_TREND, OP_TRENDNAN,
     OP_ATAN2, OP_RAD2DEG, OP_DEG2RAD,
     OP_PREDICT, OP_PREDICTSIGMA,
     OP_AVG, OP_ABS, OP_ADDNAN,
     OP_MINNAN, OP_MAXNAN,
     OP_MEDIAN, OP_PREDICTPERC,
     OP_DEPTH, OP_COPY, OP_ROLL, OP_INDEX, OP_STEPWIDTH,
     OP_NEWDAY, OP_NEWWEEK, OP_NEWMONTH, OP_NEWYEAR,
     OP_SMIN, OP_SMAX, OP_STDEV, OP_PERCENT, OP_POW, OP_ROUND]"

fun index_of :: "'a \<Rightarrow> 'a list \<Rightarrow> nat" where
  "index_of x [] = 0"
| "index_of x (y # ys) = (if x = y then 0 else Suc (index_of x ys))"

lemma nth_index_of: "x \<in> set xs \<Longrightarrow> index_of x xs < length xs \<and> xs ! index_of x xs = x"
  by (induction xs) auto

lemma op_list_complete: "op \<in> set op_list"
  by (cases op) (simp_all add: op_list_def)

definition op_code :: "op_en \<Rightarrow> int" where
  "op_code op = int (index_of op op_list)"

definition op_of_code :: "int \<Rightarrow> op_en option" where
  "op_of_code k = (if 0 \<le> k \<and> k < int (length op_list) then Some (op_list ! nat k) else None)"

lemma op_of_code_code [simp]: "op_of_code (op_code op) = Some op"
  using nth_index_of [OF op_list_complete, of op] by (simp add: op_of_code_def op_code_def)

text \<open>
  A node. The data pointer of a variable is an array and the position in it; \<open>rp_ds_cnt\<close> and
  \<open>rp_step\<close> are the columns and the step of that array; \<open>rp_extra\<close> is the number of cells of the
  scratch buffer \<open>extra\<close>, if one was allocated.
\<close>

record rpnp_t =
  rp_op :: op_en
  rp_val :: dbl
  rp_ptr :: int
  rp_data :: "dbl list"
  rp_off :: int
  rp_ds_cnt :: int
  rp_step :: int
  rp_extra :: "int option"

definition rpnp_zero :: "op_en \<Rightarrow> rpnp_t" where
  "rpnp_zero op = \<lparr>rp_op = op, rp_val = 0, rp_ptr = 0, rp_data = [], rp_off = 0,
     rp_ds_cnt = 0, rp_step = 0, rp_extra = None\<rparr>"

definition DS_CDEF_MAX_RPN_NODES :: nat where
  "DS_CDEF_MAX_RPN_NODES = 20"

section \<open>Compact form\<close>

text \<open>One node: a constant has to be an integer that fits a \<open>short\<close>.\<close>

definition compact_node :: "rpnp_t \<Rightarrow> rrd_error + rpn_cdefds_t" where
  "compact_node n =
     (if rp_op n = OP_NUMBER
      then (let temp = dfloor (rp_val n)
            in if temp < dint (- 32768) \<or> temp > dint 32767 \<or> \<not> deq temp (rp_val n)
               then Inl Rpn_not_short
               else Inr \<lparr>rpnc_op = op_code (rp_op n), rpnc_val = d2s32 temp\<rparr>)
      else if rp_op n = OP_VARIABLE \<or> rp_op n = OP_PREV_OTHER
      then Inr \<lparr>rpnc_op = op_code (rp_op n), rpnc_val = s16 (rp_ptr n)\<rparr>
      else Inr \<lparr>rpnc_op = op_code (rp_op n), rpnc_val = 0\<rparr>)"

fun compact_nodes :: "rpnp_t list \<Rightarrow> rrd_error + rpn_cdefds_t list" where
  "compact_nodes [] = Inr []"
| "compact_nodes (n # ns) =
     (case compact_node n of
        Inl e \<Rightarrow> Inl e
      | Inr c \<Rightarrow> (case compact_nodes ns of Inl e \<Rightarrow> Inl e | Inr cs \<Rightarrow> Inr (c # cs)))"

definition rpn_compact :: "rpnp_t list \<Rightarrow> rrd_error + rpn_cdefds_t list" where
  "rpn_compact rpnp =
     (if Suc (length rpnp) > DS_CDEF_MAX_RPN_NODES then Inl Rpn_too_many_nodes
      else compact_nodes rpnp)"

definition expand_node :: "rpn_cdefds_t \<Rightarrow> rpnp_t option" where
  "expand_node c =
     (case op_of_code (rpnc_op c) of
        None \<Rightarrow> None
      | Some op \<Rightarrow> Some (if op = OP_NUMBER then (rpnp_zero op)\<lparr>rp_val := dint (rpnc_val c)\<rparr>
          else if op = OP_VARIABLE \<or> op = OP_PREV_OTHER
          then (rpnp_zero op)\<lparr>rp_ptr := rpnc_val c\<rparr>
          else rpnp_zero op))"

text \<open>\<open>None\<close>: a stored operator number is no enumerator, which \<open>rpn_compact\<close> never writes.\<close>

fun rpn_expand :: "rpn_cdefds_t list \<Rightarrow> rpnp_t list option" where
  "rpn_expand [] = Some []"
| "rpn_expand (c # cs) =
     (case expand_node c of
        None \<Rightarrow> None
      | Some n \<Rightarrow> (case rpn_expand cs of None \<Rightarrow> None | Some ns \<Rightarrow> Some (n # ns)))"

section \<open>Round trip\<close>

text \<open>The part of a node that a \<open>COMPUTE\<close> source can store.\<close>

definition node_core :: "rpnp_t \<Rightarrow> rpnp_t" where
  "node_core n =
     (if rp_op n = OP_NUMBER then (rpnp_zero (rp_op n))\<lparr>rp_val := rp_val n\<rparr>
      else if rp_op n = OP_VARIABLE \<or> rp_op n = OP_PREV_OTHER
      then (rpnp_zero (rp_op n))\<lparr>rp_ptr := rp_ptr n\<rparr>
      else rpnp_zero (rp_op n))"

lemma node_core_zero [simp]:
  "node_core (rpnp_zero op) = rpnp_zero op"
  "node_core ((rpnp_zero OP_NUMBER)\<lparr>rp_val := v\<rparr>) = (rpnp_zero OP_NUMBER)\<lparr>rp_val := v\<rparr>"
  "op = OP_VARIABLE \<or> op = OP_PREV_OTHER \<Longrightarrow>
     node_core ((rpnp_zero op)\<lparr>rp_ptr := i\<rparr>) = (rpnp_zero op)\<lparr>rp_ptr := i\<rparr>"
  by (auto simp: node_core_def rpnp_zero_def)

text \<open>An index that fits a \<open>short\<close>; a constant that is not the negative zero.\<close>

definition storable :: "rpnp_t \<Rightarrow> bool" where
  "storable n \<longleftrightarrow> - 32768 \<le> rp_ptr n \<and> rp_ptr n \<le> 32767 \<and>
     (rp_op n = OP_NUMBER \<longrightarrow> rp_val n \<noteq> NZero)"

lemma short_const:
  assumes "\<not> dfloor v < dint (- 32768)" "\<not> dfloor v > dint 32767" "deq (dfloor v) v"
    and "v \<noteq> NZero"
  shows "v = dint (d2s32 (dfloor v))"
proof -
  from assms obtain r where r: "v = Fin r" "r = of_int \<lfloor>r\<rfloor>"
    by (cases v) (auto simp: dfloor_def dbl_order_defs dint_exact deq_def)
  with assms have b: "- 32768 \<le> \<lfloor>r\<rfloor>" "\<lfloor>r\<rfloor> \<le> 32767"
    by (simp_all add: dfloor_def dint_exact not_less)
  have "rtrunc (of_int \<lfloor>r\<rfloor>) = \<lfloor>r\<rfloor>" by (simp add: rtrunc_def)
  with b have "d2s32 (dfloor v) = \<lfloor>r\<rfloor>"
    by (simp add: r(1) d2s32_def dfloor_def Let_def)
  with b r show ?thesis by (simp add: dint_exact)
qed

lemma expand_compact_node:
  assumes "compact_node n = Inr c" and "storable n"
  shows "expand_node c = Some (node_core n)"
proof (cases "rp_op n = OP_NUMBER")
  case True
  then have c: "\<not> dfloor (rp_val n) < dint (- 32768)" "\<not> dfloor (rp_val n) > dint 32767"
    "deq (dfloor (rp_val n)) (rp_val n)"
    and ceq: "c = \<lparr>rpnc_op = op_code OP_NUMBER, rpnc_val = d2s32 (dfloor (rp_val n))\<rparr>"
    using assms(1) by (auto simp: compact_node_def Let_def split: if_splits)
  from short_const [OF c] assms(2) True show ?thesis
    by (simp add: ceq expand_node_def node_core_def storable_def)
next
  case False
  with assms show ?thesis
    by (auto simp: compact_node_def expand_node_def node_core_def storable_def s16_id split: if_splits)
qed

lemma expand_compact_nodes:
  assumes "compact_nodes ns = Inr cs" and "list_all storable ns"
  shows "rpn_expand cs = Some (map node_core ns)"
  using assms
proof (induction ns arbitrary: cs)
  case (Cons n ns)
  then obtain c cs' where "compact_node n = Inr c" "compact_nodes ns = Inr cs'" "cs = c # cs'"
    by (auto split: sum.splits)
  with Cons show ?case by (simp add: expand_compact_node)
qed simp

lemma compact_nodes_length: "compact_nodes ns = Inr cs \<Longrightarrow> length cs = length ns"
  by (induction ns arbitrary: cs) (auto split: sum.splits)

text \<open>A negative zero is stored as zero.\<close>

definition plain_zero :: "rpnp_t \<Rightarrow> rpnp_t" where
  "plain_zero n = (if rp_op n = OP_NUMBER \<and> rp_val n = NZero then n\<lparr>rp_val := 0\<rparr> else n)"

lemma compact_plain_zero: "compact_node (plain_zero n) = compact_node n"
proof -
  have "dfloor NZero < dint (- 32768) \<longleftrightarrow> dfloor 0 < dint (- 32768)" "dfloor NZero > dint 32767 \<longleftrightarrow> dfloor 0 > dint 32767"
    "deq (dfloor NZero) NZero \<longleftrightarrow> deq (dfloor 0) 0" "d2s32 (dfloor NZero) = d2s32 (dfloor 0)" by code_simp+
  then show ?thesis by (simp add: plain_zero_def compact_node_def Let_def)
qed

lemma core_plain_zero:
  assumes "node_core n = n"
  shows "node_core (plain_zero n) = plain_zero n"
proof (cases "rp_op n = OP_NUMBER \<and> rp_val n = NZero")
  case True
  then have "node_core n = (rpnp_zero OP_NUMBER)\<lparr>rp_val := NZero\<rparr>" by (simp add: node_core_def)
  with assms have "n = (rpnp_zero OP_NUMBER)\<lparr>rp_val := NZero\<rparr>" by metis
  then have "plain_zero n = (rpnp_zero OP_NUMBER)\<lparr>rp_val := 0\<rparr>" by (simp add: plain_zero_def rpnp_zero_def)
  then show ?thesis by simp
next
  case False
  then have "plain_zero n = n" by (auto simp: plain_zero_def)
  with assms show ?thesis by simp
qed

lemma expand_stored:
  assumes "compact_nodes ns = Inr cs" "list_all (\<lambda>n. - 32768 \<le> rp_ptr n \<and> rp_ptr n \<le> 32767) ns"
  shows "rpn_expand cs = Some (map (node_core \<circ> plain_zero) ns)"
proof -
  have "compact_nodes (map plain_zero ns) = compact_nodes ns"
    by (induction ns) (simp_all add: compact_plain_zero split: sum.split)
  moreover have "list_all storable (map plain_zero ns)"
    using assms(2) by (auto simp: list_all_iff storable_def plain_zero_def zero_dbl_def)
  ultimately show ?thesis using expand_compact_nodes [of "map plain_zero ns" cs] assms(1) by simp
qed

text \<open>A program that fits the compact form of a \<open>COMPUTE\<close> source is read back from it as it was,
  and has fewer than twenty nodes.\<close>

theorem compact_expand_round_trip:
  assumes "rpn_compact rpnp = Inr rpnc" and "list_all storable rpnp"
  shows "rpn_expand rpnc = Some (map node_core rpnp) \<and> length rpnc < DS_CDEF_MAX_RPN_NODES"
  using assms expand_compact_nodes [of rpnp rpnc] compact_nodes_length [of rpnp rpnc]
  by (auto simp: rpn_compact_def split: if_splits)

definition sample_program :: "rpnp_t list" where
  "sample_program = [(rpnp_zero OP_VARIABLE)\<lparr>rp_ptr := 1\<rparr>, (rpnp_zero OP_NUMBER)\<lparr>rp_val := dint 8\<rparr>,
     rpnp_zero OP_MUL]"

theorem compact_expand_round_trip_witness:
  "case rpn_compact sample_program of Inl e \<Rightarrow> False
   | Inr c \<Rightarrow> rpn_expand c = Some sample_program"
proof -
  obtain c where c: "rpn_compact sample_program = Inr c"
    by (cases "rpn_compact sample_program")
      (auto simp: rpn_compact_def sample_program_def compact_node_def DS_CDEF_MAX_RPN_NODES_def
        rpnp_zero_def dint_exact dfloor_def deq_def dbl_order_defs)
  have "list_all storable sample_program" "map node_core sample_program = sample_program"
    by (simp_all add: sample_program_def storable_def node_core_def rpnp_zero_def dint_exact)
  with compact_expand_round_trip [OF c] show ?thesis by (simp add: c)
qed

end
