(* ===== verification/Rrd_Rpn_Calc.thy ===== *)
theory Rrd_Rpn_Calc
  imports Rrd_Rpn_Ops
begin

text \<open>
  The RPN calculator \<open>rpn_calc\<close> of \<open>rrd_rpncalc.c\<close>. The C stack is an array that grows in
  blocks; the model keeps the array (a map from indices to values, indeterminate cells are
  absent), its allocated size and the stack pointer, because operators that pop leave the
  popped values behind and some operators read above the pointer. A read of an indeterminate
  cell and an access outside the array is the error \<open>Undefined\<close>.

  The mathematical library, the clock, the time zone and \<open>qsort\<close> are the fields of
  \<open>rpn_env\<close>. Of the scratch buffer \<open>extra\<close> that \<open>PREDICTPERC\<close> keeps between calls the node
  records the allocated size; its contents are those written by the current call.
\<close>

section \<open>Environment, stack and results\<close>

record rpn_env =
  env_sin :: "dbl \<Rightarrow> dbl"
  env_cos :: "dbl \<Rightarrow> dbl"
  env_log :: "dbl \<Rightarrow> dbl"
  env_exp :: "dbl \<Rightarrow> dbl"
  env_atan :: "dbl \<Rightarrow> dbl"
  env_sqrt :: "dbl \<Rightarrow> dbl"
  env_pow :: "dbl \<Rightarrow> dbl \<Rightarrow> dbl"
  env_atan2 :: "dbl \<Rightarrow> dbl \<Rightarrow> dbl"
  env_qsort :: "(dbl \<Rightarrow> dbl \<Rightarrow> int) \<Rightarrow> dbl list \<Rightarrow> dbl list"
  env_time :: int
  env_localtime :: "int \<Rightarrow> tm"
  env_gmtime :: "int \<Rightarrow> tm"
  env_first_weekday :: int

record rpnstack =
  stk :: "int \<rightharpoonup> dbl"
  stk_size :: int
  stptr :: int

text \<open>\<open>rpnstack_init\<close>, together with the initial stack pointer of \<open>rpn_calc\<close>.\<close>

definition dc_stackblock :: int where
  "dc_stackblock = 1000"

definition rpnstack_init :: rpnstack where
  "rpnstack_init = \<lparr>stk = Map.empty, stk_size = 0, stptr = - 1\<rparr>"

definition ebind :: "'e + 'a \<Rightarrow> ('a \<Rightarrow> 'e + 'b) \<Rightarrow> 'e + 'b" where
  "ebind x f = (case x of Inl e \<Rightarrow> Inl e | Inr v \<Rightarrow> f v)"

lemma ebind_simps [simp]: "ebind (Inl e) f = Inl e" "ebind (Inr v) f = f v"
  by (simp_all add: ebind_def)

definition rd :: "rpnstack \<Rightarrow> int \<Rightarrow> rrd_error + dbl" where
  "rd st i = (if 0 \<le> i \<and> i < stk_size st
              then (case stk st i of Some v \<Rightarrow> Inr v | None \<Rightarrow> Inl Undefined) else Inl Undefined)"

definition wr :: "rpnstack \<Rightarrow> int \<Rightarrow> dbl \<Rightarrow> rrd_error + rpnstack" where
  "wr st i v = (if 0 \<le> i \<and> i < stk_size st then Inr (st\<lparr>stk := (stk st)(i \<mapsto> v)\<rparr>)
                else Inl Undefined)"

text \<open>The macro \<open>stackunderflow\<close>.\<close>

definition need :: "rpnstack \<Rightarrow> int \<Rightarrow> rrd_error + unit" where
  "need st minsize = (if stptr st < minsize then Inl Rpn_underflow else Inr ())"

definition set_ptr :: "rpnstack \<Rightarrow> int \<Rightarrow> rpnstack" where
  "set_ptr st p = st\<lparr>stptr := p\<rparr>"

text \<open>\<open>s[++stptr] = v\<close>\<close>

definition push :: "rpnstack \<Rightarrow> dbl \<Rightarrow> rrd_error + rpnstack" where
  "push st v = wr (set_ptr st (stptr st + 1)) (stptr st + 1) v"

text \<open>\<open>s[stptr--]\<close>\<close>

definition pop :: "rpnstack \<Rightarrow> rrd_error + dbl \<times> rpnstack" where
  "pop st = ebind (rd st (stptr st)) (\<lambda>v. Inr (v, set_ptr st (stptr st - 1)))"

text \<open>Replace the top, and combine the two topmost elements.\<close>

definition unop :: "(dbl \<Rightarrow> dbl) \<Rightarrow> rpnstack \<Rightarrow> rrd_error + rpnstack" where
  "unop f st =
     ebind (need st 0) (\<lambda>_.
     ebind (rd st (stptr st)) (\<lambda>a. wr st (stptr st) (f a)))"

definition binop :: "(dbl \<Rightarrow> dbl \<Rightarrow> dbl) \<Rightarrow> rpnstack \<Rightarrow> rrd_error + rpnstack" where
  "binop f st =
     ebind (need st 1) (\<lambda>_.
     ebind (rd st (stptr st - 1)) (\<lambda>a.
     ebind (rd st (stptr st)) (\<lambda>b.
     ebind (wr st (stptr st - 1) (f a b)) (\<lambda>st'. Inr (set_ptr st' (stptr st - 1))))))"

text \<open>The cells \<open>lo, \<dots>, lo + n - 1\<close>.\<close>

fun rd_range :: "rpnstack \<Rightarrow> int \<Rightarrow> nat \<Rightarrow> rrd_error + dbl list" where
  "rd_range st lo 0 = Inr []"
| "rd_range st lo (Suc n) =
     ebind (rd st lo) (\<lambda>v. ebind (rd_range st (lo + 1) n) (\<lambda>vs. Inr (v # vs)))"

fun wr_range :: "rpnstack \<Rightarrow> int \<Rightarrow> dbl list \<Rightarrow> rrd_error + rpnstack" where
  "wr_range st lo [] = Inr st"
| "wr_range st lo (v # vs) = ebind (wr st lo v) (\<lambda>st'. wr_range st' (lo + 1) vs)"

definition dbool :: "bool \<Rightarrow> dbl" where
  "dbool b = (if b then 1 else 0)"

section \<open>Helpers\<close>

text \<open>\<open>rpn_compare_double\<close>, as it is written.\<close>

definition rpn_compare_double :: "dbl \<Rightarrow> dbl \<Rightarrow> int" where
  "rpn_compare_double x y =
     (if isnan x \<and> isnan y then 0
      else if isnan x then - 1
      else if isnan y then 1
      else if isinf x \<noteq> 0 then isinf x
      else if isinf y \<noteq> 0 then isinf y
      else let diff = x - y in if diff < 0 then - 1 else if diff > 0 then 1 else 0)"

text \<open>\<open>qsort\<close> on a part of the stack. A negative count becomes a huge unsigned one.\<close>

definition qsort_range :: "rpn_env \<Rightarrow> rpnstack \<Rightarrow> int \<Rightarrow> int \<Rightarrow> rrd_error + rpnstack" where
  "qsort_range env st lo n =
     (if n < 0 then Inl Undefined
      else ebind (rd_range st lo (nat n)) (\<lambda>vs.
           wr_range st lo (env_qsort env rpn_compare_double vs)))"

definition tzoffset :: "rpn_env \<Rightarrow> time_t \<Rightarrow> int" where
  "tzoffset env now =
     (let g = env_gmtime env now; l = env_localtime env now;
          off = (tm_sec l - tm_sec g) + (tm_min l - tm_min g) * 60 + (tm_hour l - tm_hour g) * 3600
      in if tm_yday l > tm_yday g \<or> tm_year l > tm_year g then off + 24 * 3600
         else if tm_yday l < tm_yday g \<or> tm_year l < tm_year g then off - 24 * 3600
         else off)"

text \<open>Reading a variable's array through its pointer.\<close>

definition data_at :: "rpnp_t \<Rightarrow> int \<Rightarrow> rrd_error + dbl" where
  "data_at n k =
     (let i = rp_off n + k
      in if 0 \<le> i \<and> i < int (length (rp_data n)) then Inr (nthi (rp_data n) i) else Inl Undefined)"

section \<open>Operators that push\<close>

text \<open>The call of \<open>rpn_calc\<close>: \<open>data_idx\<close>, \<open>output\<close>, \<open>output_idx\<close>, \<open>step_width\<close>.\<close>

record rpn_call =
  data_idx :: clong
  rpn_output :: "dbl list"
  output_idx :: cint
  step_width :: cint

text \<open>\<open>OP_VARIABLE\<close> and \<open>OP_PREV_OTHER\<close>: the value and the pointer moved on to the next row.\<close>

definition calc_variable :: "rpn_call \<Rightarrow> rpnp_t \<Rightarrow> rpnstack \<Rightarrow> rrd_error + rpnp_t \<times> rpnstack" where
  "calc_variable cl n st =
     (if rp_ds_cnt n = 0 then Inl Rpn_vdef
      else
        ebind (if rp_op n = OP_VARIABLE then data_at n 0
               else if output_idx cl \<le> 0 then Inr NaN
               else data_at n (- rp_ds_cnt n)) (\<lambda>v.
        ebind (push st v) (\<lambda>st'.
          if rp_step n = 0 then Inl Undefined
          else if cmod (data_idx cl) (rp_step n) = 0
          then Inr (n\<lparr>rp_off := rp_off n + rp_ds_cnt n\<rparr>, st')
          else Inr (n, st'))))"

definition calc_push :: "rpn_env \<Rightarrow> rpn_call \<Rightarrow> rpnp_t \<Rightarrow> rrd_error + dbl" where
  "calc_push env cl n =
     (let t1 = env_localtime env (data_idx cl);
          t2 = env_localtime env (data_idx cl - step_width cl)
      in case rp_op n of
        OP_NUMBER \<Rightarrow> Inr (rp_val n)
      | OP_STEPWIDTH \<Rightarrow> Inr (dint (step_width cl))
      | OP_COUNT \<Rightarrow> Inr (dint (output_idx cl + 1))
      | OP_PREV \<Rightarrow>
         (if output_idx cl \<le> 0 then Inr NaN
          else if output_idx cl - 1 < int (length (rpn_output cl))
          then Inr (nthi (rpn_output cl) (output_idx cl - 1)) else Inl Undefined)
      | OP_UNKN \<Rightarrow> Inr NaN
      | OP_INF \<Rightarrow> Inr PInf
      | OP_NEGINF \<Rightarrow> Inr (- PInf)
      | OP_NOW \<Rightarrow> Inr (dint (env_time env))
      | OP_TIME \<Rightarrow> Inr (dint (data_idx cl))
      | OP_LTIME \<Rightarrow> Inr (dint (tzoffset env (data_idx cl)) + dint (data_idx cl))
      | OP_NEWDAY \<Rightarrow> Inr (dbool (tm_mday t1 \<noteq> tm_mday t2))
      | OP_NEWWEEK \<Rightarrow>
         Inr (dbool (tm_wday t1 = env_first_weekday env \<and> tm_wday t1 \<noteq> tm_wday t2))
      | OP_NEWMONTH \<Rightarrow> Inr (dbool (tm_mon t1 \<noteq> tm_mon t2))
      | OP_NEWYEAR \<Rightarrow> Inr (dbool (tm_year t1 \<noteq> tm_year t2))
      | _ \<Rightarrow> Inl Undefined)"

section \<open>Arithmetic and comparisons\<close>

definition calc_binary :: "rpn_env \<Rightarrow> op_en \<Rightarrow> dbl \<Rightarrow> dbl \<Rightarrow> dbl" where
  "calc_binary env op a b =
     (case op of
        OP_ADD \<Rightarrow> a + b
      | OP_ADDNAN \<Rightarrow> (if isnan a then b else if isnan b then a else a + b)
      | OP_SUB \<Rightarrow> a - b
      | OP_MUL \<Rightarrow> a * b
      | OP_DIV \<Rightarrow> a / b
      | OP_MOD \<Rightarrow> dfmod a b
      | OP_POW \<Rightarrow> env_pow env a b
      | OP_ATAN2 \<Rightarrow> env_atan2 env a b
      | _ \<Rightarrow> a)"

definition calc_unary :: "rpn_env \<Rightarrow> op_en \<Rightarrow> dbl \<Rightarrow> dbl" where
  "calc_unary env op a =
     (case op of
        OP_SIN \<Rightarrow> env_sin env a
      | OP_ATAN \<Rightarrow> env_atan env a
      | OP_RAD2DEG \<Rightarrow> dlit (5729577951 / 10 ^ 8) * a
      | OP_DEG2RAD \<Rightarrow> dlit (174532952 / 10 ^ 10) * a
      | OP_COS \<Rightarrow> env_cos env a
      | OP_CEIL \<Rightarrow> dceil a
      | OP_ROUND \<Rightarrow> dround a
      | OP_FLOOR \<Rightarrow> dfloor a
      | OP_LOG \<Rightarrow> env_log env a
      | OP_EXP \<Rightarrow> env_exp env a
      | OP_UN \<Rightarrow> dbool (isnan a)
      | OP_ISINF \<Rightarrow> dbool (isinf a \<noteq> 0)
      | OP_SQRT \<Rightarrow> env_sqrt env a
      | OP_ABS \<Rightarrow> dfabs a
      | _ \<Rightarrow> a)"

definition calc_dup :: "rpnstack \<Rightarrow> rrd_error + rpnstack" where
  "calc_dup st =
     ebind (need st 0) (\<lambda>_.
     ebind (rd st (stptr st)) (\<lambda>a.
     ebind (wr st (stptr st + 1) a) (\<lambda>st'. Inr (set_ptr st' (stptr st + 1)))))"

definition calc_pop :: "rpnstack \<Rightarrow> rrd_error + rpnstack" where
  "calc_pop st = ebind (need st 0) (\<lambda>_. Inr (set_ptr st (stptr st - 1)))"

definition calc_exc :: "rpnstack \<Rightarrow> rrd_error + rpnstack" where
  "calc_exc st =
     ebind (need st 1) (\<lambda>_.
     ebind (rd st (stptr st)) (\<lambda>dummy.
     ebind (rd st (stptr st - 1)) (\<lambda>a.
     ebind (wr st (stptr st) a) (\<lambda>st'. wr st' (stptr st - 1) dummy))))"

text \<open>Two-argument operators that are unknown when an argument is: the first unknown
  argument is the result.\<close>

definition nan_first :: "(dbl \<Rightarrow> dbl \<Rightarrow> dbl) \<Rightarrow> dbl \<Rightarrow> dbl \<Rightarrow> dbl" where
  "nan_first f a b = (if isnan a then a else if isnan b then b else f a b)"

definition calc_compare :: "op_en \<Rightarrow> dbl \<Rightarrow> dbl \<Rightarrow> dbl" where
  "calc_compare op a b =
     (case op of
        OP_LT \<Rightarrow> nan_first (\<lambda>a b. dbool (a < b)) a b
      | OP_LE \<Rightarrow> nan_first (\<lambda>a b. dbool (a \<le> b)) a b
      | OP_GT \<Rightarrow> nan_first (\<lambda>a b. dbool (a > b)) a b
      | OP_GE \<Rightarrow> nan_first (\<lambda>a b. dbool (a \<ge> b)) a b
      | OP_NE \<Rightarrow> nan_first (\<lambda>a b. if deq a b then 0 else 1) a b
      | OP_EQ \<Rightarrow> nan_first (\<lambda>a b. dbool (deq a b)) a b
      | OP_MIN \<Rightarrow> nan_first (\<lambda>a b. if a > b then b else a) a b
      | OP_MAX \<Rightarrow> nan_first (\<lambda>a b. if a < b then b else a) a b
      | OP_MINNAN \<Rightarrow> (if isnan a then b else if isnan b then a else if a > b then b else a)
      | OP_MAXNAN \<Rightarrow> (if isnan a then b else if isnan b then a else if a < b then b else a)
      | _ \<Rightarrow> a)"

definition ternop :: "(dbl \<Rightarrow> dbl \<Rightarrow> dbl \<Rightarrow> dbl) \<Rightarrow> rpnstack \<Rightarrow> rrd_error + rpnstack" where
  "ternop f st =
     ebind (need st 2) (\<lambda>_.
     ebind (rd st (stptr st - 2)) (\<lambda>a.
     ebind (rd st (stptr st - 1)) (\<lambda>b.
     ebind (rd st (stptr st)) (\<lambda>c.
     ebind (wr st (stptr st - 2) (f a b c)) (\<lambda>st'. Inr (set_ptr st' (stptr st - 2)))))))"

definition calc_if :: "dbl \<Rightarrow> dbl \<Rightarrow> dbl \<Rightarrow> dbl" where
  "calc_if a b c = (if isnan a \<or> deq a 0 then c else b)"

definition calc_limit :: "dbl \<Rightarrow> dbl \<Rightarrow> dbl \<Rightarrow> dbl" where
  "calc_limit a lo hi =
     (if isnan a then a
      else if isnan lo then lo
      else if isnan hi then hi
      else if a < lo then NaN
      else if a > hi then NaN
      else a)"


section \<open>Operators on the topmost elements\<close>

definition calc_sort :: "rpn_env \<Rightarrow> rpnstack \<Rightarrow> rrd_error + rpnstack" where
  "calc_sort env st =
     ebind (need st 0) (\<lambda>_.
     ebind (pop st) (\<lambda>(v, st1).
       let spn = d2s32 v in
       ebind (need st1 (spn - 1)) (\<lambda>_. qsort_range env st1 (stptr st1 - spn + 1) spn)))"

text \<open>The swapping loop of \<open>OP_REV\<close>.\<close>

function rev_loop :: "rpnstack \<Rightarrow> int \<Rightarrow> int \<Rightarrow> rrd_error + rpnstack" where
  "rev_loop st p q =
     (if p < q
      then ebind (rd st q) (\<lambda>x.
           ebind (rd st p) (\<lambda>y.
           ebind (wr st q y) (\<lambda>st1.
           ebind (wr st1 p x) (\<lambda>st2. rev_loop st2 (p + 1) (q - 1)))))
      else Inr st)"
  by pat_completeness auto
termination
  by (relation "measure (\<lambda>(st, p, q). nat (q - p))") auto

declare rev_loop.simps [simp del]

definition calc_rev :: "rpnstack \<Rightarrow> rrd_error + rpnstack" where
  "calc_rev st =
     ebind (need st 0) (\<lambda>_.
     ebind (pop st) (\<lambda>(v, st1).
       let spn = d2s32 v in
       ebind (need st1 (spn - 1)) (\<lambda>_. rev_loop st1 (stptr st1 - spn + 1) (stptr st1))))"

text \<open>\<open>OP_AVG\<close>: the loop pops \<open>i\<close> values and skips the unknown ones.\<close>

fun avg_loop :: "nat \<Rightarrow> rpnstack \<Rightarrow> dbl \<Rightarrow> int \<Rightarrow> rrd_error + dbl \<times> int \<times> rpnstack" where
  "avg_loop 0 st acc cnt = Inr (acc, cnt, st)"
| "avg_loop (Suc i) st acc cnt =
     ebind (pop st) (\<lambda>(v, st').
       if isnan v then avg_loop i st' acc cnt else avg_loop i st' (acc + v) (cnt + 1))"

definition calc_avg :: "rpnstack \<Rightarrow> rrd_error + rpnstack" where
  "calc_avg st =
     ebind (need st 0) (\<lambda>_.
     ebind (pop st) (\<lambda>(v, st1).
       let i = d2s32 v in
       ebind (need st1 (i - 1)) (\<lambda>_.
       ebind (avg_loop (nat i) st1 0 0) (\<lambda>(acc, cnt, st2).
         push st2 (if cnt > 0 then acc / dint cnt else NaN)))))"

text \<open>\<open>OP_MEDIAN\<close>: the loop that moves the known values to the front.\<close>

function median_loop :: "rpnstack \<Rightarrow> int \<Rightarrow> int \<Rightarrow> int \<Rightarrow> rrd_error + int \<times> int \<times> rpnstack" where
  "median_loop st good bad final =
     (if good < bad
      then ebind (rd st good) (\<lambda>v.
             if isnan v
             then ebind (rd st bad) (\<lambda>w.
                  ebind (wr st good w) (\<lambda>st'. median_loop st' good (bad - 1) (final - 1)))
             else median_loop st (good + 1) bad final)
      else Inr (good, final, st))"
  by pat_completeness auto
termination
  by (relation "measure (\<lambda>(st, good, bad, final). nat (bad - good))") auto

declare median_loop.simps [simp del]

definition median_of :: "rpn_env \<Rightarrow> rpnstack \<Rightarrow> int \<Rightarrow> int \<Rightarrow> rrd_error + dbl \<times> rpnstack" where
  "median_of env st lo n =
     ebind (qsort_range env st lo n) (\<lambda>st'.
       if n mod 2 = 1
       then ebind (rd st' (lo + n div 2)) (\<lambda>v. Inr (v, st'))
       else ebind (rd st' (lo + n div 2)) (\<lambda>v.
            ebind (rd st' (lo + n div 2 - 1)) (\<lambda>w. Inr (dlit (1 / 2) * (v + w), st'))))"

definition calc_median :: "rpn_env \<Rightarrow> rpnstack \<Rightarrow> rrd_error + rpnstack" where
  "calc_median env st =
     ebind (need st 0) (\<lambda>_.
     ebind (pop st) (\<lambda>(v, st1).
       let elements = d2s32 v; lo = stptr st1 - elements + 1 in
       ebind (need st1 (elements - 1)) (\<lambda>_.
       ebind (median_loop st1 lo (lo + elements - 1) elements) (\<lambda>(good, final, st2).
       ebind (rd st2 good) (\<lambda>g.
         let final' = (if isnan g then final - 1 else final);
             st3 = set_ptr st2 (stptr st2 - elements)
         in if final' = 0 then push st3 NaN
            else ebind (median_of env st3 lo final') (\<lambda>(m, st4). push st4 m))))))"

text \<open>\<open>OP_STDEV\<close>: Welford's recurrence over the popped values. A negative count runs the
  loop off the array.\<close>

fun stdev_loop :: "nat \<Rightarrow> rpnstack \<Rightarrow> int \<Rightarrow> dbl \<Rightarrow> dbl \<Rightarrow> rrd_error + int \<times> dbl \<times> rpnstack" where
  "stdev_loop 0 st n mean mean2 = Inr (n, mean2, st)"
| "stdev_loop (Suc k) st n mean mean2 =
     ebind (pop st) (\<lambda>(datum, st').
       if isnan datum then stdev_loop k st' n mean mean2
       else let n' = n + 1; delta = datum - mean; mean' = mean + delta / dint n'
            in stdev_loop k st' n' mean' (mean2 + delta * (datum - mean')))"

definition calc_stdev :: "rpn_env \<Rightarrow> rpnstack \<Rightarrow> rrd_error + rpnstack" where
  "calc_stdev env st =
     ebind (need st 0) (\<lambda>_.
     ebind (pop st) (\<lambda>(v, st1).
       let elements = d2s32 v in
       ebind (need st1 (elements - 1)) (\<lambda>_.
         if elements < 0 then Inl Undefined
         else ebind (stdev_loop (nat elements) st1 0 0 0) (\<lambda>(n, mean2, st2).
           push st2 (if n < 2 then NaN else env_sqrt env (mean2 / dint (n - 1)))))))"

definition calc_percent :: "rpn_env \<Rightarrow> rpnstack \<Rightarrow> rrd_error + rpnstack" where
  "calc_percent env st =
     ebind (need st 2) (\<lambda>_.
     ebind (pop st) (\<lambda>(v, st1).
     ebind (pop st1) (\<lambda>(percent, st2).
       let elements = d2s32 v in
       if \<not> (percent \<ge> 0 \<and> percent \<le> dint 100) then Inl Rpn_percentile
       else ebind (need st2 (elements - 1)) (\<lambda>_.
            ebind (qsort_range env st2 (stptr st2 - elements + 1) elements) (\<lambda>st3.
              let st4 = set_ptr st3 (stptr st3 - elements);
                  k = d2s32 (dround (percent * dint elements / dint 100))
              in ebind (rd st4 (stptr st4 + k)) (\<lambda>x.
                 ebind (wr st4 (stptr st4 + 1) x) (\<lambda>st5.
                   Inr (set_ptr st5 (stptr st4 + 1)))))))))"

text \<open>\<open>OP_SMAX\<close> and \<open>OP_SMIN\<close>; \<open>better\<close> is the comparison of the element with the extremum.\<close>

fun ximum_loop :: "(dbl \<Rightarrow> dbl \<Rightarrow> bool) \<Rightarrow> nat \<Rightarrow> rpnstack \<Rightarrow> dbl \<Rightarrow> rrd_error + dbl \<times> rpnstack" where
  "ximum_loop better 0 st x = Inr (x, st)"
| "ximum_loop better (Suc k) st x =
     ebind (pop st) (\<lambda>(e, st').
       ximum_loop better k st' (if isnan x \<or> better e x then e else x))"

definition calc_ximum :: "(dbl \<Rightarrow> dbl \<Rightarrow> bool) \<Rightarrow> rpnstack \<Rightarrow> rrd_error + rpnstack" where
  "calc_ximum better st =
     ebind (need st 0) (\<lambda>_.
     ebind (pop st) (\<lambda>(v, st1).
       let elements = d2s32 v in
       ebind (need st1 (elements - 1)) (\<lambda>_.
         if elements < 0 then Inl Undefined
         else ebind (ximum_loop better (nat elements) st1 NaN) (\<lambda>(x, st2). push st2 x))))"

section \<open>Operators on the stack itself\<close>

text \<open>
  \<open>OP_ROLL\<close>. The copy starts at the top element (\<open>memcpy(tmp, s + stptr, \<dots>)\<close>); cells are
  copied with their indeterminate values. \<open>malloc\<close> of a negative count fails.
\<close>

fun roll_loop :: "int \<Rightarrow> (int \<rightharpoonup> dbl) \<Rightarrow> int \<Rightarrow> nat \<Rightarrow> int \<Rightarrow> rpnstack \<Rightarrow> rrd_error + rpnstack" where
  "roll_loop tp tmp base 0 j st = Inr st"
| "roll_loop tp tmp base (Suc i) j st =
     (let j' = (j - 1) mod base; dest = tp - int i
      in if 0 \<le> dest \<and> dest < stk_size st
         then roll_loop tp tmp base i j' (st\<lparr>stk := (stk st)(dest := tmp j')\<rparr>)
         else Inl Undefined)"

definition calc_roll :: "rpnstack \<Rightarrow> rrd_error + rpnstack" where
  "calc_roll st =
     ebind (need st 1) (\<lambda>_.
     ebind (pop st) (\<lambda>(v, st1).
     ebind (pop st1) (\<lambda>(w, st2).
       let step = d2s32 v; base = d2s32 w; tp = stptr st2 in
       ebind (need st2 (base - 1)) (\<lambda>_.
         if base < 0 then Inl Rpn_out_of_memory
         else if base = 0 then Inr st2
         else if tp < 0 \<or> tp + base > stk_size st2 then Inl Undefined
         else roll_loop tp (\<lambda>k. stk st2 (tp + k)) base (nat base) (s32 (base + step)) st2))))"

definition calc_index :: "rpnstack \<Rightarrow> rrd_error + rpnstack" where
  "calc_index st =
     ebind (need st 0) (\<lambda>_.
     ebind (rd st (stptr st)) (\<lambda>v.
       let i = d2s32 v in
       ebind (need st i) (\<lambda>_.
       ebind (rd st (stptr st - i)) (\<lambda>x. wr st (stptr st) x))))"

text \<open>\<open>OP_COPY\<close>: it does not check that there is a count to pop, and grows the stack until
  \<open>stptr + base\<close> does not exceed its size.\<close>

function grow_copy :: "int \<Rightarrow> rpnstack \<Rightarrow> rpnstack" where
  "grow_copy base st =
     (if stptr st + base > stk_size st
      then grow_copy base (st\<lparr>stk_size := stk_size st + dc_stackblock\<rparr>) else st)"
  by pat_completeness auto
termination
  by (relation "measure (\<lambda>(base, st). nat (stptr st + base - stk_size st))")
    (auto simp: dc_stackblock_def)

declare grow_copy.simps [simp del]

fun copy_loop :: "nat \<Rightarrow> int \<Rightarrow> rpnstack \<Rightarrow> rrd_error + rpnstack" where
  "copy_loop 0 base st = Inr st"
| "copy_loop (Suc i) base st =
     (let p = stptr st + 1 in
      ebind (rd st (p - base)) (\<lambda>v.
      ebind (wr st p v) (\<lambda>st'. copy_loop i base (set_ptr st' p))))"

definition calc_copy :: "rpnstack \<Rightarrow> rrd_error + rpnstack" where
  "calc_copy st =
     ebind (pop st) (\<lambda>(v, st1).
       let base = d2s32 v in
       ebind (need st1 (base - 1)) (\<lambda>_.
         if base < 0 then Inl Undefined else copy_loop (nat base) base (grow_copy base st1)))"

definition calc_depth :: "rpnstack \<Rightarrow> rrd_error + rpnstack" where
  "calc_depth st = push st (dint (stptr st + 1))"

section \<open>Predictions and trends\<close>

text \<open>
  \<open>OP_PREDICT\<close>, \<open>OP_PREDICTSIGMA\<close>, \<open>OP_PREDICTPERC\<close>. The node before the operator gives the
  data; the sums and the collected values are an accumulator \<open>(sum, sum2, values)\<close>, of which
  \<open>cnt\<close> is the length of the values. A value stored beyond the buffer is \<open>Undefined\<close>.
\<close>

type_synonym predict_acc = "dbl \<times> dbl \<times> dbl list"

fun predict_inner ::
  "rpnp_t \<Rightarrow> int option \<Rightarrow> cint \<Rightarrow> nat \<Rightarrow> int \<Rightarrow> predict_acc \<Rightarrow> rrd_error + predict_acc" where
  "predict_inner src extra out_idx 0 off acc = Inr acc"
| "predict_inner src extra out_idx (Suc k) off (s1, s2, vs) =
     (if 0 \<le> off \<and> off < out_idx
      then ebind (data_at src (- rp_ds_cnt src * off)) (\<lambda>v.
             if isnan v then predict_inner src extra out_idx k (off + 1) (s1, s2, vs)
             else if (case extra of None \<Rightarrow> False | Some m \<Rightarrow> int (length vs) \<ge> m)
             then Inl Undefined
             else predict_inner src extra out_idx k (off + 1) (s1 + v, s2 + v * v, vs @ [v]))
      else predict_inner src extra out_idx k (off + 1) (s1, s2, vs))"

definition ceil_steps :: "int \<Rightarrow> int \<Rightarrow> cint" where
  "ceil_steps secs step = d2s32 (dceil (fdiv (dint secs) (dint step)))"

fun predict_shifts ::
  "rpnp_t \<Rightarrow> int option \<Rightarrow> cint \<Rightarrow> cint \<Rightarrow> cint \<Rightarrow> rpnstack \<Rightarrow> nat \<Rightarrow> int \<Rightarrow> predict_acc
   \<Rightarrow> rrd_error + predict_acc" where
  "predict_shifts src extra out_idx shifts locstep st 0 loop acc = Inr acc"
| "predict_shifts src extra out_idx shifts locstep st (Suc k) loop acc =
     ebind (if shifts < 0
            then ebind (rd st (stptr st)) (\<lambda>v. Inr (d2s32 (dint loop * v)))
            else ebind (rd st (stptr st + loop)) (\<lambda>v. Inr (d2s32 v))) (\<lambda>shiftstep.
       if shiftstep < 0 then Inl Rpn_negative_shift
       else ebind (predict_inner src extra out_idx (nat (locstep + 1))
                     (ceil_steps shiftstep (rp_step src)) acc) (\<lambda>acc'.
            predict_shifts src extra out_idx shifts locstep st k (loop + 1) acc'))"

definition predict_sigma :: "rpn_env \<Rightarrow> predict_acc \<Rightarrow> dbl" where
  "predict_sigma env acc =
     (let (s1, s2, vs) = acc; cnt = int (length vs)
      in if cnt > 1
         then (let v = dint cnt * s2 - s1 * s1; c = to_float (dint cnt)
               in if v < 0 then NaN else env_sqrt env (v / (c * (c - 1))))
         else NaN)"

definition predict_perc :: "rpn_env \<Rightarrow> dbl \<Rightarrow> dbl list \<Rightarrow> rrd_error + dbl" where
  "predict_perc env percentile vs =
     (let ex = env_qsort env rpn_compare_double vs;
          idxf = percentile * (to_float (dint (int (length vs))) - 1);
          elem = (\<lambda>i. if 0 \<le> i \<and> i < int (length ex) then Inr (nthi ex i) else Inl Undefined)
      in if percentile < 0 then elem (d2s32 (dround (dfabs idxf)))
         else let idx = d2s32 (dfloor idxf); deltax = idxf - dint idx
              in ebind (elem idx) (\<lambda>v.
                   if deq deltax 0 then Inr v
                   else ebind (elem (idx + 1)) (\<lambda>w. Inr (v + (w - v) * deltax))))"

definition predict_value ::
  "rpn_env \<Rightarrow> rpnp_t \<Rightarrow> int option \<Rightarrow> dbl \<Rightarrow> predict_acc \<Rightarrow> rrd_error + dbl" where
  "predict_value env n extra percentile acc =
     (let (s1, s2, vs) = acc
      in if rp_op n = OP_PREDICT
         then Inr (if vs = [] then NaN else s1 / dint (int (length vs)))
         else if rp_op n = OP_PREDICTSIGMA then Inr (predict_sigma env acc)
         else if vs \<noteq> [] \<and> extra \<noteq> None then predict_perc env percentile vs
         else Inr NaN)"

text \<open>\<open>malloc\<close> of a negative count fails; the count is computed in \<open>int\<close>.\<close>

definition predict_extra :: "rpnp_t \<Rightarrow> cint \<Rightarrow> cint \<Rightarrow> int option" where
  "predict_extra n doshifts locstep =
     (if rp_op n = OP_PREDICTPERC \<and> rp_extra n = None
      then (let size = s32 ((doshifts + 1) * (locstep + 2)) in if size < 0 then None else Some size)
      else rp_extra n)"

definition predict_args ::
  "rpnp_t \<Rightarrow> rpnstack \<Rightarrow> rrd_error + dbl \<times> cint \<times> cint \<times> rpnstack" where
  "predict_args n st =
     ebind (if rp_op n = OP_PREDICTPERC
            then ebind (need st 1) (\<lambda>_.
                 ebind (rd st (stptr st - 1)) (\<lambda>p.
                   if dfabs p > dint 100 then Inl Rpn_percentile
                   else Inr (p / dint 100, set_ptr st (stptr st - 1))))
            else Inr (NaN, st)) (\<lambda>(percentile, st1).
     ebind (need st1 2) (\<lambda>_.
     ebind (rd st1 (stptr st1 - 1)) (\<lambda>l.
     ebind (rd st1 (stptr st1 - 2)) (\<lambda>m.
       let shifts = d2s32 m; st2 = set_ptr st1 (stptr st1 - 2) in
       ebind (need st2 shifts) (\<lambda>_.
         Inr (percentile, d2s32 l, shifts,
              set_ptr st2 (if shifts < 0 then stptr st2 - 1 else stptr st2 - shifts)))))))"

definition calc_predict ::
  "rpn_env \<Rightarrow> rpn_call \<Rightarrow> rpnp_t list \<Rightarrow> rpnp_t \<Rightarrow> rpnstack \<Rightarrow> rrd_error + rpnp_t \<times> rpnstack" where
  "calc_predict env cl before n st =
     ebind (predict_args n st) (\<lambda>(percentile, locstepsize, shifts, st1).
       case before of
         [] \<Rightarrow> Inl Undefined
       | src # _ \<Rightarrow>
           let locstep = ceil_steps locstepsize (rp_step src);
               doshifts = (if shifts < 0 then s32 (- shifts) else shifts);
               extra = predict_extra n doshifts locstep
           in ebind (predict_shifts src extra (output_idx cl) shifts locstep st1
                       (nat doshifts) 0 (0, 0, [])) (\<lambda>acc.
              ebind (predict_value env n extra percentile acc) (\<lambda>v.
              ebind (wr st1 (stptr st1) v) (\<lambda>st2. Inr (n\<lparr>rp_extra := extra\<rparr>, st2)))))"

text \<open>
  The loop of \<open>OP_TREND\<close> and \<open>OP_TRENDNAN\<close>. It reads one row of the variable further back in
  every pass and stops when the duration is used up or the array is left.
\<close>

function trend_loop :: "rpnp_t \<Rightarrow> bool \<Rightarrow> int \<Rightarrow> time_t \<Rightarrow> dbl \<Rightarrow> int \<Rightarrow> rrd_error + dbl \<times> int" where
  "trend_loop src ignorenan i dur accum cnt =
     (if rp_ds_cnt src \<le> 0 then Inl Undefined
      else case data_at src (rp_ds_cnt src * i) of
        Inl e \<Rightarrow> Inl e
      | Inr v \<Rightarrow>
          let use = ignorenan \<or> \<not> isnan v;
              accum' = (if use then accum + v else accum);
              cnt' = (if use then cnt + 1 else cnt)
          in if dur - rp_step src > 0
             then trend_loop src ignorenan (i - 1) (dur - rp_step src) accum' cnt'
             else Inr (accum', cnt'))"
  by pat_completeness auto
termination
  by (relation "measure (\<lambda>(src, ignorenan, i, dur, accum, cnt).
        nat (rp_off src + rp_ds_cnt src * i + 1))")
    (auto simp: data_at_def Let_def algebra_simps split: if_splits)

declare trend_loop.simps [simp del]

definition calc_trend ::
  "rpn_call \<Rightarrow> rpnp_t list \<Rightarrow> rpnp_t \<Rightarrow> rpnstack \<Rightarrow> rrd_error + rpnstack" where
  "calc_trend cl before n st =
     ebind (need st 1) (\<lambda>_.
       if length before < 2 \<or> rp_op (before ! 1) \<noteq> OP_VARIABLE then Inl Rpn_malformed_trend
       else ebind (rd st (stptr st)) (\<lambda>d.
         let dur = d2s64 d; src = before ! 1 in
         if output_idx cl + 1 \<ge> ceil_steps dur (rp_step src)
         then ebind (trend_loop src (rp_op n = OP_TREND) (- 1) dur 0 0) (\<lambda>(accum, cnt).
              ebind (wr st (stptr st - 1) (if cnt = 0 then NaN else accum / dint cnt)) (\<lambda>st'.
                Inr (set_ptr st' (stptr st - 1))))
         else ebind (wr st (stptr st - 1) NaN) (\<lambda>st'. Inr (set_ptr st' (stptr st - 1)))))"

section \<open>The calculator\<close>

definition push_ops :: "op_en list" where
  "push_ops = [OP_NUMBER, OP_STEPWIDTH, OP_COUNT, OP_PREV, OP_UNKN, OP_INF, OP_NEGINF, OP_NOW,
     OP_TIME, OP_LTIME, OP_NEWDAY, OP_NEWWEEK, OP_NEWMONTH, OP_NEWYEAR]"

definition binary_ops :: "op_en list" where
  "binary_ops = [OP_ADD, OP_ADDNAN, OP_SUB, OP_MUL, OP_DIV, OP_MOD, OP_POW, OP_ATAN2]"

definition compare_ops :: "op_en list" where
  "compare_ops = [OP_LT, OP_LE, OP_GT, OP_GE, OP_NE, OP_EQ, OP_MIN, OP_MAX, OP_MINNAN, OP_MAXNAN]"

definition unary_ops :: "op_en list" where
  "unary_ops = [OP_SIN, OP_ATAN, OP_RAD2DEG, OP_DEG2RAD, OP_COS, OP_CEIL, OP_ROUND, OP_FLOOR,
     OP_LOG, OP_EXP, OP_UN, OP_ISINF, OP_SQRT, OP_ABS]"

definition calc_stack_op :: "rpn_env \<Rightarrow> op_en \<Rightarrow> rpnstack \<Rightarrow> rrd_error + rpnstack" where
  "calc_stack_op env op st =
     (case op of
        OP_DUP \<Rightarrow> calc_dup st
      | OP_POP \<Rightarrow> calc_pop st
      | OP_EXC \<Rightarrow> calc_exc st
      | OP_IF \<Rightarrow> ternop calc_if st
      | OP_LIMIT \<Rightarrow> ternop calc_limit st
      | OP_SORT \<Rightarrow> calc_sort env st
      | OP_REV \<Rightarrow> calc_rev st
      | OP_AVG \<Rightarrow> calc_avg st
      | OP_MEDIAN \<Rightarrow> calc_median env st
      | OP_STDEV \<Rightarrow> calc_stdev env st
      | OP_PERCENT \<Rightarrow> calc_percent env st
      | OP_SMAX \<Rightarrow> calc_ximum (\<lambda>e x. e > x) st
      | OP_SMIN \<Rightarrow> calc_ximum (\<lambda>e x. e < x) st
      | OP_ROLL \<Rightarrow> calc_roll st
      | OP_INDEX \<Rightarrow> calc_index st
      | OP_COPY \<Rightarrow> calc_copy st
      | OP_DEPTH \<Rightarrow> calc_depth st
      | _ \<Rightarrow> Inr st)"

text \<open>The \<open>switch\<close>; \<open>before\<close> are the nodes already processed, the last one first.\<close>

definition calc_op ::
  "rpn_env \<Rightarrow> rpn_call \<Rightarrow> rpnp_t list \<Rightarrow> rpnp_t \<Rightarrow> rpnstack \<Rightarrow> rrd_error + rpnp_t \<times> rpnstack" where
  "calc_op env cl before n st =
     (let op = rp_op n; keep = (\<lambda>r. ebind r (\<lambda>st'. Inr (n, st')))
      in if op = OP_VARIABLE \<or> op = OP_PREV_OTHER then calc_variable cl n st
         else if op = OP_PREDICT \<or> op = OP_PREDICTSIGMA \<or> op = OP_PREDICTPERC
         then calc_predict env cl before n st
         else if op = OP_TREND \<or> op = OP_TRENDNAN then keep (calc_trend cl before n st)
         else if op \<in> set push_ops then keep (ebind (calc_push env cl n) (\<lambda>v. push st v))
         else if op \<in> set binary_ops then keep (binop (calc_binary env op) st)
         else if op \<in> set compare_ops then keep (binop (calc_compare op) st)
         else if op \<in> set unary_ops then keep (unop (calc_unary env op) st)
         else keep (calc_stack_op env op st))"

text \<open>One block is added when fewer than five cells are left.\<close>

definition grow_stack :: "rpnstack \<Rightarrow> rpnstack" where
  "grow_stack st =
     (if stptr st + 5 > stk_size st then st\<lparr>stk_size := stk_size st + dc_stackblock\<rparr> else st)"

fun calc_loop ::
  "rpn_env \<Rightarrow> rpn_call \<Rightarrow> rpnp_t list \<Rightarrow> rpnp_t list \<Rightarrow> rpnstack
   \<Rightarrow> rrd_error + rpnp_t list \<times> rpnstack" where
  "calc_loop env cl before [] st = Inr (rev before, st)"
| "calc_loop env cl before (n # ns) st =
     ebind (calc_op env cl before n (grow_stack st)) (\<lambda>(n', st').
       calc_loop env cl (n' # before) ns st')"

text \<open>The result: the nodes with their moved pointers, the stack and the output array.\<close>

definition rpn_calc ::
  "rpn_env \<Rightarrow> rpnp_t list \<Rightarrow> rpnstack \<Rightarrow> rpn_call \<Rightarrow> rrd_error + rpnp_t list \<times> rpnstack \<times> dbl list" where
  "rpn_calc env rpnp st0 cl =
     ebind (calc_loop env cl [] rpnp (set_ptr st0 (- 1))) (\<lambda>(rpnp', st).
       if stptr st \<noteq> 0 then Inl Rpn_final_stack
       else ebind (rd st 0) (\<lambda>v.
         if 0 \<le> output_idx cl \<and> output_idx cl < int (length (rpn_output cl))
         then Inr (rpnp', st, updi (rpn_output cl) (output_idx cl) v)
         else Inl Undefined))"

text \<open>the comparison the sorting operators use is no ordering if an infinity is involved:
  compared with any finite number, an infinity in either place gives its own sign, so that a finite
  number is both smaller and greater than a positive infinity.\<close>

theorem compare_infinity_inconsistent:
  assumes "\<not> isnan x" and "isinf x = 0" and "isinf y \<noteq> 0"
  shows "rpn_compare_double x y = isinf y \<and> rpn_compare_double y x = isinf y"
  using assms by (auto simp: rpn_compare_double_def isinf_def split: if_splits)

theorem compare_infinity_inconsistent_witness:
  "rpn_compare_double 1 PInf = 1 \<and> rpn_compare_double PInf 1 = 1"
  using compare_infinity_inconsistent [of 1 PInf] by (simp add: isinf_def one_dbl_def)

text \<open>An environment in which programs are evaluated; its functions are arbitrary, its sort is an
  insertion sort.\<close>

fun insert_by :: "(dbl \<Rightarrow> dbl \<Rightarrow> int) \<Rightarrow> dbl \<Rightarrow> dbl list \<Rightarrow> dbl list" where
  "insert_by cmp x [] = [x]"
| "insert_by cmp x (y # ys) = (if cmp x y \<le> 0 then x # y # ys else y # insert_by cmp x ys)"

lemma length_insert_by [simp]: "length (insert_by cmp x ys) = Suc (length ys)"
  by (induction ys) simp_all

definition sample_tm :: tm where
  "sample_tm = \<lparr>tm_sec = 0, tm_min = 0, tm_hour = 0, tm_mday = 1, tm_mon = 0, tm_year = 70,
     tm_wday = 4, tm_yday = 0, tm_isdst = 0\<rparr>"

definition sample_env :: rpn_env where
  "sample_env = \<lparr>env_sin = id, env_cos = id, env_log = id, env_exp = id, env_atan = id, env_sqrt = id,
    env_pow = (\<lambda>x y. x), env_atan2 = (\<lambda>x y. x), env_qsort = (\<lambda>cmp vs. foldr (insert_by cmp) vs []),
    env_time = 0, env_localtime = (\<lambda>t. sample_tm), env_gmtime = (\<lambda>t. sample_tm), env_first_weekday = 0\<rparr>"

end
