(* ===== verification/Rrd_Rpn_Spec.thy ===== *)
theory Rrd_Rpn_Spec
  imports Rrd_Rpn_Calc
begin

text \<open>
  What the RPN calculator promises: an abstract machine on a list of values, top first, and
  the proof that \<open>rpn_calc\<close>, with its growing array, stack pointer and loops, implements it. The
  abstract machine promises nothing (\<open>Undefined\<close>) on \<open>ROLL\<close>, \<open>MEDIAN\<close> and the \<open>PREDICT\<close> family,
  where a count is negative, and where the code leaves the part of the array it may use.
\<close>

section \<open>Arrays that represent a list\<close>

fun rep :: "(int \<rightharpoonup> dbl) \<Rightarrow> int \<Rightarrow> dbl list \<Rightarrow> bool" where
  "rep m p [] \<longleftrightarrow> p = - 1"
| "rep m p (x # xs) \<longleftrightarrow> m p = Some x \<and> 0 \<le> p \<and> rep m (p - 1) xs"

definition stack_rep :: "rpnstack \<Rightarrow> dbl list \<Rightarrow> bool" where
  "stack_rep st xs \<longleftrightarrow> rep (stk st) (stptr st) xs \<and> stptr st < stk_size st"

lemma rep_len: "rep m p xs \<Longrightarrow> p = int (length xs) - 1"
  by (induction xs arbitrary: p) force+

lemma rep_nth: "rep m p xs \<Longrightarrow> i < length xs \<Longrightarrow> m (p - int i) = Some (xs ! i)"
proof (induction xs arbitrary: p i)
  case (Cons x xs)
  show ?case
  proof (cases i)
    case (Suc j)
    with Cons.IH [of "p - 1" j] Cons.prems show ?thesis
      by (simp add: algebra_simps)
  qed (use Cons.prems in simp)
qed simp

lemma rep_intro:
  "p = int (length xs) - 1 \<Longrightarrow> (\<And>i. i < length xs \<Longrightarrow> m (p - int i) = Some (xs ! i)) \<Longrightarrow> rep m p xs"
proof (induction xs arbitrary: p)
  case (Cons x xs)
  have "m (p - 1 - int i) = Some (xs ! i)" if "i < length xs" for i
    using Cons.prems(2) [of "Suc i"] that by (simp add: algebra_simps)
  with Cons.IH [of "p - 1"] Cons.prems(1) Cons.prems(2) [of 0] show ?case by simp
qed simp

lemma rep_above [simp]: "p < k \<Longrightarrow> rep (m(k := v)) p xs = rep m p xs"
  by (induction xs arbitrary: p) auto

lemma rep_drop: "rep m p xs \<Longrightarrow> k \<le> length xs \<Longrightarrow> rep m (p - int k) (drop k xs)"
proof (induction k arbitrary: p xs)
  case (Suc k)
  then obtain y ys where "xs = y # ys" by (cases xs) auto
  with Suc.IH [of "p - 1" ys] Suc.prems show ?case by (simp add: algebra_simps)
qed simp

lemma stack_ptr: "stack_rep st xs \<Longrightarrow> stptr st = int (length xs) - 1"
  by (auto simp: stack_rep_def rep_len)

lemma stack_rd:
  assumes "stack_rep st xs" and "i < length xs"
  shows "rd st (stptr st - int i) = Inr (xs ! i)"
  using assms rep_nth [of "stk st" "stptr st" xs i] rep_len [of "stk st" "stptr st" xs]
  by (auto simp: stack_rep_def rd_def)

lemma stack_drop:
  "stack_rep st xs \<Longrightarrow> k \<le> length xs \<Longrightarrow> stack_rep (set_ptr st (stptr st - int k)) (drop k xs)"
  by (auto simp: stack_rep_def set_ptr_def rep_drop)

lemma stack_need:
  "stack_rep st xs \<Longrightarrow> need st k = (if int (length xs) \<le> k then Inl Rpn_underflow else Inr ())"
  by (auto simp: need_def dest: stack_ptr)

lemma stack_rd_simps:
  "stack_rep st (x # xs) \<Longrightarrow> rd st (stptr st) = Inr x"
  "stack_rep st (x # y # xs) \<Longrightarrow> rd st (stptr st - 1) = Inr y"
  "stack_rep st (x # y # z # xs) \<Longrightarrow> rd st (stptr st - 2) = Inr z"
  using stack_rd [of st "x # xs" 0] stack_rd [of st "x # y # xs" 1]
    stack_rd [of st "x # y # z # xs" 2] by simp_all

lemma stack_pop:
  "stack_rep st (x # xs) \<Longrightarrow> pop st = Inr (x, set_ptr st (stptr st - 1))"
  "stack_rep st (x # xs) \<Longrightarrow> stack_rep (set_ptr st (stptr st - 1)) xs"
  by (simp add: pop_def stack_rd_simps) (use stack_drop [of st "x # xs" 1] in simp)

lemma stack_wr:
  assumes "stack_rep st xs" and "i < length xs"
  shows "\<exists>st'. wr st (stptr st - int i) v = Inr st' \<and> stack_rep st' (xs[i := v]) \<and>
           stptr st' = stptr st \<and> stk_size st' = stk_size st"
proof -
  have len: "stptr st = int (length xs) - 1" using assms(1) by (rule stack_ptr)
  have "rep ((stk st)(stptr st - int i \<mapsto> v)) (stptr st) (xs[i := v])"
    using assms rep_nth [of "stk st" "stptr st" xs]
    by (intro rep_intro) (auto simp: len nth_list_update stack_rep_def)
  then show ?thesis using assms len by (simp add: wr_def stack_rep_def)
qed

lemma stack_push:
  assumes "stack_rep st xs" and "stptr st + 1 < stk_size st"
  shows "\<exists>st'. push st v = Inr st' \<and> stack_rep st' (v # xs) \<and> stk_size st' = stk_size st"
proof -
  have "stptr st = int (length xs) - 1" using assms(1) by (rule stack_ptr)
  with assms show ?thesis
    by (auto simp: push_def wr_def set_ptr_def stack_rep_def)
qed

lemma set_ptr_simps [simp]:
  "stptr (set_ptr st p) = p" "stk_size (set_ptr st p) = stk_size st" "stk (set_ptr st p) = stk st"
  "set_ptr (set_ptr st p) q = set_ptr st q"
  by (simp_all add: set_ptr_def)

section \<open>The loops over the topmost elements\<close>

definition known :: "dbl list \<Rightarrow> dbl list" where
  "known xs = filter (\<lambda>v. \<not> isnan v) xs"

lemma known_simps [simp]:
  "known [] = []" "known (x # xs) = (if isnan x then known xs else x # known xs)"
  by (simp_all add: known_def)

text \<open>A popping loop goes over the topmost elements, top first.\<close>

lemma pop_step:
  assumes "stack_rep st xs" and "Suc k \<le> length xs"
  obtains y ys where "xs = y # ys" "k \<le> length ys"
    "pop st = Inr (y, set_ptr st (stptr st - 1))" "stack_rep (set_ptr st (stptr st - 1)) ys"
proof -
  from assms(2) obtain y ys where "xs = y # ys" by (cases xs) auto
  with assms that show thesis using stack_pop [of st y ys] by auto
qed

lemma avg_loop_rep:
  assumes "stack_rep st xs" and "k \<le> length xs"
  shows "avg_loop k st acc c =
           Inr (foldl (+) acc (known (take k xs)), c + int (length (known (take k xs))),
                set_ptr st (stptr st - int k))"
  using assms
proof (induction k arbitrary: st xs acc c)
  case 0
  then show ?case by (simp add: set_ptr_def)
next
  case (Suc k)
  from Suc.prems obtain y ys where "xs = y # ys" "k \<le> length ys"
    "pop st = Inr (y, set_ptr st (stptr st - 1))" "stack_rep (set_ptr st (stptr st - 1)) ys"
    by (rule pop_step)
  then show ?case by (simp add: Suc.IH algebra_simps)
qed

text \<open>One step of Welford's recurrence, on \<open>(n, mean, mean2)\<close>.\<close>

definition welford :: "int \<times> dbl \<times> dbl \<Rightarrow> dbl \<Rightarrow> int \<times> dbl \<times> dbl" where
  "welford s datum =
     (let (n, mean, mean2) = s; n' = n + 1; delta = datum - mean; mean' = mean + delta / dint n'
      in (n', mean', mean2 + delta * (datum - mean')))"

lemma stdev_loop_rep:
  assumes "stack_rep st xs" and "k \<le> length xs"
  shows "stdev_loop k st n mean mean2 =
           Inr (let (n', m', m2') = foldl welford (n, mean, mean2) (known (take k xs))
                in (n', m2', set_ptr st (stptr st - int k)))"
  using assms
proof (induction k arbitrary: st xs n mean mean2)
  case 0
  then show ?case by (simp add: set_ptr_def)
next
  case (Suc k)
  from Suc.prems obtain y ys where "xs = y # ys" "k \<le> length ys"
    "pop st = Inr (y, set_ptr st (stptr st - 1))" "stack_rep (set_ptr st (stptr st - 1)) ys"
    by (rule pop_step)
  then show ?case by (simp add: Suc.IH welford_def Let_def algebra_simps)
qed

definition pick :: "(dbl \<Rightarrow> dbl \<Rightarrow> bool) \<Rightarrow> dbl \<Rightarrow> dbl \<Rightarrow> dbl" where
  "pick better x e = (if isnan x \<or> better e x then e else x)"

lemma ximum_loop_rep:
  assumes "stack_rep st xs" and "k \<le> length xs"
  shows "ximum_loop better k st x =
           Inr (foldl (pick better) x (take k xs), set_ptr st (stptr st - int k))"
  using assms
proof (induction k arbitrary: st xs x)
  case 0
  then show ?case by (simp add: set_ptr_def)
next
  case (Suc k)
  from Suc.prems obtain y ys where "xs = y # ys" "k \<le> length ys"
    "pop st = Inr (y, set_ptr st (stptr st - 1))" "stack_rep (set_ptr st (stptr st - 1)) ys"
    by (rule pop_step)
  then show ?case by (simp add: Suc.IH pick_def algebra_simps)
qed

text \<open>The swapping loop mirrors the cells \<open>p, \<dots>, q\<close>.\<close>

lemma rev_loop_mirror:
  assumes "0 \<le> p" and "q < stk_size st" and "\<And>i. p \<le> i \<Longrightarrow> i \<le> q \<Longrightarrow> stk st i \<noteq> None"
  shows "\<exists>st'. rev_loop st p q = Inr st' \<and> stk_size st' = stk_size st \<and> stptr st' = stptr st \<and>
           (\<forall>i. stk st' i = (if p \<le> i \<and> i \<le> q then stk st (p + q - i) else stk st i))"
  using assms
proof (induction st p q rule: rev_loop.induct)
  case (1 st p q)
  show ?case
  proof (cases "p < q")
    case False
    have "stk st (p + q - i) = stk st i" if "p \<le> i" "i \<le> q" for i
      using that False by (intro arg_cong [where f = "stk st"]) linarith
    with False show ?thesis by (subst rev_loop.simps) auto
  next
    case True
    obtain x y where xy: "stk st q = Some x" "stk st p = Some y"
      using "1.prems"(3) [of q] "1.prems"(3) [of p] True by auto
    define st2 where "st2 = st\<lparr>stk := (stk st)(q \<mapsto> y, p \<mapsto> x)\<rparr>"
    have step: "rev_loop st p q = rev_loop st2 (p + 1) (q - 1)"
      using True "1.prems" xy by (subst rev_loop.simps) (simp add: rd_def wr_def st2_def)
    have "\<exists>st'. rev_loop st2 (p + 1) (q - 1) = Inr st' \<and> stk_size st' = stk_size st2 \<and>
        stptr st' = stptr st2 \<and> (\<forall>i. stk st' i =
          (if p + 1 \<le> i \<and> i \<le> q - 1 then stk st2 (p + 1 + (q - 1) - i) else stk st2 i))"
      using True "1.prems" xy
      by (intro "1.IH") (auto simp: rd_def wr_def st2_def)
    then show ?thesis using True xy by (auto simp: step st2_def)
  qed
qed

lemma rd_range_rep:
  assumes "stack_rep st xs" and "k \<le> length xs"
  shows "rd_range st (stptr st - int k + 1) k = Inr (rev (take k xs))"
  using assms(2)
proof (induction k)
  case (Suc k)
  have "rd st (stptr st - int k) = Inr (xs ! k)" using assms(1) Suc.prems by (simp add: stack_rd)
  with Suc show ?case by (simp add: take_Suc_conv_app_nth algebra_simps)
qed simp

lemma wr_range_rep:
  assumes "stack_rep st xs" and "length vs \<le> length xs"
  shows "\<exists>st'. wr_range st (stptr st - int (length vs) + 1) vs = Inr st' \<and>
           stack_rep st' (rev vs @ drop (length vs) xs) \<and> stptr st' = stptr st \<and>
           stk_size st' = stk_size st"
  using assms
proof (induction vs arbitrary: st xs)
  case (Cons v vs)
  then obtain st1 where st1: "wr st (stptr st - int (length vs)) v = Inr st1"
    "stack_rep st1 (xs[length vs := v])" "stptr st1 = stptr st" "stk_size st1 = stk_size st"
    using stack_wr [of st xs "length vs" v] by auto
  have "drop (length vs) (xs[length vs := v]) = v # drop (Suc (length vs)) xs"
    using Cons.prems(2) by (simp add: Cons_nth_drop_Suc [symmetric])
  with Cons.IH [OF st1(2)] Cons.prems(2) st1 show ?case by (auto simp: algebra_simps)
qed simp

section \<open>The abstract machine\<close>

text \<open>
  An error of the abstract machine is an error of the code, except \<open>Undefined\<close>: there the
  abstract machine promises nothing.
\<close>

definition spec_binop :: "(dbl \<Rightarrow> dbl \<Rightarrow> dbl) \<Rightarrow> dbl list \<Rightarrow> rrd_error + dbl list" where
  "spec_binop f xs = (case xs of b # a # r \<Rightarrow> Inr (f a b # r) | _ \<Rightarrow> Inl Rpn_underflow)"

definition spec_unop :: "(dbl \<Rightarrow> dbl) \<Rightarrow> dbl list \<Rightarrow> rrd_error + dbl list" where
  "spec_unop f xs = (case xs of a # r \<Rightarrow> Inr (f a # r) | _ \<Rightarrow> Inl Rpn_underflow)"

definition spec_ternop :: "(dbl \<Rightarrow> dbl \<Rightarrow> dbl \<Rightarrow> dbl) \<Rightarrow> dbl list \<Rightarrow> rrd_error + dbl list" where
  "spec_ternop f xs = (case xs of c # b # a # r \<Rightarrow> Inr (f a b c # r) | _ \<Rightarrow> Inl Rpn_underflow)"

text \<open>Operators that take the number of elements they work on from the stack.\<close>

definition spec_count ::
  "(nat \<Rightarrow> dbl list \<Rightarrow> rrd_error + dbl list) \<Rightarrow> dbl list \<Rightarrow> rrd_error + dbl list" where
  "spec_count f xs =
     (case xs of
        [] \<Rightarrow> Inl Rpn_underflow
      | v # r \<Rightarrow> if int (length r) < d2s32 v then Inl Rpn_underflow
                 else if d2s32 v < 0 then Inl Undefined
                 else f (nat (d2s32 v)) r)"

definition average :: "dbl list \<Rightarrow> dbl" where
  "average vs = (if vs = [] then NaN else foldl (+) 0 vs / dint (int (length vs)))"

definition deviation :: "rpn_env \<Rightarrow> dbl list \<Rightarrow> dbl" where
  "deviation env vs =
     (if length vs < 2 then NaN
      else let (n, mean, mean2) = foldl welford (0, 0, 0) vs in env_sqrt env (mean2 / dint (n - 1)))"

definition spec_percent :: "rpn_env \<Rightarrow> dbl list \<Rightarrow> rrd_error + dbl list" where
  "spec_percent env xs =
     (case xs of
        v # percent # x # r \<Rightarrow>
          if \<not> (percent \<ge> 0 \<and> percent \<le> dint 100) then Inl Rpn_percentile
          else if int (length (x # r)) < d2s32 v then Inl Rpn_underflow
          else let e = nat (d2s32 v); k = d2s32 (dround (percent * dint (d2s32 v) / dint 100))
               in if d2s32 v < 0 \<or> k < 1 \<or> k > d2s32 v then Inl Undefined
                  else Inr (env_qsort env rpn_compare_double (rev (take e (x # r))) ! nat (k - 1)
                            # drop e (x # r))
      | _ \<Rightarrow> Inl Rpn_underflow)"

definition spec_stack_op :: "rpn_env \<Rightarrow> op_en \<Rightarrow> dbl list \<Rightarrow> rrd_error + dbl list" where
  "spec_stack_op env op xs =
     (case op of
        OP_DUP \<Rightarrow> (case xs of a # r \<Rightarrow> Inr (a # a # r) | _ \<Rightarrow> Inl Rpn_underflow)
      | OP_POP \<Rightarrow> (case xs of a # r \<Rightarrow> Inr r | _ \<Rightarrow> Inl Rpn_underflow)
      | OP_EXC \<Rightarrow> (case xs of b # a # r \<Rightarrow> Inr (a # b # r) | _ \<Rightarrow> Inl Rpn_underflow)
      | OP_IF \<Rightarrow> spec_ternop calc_if xs
      | OP_LIMIT \<Rightarrow> spec_ternop calc_limit xs
      | OP_SORT \<Rightarrow> spec_count (\<lambda>k r.
          Inr (rev (env_qsort env rpn_compare_double (rev (take k r))) @ drop k r)) xs
      | OP_REV \<Rightarrow> spec_count (\<lambda>k r. Inr (rev (take k r) @ drop k r)) xs
      | OP_AVG \<Rightarrow> spec_count (\<lambda>k r. Inr (average (known (take k r)) # drop k r)) xs
      | OP_STDEV \<Rightarrow> spec_count (\<lambda>k r. Inr (deviation env (known (take k r)) # drop k r)) xs
      | OP_PERCENT \<Rightarrow> spec_percent env xs
      | OP_SMAX \<Rightarrow> spec_count (\<lambda>k r. Inr (foldl (pick (\<lambda>e x. e > x)) NaN (take k r) # drop k r)) xs
      | OP_SMIN \<Rightarrow> spec_count (\<lambda>k r. Inr (foldl (pick (\<lambda>e x. e < x)) NaN (take k r) # drop k r)) xs
      | OP_INDEX \<Rightarrow>
         (case xs of
            [] \<Rightarrow> Inl Rpn_underflow
          | v # r \<Rightarrow> if int (length xs) \<le> d2s32 v then Inl Rpn_underflow
                     else if d2s32 v < 0 then Inl Undefined else Inr (xs ! nat (d2s32 v) # r))
      | OP_COPY \<Rightarrow>
         (if xs = [] then Inl Undefined
          else spec_count (\<lambda>k r. if int (length r + k) > dc_stackblock then Inl Undefined
                                 else Inr (take k r @ r)) xs)
      | OP_DEPTH \<Rightarrow> Inr (dint (int (length xs)) # xs)
      | _ \<Rightarrow> Inl Undefined)"

definition spec_trend :: "rpn_call \<Rightarrow> rpnp_t list \<Rightarrow> rpnp_t \<Rightarrow> dbl list \<Rightarrow> rrd_error + dbl list" where
  "spec_trend cl before n xs =
     (case xs of
        d # a # r \<Rightarrow>
          if length before < 2 \<or> rp_op (before ! 1) \<noteq> OP_VARIABLE then Inl Rpn_malformed_trend
          else if output_idx cl + 1 \<ge> ceil_steps (d2s64 d) (rp_step (before ! 1))
          then ebind (trend_loop (before ! 1) (rp_op n = OP_TREND) (- 1) (d2s64 d) 0 0) (\<lambda>(s, c).
                 Inr ((if c = 0 then NaN else s / dint c) # r))
          else Inr (NaN # r)
      | _ \<Rightarrow> Inl Rpn_underflow)"

definition spec_variable :: "rpn_call \<Rightarrow> rpnp_t \<Rightarrow> dbl list \<Rightarrow> rrd_error + rpnp_t \<times> dbl list" where
  "spec_variable cl n xs =
     (if rp_ds_cnt n = 0 then Inl Rpn_vdef
      else if rp_step n = 0 then Inl Undefined
      else ebind (if rp_op n = OP_VARIABLE then data_at n 0
                  else if output_idx cl \<le> 0 then Inr NaN
                  else data_at n (- rp_ds_cnt n)) (\<lambda>v.
             Inr (if cmod (data_idx cl) (rp_step n) = 0
                  then n\<lparr>rp_off := rp_off n + rp_ds_cnt n\<rparr> else n, v # xs)))"

definition spec_op ::
  "rpn_env \<Rightarrow> rpn_call \<Rightarrow> rpnp_t list \<Rightarrow> rpnp_t \<Rightarrow> dbl list \<Rightarrow> rrd_error + rpnp_t \<times> dbl list" where
  "spec_op env cl before n xs =
     (let op = rp_op n; keep = (\<lambda>r. ebind r (\<lambda>ys. Inr (n, ys)))
      in if op = OP_VARIABLE \<or> op = OP_PREV_OTHER then spec_variable cl n xs
         else if op = OP_PREDICT \<or> op = OP_PREDICTSIGMA \<or> op = OP_PREDICTPERC then Inl Undefined
         else if op = OP_TREND \<or> op = OP_TRENDNAN then keep (spec_trend cl before n xs)
         else if op \<in> set push_ops then keep (ebind (calc_push env cl n) (\<lambda>v. Inr (v # xs)))
         else if op \<in> set binary_ops then keep (spec_binop (calc_binary env op) xs)
         else if op \<in> set compare_ops then keep (spec_binop (calc_compare op) xs)
         else if op \<in> set unary_ops then keep (spec_unop (calc_unary env op) xs)
         else keep (spec_stack_op env op xs))"

fun spec_loop ::
  "rpn_env \<Rightarrow> rpn_call \<Rightarrow> rpnp_t list \<Rightarrow> rpnp_t list \<Rightarrow> dbl list \<Rightarrow> rrd_error + rpnp_t list \<times> dbl list" where
  "spec_loop env cl before [] xs = Inr (rev before, xs)"
| "spec_loop env cl before (n # ns) xs =
     ebind (spec_op env cl before n xs) (\<lambda>(n', ys). spec_loop env cl (n' # before) ns ys)"

definition spec_calc :: "rpn_env \<Rightarrow> rpnp_t list \<Rightarrow> rpn_call \<Rightarrow> rrd_error + rpnp_t list \<times> dbl" where
  "spec_calc env rpnp cl =
     ebind (spec_loop env cl [] rpnp []) (\<lambda>(rpnp', xs).
       case xs of [v] \<Rightarrow> Inr (rpnp', v) | _ \<Rightarrow> Inl Rpn_final_stack)"

section \<open>Refinement of the operators\<close>

text \<open>What the growth check before every operator guarantees.\<close>

definition ready :: "rpnstack \<Rightarrow> dbl list \<Rightarrow> bool" where
  "ready st xs \<longleftrightarrow> stack_rep st xs \<and> stptr st + 5 \<le> stk_size st \<and> dc_stackblock \<le> stk_size st"

definition implements :: "rrd_error + rpnstack \<Rightarrow> rrd_error + dbl list \<Rightarrow> bool" where
  "implements r a \<longleftrightarrow>
     (case a of
        Inl e \<Rightarrow> e = Undefined \<or> r = Inl e
      | Inr xs \<Rightarrow> \<exists>st. r = Inr st \<and> stack_rep st xs \<and> dc_stackblock \<le> stk_size st)"

lemma implementsI:
  "r = Inr st \<Longrightarrow> stack_rep st xs \<Longrightarrow> dc_stackblock \<le> stk_size st \<Longrightarrow> implements r (Inr xs)"
  by (simp add: implements_def)

lemma implements_error [simp]: "implements (Inl e) (Inl e)" "implements r (Inl Undefined)"
  by (simp_all add: implements_def)

lemma readyD:
  assumes "ready st xs"
  shows "stack_rep st xs" "stptr st + 1 < stk_size st" "dc_stackblock \<le> stk_size st"
  using assms by (auto simp: ready_def)

lemma push_implements: "ready st xs \<Longrightarrow> implements (push st v) (Inr (v # xs))"
  using stack_push [of st xs v] by (auto simp: ready_def intro: implementsI)

text \<open>The result replaces the \<open>k\<close> topmost elements and the one below them.\<close>

lemma replace_implements:
  assumes "ready st xs" and "k < length xs"
  shows "implements (ebind (wr st (stptr st - int k) v) (\<lambda>st'. Inr (set_ptr st' (stptr st - int k))))
           (Inr (v # drop (Suc k) xs))"
proof -
  from assms obtain st' where st': "wr st (stptr st - int k) v = Inr st'"
    "stack_rep st' (xs[k := v])" "stptr st' = stptr st" "stk_size st' = stk_size st"
    using stack_wr [of st xs k v] by (auto simp: ready_def)
  have "stack_rep (set_ptr st' (stptr st' - int k)) (drop k (xs[k := v]))"
    using st'(2) assms(2) by (intro stack_drop) auto
  moreover have "drop k (xs[k := v]) = v # drop (Suc k) xs"
    using assms(2) by (simp add: Cons_nth_drop_Suc [symmetric])
  ultimately show ?thesis using st' assms(1)
    by (auto intro!: implementsI dest: readyD)
qed

lemma unop_implements: "ready st xs \<Longrightarrow> implements (unop f st) (spec_unop f xs)"
  using replace_implements [of st xs 0 "f (hd xs)"]
  by (cases xs)
    (auto simp: unop_def spec_unop_def stack_need stack_rd_simps ready_def implements_def wr_def
      set_ptr_def split: if_splits)

lemma binop_implements: "ready st xs \<Longrightarrow> implements (binop f st) (spec_binop f xs)"
  using replace_implements [of st xs 1]
  by (auto simp: binop_def spec_binop_def stack_need stack_rd_simps dest: readyD(1)
      split: list.splits)

lemma ternop_implements: "ready st xs \<Longrightarrow> implements (ternop f st) (spec_ternop f xs)"
  using replace_implements [of st xs 2]
  by (auto simp: ternop_def spec_ternop_def stack_need stack_rd_simps numeral_2_eq_2
      dest: readyD(1) split: list.splits)

text \<open>The operators that take a count: the body runs on the stack without the count.\<close>

lemma count_implements:
  assumes "ready st xs"
    and "\<And>v r. xs = v # r \<Longrightarrow> 0 \<le> d2s32 v \<Longrightarrow> d2s32 v \<le> int (length r) \<Longrightarrow>
           ready (set_ptr st (stptr st - 1)) r \<Longrightarrow>
           implements (body (d2s32 v) (set_ptr st (stptr st - 1))) (f (nat (d2s32 v)) r)"
  shows "implements (ebind (need st 0) (\<lambda>_. ebind (pop st) (\<lambda>(v, st1).
           let k = d2s32 v in ebind (need st1 (k - 1)) (\<lambda>_. body k st1)))) (spec_count f xs)"
proof (cases xs)
  case Nil
  with stack_need [OF readyD(1) [OF assms(1)]] show ?thesis by (simp add: spec_count_def)
next
  case (Cons v r)
  with assms(1) have st: "stack_rep st (v # r)" by (simp add: readyD)
  have rdy: "ready (set_ptr st (stptr st - 1)) r"
    using assms(1) stack_pop(2) [OF st] by (simp add: ready_def)
  from st show ?thesis
    using assms(2) [OF Cons _ _ rdy]
    by (auto simp: Cons stack_need [OF st] stack_need [OF readyD(1) [OF rdy]] stack_pop
        spec_count_def Let_def)
qed

text \<open>The loops leave the group popped; the result takes its place.\<close>

lemma push_popped:
  assumes "ready st r" and "0 \<le> k" and "k \<le> int (length r)"
  shows "implements (push (set_ptr st (stptr st - k)) v) (Inr (v # drop (nat k) r))"
proof -
  have "stack_rep (set_ptr st (stptr st - int (nat k))) (drop (nat k) r)"
    using assms by (intro stack_drop) (auto simp: ready_def)
  with assms have "ready (set_ptr st (stptr st - k)) (drop (nat k) r)"
    by (simp add: ready_def)
  then show ?thesis by (rule push_implements)
qed

lemmas push_popped_ptr = push_popped [of "set_ptr st p" for st p, simplified]

lemma avg_implements:
  "ready st xs \<Longrightarrow>
   implements (calc_avg st) (spec_count (\<lambda>k r. Inr (average (known (take k r)) # drop k r)) xs)"
  unfolding calc_avg_def
  by (rule count_implements, assumption)
    (auto simp: avg_loop_rep [OF readyD(1)] average_def push_popped_ptr)

lemma welford_count: "fst (foldl welford s vs) = fst s + int (length vs)"
  by (induction vs arbitrary: s) (auto simp: welford_def Let_def split: prod.splits)

lemma stdev_implements:
  "ready st xs \<Longrightarrow>
   implements (calc_stdev env st)
     (spec_count (\<lambda>k r. Inr (deviation env (known (take k r)) # drop k r)) xs)"
  unfolding calc_stdev_def
proof (rule count_implements, assumption)
  fix v r
  assume r: "0 \<le> d2s32 v" "d2s32 v \<le> int (length r)" "ready (set_ptr st (stptr st - 1)) r"
  let ?w = "foldl welford (0, 0, 0) (known (take (nat (d2s32 v)) r))"
  obtain n m m2 where w: "?w = (n, m, m2)" by (metis prod_cases3)
  with welford_count [of "(0, 0, 0)" "known (take (nat (d2s32 v)) r)"]
  have "n = int (length (known (take (nat (d2s32 v)) r)))" by simp
  then show "implements
      (if d2s32 v < 0 then Inl Undefined
       else ebind (stdev_loop (nat (d2s32 v)) (set_ptr st (stptr st - 1)) 0 0 0) (\<lambda>(n, mean2, st2).
              push st2 (if n < 2 then NaN else env_sqrt env (mean2 / dint (n - 1)))))
      (Inr (deviation env (known (take (nat (d2s32 v)) r)) # drop (nat (d2s32 v)) r))"
    using r push_popped_ptr [OF r(3,1,2)] w
    by (simp add: stdev_loop_rep [OF readyD(1) [OF r(3)]] deviation_def)
qed

lemma ximum_implements:
  "ready st xs \<Longrightarrow>
   implements (calc_ximum better st)
     (spec_count (\<lambda>k r. Inr (foldl (pick better) NaN (take k r) # drop k r)) xs)"
  unfolding calc_ximum_def
  by (rule count_implements, assumption)
    (auto simp: ximum_loop_rep [OF readyD(1)] push_popped_ptr)

text \<open>\<open>qsort\<close> returns as many elements as it is given.\<close>

definition qsort_ok :: "rpn_env \<Rightarrow> bool" where
  "qsort_ok env \<longleftrightarrow> (\<forall>vs. length (env_qsort env rpn_compare_double vs) = length vs)"

lemma qsort_range_rep:
  assumes "qsort_ok env" and "stack_rep st r" and "0 \<le> k" and "k \<le> int (length r)"
  shows "\<exists>st'. qsort_range env st (stptr st - k + 1) k = Inr st' \<and>
           stack_rep st' (rev (env_qsort env rpn_compare_double (rev (take (nat k) r))) @ drop (nat k) r) \<and>
           stptr st' = stptr st \<and> stk_size st' = stk_size st"
proof -
  have k: "k = int (nat k)" "nat k \<le> length r" using assms by auto
  let ?vs = "env_qsort env rpn_compare_double (rev (take (nat k) r))"
  have len: "length ?vs = nat k" using assms(1) k by (simp add: qsort_ok_def)
  have "rd_range st (stptr st - k + 1) (nat k) = Inr (rev (take (nat k) r))"
    using rd_range_rep [OF assms(2) k(2)] k(1) by simp
  moreover from wr_range_rep [OF assms(2), of ?vs] len k
  obtain st' where "wr_range st (stptr st - k + 1) ?vs = Inr st'"
    "stack_rep st' (rev ?vs @ drop (nat k) r)" "stptr st' = stptr st" "stk_size st' = stk_size st"
    by auto
  ultimately show ?thesis using assms(3) by (simp add: qsort_range_def)
qed

lemma sort_implements:
  assumes "qsort_ok env" and "ready st xs"
  shows "implements (calc_sort env st) (spec_count (\<lambda>k r.
           Inr (rev (env_qsort env rpn_compare_double (rev (take k r))) @ drop k r)) xs)"
  unfolding calc_sort_def
proof (rule count_implements [OF assms(2)])
  fix v r
  assume r: "0 \<le> d2s32 v" "d2s32 v \<le> int (length r)" "ready (set_ptr st (stptr st - 1)) r"
  with qsort_range_rep [OF assms(1) readyD(1) [OF r(3)] r(1,2)] readyD(3) [OF r(3)]
  show "implements (qsort_range env (set_ptr st (stptr st - 1))
          (stptr (set_ptr st (stptr st - 1)) - d2s32 v + 1) (d2s32 v))
        (Inr (rev (env_qsort env rpn_compare_double (rev (take (nat (d2s32 v)) r))) @
              drop (nat (d2s32 v)) r))"
    by (auto intro: implementsI)
qed

lemma rev_group_rep:
  assumes "stack_rep st r" and "n \<le> length r"
  shows "\<exists>st'. rev_loop st (stptr st - int n + 1) (stptr st) = Inr st' \<and>
           stack_rep st' (rev (take n r) @ drop n r) \<and> stk_size st' = stk_size st"
proof -
  have len: "stptr st = int (length r) - 1" using assms(1) by (rule stack_ptr)
  have cell: "stk st (stptr st - int i) = Some (r ! i)" if "i < length r" for i
    using assms(1) that rep_nth by (auto simp: stack_rep_def)
  have init: "stk st i \<noteq> None" if "stptr st - int n + 1 \<le> i" "i \<le> stptr st" for i
    using cell [of "nat (stptr st - i)"] that assms(2) by auto
  obtain st' where st': "rev_loop st (stptr st - int n + 1) (stptr st) = Inr st'"
    "stk_size st' = stk_size st" "stptr st' = stptr st"
    and swap: "\<And>i. stk st' i = (if stptr st - int n + 1 \<le> i \<and> i \<le> stptr st
        then stk st (stptr st - int n + 1 + stptr st - i) else stk st i)"
    using rev_loop_mirror [of "stptr st - int n + 1" "stptr st" st] init assms len
    by (auto simp: stack_rep_def)
  have "stk st' (stptr st - int i) = Some ((rev (take n r) @ drop n r) ! i)" if i: "i < length r" for i
  proof (cases "i < n")
    case True
    have "stk st' (stptr st - int i) = stk st (stptr st - int (n - 1 - i))"
      using True by (simp add: swap of_nat_diff algebra_simps)
    also have "\<dots> = Some (r ! (n - 1 - i))" using True assms(2) by (intro cell) simp
    finally show ?thesis using True assms(2) by (simp add: nth_append rev_nth)
  next
    case False
    then show ?thesis using i assms(2) cell [OF i] by (simp add: swap nth_append)
  qed
  then have "rep (stk st') (stptr st) (rev (take n r) @ drop n r)"
    using len assms(2) by (intro rep_intro) auto
  with st' assms show ?thesis by (auto simp: stack_rep_def)
qed

lemma rev_implements:
  assumes "ready st xs"
  shows "implements (calc_rev st) (spec_count (\<lambda>k r. Inr (rev (take k r) @ drop k r)) xs)"
  unfolding calc_rev_def
proof (rule count_implements [OF assms])
  fix v r
  assume r: "0 \<le> d2s32 v" "d2s32 v \<le> int (length r)" "ready (set_ptr st (stptr st - 1)) r"
  with rev_group_rep [OF readyD(1) [OF r(3)], of "nat (d2s32 v)"] readyD(3) [OF r(3)]
  show "implements (rev_loop (set_ptr st (stptr st - 1))
          (stptr (set_ptr st (stptr st - 1)) - d2s32 v + 1) (stptr (set_ptr st (stptr st - 1))))
        (Inr (rev (take (nat (d2s32 v)) r) @ drop (nat (d2s32 v)) r))"
    by (auto simp: nat_le_iff intro: implementsI)
qed

lemma copy_loop_push:
  "copy_loop (Suc i) base st =
     ebind (rd st (stptr st + 1 - base)) (\<lambda>v. ebind (push st v) (copy_loop i base))"
  by (cases st) (auto simp: push_def wr_def set_ptr_def ebind_def Let_def split: sum.splits)

lemma copy_loop_rep:
  assumes "stack_rep st (drop i (take base r) @ r)" and "i \<le> base" and "base \<le> length r"
    and "stptr st + int i < stk_size st"
  shows "\<exists>st'. copy_loop i (int base) st = Inr st' \<and> stack_rep st' (take base r @ r) \<and>
           stk_size st' = stk_size st"
  using assms
proof (induction i arbitrary: st)
  case (Suc i)
  let ?xs = "drop (Suc i) (take base r) @ r"
  have "\<not> base - 1 < base - Suc i" "base - 1 - (base - Suc i) = i" using Suc.prems(2) by arith+
  then have "?xs ! (base - 1) = r ! i" using Suc.prems by (simp add: nth_append)
  moreover have "drop i (take base r) = r ! i # drop (Suc i) (take base r)"
    using Suc.prems by (metis Cons_nth_drop_Suc Suc_le_lessD length_take min.absorb2 nth_take)
  moreover have "rd st (stptr st + 1 - int base) = Inr (?xs ! (base - 1))"
    using stack_rd [OF Suc.prems(1), of "base - 1"] Suc.prems by (simp add: algebra_simps of_nat_diff)
  moreover obtain st' where st': "push st (r ! i) = Inr st'" "stack_rep st' (r ! i # ?xs)"
    "stk_size st' = stk_size st"
    using stack_push [OF Suc.prems(1), of "r ! i"] Suc.prems(4) by auto
  ultimately show ?case
    using Suc.IH [of st'] Suc.prems stack_ptr [OF st'(2)] stack_ptr [OF Suc.prems(1)]
    by (auto simp: copy_loop_push simp del: copy_loop.simps(2))
qed simp

lemma copy_implements:
  assumes "ready st xs" and "xs \<noteq> []"
  shows "implements (calc_copy st) (spec_count (\<lambda>k r.
           if int (length r + k) > dc_stackblock then Inl Undefined else Inr (take k r @ r)) xs)"
proof -
  have "calc_copy st = ebind (need st 0) (\<lambda>_. ebind (pop st) (\<lambda>(v, st1).
      let k = d2s32 v in ebind (need st1 (k - 1)) (\<lambda>_.
        if k < 0 then Inl Undefined else copy_loop (nat k) k (grow_copy k st1))))"
    using assms by (simp add: calc_copy_def stack_need [OF readyD(1)])
  also have "implements \<dots> (spec_count (\<lambda>k r.
      if int (length r + k) > dc_stackblock then Inl Undefined else Inr (take k r @ r)) xs)"
  proof (rule count_implements [OF assms(1)])
    fix v r
    let ?k = "d2s32 v" and ?st = "set_ptr st (stptr st - 1)"
    assume r: "0 \<le> ?k" "?k \<le> int (length r)" "ready ?st r"
    have ptr: "stptr ?st = int (length r) - 1" using r(3) by (intro stack_ptr readyD)
    show "implements (if ?k < 0 then Inl Undefined else copy_loop (nat ?k) ?k (grow_copy ?k ?st))
        (if int (length r + nat ?k) > dc_stackblock then Inl Undefined else Inr (take (nat ?k) r @ r))"
    proof (cases "int (length r + nat ?k) > dc_stackblock")
      case False
      with r ptr readyD(3) [OF r(3)] have "grow_copy ?k ?st = ?st"
        by (subst grow_copy.simps) simp
      with False r ptr readyD [OF r(3)] copy_loop_rep [of ?st "nat ?k" "nat ?k" r] show ?thesis
        by (auto simp: nat_le_iff intro: implementsI)
    qed simp
  qed
  finally show ?thesis .
qed

lemma rd_set_ptr: "rd (set_ptr st p) i = rd st i"
  by (simp add: rd_def)

lemma wr_set_ptr:
  "ebind (wr (set_ptr st p) i v) (\<lambda>st'. Inr (set_ptr st' q)) =
   ebind (wr st i v) (\<lambda>st'. Inr (set_ptr st' q))"
  by (cases st) (simp add: wr_def set_ptr_def)

lemma percent_implements:
  assumes "qsort_ok env" and "ready st xs"
  shows "implements (calc_percent env st) (spec_percent env xs)"
proof (cases "\<exists>v percent x r. xs = v # percent # x # r")
  case False
  then have "int (length xs) \<le> 2" by (cases xs; cases "tl xs"; cases "tl (tl xs)") auto
  with False assms show ?thesis
    by (auto simp: calc_percent_def spec_percent_def stack_need [OF readyD(1)] split: list.splits)
next
  case True
  then obtain v percent x r where xs: "xs = v # percent # x # r" by auto
  let ?st1 = "set_ptr st (stptr st - 1)" and ?st2 = "set_ptr st (stptr st - 2)" and ?k = "d2s32 v"
  have pops: "pop st = Inr (v, ?st1)" "pop ?st1 = Inr (percent, ?st2)" and st2: "stack_rep ?st2 (x # r)"
    using assms(2) stack_pop [of st v "percent # x # r"] stack_pop [of ?st1 percent "x # r"]
    by (auto simp: xs ready_def)
  have need: "need st 2 = Inr ()" using assms(2) by (simp add: xs stack_need [OF readyD(1)])
  let ?vs = "env_qsort env rpn_compare_double (rev (take (nat ?k) (x # r)))"
  let ?i = "d2s32 (dround (percent * dint ?k / dint 100))"
  show ?thesis
  proof (cases "0 \<le> ?k \<and> ?k \<le> int (length (x # r)) \<and> 1 \<le> ?i \<and> ?i \<le> ?k")
    case False
    then show ?thesis
      by (auto simp: calc_percent_def spec_percent_def xs need pops stack_need [OF st2] Let_def
          qsort_range_def)
  next
    case ok: True
    then obtain st3 where st3: "qsort_range env ?st2 (stptr ?st2 - ?k + 1) ?k = Inr st3"
      "stack_rep st3 (rev ?vs @ drop (nat ?k) (x # r))" "stptr st3 = stptr ?st2"
      "stk_size st3 = stk_size st"
      using qsort_range_rep [OF assms(1) st2, of ?k] by auto
    have len: "length ?vs = nat ?k" using ok assms(1) by (auto simp: qsort_ok_def)
    have rdy: "ready st3 (rev ?vs @ drop (nat ?k) (x # r))"
      using st3 assms(2) by (simp add: ready_def)
    have "rd st3 (stptr st3 - int (nat (?k - ?i))) = Inr ((rev ?vs @ drop (nat ?k) (x # r)) ! nat (?k - ?i))"
      using st3(2) ok len by (intro stack_rd) auto
    moreover have "(rev ?vs @ drop (nat ?k) (x # r)) ! nat (?k - ?i) = ?vs ! nat (?i - 1)"
      using ok len by (auto simp: nth_append rev_nth nat_diff_distrib intro!: arg_cong [of _ _ "(!) ?vs"])
    ultimately have "rd st3 (stptr st3 - ?k + ?i) = Inr (?vs ! nat (?i - 1))"
      using ok by (simp add: algebra_simps)
    moreover have "implements (ebind (wr st3 (stptr st3 - int (nat ?k - 1)) (?vs ! nat (?i - 1)))
        (\<lambda>st'. Inr (set_ptr st' (stptr st3 - int (nat ?k - 1)))))
        (Inr (?vs ! nat (?i - 1) # drop (Suc (nat ?k - 1)) (rev ?vs @ drop (nat ?k) (x # r))))"
      using ok len by (intro replace_implements [OF rdy]) auto
    moreover have "stptr st3 - int (nat ?k - 1) = stptr st3 - ?k + 1" "Suc (nat ?k - 1) = nat ?k"
      using ok by auto
    ultimately show ?thesis using ok st3 len
      by (auto simp: calc_percent_def spec_percent_def xs need pops stack_need [OF st2] Let_def
          rd_set_ptr wr_set_ptr)
  qed
qed

lemma simple_stack_implements:
  assumes "ready st xs"
  shows "implements (calc_dup st) (case xs of a # r \<Rightarrow> Inr (a # a # r) | _ \<Rightarrow> Inl Rpn_underflow)"
    and "implements (calc_pop st) (case xs of a # r \<Rightarrow> Inr r | _ \<Rightarrow> Inl Rpn_underflow)"
    and "implements (calc_depth st) (Inr (dint (int (length xs)) # xs))"
proof -
  note st = readyD [OF assms]
  have "calc_dup st = ebind (need st 0) (\<lambda>_. ebind (rd st (stptr st)) (push st))"
    by (cases st) (auto simp: calc_dup_def push_def wr_def set_ptr_def ebind_def split: sum.splits)
  then show "implements (calc_dup st) (case xs of a # r \<Rightarrow> Inr (a # a # r) | _ \<Rightarrow> Inl Rpn_underflow)"
    using st(1) push_implements [OF assms]
    by (auto simp: stack_need stack_rd_simps split: list.splits)
  show "implements (calc_pop st) (case xs of a # r \<Rightarrow> Inr r | _ \<Rightarrow> Inl Rpn_underflow)"
    using st stack_pop(2) [of st]
    by (auto simp: calc_pop_def stack_need split: list.splits intro: implementsI)
  show "implements (calc_depth st) (Inr (dint (int (length xs)) # xs))"
    using push_implements [OF assms] stack_ptr [OF st(1)] by (simp add: calc_depth_def)
qed

lemma exc_implements:
  assumes "ready st xs"
  shows "implements (calc_exc st) (case xs of b # a # r \<Rightarrow> Inr (a # b # r) | _ \<Rightarrow> Inl Rpn_underflow)"
proof (cases "\<exists>b a r. xs = b # a # r")
  case True
  then obtain b a r where xs: "xs = b # a # r" by auto
  note st = readyD [OF assms]
  obtain st1 where st1: "wr st (stptr st) a = Inr st1" "stack_rep st1 (a # a # r)"
    "stptr st1 = stptr st" "stk_size st1 = stk_size st"
    using stack_wr [OF st(1), of 0 a] by (auto simp: xs)
  obtain st2 where "wr st1 (stptr st - 1) b = Inr st2" "stack_rep st2 (a # b # r)"
    "stk_size st2 = stk_size st"
    using stack_wr [OF st1(2), of 1 b] st1 by auto
  with st st1 show ?thesis
    by (auto simp: calc_exc_def xs stack_need stack_rd_simps intro: implementsI)
next
  case False
  then have "length xs \<le> 1" by (cases xs; cases "tl xs") auto
  with False readyD(1) [OF assms] show ?thesis
    by (auto simp: calc_exc_def stack_need split: list.splits)
qed

lemma index_implements:
  assumes "ready st xs"
  shows "implements (calc_index st)
     (case xs of [] \<Rightarrow> Inl Rpn_underflow
      | v # r \<Rightarrow> if int (length xs) \<le> d2s32 v then Inl Rpn_underflow
                 else if d2s32 v < 0 then Inl Undefined else Inr (xs ! nat (d2s32 v) # r))"
proof (cases xs)
  case (Cons v r)
  note st = readyD [OF assms]
  have top: "rd st (stptr st) = Inr v" using st(1) by (simp add: Cons stack_rd_simps)
  show ?thesis
  proof (cases "0 \<le> d2s32 v \<and> d2s32 v < int (length xs)")
    case True
    with stack_rd [OF st(1), of "nat (d2s32 v)"] stack_wr [OF st(1), of 0 "xs ! nat (d2s32 v)"] st top
    show ?thesis by (auto simp: calc_index_def Cons stack_need [OF st(1)] intro: implementsI)
  qed (use st top in \<open>auto simp: calc_index_def Cons stack_need [OF st(1)]\<close>)
qed (use assms in \<open>simp add: calc_index_def stack_need [OF readyD(1)]\<close>)

lemma stack_op_implements:
  assumes "qsort_ok env" and "ready st xs"
  shows "implements (calc_stack_op env op st) (spec_stack_op env op xs)"
  using assms
  by (cases op)
    (simp_all add: calc_stack_op_def spec_stack_op_def simple_stack_implements exc_implements
      ternop_implements sort_implements rev_implements avg_implements stdev_implements
      percent_implements ximum_implements index_implements copy_implements [unfolded of_nat_add])

lemma trend_implements:
  assumes "ready st xs"
  shows "implements (calc_trend cl before n st) (spec_trend cl before n xs)"
proof (cases "\<exists>d a r. xs = d # a # r")
  case True
  then obtain d a r where xs: "xs = d # a # r" by auto
  note st = readyD(1) [OF assms]
  have w: "implements (ebind (wr st (stptr st - 1) v) (\<lambda>st'. Inr (set_ptr st' (stptr st - 1))))
      (Inr (v # r))" for v
    using replace_implements [OF assms, of 1 v] by (simp add: xs)
  show ?thesis using st w
    by (cases "trend_loop (before ! 1) (rp_op n = OP_TREND) (- 1) (d2s64 d) 0 0")
      (auto simp: calc_trend_def spec_trend_def xs stack_need stack_rd_simps Let_def)
next
  case False
  then have "length xs \<le> 1" by (cases xs; cases "tl xs") auto
  with False readyD(1) [OF assms] show ?thesis
    by (auto simp: calc_trend_def spec_trend_def stack_need split: list.splits)
qed

section \<open>Refinement of the calculator\<close>

definition implements_op :: "rrd_error + 'n \<times> rpnstack \<Rightarrow> rrd_error + 'n \<times> dbl list \<Rightarrow> bool" where
  "implements_op r a \<longleftrightarrow>
     (case a of
        Inl e \<Rightarrow> e = Undefined \<or> r = Inl e
      | Inr (n, xs) \<Rightarrow> \<exists>st. r = Inr (n, st) \<and> stack_rep st xs \<and> dc_stackblock \<le> stk_size st)"

lemma keep_implements:
  "implements r a \<Longrightarrow> implements_op (ebind r (\<lambda>st. Inr (n, st))) (ebind a (\<lambda>xs. Inr (n, xs)))"
  by (auto simp: implements_def implements_op_def split: sum.splits)

lemma push_value_implements:
  "ready st xs \<Longrightarrow> implements (ebind r (\<lambda>v. push st v)) (ebind r (\<lambda>v. Inr (v # xs)))"
  using push_implements [of st xs] by (cases r) auto

lemma variable_implements:
  assumes "ready st xs"
  shows "implements_op (calc_variable cl n st) (spec_variable cl n xs)"
proof -
  have "\<exists>st'. push st v = Inr st' \<and> stack_rep st' (v # xs) \<and> dc_stackblock \<le> stk_size st'" for v
    using push_implements [OF assms, of v] by (simp add: implements_def)
  then obtain g where g: "\<And>v. push st v = Inr (g v)" "\<And>v. stack_rep (g v) (v # xs)"
    "\<And>v. dc_stackblock \<le> stk_size (g v)" by metis
  define r where "r = (if rp_op n = OP_VARIABLE then data_at n 0
    else if output_idx cl \<le> 0 then Inr NaN else data_at n (- rp_ds_cnt n))"
  show ?thesis
    by (cases r)
      (auto simp: calc_variable_def spec_variable_def r_def [symmetric] g implements_op_def)
qed

lemma op_implements:
  assumes "qsort_ok env" and "ready st xs"
  shows "implements_op (calc_op env cl before n st) (spec_op env cl before n xs)"
proof -
  note rules = assms(2) [THEN variable_implements] assms(2) [THEN trend_implements, THEN keep_implements]
    assms(2) [THEN push_value_implements, THEN keep_implements]
    assms(2) [THEN binop_implements, THEN keep_implements]
    assms(2) [THEN unop_implements, THEN keep_implements]
    stack_op_implements [OF assms, THEN keep_implements]
  have "implements_op r (Inl Undefined)" for r :: "rrd_error + rpnp_t \<times> rpnstack"
    by (simp add: implements_op_def)
  then show ?thesis by (simp add: calc_op_def spec_op_def Let_def rules)
qed

definition size_ok :: "rpnstack \<Rightarrow> bool" where
  "size_ok st \<longleftrightarrow> stk_size st = 0 \<or> dc_stackblock \<le> stk_size st"

lemma grow_ready: "stack_rep st xs \<Longrightarrow> size_ok st \<Longrightarrow> ready (grow_stack st) xs"
  by (auto simp: ready_def grow_stack_def size_ok_def stack_rep_def dc_stackblock_def dest: rep_len)

lemma loop_implements:
  assumes "qsort_ok env" and "stack_rep st xs" and "size_ok st" and "spec_loop env cl before ns xs = a"
  shows "case a of Inl e \<Rightarrow> e = Undefined \<or> calc_loop env cl before ns st = Inl e
         | Inr (ns', ys) \<Rightarrow> \<exists>st'. calc_loop env cl before ns st = Inr (ns', st') \<and> stack_rep st' ys \<and> size_ok st'"
  using assms
proof (induction ns arbitrary: st xs before)
  case (Cons n ns)
  note op = op_implements [OF Cons.prems(1) grow_ready [OF Cons.prems(2,3)], of cl before n]
  show ?case
  proof (cases "spec_op env cl before n xs")
    case (Inl e)
    with op Cons.prems(4) show ?thesis by (auto simp: implements_op_def)
  next
    case (Inr nx)
    obtain n' ys where nx: "nx = (n', ys)" by (cases nx)
    with op Inr obtain st' where "calc_op env cl before n (grow_stack st) = Inr (n', st')"
      "stack_rep st' ys" "size_ok st'"
      by (auto simp: implements_op_def size_ok_def)
    with Cons.IH [of st' ys "n' # before"] Cons.prems Inr nx show ?thesis
      by (auto split: sum.splits)
  qed
qed auto

lemma rpn_calc_implements:
  assumes "qsort_ok env" and "size_ok st0"
    and "0 \<le> output_idx cl" and "output_idx cl < int (length (rpn_output cl))"
  shows "case spec_calc env rpnp cl of
           Inl e \<Rightarrow> e = Undefined \<or> rpn_calc env rpnp st0 cl = Inl e
         | Inr (rpnp', v) \<Rightarrow> \<exists>st. rpn_calc env rpnp st0 cl =
             Inr (rpnp', st, updi (rpn_output cl) (output_idx cl) v) \<and> size_ok st"
proof -
  have "stack_rep (set_ptr st0 (- 1)) []" "size_ok (set_ptr st0 (- 1))"
    using assms(2) by (auto simp: stack_rep_def size_ok_def dc_stackblock_def)
  note loop = loop_implements [OF assms(1) this refl, of cl "[]" rpnp]
  show ?thesis
  proof (cases "spec_loop env cl [] rpnp []")
    case (Inl e)
    with loop show ?thesis by (auto simp: spec_calc_def rpn_calc_def)
  next
    case (Inr nx)
    obtain ns ys where nx: "nx = (ns, ys)" by (cases nx)
    with loop Inr obtain st where st: "calc_loop env cl [] rpnp (set_ptr st0 (- 1)) = Inr (ns, st)"
      "stack_rep st ys" "size_ok st" by auto
    have ptr: "stptr st = int (length ys) - 1" using st(2) by (rule stack_ptr)
    show ?thesis
    proof (cases "\<exists>v. ys = [v]")
      case True
      with stack_rd [OF st(2), of 0] ptr st Inr nx assms(3,4) show ?thesis
        by (auto simp: spec_calc_def rpn_calc_def)
    next
      case False
      then have "length ys \<noteq> 1" by (cases ys) auto
      with False ptr st Inr nx show ?thesis
        by (auto simp: spec_calc_def rpn_calc_def split: list.splits)
    qed
  qed
qed

text \<open>C16: the calculator implements the abstract machine on a list of values: wherever that
  machine succeeds, \<open>rpn_calc\<close> succeeds with the same nodes and stores the same value, and wherever
  it reports an error, \<open>rpn_calc\<close> reports it; the array of the stack is reusable afterwards.\<close>

theorem rpn_calc_refines:
  assumes "qsort_ok env" and "size_ok st0"
    and "0 \<le> output_idx cl" and "output_idx cl < int (length (rpn_output cl))"
  shows "case spec_calc env rpnp cl of
           Inl e \<Rightarrow> e = Undefined \<or> rpn_calc env rpnp st0 cl = Inl e
         | Inr (rpnp', v) \<Rightarrow> \<exists>st. rpn_calc env rpnp st0 cl =
             Inr (rpnp', st, updi (rpn_output cl) (output_idx cl) v) \<and> size_ok st"
  using assms by (rule rpn_calc_implements)

definition sample_call :: rpn_call where
  "sample_call = \<lparr>data_idx = 0, rpn_output = [0], output_idx = 0, step_width = 300\<rparr>"

definition sample_sum :: "rpnp_t list" where
  "sample_sum = [(rpnp_zero OP_NUMBER)\<lparr>rp_val := dint 8\<rparr>, (rpnp_zero OP_NUMBER)\<lparr>rp_val := dint 5\<rparr>,
     rpnp_zero OP_SUB]"

theorem rpn_calc_refines_witness:
  "\<exists>st. rpn_calc sample_env sample_sum rpnstack_init sample_call = Inr (sample_sum, st, [Fin 3])"
proof -
  have q: "length (foldr (insert_by cmp) vs []) = length vs" for cmp vs by (induction vs) simp_all
  then have "qsort_ok sample_env" by (simp add: qsort_ok_def sample_env_def)
  moreover have "size_ok rpnstack_init" by (simp add: size_ok_def rpnstack_init_def)
  moreover have "spec_calc sample_env sample_sum sample_call = Inr (sample_sum, Fin 3)" by code_simp
  ultimately show ?thesis
    using rpn_calc_refines [of sample_env rpnstack_init sample_call sample_sum]
    by (auto simp: sample_call_def)
qed

definition sample_roll :: "rpnp_t list" where
  "sample_roll = map (\<lambda>k. (rpnp_zero OP_NUMBER)\<lparr>rp_val := dint k\<rparr>) [10, 20, 30, 40, 3, 1] @
     [rpnp_zero OP_ROLL, rpnp_zero OP_ADD, rpnp_zero OP_ADD, rpnp_zero OP_ADD]"

text \<open>\<open>ROLL\<close> copies the wrong part of the stack: it takes the elements from the top of the
  remaining stack upwards, where its two arguments were, instead of those below. For
  10, 20, 30, 40 rolled by 3 and 1 the sum of the stack is 54 and not 100.\<close>

theorem roll_takes_arguments:
  "map_sum id (\<lambda>(ns, st, out). out) (rpn_calc sample_env sample_roll rpnstack_init sample_call) =
   Inr [Fin 54]"
  by code_simp

end
