(* ===== verification/Rrd_File.thy ===== *)
theory Rrd_File
  imports Rrd_Format
begin

text \<open>
  The data area of a database file and the access functions of \<open>rrd_open.c\<close> in the
  \<open>HAVE_MMAP\<close> build: \<open>rrd_seek\<close> sets the position, \<open>rrd_read\<close> and \<open>rrd_write\<close> copy from and
  to the mapping and move the position on. The header of the mapping is the record \<open>rrd_t\<close>
  (the C pointers point into the mapping); the rest, from \<open>header_len\<close> on, holds 8 byte
  values, \<open>file_vals\<close>. All positions the modelled functions use are at a value boundary of
  that area.

  The second half is the contract the round robin archives rely on: a store of cells, with
  the archives at disjoint ranges of it.
\<close>

section \<open>Access functions\<close>

record rrd_file_t =
  header_len :: int
  file_pos :: int
  file_vals :: "dbl list"

definition file_len :: "rrd_file_t \<Rightarrow> int" where
  "file_len f = header_len f + 8 * int (length (file_vals f))"

definition rrd_seek :: "rrd_file_t \<Rightarrow> int \<Rightarrow> rrd_file_t" where
  "rrd_seek f off = f\<lparr>file_pos := off\<rparr>"

definition rrd_seek_cur :: "rrd_file_t \<Rightarrow> int \<Rightarrow> rrd_file_t" where
  "rrd_seek_cur f off = f\<lparr>file_pos := file_pos f + off\<rparr>"

text \<open>The index of the value at a position.\<close>

definition cell_at :: "rrd_file_t \<Rightarrow> int \<Rightarrow> int" where
  "cell_at f p = (p - header_len f) div 8"

text \<open>Reading \<open>k\<close> values: all of them, or a short read, which every caller treats as an
  error and whose values it does not use.\<close>

definition rrd_read :: "rrd_file_t \<Rightarrow> nat \<Rightarrow> dbl list option \<times> rrd_file_t" where
  "rrd_read f k =
     (if file_pos f + 8 * int k \<le> file_len f
      then (Some (take k (drop (nat (cell_at f (file_pos f))) (file_vals f))),
            f\<lparr>file_pos := file_pos f + 8 * int k\<rparr>)
      else (None, f\<lparr>file_pos := max (file_pos f) (file_len f)\<rparr>))"

text \<open>Writing one value; beyond the end of the file nothing is written.\<close>

definition rrd_write :: "rrd_file_t \<Rightarrow> dbl \<Rightarrow> bool \<times> rrd_file_t" where
  "rrd_write f v =
     (if file_pos f + 8 > file_len f then (False, f)
      else (True, f\<lparr>file_vals := updi (file_vals f) (cell_at f (file_pos f)) v,
                    file_pos := file_pos f + 8\<rparr>))"

fun rrd_write_block :: "rrd_file_t \<Rightarrow> dbl list \<Rightarrow> bool \<times> rrd_file_t" where
  "rrd_write_block f [] = (True, f)"
| "rrd_write_block f (v # vs) =
     (case rrd_write f v of
        (False, f') \<Rightarrow> (False, f')
      | (True, f') \<Rightarrow> rrd_write_block f' vs)"

definition file_wf :: "rrd_file_t \<Rightarrow> bool" where
  "file_wf f \<longleftrightarrow> 0 \<le> header_len f \<and> file_len f < 2 ^ 63"

section \<open>A store of cells\<close>

text \<open>What a client of the data area relies on.\<close>

locale cell_store =
  fixes get_cell :: "'s \<Rightarrow> nat \<Rightarrow> 'v"
    and put_cell :: "'s \<Rightarrow> nat \<Rightarrow> 'v \<Rightarrow> 's"
    and cells :: "'s \<Rightarrow> nat"
  assumes cells_put: "cells (put_cell s i v) = cells s"
    and get_put_same: "i < cells s \<Longrightarrow> get_cell (put_cell s i v) i = v"
    and get_put_other: "i \<noteq> j \<Longrightarrow> get_cell (put_cell s i v) j = get_cell s j"
begin

text \<open>Writing a row: consecutive cells from \<open>i\<close> on.\<close>

fun put_row :: "'s \<Rightarrow> nat \<Rightarrow> 'v list \<Rightarrow> 's" where
  "put_row s i [] = s"
| "put_row s i (v # vs) = put_row (put_cell s i v) (Suc i) vs"

lemma cells_put_row: "cells (put_row s i vs) = cells s"
  by (induction vs arbitrary: s i) (simp_all add: cells_put)

lemma put_row_other: "j < i \<or> i + length vs \<le> j \<Longrightarrow> get_cell (put_row s i vs) j = get_cell s j"
  by (induction vs arbitrary: s i) (auto simp: get_put_other)

lemma put_row_same:
  "i + length vs \<le> cells s \<Longrightarrow> k < length vs \<Longrightarrow> get_cell (put_row s i vs) (i + k) = vs ! k"
proof (induction vs arbitrary: s i k)
  case (Cons v vs)
  show ?case
  proof (cases k)
    case 0
    then show ?thesis using Cons.prems put_row_other [of i "Suc i" vs]
      by (simp add: get_put_same)
  next
    case (Suc k')
    then show ?thesis using Cons.IH [of "Suc i" "put_cell s i v" k'] Cons.prems
      by (simp add: cells_put)
  qed
qed simp

text \<open>Rows of different places do not disturb each other, and the later one wins.\<close>

lemma put_row_put_row_other:
  "j + length ws \<le> i \<or> i + length vs \<le> j \<Longrightarrow> j + length ws \<le> cells s \<Longrightarrow> k < length ws \<Longrightarrow>
   get_cell (put_row (put_row s j ws) i vs) (j + k) = ws ! k"
  by (subst put_row_other) (auto simp: put_row_same)

end

section \<open>The data area is such a store\<close>

definition get_val :: "dbl list \<Rightarrow> nat \<Rightarrow> dbl" where
  "get_val vs i = vs ! i"

definition put_val :: "dbl list \<Rightarrow> nat \<Rightarrow> dbl \<Rightarrow> dbl list" where
  "put_val vs i v = vs[i := v]"

interpretation area: cell_store get_val put_val length
  by unfold_locales (simp_all add: get_val_def put_val_def)

text \<open>Writing a block at a value boundary puts its values in consecutive cells.\<close>

lemma rrd_write_block_put_row:
  assumes "file_pos f = header_len f + 8 * int i"
    and "i + length vs \<le> length (file_vals f)"
  shows "rrd_write_block f vs =
    (True, f\<lparr>file_vals := area.put_row (file_vals f) i vs,
             file_pos := header_len f + 8 * int (i + length vs)\<rparr>)"
  using assms
proof (induction vs arbitrary: f i)
  case Nil
  then show ?case by simp
next
  case (Cons v vs)
  let ?f = "f\<lparr>file_vals := put_val (file_vals f) i v, file_pos := header_len f + 8 * int (Suc i)\<rparr>"
  have w: "rrd_write f v = (True, ?f)"
    using Cons.prems by (auto simp: rrd_write_def file_len_def cell_at_def put_val_def)
  have "rrd_write_block ?f vs = (True, ?f\<lparr>file_vals := area.put_row (file_vals ?f) (Suc i) vs,
    file_pos := header_len ?f + 8 * int (Suc i + length vs)\<rparr>)"
    using Cons.IH [of ?f "Suc i"] Cons.prems by (simp add: area.cells_put)
  then show ?case by (simp add: w algebra_simps)
qed

lemma rrd_read_row:
  assumes "file_pos f = header_len f + 8 * int i" and "i + k \<le> length (file_vals f)"
  shows "rrd_read f k = (Some (map (get_val (file_vals f)) [i..<i + k]),
    f\<lparr>file_pos := header_len f + 8 * int (i + k)\<rparr>)"
proof -
  have "take k (drop i (file_vals f)) = map (get_val (file_vals f)) [i..<i + k]"
    using assms(2) by (intro nth_equalityI) (simp_all add: get_val_def)
  then show ?thesis using assms by (simp add: rrd_read_def file_len_def cell_at_def)
qed

text \<open>No write changes the length of the area or the header length.\<close>

lemma rrd_write_block_keeps:
  "rrd_write_block f vs = (b, f') \<Longrightarrow>
     length (file_vals f') = length (file_vals f) \<and> header_len f' = header_len f"
  by (induction vs arbitrary: f)
    (auto simp: rrd_write_def split: prod.splits bool.splits if_splits)

text \<open>C33: a block written inside the data area succeeds, is read back as it was written, and no
  cell outside it changes.\<close>

theorem write_read_back:
  assumes "i + length vs \<le> length (file_vals f)" and "pos = header_len f + 8 * int i"
    and "rrd_write_block (rrd_seek f pos) vs = (ok, f')"
  shows "ok \<and> fst (rrd_read (rrd_seek f' pos) (length vs)) = Some vs \<and>
    (\<forall>c. c < i \<or> i + length vs \<le> c \<longrightarrow> file_vals f' ! c = file_vals f ! c)"
proof -
  have f': "ok" "file_vals f' = area.put_row (file_vals f) i vs" "header_len f' = header_len f"
    using rrd_write_block_put_row [of "rrd_seek f pos" i vs] assms by (auto simp: rrd_seek_def)
  have len: "length (area.put_row (file_vals f) i vs) = length (file_vals f)"
    using area.cells_put_row by simp
  have "map (get_val (file_vals f')) [i..<i + length vs] = vs"
    using area.put_row_same [of i vs "file_vals f"] assms(1)
    by (intro nth_equalityI) (simp_all add: f'(2))
  moreover have "rrd_read (rrd_seek f' pos) (length vs) =
      (Some (map (get_val (file_vals f')) [i..<i + length vs]),
       (rrd_seek f' pos)\<lparr>file_pos := header_len f' + 8 * int (i + length vs)\<rparr>)"
    using rrd_read_row [of "rrd_seek f' pos" i "length vs"] assms(1,2) len
    by (simp add: rrd_seek_def f'(2,3))
  ultimately show ?thesis
    using f'(1) area.put_row_other [of _ i vs "file_vals f"] by (auto simp: f'(2) get_val_def)
qed

end
