(* ===== verification/Rrd_Sample.thy ===== *)
theory Rrd_Sample
  imports Rrd_File
begin

text \<open>
  A small database on which properties with hypotheses are evaluated: a \<open>GAUGE\<close> and a
  \<open>COUNTER\<close> source, a step of 300 seconds, an \<open>AVERAGE\<close> archive of four single steps and a
  \<open>MAX\<close> archive of three rows of two steps.
\<close>

definition sample_ds :: "string \<Rightarrow> string \<Rightarrow> ds_def_t" where
  "sample_ds nam typ = \<lparr>ds_nam = nam, dst = typ, ds_mrhb_cnt = 600, ds_min_val = NaN,
     ds_max_val = NaN, ds_cdef = []\<rparr>"

definition sample_rra :: "string \<Rightarrow> ulong \<Rightarrow> ulong \<Rightarrow> rra_def_t" where
  "sample_rra cf rows pdps = \<lparr>cf_nam = cf, row_cnt = rows, pdp_cnt = pdps,
     rra_cdp_xff_val = dint 1 / dint 2, rra_par1 = 0, rra_par2 = 0, rra_dependent_rra_idx = 0,
     rra_par4 = 0, rra_failure_threshold = 0, rra_period = 0\<rparr>"

definition sample_pdp :: pdp_prep_t where
  "sample_pdp = \<lparr>last_ds = ''U'', pdp_unkn_sec_cnt = 0, pdp_val = 0\<rparr>"

definition sample_cdp :: cdp_prep_t where
  "sample_cdp = \<lparr>cdp_val = NaN, cdp_unkn_pdp_cnt = 0, cdp_hw_intercept = NaN,
     cdp_hw_last_intercept = NaN, cdp_hw_slope = NaN, cdp_hw_last_slope = NaN, cdp_null_count = 1,
     cdp_last_null_count = 1, cdp_primary_val = 0, cdp_secondary_val = 0, violations = []\<rparr>"

definition sample_rrd :: rrd_t where
  "sample_rrd =
     \<lparr>stat_head = \<lparr>version = ''0003'', ds_cnt = 2, rra_cnt = 2, pdp_step = 300\<rparr>,
      ds_def = [sample_ds ''temp'' ''GAUGE'', sample_ds ''in'' ''COUNTER''],
      rra_def = [sample_rra ''AVERAGE'' 4 1, sample_rra ''MAX'' 3 2],
      live_head = \<lparr>last_up = 1200000000, last_up_usec = 0\<rparr>, legacy_last_up = 1200000000,
      pdp_prep = [sample_pdp, sample_pdp],
      cdp_prep = [sample_cdp, sample_cdp, sample_cdp, sample_cdp], rra_ptr = [2, 0]\<rparr>"

definition sample_file :: rrd_file_t where
  "sample_file = \<lparr>header_len = 1280, file_pos = 1280, file_vals = map dint [0..<14]\<rparr>"

lemma sample_simps [simp]:
  "stat_head sample_rrd = \<lparr>version = ''0003'', ds_cnt = 2, rra_cnt = 2, pdp_step = 300\<rparr>"
  "rra_def sample_rrd = [sample_rra ''AVERAGE'' 4 1, sample_rra ''MAX'' 3 2]"
  "ds_def sample_rrd = [sample_ds ''temp'' ''GAUGE'', sample_ds ''in'' ''COUNTER'']"
  "row_cnt (sample_rra cf rows pdps) = rows" "pdp_cnt (sample_rra cf rows pdps) = pdps"
  "cf_nam (sample_rra cf rows pdps) = cf"
  "live_head sample_rrd = \<lparr>last_up = 1200000000, last_up_usec = 0\<rparr>"
  "rra_ptr sample_rrd = [2, 0]" "header_len sample_file = 1280"
  "cdp_prep sample_rrd = [sample_cdp, sample_cdp, sample_cdp, sample_cdp]"
  "pdp_prep sample_rrd = [sample_pdp, sample_pdp]"
  by (simp_all add: sample_rrd_def sample_rra_def sample_file_def)

lemma sample_wf: "rrd_wf sample_rrd"
  by (simp add: rrd_wf_def rra_ok_def less_Suc_eq numeral_2_eq_2 all_conj_distrib)

theorem ds_match_first_witness: "ds_match sample_rrd ''in'' = int 1 \<and> ds_match sample_rrd ''out'' = - 1"
  using ds_match_first [OF sample_wf, of "''in''" 1] ds_match_first [OF sample_wf, of "''out''"]
  by (simp add: sample_ds_def)

theorem write_read_back_witness:
  "fst (rrd_read (rrd_seek (snd (rrd_write_block (rrd_seek sample_file 1296) [NaN, PInf])) 1296) 2) =
   Some [NaN, PInf]"
proof -
  obtain ok f' where w: "rrd_write_block (rrd_seek sample_file 1296) [NaN, PInf] = (ok, f')"
    by (metis surj_pair)
  then show ?thesis
    using write_read_back [of 2 "[NaN, PInf]" sample_file 1296 ok f']
    by (simp add: sample_file_def numeral_2_eq_2)
qed

text \<open>A database with the five archives of the Holt-Winters method over one \<open>GAUGE\<close> source.\<close>

definition sample_hw_rra :: "string \<Rightarrow> ulong \<Rightarrow> ulong \<Rightarrow> dbl \<Rightarrow> ulong \<Rightarrow> ulong \<Rightarrow> rra_def_t" where
  "sample_hw_rra cf rows dep par window threshold = (sample_rra cf rows 1)\<lparr>rra_par1 := par,
     rra_par2 := par, rra_dependent_rra_idx := dep, rra_par4 := window,
     rra_failure_threshold := threshold\<rparr>"

definition sample_hw :: rrd_t where
  "sample_hw =
     \<lparr>stat_head = \<lparr>version = ''0003'', ds_cnt = 1, rra_cnt = 5, pdp_step = 300\<rparr>,
      ds_def = [sample_ds ''temp'' ''GAUGE''],
      rra_def = [sample_hw_rra ''HWPREDICT'' 6 1 (dint 1 / dint 2) 0 0,
        sample_hw_rra ''SEASONAL'' 3 0 (dint 1 / dint 2) 0 0,
        sample_hw_rra ''DEVPREDICT'' 6 3 0 0 0,
        sample_hw_rra ''DEVSEASONAL'' 3 0 (dint 1 / dint 2) 0 0,
        sample_hw_rra ''FAILURES'' 6 3 (dint 2) 3 2],
      live_head = \<lparr>last_up = 1200000000, last_up_usec = 0\<rparr>, legacy_last_up = 1200000000,
      pdp_prep = [sample_pdp],
      cdp_prep = [sample_cdp\<lparr>cdp_hw_intercept := dint 10, cdp_hw_last_intercept := dint 10,
            cdp_hw_slope := 0, cdp_hw_last_slope := 0\<rparr>,
        sample_cdp\<lparr>cdp_hw_intercept := 0, cdp_hw_last_intercept := 0\<rparr>, sample_cdp,
        sample_cdp\<lparr>cdp_hw_intercept := 1, cdp_hw_last_intercept := 1\<rparr>,
        sample_cdp\<lparr>cdp_primary_val := dint 20, violations := replicate 28 0\<rparr>],
      rra_ptr = [5, 1, 5, 1, 5]\<rparr>"

end
