(* ===== verification/Rrd_Rpn_Parse.thy ===== *)
theory Rrd_Rpn_Parse
  imports Rrd_Rpn_Ops Rrd_Sample
begin

text \<open>
  The textual form of RPN programs: \<open>rpn_compact2str\<close> prints a stored program, \<open>rpn_parse\<close>
  reads one, \<open>parseCDEF_DS\<close> checks and stores the program of a \<open>COMPUTE\<close> data source.
\<close>

section \<open>Printing\<close>

text \<open>The table of \<open>rpn_compact2str\<close>, in its order.\<close>

definition op_names :: "(op_en \<times> string) list" where
  "op_names =
    [(OP_ADD, ''+''), (OP_SUB, ''-''), (OP_MUL, ''*''), (OP_DIV, ''/''), (OP_MOD, ''%''),
     (OP_SIN, ''SIN''), (OP_COS, ''COS''), (OP_LOG, ''LOG''), (OP_FLOOR, ''FLOOR''),
     (OP_CEIL, ''CEIL''), (OP_EXP, ''EXP''), (OP_DUP, ''DUP''), (OP_EXC, ''EXC''),
     (OP_POP, ''POP''), (OP_LT, ''LT''), (OP_LE, ''LE''), (OP_GT, ''GT''), (OP_GE, ''GE''),
     (OP_EQ, ''EQ''), (OP_IF, ''IF''), (OP_MIN, ''MIN''), (OP_MAX, ''MAX''),
     (OP_LIMIT, ''LIMIT''), (OP_UNKN, ''UNKN''), (OP_UN, ''UN''), (OP_NEGINF, ''NEGINF''),
     (OP_NE, ''NE''), (OP_PREV, ''PREV''), (OP_INF, ''INF''), (OP_ISINF, ''ISINF''),
     (OP_NOW, ''NOW''), (OP_LTIME, ''LTIME''), (OP_NEWDAY, ''NEWDAY''),
     (OP_NEWWEEK, ''NEWWEEK''), (OP_NEWMONTH, ''NEWMONTH''), (OP_NEWYEAR, ''NEWYEAR''),
     (OP_STEPWIDTH, ''STEPWIDTH''), (OP_TIME, ''TIME''), (OP_ATAN2, ''ATAN2''),
     (OP_ATAN, ''ATAN''), (OP_SQRT, ''SQRT''), (OP_SORT, ''SORT''), (OP_COUNT, ''COUNT''),
     (OP_REV, ''REV''), (OP_TREND, ''TREND''), (OP_TRENDNAN, ''TRENDNAN''),
     (OP_PREDICT, ''PREDICT''), (OP_PREDICTSIGMA, ''PREDICTSIGMA''),
     (OP_PREDICTPERC, ''PREDICTPERC''), (OP_RAD2DEG, ''RAD2DEG''), (OP_DEG2RAD, ''DEG2RAD''),
     (OP_AVG, ''AVG''), (OP_ABS, ''ABS''), (OP_ADDNAN, ''ADDNAN''), (OP_MINNAN, ''MINNAN''),
     (OP_MAXNAN, ''MAXNAN''), (OP_MEDIAN, ''MEDIAN''), (OP_PERCENT, ''PERCENT''),
     (OP_SMAX, ''SMAX''), (OP_SMIN, ''SMIN''), (OP_STDEV, ''STDEV''), (OP_DEPTH, ''DEPTH''),
     (OP_COPY, ''COPY''), (OP_ROLL, ''ROLL''), (OP_INDEX, ''INDEX''), (OP_POW, ''POW''),
     (OP_ROUND, ''ROUND'')]"

text \<open>\<open>addop2str\<close>: the text is appended when the node has the operator asked for.\<close>

definition addop2str :: "int \<Rightarrow> op_en \<Rightarrow> string \<Rightarrow> string option" where
  "addop2str op op_type op_str = (if op = op_code op_type then Some op_str else None)"

text \<open>The chain of \<open>add_op\<close> calls for one node. The third call asks for \<open>OP_VARIABLE\<close> though
  the node is an \<open>OP_PREV_OTHER\<close>.\<close>

definition node_text :: "ds_def_t list \<Rightarrow> rpn_cdefds_t \<Rightarrow> string" where
  "node_text dsdef c =
     (let op = rpnc_op c in
      case (if op = op_code OP_NUMBER
            then addop2str op OP_NUMBER (int_string (rpnc_val c)) else None) of
        Some t \<Rightarrow> t
      | None \<Rightarrow>
     (case (if op = op_code OP_VARIABLE
            then addop2str op OP_VARIABLE (ds_nam (nthi dsdef (rpnc_val c))) else None) of
        Some t \<Rightarrow> t
      | None \<Rightarrow>
     (case (if op = op_code OP_PREV_OTHER
            then addop2str op OP_VARIABLE (ds_nam (nthi dsdef (rpnc_val c))) else None) of
        Some t \<Rightarrow> t
      | None \<Rightarrow>
     (case find (\<lambda>(o', nam). op = op_code o') op_names of
        Some (_, nam) \<Rightarrow> nam
      | None \<Rightarrow> []))))"

fun join_comma :: "string list \<Rightarrow> string" where
  "join_comma [] = []"
| "join_comma [t] = t"
| "join_comma (t # u # ts) = t @ CHR '','' # join_comma (u # ts)"

definition rpn_compact2str :: "ds_def_t list \<Rightarrow> rpn_cdefds_t list \<Rightarrow> string" where
  "rpn_compact2str dsdef rpnc = join_comma (map (node_text dsdef) rpnc)"

section \<open>Parsing\<close>

definition is_numchar :: "char \<Rightarrow> bool" where
  "is_numchar c \<longleftrightarrow> is_digit c \<or> c = CHR ''.'' \<or> c = CHR ''e'' \<or> c = CHR ''+'' \<or> c = CHR ''-''"

definition is_namechar :: "char \<Rightarrow> bool" where
  "is_namechar c \<longleftrightarrow> is_digit c \<or> c = CHR ''_'' \<or> c = CHR ''-''
     \<or> 65 \<le> (of_char c :: nat) \<and> (of_char c :: nat) \<le> 90
     \<or> 97 \<le> (of_char c :: nat) \<and> (of_char c :: nat) \<le> 122"

text \<open>\<open>sscanf\<close> with a \<open>%n[...]\<close> conversion: the longest prefix of at most \<open>n\<close> characters.\<close>

definition scan_set :: "nat \<Rightarrow> (char \<Rightarrow> bool) \<Rightarrow> string \<Rightarrow> string" where
  "scan_set n P s = takeWhile P (take n s)"

definition at_delim :: "string \<Rightarrow> bool" where
  "at_delim s = (case s of [] \<Rightarrow> True | c # _ \<Rightarrow> c = CHR '','')"

definition match_op :: "string \<Rightarrow> string \<Rightarrow> bool" where
  "match_op expr nam \<longleftrightarrow> take (length nam) expr = nam \<and> at_delim (drop (length nam) expr)"

text \<open>The \<open>match_op\<close> chain before and after the one parameterised operator.\<close>

definition ops_first :: "(op_en \<times> string) list" where
  "ops_first =
    [(OP_ADD, ''+''), (OP_SUB, ''-''), (OP_MUL, ''*''), (OP_DIV, ''/''), (OP_MOD, ''%''),
     (OP_SIN, ''SIN''), (OP_COS, ''COS''), (OP_LOG, ''LOG''), (OP_FLOOR, ''FLOOR''),
     (OP_CEIL, ''CEIL''), (OP_EXP, ''EXP''), (OP_DUP, ''DUP''), (OP_EXC, ''EXC''),
     (OP_POP, ''POP''), (OP_LTIME, ''LTIME''), (OP_NEWDAY, ''NEWDAY''),
     (OP_NEWWEEK, ''NEWWEEK''), (OP_NEWMONTH, ''NEWMONTH''), (OP_NEWYEAR, ''NEWYEAR''),
     (OP_STEPWIDTH, ''STEPWIDTH''), (OP_LT, ''LT''), (OP_LE, ''LE''), (OP_GT, ''GT''),
     (OP_GE, ''GE''), (OP_EQ, ''EQ''), (OP_IF, ''IF''), (OP_MIN, ''MIN''), (OP_MAX, ''MAX''),
     (OP_LIMIT, ''LIMIT''), (OP_UNKN, ''UNKN''), (OP_UN, ''UN''), (OP_NEGINF, ''NEGINF''),
     (OP_NE, ''NE''), (OP_COUNT, ''COUNT'')]"

definition ops_last :: "(op_en \<times> string) list" where
  "ops_last =
    [(OP_PREV, ''PREV''), (OP_INF, ''INF''), (OP_ISINF, ''ISINF''), (OP_NOW, ''NOW''),
     (OP_TIME, ''TIME''), (OP_ATAN2, ''ATAN2''), (OP_ATAN, ''ATAN''), (OP_SQRT, ''SQRT''),
     (OP_SORT, ''SORT''), (OP_REV, ''REV''), (OP_TREND, ''TREND''), (OP_TRENDNAN, ''TRENDNAN''),
     (OP_PREDICT, ''PREDICT''), (OP_PREDICTSIGMA, ''PREDICTSIGMA''),
     (OP_PREDICTPERC, ''PREDICTPERC''), (OP_RAD2DEG, ''RAD2DEG''), (OP_DEG2RAD, ''DEG2RAD''),
     (OP_AVG, ''AVG''), (OP_ABS, ''ABS''), (OP_ADDNAN, ''ADDNAN''), (OP_MINNAN, ''MINNAN''),
     (OP_MAXNAN, ''MAXNAN''), (OP_MEDIAN, ''MEDIAN''), (OP_DEPTH, ''DEPTH''), (OP_COPY, ''COPY''),
     (OP_ROLL, ''ROLL''), (OP_INDEX, ''INDEX''), (OP_SMAX, ''SMAX''), (OP_SMIN, ''SMIN''),
     (OP_STDEV, ''STDEV''), (OP_PERCENT, ''PERCENT''), (OP_POW, ''POW''), (OP_ROUND, ''ROUND'')]"

text \<open>\<open>PREV(name)\<close>: \<open>sscanf\<close> has matched once the name is read; that the parenthesis follows
  is not checked, only the character behind its place is. Reading that character past the
  terminating NUL is undefined. Where it is no delimiter, the expression is not advanced.\<close>

definition parse_prev_other :: "(string \<Rightarrow> int) \<Rightarrow> string \<Rightarrow> rrd_error + rpnp_t \<times> string" where
  "parse_prev_other lookup expr =
     (let vname = scan_set 255 is_namechar (drop 5 expr); len = length vname + 6
      in if len > length expr then Inl Undefined
         else if at_delim (drop len expr)
         then (let p = lookup vname
               in if p < 0 then Inl (Unknown_ds_name vname)
                  else Inr ((rpnp_zero OP_PREV_OTHER)\<lparr>rp_ptr := p\<rparr>, drop len expr))
         else Inr (rpnp_zero OP_PREV_OTHER, expr))"

text \<open>One round of the loop: the node and the unread text.\<close>

definition parse_tok :: "(string \<Rightarrow> int) \<Rightarrow> string \<Rightarrow> rrd_error + rpnp_t \<times> string" where
  "parse_tok lookup expr =
     (let ds = scan_set 40 is_numchar expr; r1 = drop (length ds) expr;
          vname = scan_set 255 is_namechar expr; r2 = drop (length vname) expr
      in if ds \<noteq> [] \<and> take 1 r1 = '','' \<and> fst (rrd_strtodbl ds) = 2
         then Inr ((rpnp_zero OP_NUMBER)\<lparr>rp_val := fst (snd (rrd_strtodbl ds))\<rparr>, r1)
         else case find (\<lambda>(op, nam). match_op expr nam) ops_first of
           Some (op, nam) \<Rightarrow> Inr (rpnp_zero op, drop (length nam) expr)
         | None \<Rightarrow>
        (if take 5 expr = ''PREV('' \<and> scan_set 255 is_namechar (drop 5 expr) \<noteq> []
         then parse_prev_other lookup expr
         else case find (\<lambda>(op, nam). match_op expr nam) ops_last of
           Some (op, nam) \<Rightarrow> Inr (rpnp_zero op, drop (length nam) expr)
         | None \<Rightarrow>
        (if vname \<noteq> [] \<and> at_delim r2 \<and> lookup vname \<noteq> - 1
         then Inr ((rpnp_zero OP_VARIABLE)\<lparr>rp_ptr := lookup vname\<rparr>, r2)
         else Inl Rpn_not_understood)))"

lemma parse_tok_shorter: "parse_tok lookup expr = Inr (n, rest) \<Longrightarrow> length rest \<le> length expr"
  by (auto simp: parse_tok_def parse_prev_other_def Let_def split: if_splits option.splits)

text \<open>The loop; a trailing comma ends it like the end of the string.\<close>

function rpn_parse_loop :: "(string \<Rightarrow> int) \<Rightarrow> string \<Rightarrow> rrd_error + rpnp_t list" where
  "rpn_parse_loop lookup expr =
     (if expr = [] then Inr []
      else case parse_tok lookup expr of
        Inl e \<Rightarrow> Inl e
      | Inr (n, rest) \<Rightarrow>
         (case rest of
            [] \<Rightarrow> Inr [n]
          | c # cs \<Rightarrow>
             (if c = CHR '',''
              then (case rpn_parse_loop lookup cs of Inl e \<Rightarrow> Inl e | Inr ns \<Rightarrow> Inr (n # ns))
              else Inl Rpn_garbage)))"
  by pat_completeness auto
termination
  by (relation "measure (\<lambda>(lookup, expr). length expr)") (auto dest: parse_tok_shorter)

declare rpn_parse_loop.simps [simp del]

definition rpn_parse :: "(string \<Rightarrow> int) \<Rightarrow> string \<Rightarrow> rrd_error + rpnp_t list" where
  "rpn_parse lookup expr = (if expr = [] then Inl Rpn_empty else rpn_parse_loop lookup expr)"

text \<open>\<open>lookup_DS\<close> is the loop of \<open>ds_match\<close> without the error message.\<close>

definition lookup_DS :: "rrd_t \<Rightarrow> string \<Rightarrow> int" where
  "lookup_DS rrd nam = ds_match_loop 0 (take (nat (ds_cnt (stat_head rrd))) (ds_def rrd)) nam"

definition cdef_forbidden :: "op_en \<Rightarrow> bool" where
  "cdef_forbidden op \<longleftrightarrow>
     op = OP_TIME \<or> op = OP_LTIME \<or> op = OP_PREV \<or> op = OP_COUNT \<or> op = OP_TREND
     \<or> op = OP_TRENDNAN \<or> op = OP_PREDICT \<or> op = OP_PREDICTSIGMA \<or> op = OP_PREDICTPERC
     \<or> op = OP_STEPWIDTH \<or> op = OP_NEWDAY \<or> op = OP_NEWWEEK \<or> op = OP_NEWMONTH
     \<or> op = OP_NEWYEAR"

definition parseCDEF_DS :: "(string \<Rightarrow> int) \<Rightarrow> string \<Rightarrow> ds_def_t \<Rightarrow> rrd_error + ds_def_t" where
  "parseCDEF_DS lookup def d =
     (case rpn_parse lookup def of
        Inl e \<Rightarrow> Inl Rpn_parse_failed
      | Inr rpnp \<Rightarrow>
         (if list_ex (\<lambda>n. cdef_forbidden (rp_op n)) rpnp then Inl Rpn_unsupported
          else case rpn_compact rpnp of
            Inl e \<Rightarrow> Inl e
          | Inr rpnc \<Rightarrow> Inr (d\<lparr>ds_cdef := rpnc\<rparr>)))"


section \<open>What is printed is read back\<close>

lemma match_op_token:
  assumes "CHR '','' \<notin> set nam" "CHR '','' \<notin> set tok" "at_delim rest"
  shows "match_op (tok @ rest) nam \<longleftrightarrow> nam = tok"
proof
  assume m: "match_op (tok @ rest) nam"
  then have t: "take (length nam) (tok @ rest) = nam" and d: "at_delim (drop (length nam) (tok @ rest))"
    by (simp_all add: match_op_def)
  have "\<not> length nam < length tok"
  proof
    assume l: "length nam < length tok"
    then obtain c cs where "drop (length nam) tok = c # cs" by (cases "drop (length nam) tok") auto
    then show False using d l assms(2) in_set_dropD [of c "length nam" tok]
      by (simp add: at_delim_def)
  qed
  moreover have "\<not> length tok < length nam"
  proof
    assume l: "length tok < length nam"
    have "length (take (length nam) (tok @ rest)) = length nam" using t by simp
    then have "rest \<noteq> []" using l by (cases rest) simp_all
    then obtain cs where "rest = CHR '','' # cs" using assms(3)
      by (cases rest) (auto simp: at_delim_def)
    then have "CHR '','' \<in> set (take (length nam) (tok @ rest))"
      using l by (simp add: take_Cons')
    then show False unfolding t using assms(1) by simp
  qed
  ultimately show "nam = tok" using t by simp
qed (use assms in \<open>simp add: match_op_def\<close>)

definition no_comma_table :: "(op_en \<times> string) list \<Rightarrow> bool" where
  "no_comma_table tab = list_all (\<lambda>(op, nam). CHR '','' \<notin> set nam) tab"

lemma find_match_op:
  assumes "no_comma_table tab" "CHR '','' \<notin> set tok" "at_delim rest"
  shows "find (\<lambda>(op, nam). match_op (tok @ rest) nam) tab = find (\<lambda>(op, nam). nam = tok) tab"
  using assms(1)
  by (induction tab) (auto simp: no_comma_table_def match_op_token [OF _ assms(2,3)])

lemma no_prev_paren:
  assumes "CHR ''('' \<notin> set tok" "at_delim rest"
  shows "take 5 (tok @ rest) \<noteq> ''PREV(''"
proof
  assume t: "take 5 (tok @ rest) = ''PREV(''"
  show False
  proof (cases "length tok < 5")
    case True
    from t have "rest \<noteq> []" using True by (cases rest) (auto simp: take_all_iff)
    then obtain cs where "rest = CHR '','' # cs" using assms(2)
      by (cases rest) (auto simp: at_delim_def)
    then have "CHR '','' \<in> set (take 5 (tok @ rest))" using True by (simp add: take_Cons')
    then show False unfolding t by simp
  next
    case False
    then have "set (take 5 (tok @ rest)) \<subseteq> set tok" by (simp add: set_take_subset)
    then show False using assms(1) unfolding t by auto
  qed
qed

lemma scan_set_token:
  assumes "list_all P tok" "length tok \<le> n" "at_delim rest" "\<not> P (CHR '','')"
  shows "scan_set n P (tok @ rest) = tok"
proof -
  have "takeWhile P (take (n - length tok) rest) = []"
    using assms(3,4) by (cases rest; cases "n - length tok") (auto simp: at_delim_def)
  then show ?thesis using assms(1,2)
    by (simp add: scan_set_def takeWhile_append2 list_all_iff)
qed

text \<open>What the tables agree on, evaluated entry by entry.\<close>

lemma tables_agree:
  "list_all (\<lambda>(op, nam). nam \<noteq> [] \<and> CHR '','' \<notin> set nam \<and> CHR ''('' \<notin> set nam
     \<and> (\<not> is_numchar (hd nam) \<or> nam = ''+'' \<or> nam = ''-'')
     \<and> (find (\<lambda>(op', nam'). nam' = nam) ops_first = Some (op, nam)
        \<or> find (\<lambda>(op', nam'). nam' = nam) ops_first = None
          \<and> find (\<lambda>(op', nam'). nam' = nam) ops_last = Some (op, nam))) op_names"
  by code_simp

lemma tables_no_comma: "no_comma_table ops_first" "no_comma_table ops_last"
  by code_simp+

lemma op_names_unique:
  "list_all (\<lambda>(op, nam). op \<noteq> OP_NUMBER \<and> op \<noteq> OP_VARIABLE \<and> op \<noteq> OP_PREV_OTHER
     \<and> find (\<lambda>(op', nam'). op = op') op_names = Some (op, nam)) op_names"
  by code_simp


lemma sign_not_number: "fst (rrd_strtodbl ''+'') \<noteq> 2" "fst (rrd_strtodbl ''-'') \<noteq> 2"
  by code_simp+

lemma parse_tok_op:
  assumes "(op, nam) \<in> set op_names" "at_delim rest"
  shows "parse_tok lookup (nam @ rest) = Inr (rpnp_zero op, rest)"
proof -
  from assms(1) tables_agree have nam: "nam \<noteq> []" "CHR '','' \<notin> set nam" "CHR ''('' \<notin> set nam"
    "\<not> is_numchar (hd nam) \<or> nam = ''+'' \<or> nam = ''-''"
    and tab: "find (\<lambda>(op', nam'). nam' = nam) ops_first = Some (op, nam)
        \<or> find (\<lambda>(op', nam'). nam' = nam) ops_first = None
          \<and> find (\<lambda>(op', nam'). nam' = nam) ops_last = Some (op, nam)"
    by (auto simp: list_all_iff)
  have "\<not> is_numchar (CHR '','')" by (simp add: is_numchar_def is_digit_def)
  then have "scan_set 40 is_numchar (nam @ rest) = []
    \<or> fst (rrd_strtodbl (scan_set 40 is_numchar (nam @ rest))) \<noteq> 2"
    using nam(1,4) sign_not_number scan_set_token [OF _ _ assms(2), of is_numchar nam 40]
    by (cases nam) (auto simp: scan_set_def is_numchar_def)
  then show ?thesis
    using tab no_prev_paren [OF nam(3) assms(2)]
    by (auto simp: parse_tok_def Let_def find_match_op [OF tables_no_comma(1) nam(2) assms(2)]
        find_match_op [OF tables_no_comma(2) nam(2) assms(2)])
qed

text \<open>A name that is read as a variable: no operator and no number looks like it.\<close>

definition var_name :: "string \<Rightarrow> bool" where
  "var_name nam \<longleftrightarrow> nam \<noteq> [] \<and> length nam \<le> 255 \<and> list_all is_namechar nam
     \<and> find (\<lambda>(op, nam'). nam' = nam) ops_first = None
     \<and> find (\<lambda>(op, nam'). nam' = nam) ops_last = None \<and> fst (rrd_strtodbl nam) \<noteq> 2"

lemma namechar_neq: "is_namechar c \<Longrightarrow> c \<noteq> CHR '','' \<and> c \<noteq> CHR ''(''"
  by (auto simp: is_namechar_def is_digit_def)

lemma scan_set_prefix_comma:
  assumes "CHR '','' \<notin> set tok" "at_delim rest"
    and "take 1 (drop (length (scan_set n P (tok @ rest))) (tok @ rest)) = '',''"
    and "\<not> P (CHR '','')"
  shows "scan_set n P (tok @ rest) = tok"
proof -
  let ?s = "scan_set n P (tok @ rest)"
  obtain k where k: "?s = take k (tok @ rest)"
    unfolding scan_set_def by (metis takeWhile_eq_take take_take)
  have "take (length (take k zs)) zs = take k zs" for zs :: string
    by (cases "k \<le> length zs") simp_all
  then have pre: "take (length ?s) (tok @ rest) = ?s" unfolding k .
  have "\<not> length ?s < length tok"
  proof
    assume "length ?s < length tok"
    then obtain c cs where c: "drop (length ?s) tok = c # cs"
      by (cases "drop (length ?s) tok") auto
    then have "c \<in> set tok" by (auto intro: in_set_dropD [of c "length ?s" tok])
    then show False using assms(1,3) c by auto
  qed
  moreover have "\<not> length tok < length ?s"
  proof
    assume l: "length tok < length ?s"
    then obtain cs where "rest = CHR '','' # cs"
      using assms(2) pre by (cases rest) (auto simp: at_delim_def)
    then have "CHR '','' \<in> set (take (length ?s) (tok @ rest))"
      using l by (simp add: take_Cons')
    then have "CHR '','' \<in> set ?s" unfolding pre .
    then show False using assms(4) set_takeWhileD unfolding scan_set_def by metis
  qed
  ultimately show ?thesis using pre by simp
qed


lemma parse_tok_var:
  assumes v: "var_name nam" and l: "lookup nam = k" "k \<noteq> - 1" and r: "at_delim rest"
  shows "parse_tok lookup (nam @ rest) = Inr ((rpnp_zero OP_VARIABLE)\<lparr>rp_ptr := k\<rparr>, rest)"
proof -
  have nc: "CHR '','' \<notin> set nam" "CHR ''('' \<notin> set nam"
    using v namechar_neq by (auto simp: var_name_def list_all_iff)
  have sc: "scan_set 255 is_namechar (nam @ rest) = nam"
    using v r by (intro scan_set_token) (auto simp: var_name_def is_namechar_def is_digit_def)
  let ?ds = "scan_set 40 is_numchar (nam @ rest)"
  have "\<not> (take 1 (drop (length ?ds) (nam @ rest)) = '','' \<and> fst (rrd_strtodbl ?ds) = 2)"
    using scan_set_prefix_comma [OF nc(1) r, of 40 is_numchar] v
    by (auto simp: var_name_def is_numchar_def is_digit_def)
  then show ?thesis
    using v l r no_prev_paren [OF nc(2) r]
    by (auto simp: parse_tok_def Let_def find_match_op [OF tables_no_comma(1) nc(1) r]
        find_match_op [OF tables_no_comma(2) nc(1) r] sc var_name_def)
qed

lemma dec_string_length: "n < 10 ^ k \<Longrightarrow> 0 < k \<Longrightarrow> length (dec_string n) \<le> k"
proof (induction n arbitrary: k rule: dec_string.induct)
  case (1 n)
  show ?case
  proof (cases "n < 10")
    case False
    then obtain j where j: "k = Suc j" "0 < j"
      using "1.prems" by (cases k; cases "k - 1") auto
    then have "n div 10 < 10 ^ j" using "1.prems" by simp
    with 1 False j show ?thesis by (subst dec_string.simps) simp
  qed (use "1.prems" in \<open>subst dec_string.simps, simp\<close>)
qed

lemma rrd_strtodbl_int_string:
  assumes "\<bar>k\<bar> \<le> 2 ^ 53"
  shows "rrd_strtodbl (int_string k) = (2, Fin (of_int k), [])"
proof (cases "k < 0")
  case False
  then show ?thesis
    using rrd_strtodbl_digits [OF dec_string_digits, of "nat k" "[]"] assms
    by (simp add: int_string_def)
next
  case True
  let ?s = "dec_string (nat (- k))"
  have sc: "scan_digits 0 ?s = (Fin (of_int (- k)), [], int (length ?s))"
    using scan_digits_all [OF dec_string_digits, of 0 "nat (- k)" "[]"] assms True
    by (simp add: zero_dbl_def)
  have "rrd_strtod (CHR ''-'' # ?s) = (Fin (of_int k), [])"
    using True by (simp add: rrd_strtod_def is_space_def sc scale10.simps uminus_Fin_nz)
  then show ?thesis using True by (simp add: rrd_strtodbl_def int_string_def)
qed

lemma parse_tok_number:
  assumes "- 32768 \<le> k" "k \<le> 32767"
  shows "parse_tok lookup (int_string k @ CHR '','' # rest) =
    Inr ((rpnp_zero OP_NUMBER)\<lparr>rp_val := dint k\<rparr>, CHR '','' # rest)"
proof -
  have "length (dec_string (nat \<bar>k\<bar>)) \<le> 5" using assms by (intro dec_string_length) auto
  then have "length (int_string k) \<le> 40" by (auto simp: int_string_def abs_if)
  moreover have "list_all is_numchar (int_string k)"
    using dec_string_digits by (auto simp: int_string_def is_numchar_def list_all_iff)
  ultimately have "scan_set 40 is_numchar (int_string k @ CHR '','' # rest) = int_string k"
    by (intro scan_set_token) (auto simp: at_delim_def is_numchar_def is_digit_def)
  moreover have "int_string k \<noteq> []" by (simp add: int_string_def)
  moreover have "rrd_strtodbl (int_string k) = (2, dint k, [])"
    using assms by (simp add: rrd_strtodbl_int_string dint_exact)
  ultimately show ?thesis by (simp add: parse_tok_def Let_def)
qed

text \<open>The nodes that can be printed and read back: constants, data sources with a name that the parser takes for one, and
  the operators of the table of \<open>rpn_compact2str\<close>, which lacks \<open>PREV(x)\<close> (\<open>OP_PREV_OTHER\<close>).\<close>

definition printable :: "(string \<Rightarrow> int) \<Rightarrow> ds_def_t list \<Rightarrow> rpn_cdefds_t \<Rightarrow> bool" where
  "printable lookup dsdef c \<longleftrightarrow>
     rpnc_op c = op_code OP_NUMBER \<and> - 32768 \<le> rpnc_val c \<and> rpnc_val c \<le> 32767
     \<or> rpnc_op c = op_code OP_VARIABLE \<and> 0 \<le> rpnc_val c \<and> rpnc_val c < int (length dsdef)
       \<and> var_name (ds_nam (nthi dsdef (rpnc_val c)))
       \<and> lookup (ds_nam (nthi dsdef (rpnc_val c))) = rpnc_val c
     \<or> rpnc_op c \<in> (\<lambda>(op, nam). op_code op) ` set op_names"

lemma op_code_inj [simp]: "op_code a = op_code b \<longleftrightarrow> a = b"
  by (metis op_of_code_code option.inject)

lemma node_text_op:
  assumes "(op, nam) \<in> set op_names" "rpnc_op c = op_code op"
  shows "node_text dsdef c = nam"
  using assms op_names_unique
  by (fastforce simp: node_text_def addop2str_def Let_def list_all_iff)

lemma parse_node_text:
  assumes p: "printable lookup dsdef c" and e: "expand_node c = Some n"
    and r: "at_delim rest" "rpnc_op c = op_code OP_NUMBER \<Longrightarrow> rest \<noteq> []"
  shows "parse_tok lookup (node_text dsdef c @ rest) = Inr (n, rest)"
proof -
  from p consider
    (num) "rpnc_op c = op_code OP_NUMBER" "- 32768 \<le> rpnc_val c" "rpnc_val c \<le> 32767"
  | (var) "rpnc_op c = op_code OP_VARIABLE" "0 \<le> rpnc_val c"
      "var_name (ds_nam (nthi dsdef (rpnc_val c)))"
      "lookup (ds_nam (nthi dsdef (rpnc_val c))) = rpnc_val c"
  | (op) op nam where "(op, nam) \<in> set op_names" "rpnc_op c = op_code op"
    by (auto simp: printable_def)
  then show ?thesis
  proof cases
    case num
    then obtain cs where "rest = CHR '','' # cs"
      using r by (cases rest) (auto simp: at_delim_def)
    with num e parse_tok_number [OF num(2,3)] show ?thesis
      by (simp add: node_text_def addop2str_def Let_def expand_node_def)
  next
    case var
    then have "parse_tok lookup (ds_nam (nthi dsdef (rpnc_val c)) @ rest) =
      Inr ((rpnp_zero OP_VARIABLE)\<lparr>rp_ptr := rpnc_val c\<rparr>, rest)"
      using r(1) by (intro parse_tok_var) simp_all
    with var e show ?thesis
      by (simp add: node_text_def addop2str_def Let_def expand_node_def)
  next
    case op
    then have "op \<noteq> OP_NUMBER \<and> op \<noteq> OP_VARIABLE \<and> op \<noteq> OP_PREV_OTHER"
      using op_names_unique by (auto simp: list_all_iff)
    with op e parse_tok_op [OF op(1) r(1)] show ?thesis
      by (simp add: node_text_op expand_node_def)
  qed
qed

lemma int_string_nonempty [simp]: "int_string k \<noteq> []"
  by (simp add: int_string_def)

lemma node_text_nonempty: "printable lookup dsdef c \<Longrightarrow> node_text dsdef c \<noteq> []"
  using tables_agree
  by (auto simp: printable_def node_text_op list_all_iff)
    (auto simp: node_text_def addop2str_def Let_def var_name_def)

lemma rpn_expand_Cons:
  "rpn_expand (c # cs) = Some ns \<Longrightarrow>
     \<exists>n ns'. expand_node c = Some n \<and> rpn_expand cs = Some ns' \<and> ns = n # ns'"
  by (auto split: option.splits)

lemma rpn_parse_loop_print:
  assumes "list_all (printable lookup dsdef) cs" "rpn_expand cs = Some ns" "cs \<noteq> []"
    and "rpnc_op (last cs) \<noteq> op_code OP_NUMBER"
  shows "rpn_parse_loop lookup (rpn_compact2str dsdef cs) = Inr ns"
  using assms
proof (induction cs arbitrary: ns rule: induct_list012)
  case (2 c)
  then obtain n where n: "expand_node c = Some n" "ns = [n]" by (auto split: option.splits)
  have "parse_tok lookup (node_text dsdef c) = Inr (n, [])"
    using parse_node_text [of lookup dsdef c n "[]"] 2 n by (simp add: at_delim_def)
  moreover have "node_text dsdef c \<noteq> []" using 2 node_text_nonempty by simp
  ultimately show ?case
    by (subst rpn_parse_loop.simps) (simp add: rpn_compact2str_def n(2))
next
  case (3 c d cs)
  then obtain n ns' where n: "expand_node c = Some n" "rpn_expand (d # cs) = Some ns'" "ns = n # ns'"
    using rpn_expand_Cons [OF "3.prems"(2)] by blast
  let ?rest = "CHR '','' # rpn_compact2str dsdef (d # cs)"
  have "parse_tok lookup (node_text dsdef c @ ?rest) = Inr (n, ?rest)"
    using 3 n(1) by (intro parse_node_text) (simp_all add: at_delim_def)
  moreover have "rpn_compact2str dsdef (c # d # cs) = node_text dsdef c @ ?rest"
    by (simp add: rpn_compact2str_def)
  moreover have "rpn_parse_loop lookup (rpn_compact2str dsdef (d # cs)) = Inr ns'"
    using 3 n(2) by simp
  ultimately show ?case
    by (subst rpn_parse_loop.simps) (simp add: n(3))
qed simp

text \<open>C27: The text that \<open>rpn_compact2str\<close> prints for a stored program without \<open>PREV(x)\<close> is parsed back to the same program.
  The constants are those a \<open>short\<close> holds, a data source is found again by its name, which is no operator or
  number, and the last node is not a constant, which the parser accepts only before a comma. (\<open>PREV(x)\<close> is
  stored, but nothing is printed for it: \<open>prev_other_not_printed\<close>.)\<close>

theorem print_parse_round_trip:
  assumes "list_all (printable lookup dsdef) rpnc" "rpn_expand rpnc = Some rpnp" "rpnc \<noteq> []"
    and "rpnc_op (last rpnc) \<noteq> op_code OP_NUMBER"
  shows "rpn_parse lookup (rpn_compact2str dsdef rpnc) = Inr rpnp"
proof -
  have "rpn_compact2str dsdef rpnc \<noteq> []"
    using assms(1,3) node_text_nonempty [of lookup dsdef "hd rpnc"]
    by (cases rpnc; cases "tl rpnc") (auto simp: rpn_compact2str_def)
  with rpn_parse_loop_print [OF assms] show ?thesis by (simp add: rpn_parse_def)
qed

definition sample_lookup :: "string \<Rightarrow> int" where
  "sample_lookup nam = (if nam = ''temp'' then 0 else if nam = ''in'' then 1 else - 1)"

definition sample_rpnc :: "rpn_cdefds_t list" where
  "sample_rpnc = [\<lparr>rpnc_op = 1, rpnc_val = 1\<rparr>, \<lparr>rpnc_op = 0, rpnc_val = 8\<rparr>, \<lparr>rpnc_op = 11, rpnc_val = 0\<rparr>]"

lemma sample_op_codes: "op_code OP_VARIABLE = 1" "op_code OP_NUMBER = 0" "op_code OP_MUL = 11"
  by (simp_all add: op_code_def op_list_def)

theorem print_parse_round_trip_witness:
  "rpn_compact2str (ds_def sample_rrd) sample_rpnc = ''in,8,*'' \<and>
   rpn_parse sample_lookup ''in,8,*'' = Inr sample_program"
proof -
  have t: "rpn_compact2str (ds_def sample_rrd) sample_rpnc = ''in,8,*''" by code_simp
  have "op_code OP_MUL \<in> (\<lambda>(op, nam). op_code op) ` set op_names"
    by (force simp: op_names_def)
  moreover have "fst (rrd_strtodbl ''in'') \<noteq> 2" by code_simp
  ultimately have "list_all (printable sample_lookup (ds_def sample_rrd)) sample_rpnc"
    by (simp add: sample_rpnc_def printable_def sample_op_codes sample_ds_def sample_lookup_def
        var_name_def is_namechar_def ops_first_def ops_last_def)
  moreover have "rpn_expand sample_rpnc = Some sample_program" by code_simp
  moreover have "sample_rpnc \<noteq> []" "rpnc_op (last sample_rpnc) \<noteq> op_code OP_NUMBER"
    by (simp_all add: sample_rpnc_def sample_op_codes)
  ultimately show ?thesis using print_parse_round_trip t by metis
qed

text \<open>The parser sets only what a node of its operator has.\<close>

lemma parse_tok_form:
  assumes "parse_tok lookup expr = Inr (n, rest)"
  obtains v where "n = (rpnp_zero OP_NUMBER)\<lparr>rp_val := v\<rparr>"
    | op where "n = rpnp_zero op"
    | op nam where "op = OP_VARIABLE \<or> op = OP_PREV_OTHER" "n = (rpnp_zero op)\<lparr>rp_ptr := lookup nam\<rparr>"
  using assms by (auto simp: parse_tok_def parse_prev_other_def Let_def split: if_splits option.splits)

lemma parse_tok_core:
  assumes "parse_tok lookup expr = Inr (n, rest)" and "\<forall>nam. - 32768 \<le> lookup nam \<and> lookup nam \<le> 32767"
  shows "node_core n = n \<and> - 32768 \<le> rp_ptr n \<and> rp_ptr n \<le> 32767"
proof -
  have p: "rp_ptr (rpnp_zero op) = 0" for op by (simp add: rpnp_zero_def)
  from assms(1) show ?thesis
  proof (cases rule: parse_tok_form)
    case (3 op nam)
    then show ?thesis using assms(2) by simp
  qed (simp_all add: p)
qed

lemma rpn_parse_loop_core:
  assumes "rpn_parse_loop lookup expr = Inr ns" "\<forall>nam. - 32768 \<le> lookup nam \<and> lookup nam \<le> 32767"
  shows "list_all (\<lambda>n. node_core n = n \<and> - 32768 \<le> rp_ptr n \<and> rp_ptr n \<le> 32767) ns"
  using assms
proof (induction lookup expr arbitrary: ns rule: rpn_parse_loop.induct)
  case (1 lookup expr)
  show ?case
  proof (cases "expr = []")
    case True
    then show ?thesis using 1(2) by (subst (asm) rpn_parse_loop.simps) simp
  next
    case False
    then obtain n rest where t: "parse_tok lookup expr = Inr (n, rest)"
      using 1(2) by (subst (asm) rpn_parse_loop.simps) (auto split: sum.splits prod.splits)
    note c = parse_tok_core [OF t 1(3)]
    show ?thesis
    proof (cases rest)
      case Nil
      then show ?thesis using 1(2) False t c by (subst (asm) rpn_parse_loop.simps) auto
    next
      case (Cons x xs)
      then obtain ns' where ns': "x = CHR '',''" "rpn_parse_loop lookup xs = Inr ns'" "ns = n # ns'"
        using 1(2) False t by (subst (asm) rpn_parse_loop.simps) (auto split: sum.splits if_splits)
      from 1(1) [OF False t refl Cons ns'(1,2) 1(3)] show ?thesis using c ns'(3) by simp
    qed
  qed
qed

text \<open>C28: What \<open>parseCDEF_DS\<close> stores in a data source is the program it has read: \<open>rpn_expand\<close>, with which the updates
  fetch it, gives back the nodes of the parser, with their constants and data sources (a negative zero
  becomes zero). It has fewer than twenty nodes and none of the operators that make no sense in a data
  source, and nothing else of the data source changes. The indices of data sources fit a \<open>short\<close>.\<close>

theorem parseCDEF_DS_stores:
  assumes "parseCDEF_DS lookup def d = Inr d'" and "\<forall>nam. - 32768 \<le> lookup nam \<and> lookup nam \<le> 32767"
  shows "\<exists>rpnp. rpn_parse lookup def = Inr rpnp \<and> rpn_expand (ds_cdef d') = Some (map plain_zero rpnp) \<and>
    list_all (\<lambda>n. \<not> cdef_forbidden (rp_op n)) rpnp \<and> length (ds_cdef d') < DS_CDEF_MAX_RPN_NODES \<and>
    d'\<lparr>ds_cdef := ds_cdef d\<rparr> = d"
proof -
  obtain rpnp rpnc where p: "rpn_parse lookup def = Inr rpnp"
    "\<not> list_ex (\<lambda>n. cdef_forbidden (rp_op n)) rpnp" "rpn_compact rpnp = Inr rpnc" "d' = d\<lparr>ds_cdef := rpnc\<rparr>"
    using assms(1) by (auto simp: parseCDEF_DS_def split: sum.splits if_splits)
  have c: "compact_nodes rpnp = Inr rpnc" "Suc (length rpnp) \<le> DS_CDEF_MAX_RPN_NODES"
    using p(3) by (auto simp: rpn_compact_def split: if_splits)
  have core: "list_all (\<lambda>n. node_core n = n \<and> - 32768 \<le> rp_ptr n \<and> rp_ptr n \<le> 32767) rpnp"
    using p(1) rpn_parse_loop_core [OF _ assms(2)] by (auto simp: rpn_parse_def split: if_splits)
  then have "map (node_core \<circ> plain_zero) rpnp = map plain_zero rpnp"
    by (simp add: list_all_iff core_plain_zero)
  with expand_stored [OF c(1)] core have "rpn_expand rpnc = Some (map plain_zero rpnp)" by (simp add: list_all_iff)
  with p c compact_nodes_length [of rpnp rpnc] show ?thesis by (auto simp: list_ex_iff list_all_iff)
qed

lemma sample_stored:
  "parseCDEF_DS sample_lookup ''in,8,*'' (sample_ds ''bits'' ''COMPUTE'') =
   Inr ((sample_ds ''bits'' ''COMPUTE'')\<lparr>ds_cdef := sample_rpnc\<rparr>)"
  by code_simp

theorem parseCDEF_DS_stores_witness:
  "\<exists>rpnp. rpn_parse sample_lookup ''in,8,*'' = Inr rpnp \<and> rpn_expand sample_rpnc = Some (map plain_zero rpnp) \<and>
     list_all (\<lambda>n. \<not> cdef_forbidden (rp_op n)) rpnp \<and> length sample_rpnc < DS_CDEF_MAX_RPN_NODES"
  using parseCDEF_DS_stores [OF sample_stored] by (auto simp: sample_lookup_def)

text \<open>\<open>PREV(x)\<close> is stored and printed as nothing.\<close>

lemma prev_other_not_printed:
  "parseCDEF_DS sample_lookup ''PREV(in)'' (sample_ds ''a'' ''COMPUTE'') =
     Inr ((sample_ds ''a'' ''COMPUTE'')\<lparr>ds_cdef := [\<lparr>rpnc_op = op_code OP_PREV_OTHER, rpnc_val = 1\<rparr>]\<rparr>) \<and>
   rpn_compact2str (ds_def sample_rrd) [\<lparr>rpnc_op = op_code OP_PREV_OTHER, rpnc_val = 1\<rparr>] = []"
  by code_simp

text \<open>a decimal integer of at most \<open>2 ^ 53\<close> is read exactly.\<close>

theorem decimal_integer_exact:
  assumes "\<bar>k\<bar> \<le> 2 ^ 53"
  shows "rrd_strtodbl (int_string k) = (2, Fin (of_int k), [])"
  using assms by (rule rrd_strtodbl_int_string)

theorem decimal_integer_exact_witness: "rrd_strtodbl (int_string (- 273)) = (2, Fin (- 273), [])"
  using decimal_integer_exact [of "- 273"] by simp

end
