(* ===== verification/Rrd_Hw_Math.thy ===== *)
theory Rrd_Hw_Math
  imports Rrd_Format
begin

text \<open>
  \<open>rrd_hw_math.c\<close>: the formulas of the additive and the multiplicative Holt-Winters methods,
  the function container \<open>hw_functions_t\<close> and its two instances from \<open>rrd_hw.c\<close>.

  The callers only know the container. What they rely on is the locale \<open>hw_method\<close>: an
  unknown observation never enters a coefficient, an observation that meets the prediction
  leaves the deviation as small as it was, and the identity is neutral for the prediction.
\<close>

section \<open>Additive method\<close>

definition hw_additive_calculate_prediction :: "dbl \<Rightarrow> dbl \<Rightarrow> cint \<Rightarrow> dbl \<Rightarrow> dbl" where
  "hw_additive_calculate_prediction intercept slope null_count seasonal_coef =
     intercept + slope * dint null_count + seasonal_coef"

definition hw_additive_calculate_intercept :: "dbl \<Rightarrow> dbl \<Rightarrow> dbl \<Rightarrow> cdp_prep_t \<Rightarrow> dbl" where
  "hw_additive_calculate_intercept alpha observed seasonal_coef coefs =
     alpha * (observed - seasonal_coef)
     + (1 - alpha) * (cdp_hw_intercept coefs + cdp_hw_slope coefs * dint (cdp_null_count coefs))"

definition hw_additive_calculate_seasonality :: "dbl \<Rightarrow> dbl \<Rightarrow> dbl \<Rightarrow> dbl \<Rightarrow> dbl" where
  "hw_additive_calculate_seasonality gamma observed intercept seasonal_coef =
     gamma * (observed - intercept) + (1 - gamma) * seasonal_coef"

definition hw_additive_init_seasonality :: "dbl \<Rightarrow> dbl \<Rightarrow> dbl" where
  "hw_additive_init_seasonality seasonal_coef intercept = seasonal_coef - intercept"

section \<open>Multiplicative method\<close>

definition hw_multiplicative_calculate_prediction :: "dbl \<Rightarrow> dbl \<Rightarrow> cint \<Rightarrow> dbl \<Rightarrow> dbl" where
  "hw_multiplicative_calculate_prediction intercept slope null_count seasonal_coef =
     (intercept + slope * dint null_count) * seasonal_coef"

definition hw_multiplicative_calculate_intercept :: "dbl \<Rightarrow> dbl \<Rightarrow> dbl \<Rightarrow> cdp_prep_t \<Rightarrow> dbl" where
  "hw_multiplicative_calculate_intercept alpha observed seasonal_coef coefs =
     (if seasonal_coef \<le> 0 then NaN
      else alpha * (observed / seasonal_coef)
           + (1 - alpha)
             * (cdp_hw_intercept coefs + cdp_hw_slope coefs * dint (cdp_null_count coefs)))"

definition hw_multiplicative_calculate_seasonality :: "dbl \<Rightarrow> dbl \<Rightarrow> dbl \<Rightarrow> dbl \<Rightarrow> dbl" where
  "hw_multiplicative_calculate_seasonality gamma observed intercept seasonal_coef =
     (if intercept \<le> 0 then NaN
      else gamma * (observed / intercept) + (1 - gamma) * seasonal_coef)"

definition hw_multiplicative_init_seasonality :: "dbl \<Rightarrow> dbl \<Rightarrow> dbl" where
  "hw_multiplicative_init_seasonality seasonal_coef intercept =
     (if intercept \<le> 0 then NaN else seasonal_coef / intercept)"

section \<open>Common functions\<close>

definition hw_calculate_slope :: "dbl \<Rightarrow> cdp_prep_t \<Rightarrow> dbl" where
  "hw_calculate_slope beta coefs =
     beta * (cdp_hw_intercept coefs - cdp_hw_last_intercept coefs)
     + (1 - beta) * cdp_hw_slope coefs"

definition hw_calculate_seasonal_deviation :: "dbl \<Rightarrow> dbl \<Rightarrow> dbl \<Rightarrow> dbl \<Rightarrow> dbl" where
  "hw_calculate_seasonal_deviation gamma prediction observed last_dev =
     gamma * dfabs (prediction - observed) + (1 - gamma) * last_dev"

definition hw_init_seasonal_deviation :: "dbl \<Rightarrow> dbl \<Rightarrow> dbl" where
  "hw_init_seasonal_deviation prediction observed = dfabs (prediction - observed)"

section \<open>The function container\<close>

record hw_functions_t =
  predict :: "dbl \<Rightarrow> dbl \<Rightarrow> cint \<Rightarrow> dbl \<Rightarrow> dbl"
  intercept :: "dbl \<Rightarrow> dbl \<Rightarrow> dbl \<Rightarrow> cdp_prep_t \<Rightarrow> dbl"
  slope :: "dbl \<Rightarrow> cdp_prep_t \<Rightarrow> dbl"
  seasonality :: "dbl \<Rightarrow> dbl \<Rightarrow> dbl \<Rightarrow> dbl \<Rightarrow> dbl"
  init_seasonality :: "dbl \<Rightarrow> dbl \<Rightarrow> dbl"
  seasonal_deviation :: "dbl \<Rightarrow> dbl \<Rightarrow> dbl \<Rightarrow> dbl \<Rightarrow> dbl"
  init_seasonal_deviation :: "dbl \<Rightarrow> dbl \<Rightarrow> dbl"
  identity :: dbl

definition hw_multiplicative_functions :: hw_functions_t where
  "hw_multiplicative_functions =
     \<lparr>predict = hw_multiplicative_calculate_prediction,
      intercept = hw_multiplicative_calculate_intercept,
      slope = hw_calculate_slope,
      seasonality = hw_multiplicative_calculate_seasonality,
      init_seasonality = hw_multiplicative_init_seasonality,
      seasonal_deviation = hw_calculate_seasonal_deviation,
      init_seasonal_deviation = hw_init_seasonal_deviation,
      identity = 1\<rparr>"

definition hw_additive_functions :: hw_functions_t where
  "hw_additive_functions =
     \<lparr>predict = hw_additive_calculate_prediction,
      intercept = hw_additive_calculate_intercept,
      slope = hw_calculate_slope,
      seasonality = hw_additive_calculate_seasonality,
      init_seasonality = hw_additive_init_seasonality,
      seasonal_deviation = hw_calculate_seasonal_deviation,
      init_seasonal_deviation = hw_init_seasonal_deviation,
      identity = 0\<rparr>"

section \<open>What the callers rely on\<close>

locale hw_method =
  fixes fs :: hw_functions_t
  assumes predict_unknown: "isnan a \<or> isnan b \<or> isnan s \<Longrightarrow> isnan (predict fs a b n s)"
    and predict_identity:
      "a + b * dint n \<noteq> NZero \<Longrightarrow> predict fs a b n (identity fs) = a + b * dint n"
    and identity_known: "\<not> isnan (identity fs)"
    and init_deviation_nonneg:
      "isnan (init_seasonal_deviation fs p v) \<or> 0 \<le> init_seasonal_deviation fs p v"
    and deviation_nonneg:
      "0 \<le> g \<Longrightarrow> g \<le> 1 \<Longrightarrow> 0 \<le> d \<Longrightarrow>
       isnan (seasonal_deviation fs g p v d) \<or> 0 \<le> seasonal_deviation fs g p v d"
begin

text \<open>A flat model with the neutral seasonal coefficient predicts its intercept.\<close>

lemma predict_flat:
  assumes "dbl_ok a" and "a \<noteq> NZero" and "\<bar>n\<bar> \<le> 2 ^ 53"
  shows "predict fs a 0 n (identity fs) = a"
proof -
  have "0 * dint n = Fin 0 \<or> 0 * dint n = NZero"
    using assms(3) by (cases "n < 0") (auto simp: times_dbl_def zero_dbl_def dint_exact)
  with assms(1,2) have "a + 0 * dint n = a"
    by (cases a) (auto simp: plus_dbl_def dpack_exact)
  with predict_identity [of a 0 n] assms(2) show ?thesis by simp
qed

end

lemma one_minus_nonneg: "0 \<le> g \<Longrightarrow> g \<le> 1 \<Longrightarrow> (0 :: dbl) \<le> 1 - g"
  by (rule dbl_diff_nonneg) (auto simp: isinf_def dbl_order_defs zero_dbl_def one_dbl_def)

lemma hw_calculate_seasonal_deviation_nonneg:
  assumes "0 \<le> g" "g \<le> 1" "0 \<le> d"
  shows "isnan (hw_calculate_seasonal_deviation g p v d) \<or> 0 \<le> hw_calculate_seasonal_deviation g p v d"
proof (cases "isnan (p - v)")
  case True
  then show ?thesis by (simp add: hw_calculate_seasonal_deviation_def isnan_def dfabs_def)
next
  case False
  then have "0 \<le> dfabs (p - v)" using dfabs_nonneg by blast
  with dbl_mult_nonneg [OF assms(1)] dbl_mult_nonneg [OF one_minus_nonneg [OF assms(1,2)] assms(3)]
  have "isnan (g * dfabs (p - v)) \<or> 0 \<le> g * dfabs (p - v)"
    "isnan ((1 - g) * d) \<or> 0 \<le> (1 - g) * d" by blast+
  then show ?thesis
    using dbl_add_nonneg by (auto simp: hw_calculate_seasonal_deviation_def isnan_def)
qed

lemma hw_init_seasonal_deviation_nonneg:
  "isnan (hw_init_seasonal_deviation p v) \<or> 0 \<le> hw_init_seasonal_deviation p v"
  using dfabs_nonneg [of "p - v"]
  by (auto simp: hw_init_seasonal_deviation_def isnan_def dfabs_def)

lemma known_consts: "NaN \<noteq> 0" "NaN \<noteq> 1" "0 \<noteq> NaN" "1 \<noteq> NaN"
  by (simp_all add: zero_dbl_def one_dbl_def)

interpretation hw_add: hw_method hw_additive_functions
  by unfold_locales
    (auto simp: hw_additive_functions_def hw_additive_calculate_prediction_def isnan_def dbl_add_0
      hw_init_seasonal_deviation_nonneg [unfolded isnan_def]
      hw_calculate_seasonal_deviation_nonneg [unfolded isnan_def] known_consts)

interpretation hw_mult: hw_method hw_multiplicative_functions
  by unfold_locales
    (auto simp: hw_multiplicative_functions_def hw_multiplicative_calculate_prediction_def isnan_def
      hw_init_seasonal_deviation_nonneg [unfolded isnan_def]
      hw_calculate_seasonal_deviation_nonneg [unfolded isnan_def] known_consts)

end
