(* ===== verification/Rrd_Hw_Update.thy ===== *)
theory Rrd_Hw_Update
  imports Rrd_Hw_Math Rrd_Sample
begin

text \<open>
  \<open>rrd_hw_update.c\<close>: the update of the prediction, seasonal, deviation and failure archives by
  one observation. The observation is found in, and the value for the archive is left in, the
  element \<open>CDP_scratch_idx\<close> of the archive's own \<open>cdp_prep\<close> entry. Which of two cached
  coefficients of another archive is the one of the current step depends on whether that
  archive comes before this one in the file.
\<close>

section \<open>Access to the preparation areas\<close>

text \<open>An index outside of the array, which a database with a wrong index of a dependent archive leads to (\<open>rrd_create\<close> does not
  check it), is an access out of bounds in C. Here the value that is read is unspecified, and a write
  has no effect: about such databases the model says nothing.\<close>

definition cdp_at :: "rrd_t \<Rightarrow> ulong \<Rightarrow> cdp_prep_t" where
  "cdp_at rrd i = nthi (cdp_prep rrd) i"

definition cdp_upd :: "rrd_t \<Rightarrow> ulong \<Rightarrow> (cdp_prep_t \<Rightarrow> cdp_prep_t) \<Rightarrow> rrd_t" where
  "cdp_upd rrd i f = rrd\<lparr>cdp_prep := updi (cdp_prep rrd) i (f (cdp_at rrd i))\<rparr>"

definition rra_at :: "rrd_t \<Rightarrow> ulong \<Rightarrow> rra_def_t" where
  "rra_at rrd i = nthi (rra_def rrd) i"

text \<open>\<open>rra_idx * ds_cnt + ds_idx\<close>\<close>

definition cdp_index :: "rrd_t \<Rightarrow> ulong \<Rightarrow> ulong \<Rightarrow> ulong" where
  "cdp_index rrd rra_idx ds_idx = rra_idx * ds_cnt (stat_head rrd) + ds_idx"

section \<open>Definitions\<close>

definition init_slope_intercept :: "scratch_idx \<Rightarrow> cdp_prep_t \<Rightarrow> cdp_prep_t" where
  "init_slope_intercept sidx coefs =
     coefs\<lparr>cdp_hw_intercept := scratch_get sidx coefs,
           cdp_hw_last_intercept := scratch_get sidx coefs,
           cdp_hw_slope := 0,
           cdp_hw_last_slope := 0,
           cdp_null_count := 1,
           cdp_last_null_count := 1\<rparr>"

definition hw_is_violation :: "dbl \<Rightarrow> dbl \<Rightarrow> dbl \<Rightarrow> dbl \<Rightarrow> dbl \<Rightarrow> bool" where
  "hw_is_violation observed prediction deviation delta_pos delta_neg \<longleftrightarrow>
     observed > prediction + delta_pos * deviation \<or> observed < prediction - delta_neg * deviation"

definition hwpredict_coefs ::
  "hw_functions_t \<Rightarrow> rra_def_t \<Rightarrow> dbl \<Rightarrow> scratch_idx \<Rightarrow> cdp_prep_t \<Rightarrow> cdp_prep_t" where
  "hwpredict_coefs fs current_rra seasonal_coef sidx coefs =
     (if isnan (cdp_hw_intercept coefs) \<or> isnan (cdp_hw_slope coefs) \<or> isnan seasonal_coef
      then scratch_set sidx NaN
             (if isnan (cdp_hw_intercept coefs) \<and> \<not> isnan (scratch_get sidx coefs)
              then init_slope_intercept sidx coefs else coefs)
      else
        let prediction = predict fs (cdp_hw_intercept coefs) (cdp_hw_slope coefs)
              (s32 (cdp_null_count coefs)) seasonal_coef
        in scratch_set sidx prediction
             (if isnan (scratch_get sidx coefs)
              then coefs\<lparr>cdp_null_count := u64 (cdp_null_count coefs + 1)\<rparr>
              else
                let c1 = coefs\<lparr>cdp_hw_intercept :=
                      intercept fs (rra_hw_alpha current_rra) (scratch_get sidx coefs)
                        seasonal_coef coefs\<rparr>;
                    c2 = c1\<lparr>cdp_hw_slope := slope fs (rra_hw_beta current_rra) c1\<rparr>
                in c2\<lparr>cdp_null_count := 1\<rparr>))"

definition update_hwpredict ::
  "rrd_t \<Rightarrow> ulong \<Rightarrow> ulong \<Rightarrow> ulong \<Rightarrow> scratch_idx \<Rightarrow> hw_functions_t \<Rightarrow> rrd_t" where
  "update_hwpredict rrd cdp_idx rra_idx ds_idx sidx fs =
     (let rrd1 = cdp_upd rrd cdp_idx (\<lambda>coefs.
            coefs\<lparr>cdp_hw_last_intercept := cdp_hw_intercept coefs,
                  cdp_hw_last_slope := cdp_hw_slope coefs,
                  cdp_last_null_count := cdp_null_count coefs\<rparr>);
          current_rra = rra_at rrd rra_idx;
          dep = rra_dependent_rra_idx current_rra;
          sc = cdp_at rrd1 (cdp_index rrd dep ds_idx);
          seasonal_coef = (if dep < rra_idx then cdp_hw_last_seasonal sc else cdp_hw_seasonal sc)
      in cdp_upd rrd1 cdp_idx (hwpredict_coefs fs current_rra seasonal_coef sidx))"

text \<open>The value of a seasonal archive, from the coefficients of its prediction archive.\<close>

definition seasonal_value ::
  "hw_functions_t \<Rightarrow> rra_def_t \<Rightarrow> rra_def_t \<Rightarrow> bool \<Rightarrow> cdp_prep_t \<Rightarrow> dbl \<Rightarrow> dbl \<Rightarrow> dbl" where
  "seasonal_value fs current_rra hw_rra hw_done coefs seasonal v =
     (if hw_done
      then (if isnan (cdp_hw_last_intercept coefs) \<or> isnan (cdp_hw_last_slope coefs) then NaN
            else if isnan seasonal then init_seasonality fs v (cdp_hw_last_intercept coefs)
            else seasonality fs (rra_seasonal_gamma current_rra) v (cdp_hw_intercept coefs) seasonal)
      else (if isnan (cdp_hw_intercept coefs) \<or> isnan (cdp_hw_slope coefs) then identity fs
            else if isnan seasonal then init_seasonality fs v (cdp_hw_intercept coefs)
            else seasonality fs (rra_seasonal_gamma current_rra) v
                   (intercept fs (rra_hw_alpha hw_rra) v seasonal coefs) seasonal))"

definition update_seasonal ::
  "rrd_t \<Rightarrow> ulong \<Rightarrow> ulong \<Rightarrow> ulong \<Rightarrow> scratch_idx \<Rightarrow> dbl list \<Rightarrow> hw_functions_t \<Rightarrow> rrd_t" where
  "update_seasonal rrd cdp_idx rra_idx ds_idx sidx seasonal_coef fs =
     (let current_rra = rra_at rrd rra_idx;
          dep = rra_dependent_rra_idx current_rra;
          hw_rra = rra_at rrd dep;
          hw_cdp_idx = cdp_index rrd dep ds_idx;
          seasonal = cdp_hw_seasonal (cdp_at rrd cdp_idx);
          rrd1 = cdp_upd rrd cdp_idx (\<lambda>c.
            c\<lparr>cdp_hw_last_intercept := seasonal, cdp_hw_intercept := nthi seasonal_coef ds_idx\<rparr>);
          v = scratch_get sidx (cdp_at rrd1 cdp_idx)
      in if isnan v then cdp_upd rrd1 cdp_idx (scratch_set sidx seasonal)
         else cdp_upd rrd1 cdp_idx (scratch_set sidx
                (seasonal_value fs current_rra hw_rra (dep < rra_idx) (cdp_at rrd1 hw_cdp_idx)
                   seasonal v)))"

definition update_devpredict ::
  "rrd_t \<Rightarrow> ulong \<Rightarrow> ulong \<Rightarrow> ulong \<Rightarrow> scratch_idx \<Rightarrow> rrd_t" where
  "update_devpredict rrd cdp_idx rra_idx ds_idx sidx =
     (let dep = rra_dependent_rra_idx (rra_at rrd rra_idx);
          sc = cdp_at rrd (cdp_index rrd dep ds_idx)
      in cdp_upd rrd cdp_idx (scratch_set sidx
           (if dep < rra_idx then cdp_last_seasonal_deviation sc else cdp_seasonal_deviation sc)))"

text \<open>The prediction an archive compares with: the one made before the current step.\<close>

definition step_prediction :: "hw_functions_t \<Rightarrow> bool \<Rightarrow> cdp_prep_t \<Rightarrow> dbl \<Rightarrow> dbl" where
  "step_prediction fs hw_done coefs seasonal_coef =
     (if hw_done
      then predict fs (cdp_hw_last_intercept coefs) (cdp_hw_last_slope coefs)
             (s32 (cdp_last_null_count coefs)) seasonal_coef
      else predict fs (cdp_hw_intercept coefs) (cdp_hw_slope coefs)
             (s32 (cdp_null_count coefs)) seasonal_coef)"

definition step_uninitialized :: "bool \<Rightarrow> cdp_prep_t \<Rightarrow> dbl \<Rightarrow> bool" where
  "step_uninitialized hw_done coefs seasonal_coef \<longleftrightarrow>
     (if hw_done
      then isnan (cdp_hw_last_intercept coefs) \<or> isnan (cdp_hw_last_slope coefs)
      else isnan (cdp_hw_intercept coefs) \<or> isnan (cdp_hw_slope coefs)) \<or> isnan seasonal_coef"

definition update_devseasonal ::
  "rrd_t \<Rightarrow> ulong \<Rightarrow> ulong \<Rightarrow> ulong \<Rightarrow> scratch_idx \<Rightarrow> dbl list \<Rightarrow> hw_functions_t \<Rightarrow> rrd_t" where
  "update_devseasonal rrd cdp_idx rra_idx ds_idx sidx seasonal_dev fs =
     (let current_rra = rra_at rrd rra_idx;
          hw_rra_idx = rra_dependent_rra_idx current_rra;
          hw_cdp_idx = cdp_index rrd hw_rra_idx ds_idx;
          rrd1 = cdp_upd rrd cdp_idx (\<lambda>c.
            c\<lparr>cdp_hw_last_intercept := cdp_seasonal_deviation c,
              cdp_hw_intercept := nthi seasonal_dev ds_idx\<rparr>);
          seasonal_rra_idx = rra_dependent_rra_idx (rra_at rrd hw_rra_idx);
          sc = cdp_at rrd1 (cdp_index rrd seasonal_rra_idx ds_idx);
          seasonal_coef = (if seasonal_rra_idx < rra_idx
                           then cdp_hw_last_seasonal sc else cdp_hw_seasonal sc);
          coefs = cdp_at rrd1 hw_cdp_idx;
          c1 = cdp_at rrd1 cdp_idx;
          v = scratch_get sidx c1;
          hw_done = (hw_rra_idx < rra_idx)
      in if step_uninitialized hw_done coefs seasonal_coef
         then cdp_upd rrd1 cdp_idx (scratch_set sidx NaN)
         else let prediction = step_prediction fs hw_done coefs seasonal_coef
              in cdp_upd rrd1 cdp_idx (scratch_set sidx
                   (if isnan v then cdp_last_seasonal_deviation c1
                    else if isnan (cdp_last_seasonal_deviation c1)
                    then init_seasonal_deviation fs prediction v
                    else seasonal_deviation fs (rra_seasonal_gamma current_rra) prediction v
                           (cdp_last_seasonal_deviation c1))))"

text \<open>The shifting loop of \<open>update_failures\<close>, from the end of the window; \<open>violation_cnt\<close> is an
  \<open>unsigned short\<close>.\<close>

fun shift_violations :: "nat \<Rightarrow> int list \<Rightarrow> int \<Rightarrow> int list \<times> int" where
  "shift_violations (Suc (Suc i)) vs cnt =
     (let vs' = vs[Suc i := vs ! i] in shift_violations (Suc i) vs' (u16 (cnt + vs' ! Suc i)))"
| "shift_violations i vs cnt = (vs, cnt)"

text \<open>Whether the current observation is a violation. An unknown deviation makes it none.\<close>

definition failure_violation ::
  "rrd_t \<Rightarrow> ulong \<Rightarrow> ulong \<Rightarrow> ulong \<Rightarrow> scratch_idx \<Rightarrow> hw_functions_t \<Rightarrow> int" where
  "failure_violation rrd cdp_idx rra_idx ds_idx sidx fs =
     (let current_rra = rra_at rrd rra_idx;
          dev_rra_idx = rra_dependent_rra_idx current_rra;
          hw_rra_idx = rra_dependent_rra_idx (rra_at rrd dev_rra_idx);
          seasonal_rra_idx = rra_dependent_rra_idx (rra_at rrd hw_rra_idx);
          dc = cdp_at rrd (cdp_index rrd dev_rra_idx ds_idx);
          deviation = (if rra_idx < seasonal_rra_idx
                       then cdp_seasonal_deviation dc else cdp_last_seasonal_deviation dc);
          sc = cdp_at rrd (cdp_index rrd seasonal_rra_idx ds_idx);
          seasonal_coef = (if rra_idx < seasonal_rra_idx
                           then cdp_hw_seasonal sc else cdp_hw_last_seasonal sc);
          prediction = step_prediction fs (\<not> rra_idx < hw_rra_idx)
            (cdp_at rrd (cdp_index rrd hw_rra_idx ds_idx)) seasonal_coef;
          v = scratch_get sidx (cdp_at rrd cdp_idx)
      in if isnan deviation then 0
         else if isnan v then 1
         else if hw_is_violation v prediction deviation
                   (rra_delta_pos current_rra) (rra_delta_neg current_rra)
         then 1 else 0)"

definition update_failures ::
  "rrd_t \<Rightarrow> ulong \<Rightarrow> ulong \<Rightarrow> ulong \<Rightarrow> scratch_idx \<Rightarrow> hw_functions_t \<Rightarrow> rrd_t" where
  "update_failures rrd cdp_idx rra_idx ds_idx sidx fs =
     (let current_rra = rra_at rrd rra_idx;
          violation = failure_violation rrd cdp_idx rra_idx ds_idx sidx fs;
          (vs, cnt) = shift_violations (nat (u16 (rra_window_len current_rra)))
            (violations (cdp_at rrd cdp_idx)) violation
      in cdp_upd rrd cdp_idx (\<lambda>c.
           scratch_set sidx (if cnt < rra_failure_threshold current_rra then 0 else 1)
             (c\<lparr>violations := vs[0 := violation]\<rparr>)))"

section \<open>Access lemmas\<close>

lemma cdp_at_upd [simp]:
  "0 \<le> i \<Longrightarrow> i < int (length (cdp_prep rrd)) \<Longrightarrow> cdp_at (cdp_upd rrd i f) i = f (cdp_at rrd i)"
  by (simp add: cdp_at_def cdp_upd_def nat_less_iff)

lemma cdp_at_upd_other: "nat i \<noteq> nat j \<Longrightarrow> cdp_at (cdp_upd rrd i f) j = cdp_at rrd j"
  by (simp add: cdp_at_def cdp_upd_def)

lemma cdp_upd_fields [simp]:
  "stat_head (cdp_upd rrd i f) = stat_head rrd" "ds_def (cdp_upd rrd i f) = ds_def rrd"
  "rra_def (cdp_upd rrd i f) = rra_def rrd" "live_head (cdp_upd rrd i f) = live_head rrd"
  "pdp_prep (cdp_upd rrd i f) = pdp_prep rrd" "rra_ptr (cdp_upd rrd i f) = rra_ptr rrd"
  "legacy_last_up (cdp_upd rrd i f) = legacy_last_up rrd"
  "length (cdp_prep (cdp_upd rrd i f)) = length (cdp_prep rrd)"
  by (simp_all add: cdp_upd_def)

lemma scratch_get_set [simp]: "scratch_get s (scratch_set s v c) = v"
  by (cases s) simp_all

lemma scratch_set_fields [simp]:
  "cdp_val (scratch_set s v c) = cdp_val c"
  "cdp_unkn_pdp_cnt (scratch_set s v c) = cdp_unkn_pdp_cnt c"
  "cdp_hw_intercept (scratch_set s v c) = cdp_hw_intercept c"
  "cdp_hw_last_intercept (scratch_set s v c) = cdp_hw_last_intercept c"
  "cdp_hw_slope (scratch_set s v c) = cdp_hw_slope c"
  "cdp_hw_last_slope (scratch_set s v c) = cdp_hw_last_slope c"
  "cdp_null_count (scratch_set s v c) = cdp_null_count c"
  "cdp_last_null_count (scratch_set s v c) = cdp_last_null_count c"
  "violations (scratch_set s v c) = violations c"
  by (cases s; simp)+

lemma scratch_get_update [simp]:
  "scratch_get s (c\<lparr>cdp_hw_intercept := x\<rparr>) = scratch_get s c"
  "scratch_get s (c\<lparr>cdp_hw_last_intercept := x\<rparr>) = scratch_get s c"
  "scratch_get s (c\<lparr>cdp_hw_slope := x\<rparr>) = scratch_get s c"
  "scratch_get s (c\<lparr>cdp_null_count := k\<rparr>) = scratch_get s c"
  "scratch_get s (c\<lparr>violations := vs\<rparr>) = scratch_get s c"
  by (cases s; simp)+

text \<open>Only preparation areas change, and not their number.\<close>

definition cdp_only :: "rrd_t \<Rightarrow> rrd_t \<Rightarrow> bool" where
  "cdp_only rrd rrd' \<longleftrightarrow>
     rrd' = rrd\<lparr>cdp_prep := cdp_prep rrd'\<rparr> \<and> length (cdp_prep rrd') = length (cdp_prep rrd)"

lemma cdp_only_refl [simp]: "cdp_only rrd rrd"
  by (simp add: cdp_only_def)

lemma cdp_only_upd [simp]: "cdp_only rrd (cdp_upd rrd i f)"
  by (simp add: cdp_only_def cdp_upd_def)

lemma cdp_only_trans [trans]:
  assumes "cdp_only a b" and "cdp_only b c"
  shows "cdp_only a c"
proof -
  have "b = a\<lparr>cdp_prep := cdp_prep b\<rparr>" "c = b\<lparr>cdp_prep := cdp_prep c\<rparr>"
    using assms by (auto simp: cdp_only_def)
  then have "c = a\<lparr>cdp_prep := cdp_prep c\<rparr>" by (metis rrd_t.surjective rrd_t.update_convs(7))
  with assms show ?thesis by (simp add: cdp_only_def)
qed

lemma cdp_only_upd2 [simp]: "cdp_only rrd (cdp_upd (cdp_upd rrd i f) j g)"
  by (rule cdp_only_trans [OF cdp_only_upd cdp_only_upd])

lemma cdp_only_fields:
  assumes "cdp_only rrd rrd'"
  shows "stat_head rrd' = stat_head rrd" "ds_def rrd' = ds_def rrd" "rra_def rrd' = rra_def rrd"
    "live_head rrd' = live_head rrd" "legacy_last_up rrd' = legacy_last_up rrd"
    "pdp_prep rrd' = pdp_prep rrd" "rra_ptr rrd' = rra_ptr rrd"
    "length (cdp_prep rrd') = length (cdp_prep rrd)"
  using assms by (metis cdp_only_def rrd_t.update_convs(7) rrd_t.select_convs rrd_t.surjective)+

lemma hw_updates_cdp_only [simp]:
  "cdp_only rrd (update_hwpredict rrd ci ri di s fs)"
  "cdp_only rrd (update_seasonal rrd ci ri di s sc fs)"
  "cdp_only rrd (update_devpredict rrd ci ri di s)"
  "cdp_only rrd (update_devseasonal rrd ci ri di s sc fs)"
  "cdp_only rrd (update_failures rrd ci ri di s fs)"
  by (simp_all add: update_hwpredict_def update_seasonal_def update_devpredict_def
      update_devseasonal_def update_failures_def Let_def split_beta)

section \<open>Predictions\<close>

text \<open>Without an observation the level and the slope stay and the gap is counted.\<close>

lemma hwpredict_unknown_observation:
  assumes "isnan (scratch_get sidx c)"
  shows "cdp_hw_intercept (hwpredict_coefs fs rra s sidx c) = cdp_hw_intercept c"
    and "cdp_hw_slope (hwpredict_coefs fs rra s sidx c) = cdp_hw_slope c"
  using assms by (simp_all add: hwpredict_coefs_def Let_def)

context hw_method
begin

text \<open>The first known observation becomes the level, and the first prediction afterwards, with
  the neutral seasonal coefficient, is that level.\<close>

lemma bootstrap_prediction:
  assumes "isnan (cdp_hw_intercept c)" and "\<not> isnan v" and "dbl_ok v" and "v \<noteq> NZero"
    and "c1 = hwpredict_coefs fs rra s sidx (scratch_set sidx v c)"
  shows "isnan (scratch_get sidx c1)" and "cdp_hw_intercept c1 = v"
    and "scratch_get sidx' (hwpredict_coefs fs rra (identity fs) sidx' (scratch_set sidx' w c1)) = v"
proof -
  have c1: "c1 = scratch_set sidx NaN (init_slope_intercept sidx (scratch_set sidx v c))"
    using assms by (simp add: hwpredict_coefs_def)
  show "isnan (scratch_get sidx c1)" "cdp_hw_intercept c1 = v"
    by (simp_all add: c1 init_slope_intercept_def)
  have "predict fs v 0 (s32 1) (identity fs) = v"
    using assms by (intro predict_flat) (simp_all add: s32_def)
  with assms(2) identity_known
  show "scratch_get sidx' (hwpredict_coefs fs rra (identity fs) sidx' (scratch_set sidx' w c1)) = v"
    by (simp add: hwpredict_coefs_def c1 init_slope_intercept_def Let_def)
qed

text \<open>Deviations are never negative.\<close>

lemma update_devseasonal_nonneg:
  assumes "0 \<le> cdp_idx" and "cdp_idx < int (length (cdp_prep rrd))"
    and "0 \<le> rra_seasonal_gamma (rra_at rrd rra_idx)" and "rra_seasonal_gamma (rra_at rrd rra_idx) \<le> 1"
    and "isnan (cdp_seasonal_deviation (cdp_at rrd cdp_idx)) \<or>
         0 \<le> cdp_seasonal_deviation (cdp_at rrd cdp_idx)"
    and "d = scratch_get sidx
           (cdp_at (update_devseasonal rrd cdp_idx rra_idx ds_idx sidx sd fs) cdp_idx)"
  shows "isnan d \<or> 0 \<le> d"
proof -
  let ?dev = "cdp_seasonal_deviation (cdp_at rrd cdp_idx)"
  have "isnan d \<or> d = ?dev \<or> (\<exists>p v. d = init_seasonal_deviation fs p v) \<or>
      \<not> isnan ?dev \<and> (\<exists>p v. d = seasonal_deviation fs (rra_seasonal_gamma (rra_at rrd rra_idx)) p v ?dev)"
    unfolding assms(6) update_devseasonal_def Let_def using assms(1,2) by auto
  with assms(5) init_deviation_nonneg deviation_nonneg [OF assms(3,4)] show ?thesis by blast
qed

end

section \<open>Failures\<close>

lemma shift_violations_window:
  assumes "Suc i \<le> length vs" and "list_all (\<lambda>v. v = 0 \<or> v = 1) vs" and "0 \<le> c"
    and "c + int i < 2 ^ 16"
  shows "shift_violations (Suc i) vs c =
           (take 1 vs @ take i vs @ drop (Suc i) vs, c + sum_list (take i vs))"
  using assms
proof (induction i arbitrary: vs c)
  case 0
  then show ?case by (cases vs) auto
next
  case (Suc i)
  let ?vs = "vs[Suc i := vs ! i]"
  have len: "i < length vs" "Suc i < length vs" using Suc.prems(1) by simp_all
  have v: "vs ! i = 0 \<or> vs ! i = 1" using Suc.prems(2) len by (simp add: list_all_length)
  have ok: "list_all (\<lambda>v. v = 0 \<or> v = 1) ?vs"
    using Suc.prems(2) v
    by (auto simp: list_all_iff dest!: set_update_subset_insert [THEN subsetD])
  have c: "u16 (c + vs ! i) = c + vs ! i" using v Suc.prems(3,4) by (auto simp: u16_def)
  have "shift_violations (Suc i) ?vs (c + vs ! i) =
      (take 1 ?vs @ take i ?vs @ drop (Suc i) ?vs, c + vs ! i + sum_list (take i ?vs))"
    using Suc.prems v ok by (intro Suc.IH) auto
  moreover have "take i ?vs @ drop (Suc i) ?vs = take (Suc i) vs @ drop (Suc (Suc i)) vs"
    using len by (simp add: take_Suc_conv_app_nth Cons_nth_drop_Suc [symmetric])
  moreover have "take 1 ?vs = take 1 vs" by (cases vs) auto
  ultimately show ?case
    using len c by (simp add: Let_def take_Suc_conv_app_nth)
qed

lemma failure_violation_range:
  "failure_violation rrd cdp_idx rra_idx ds_idx sidx fs = 0 \<or>
   failure_violation rrd cdp_idx rra_idx ds_idx sidx fs = 1"
  by (simp add: failure_violation_def Let_def)

text \<open>The window holds the latest violations, and the archive value tells whether there are
  as many as the threshold.\<close>

lemma update_failures_cdp:
  assumes "0 \<le> cdp_idx" and "cdp_idx < int (length (cdp_prep rrd))"
    and w: "rra_window_len (rra_at rrd rra_idx) = int w" "0 < w" "w < 2 ^ 16"
    and vs: "violations (cdp_at rrd cdp_idx) = vs" "w \<le> length vs" "list_all (\<lambda>v. v = 0 \<or> v = 1) vs"
    and c': "c' = cdp_at (update_failures rrd cdp_idx rra_idx ds_idx sidx fs) cdp_idx"
    and v: "v = failure_violation rrd cdp_idx rra_idx ds_idx sidx fs"
  shows "take w (violations c') = v # take (w - 1) vs"
    and "scratch_get sidx c' =
      (if sum_list (take w (violations c')) < rra_failure_threshold (rra_at rrd rra_idx) then 0 else 1)"
proof -
  obtain i where i: "w = Suc i" using w(2) by (cases w) auto
  have "nat (u16 (int w)) = Suc i" using w i by (simp add: u16_def)
  moreover have "v = 0 \<or> v = 1" unfolding v by (rule failure_violation_range)
  then have "shift_violations (Suc i) vs v =
      (take 1 vs @ take i vs @ drop (Suc i) vs, v + sum_list (take i vs))"
    using vs w i by (intro shift_violations_window) auto
  ultimately have c3: "c' = scratch_set sidx
      (if v + sum_list (take i vs) < rra_failure_threshold (rra_at rrd rra_idx) then 0 else 1)
      ((cdp_at rrd cdp_idx)\<lparr>violations := (take 1 vs @ take i vs @ drop (Suc i) vs)[0 := v]\<rparr>)"
    unfolding c' update_failures_def Let_def v [symmetric] using assms(1,2) w(1) vs(1) by simp
  show win: "take w (violations c') = v # take (w - 1) vs"
    using i vs(2) by (cases vs) (simp_all add: c3)
  show "scratch_get sidx c' =
      (if sum_list (take w (violations c')) < rra_failure_threshold (rra_at rrd rra_idx) then 0 else 1)"
    unfolding win using i by (simp add: c3)
qed

text \<open>the start of a prediction, for both methods. The first known observation becomes the
  level of the model and is not predicted; the next prediction, with the neutral seasonal
  coefficient, is that level, whatever is then observed.\<close>

theorem hwpredict_bootstrap:
  assumes "fs \<in> {hw_additive_functions, hw_multiplicative_functions}"
    and "isnan (cdp_hw_intercept c)" and "\<not> isnan v" and "dbl_ok v" and "v \<noteq> NZero"
    and "c1 = hwpredict_coefs fs rra s sidx (scratch_set sidx v c)"
  shows "isnan (scratch_get sidx c1) \<and> cdp_hw_intercept c1 = v \<and>
    scratch_get sidx' (hwpredict_coefs fs rra (identity fs) sidx' (scratch_set sidx' w c1)) = v"
  using assms(1) hw_add.bootstrap_prediction [OF assms(2-5), of c1 rra s sidx]
    hw_mult.bootstrap_prediction [OF assms(2-5), of c1 rra s sidx] assms(6)
  by auto

theorem hwpredict_bootstrap_witness:
  "scratch_get CDP_primary_val (hwpredict_coefs hw_additive_functions
     (sample_hw_rra ''HWPREDICT'' 6 1 0 0 0) 0 CDP_primary_val (scratch_set CDP_primary_val NaN
       (hwpredict_coefs hw_additive_functions (sample_hw_rra ''HWPREDICT'' 6 1 0 0 0) NaN CDP_primary_val
         (scratch_set CDP_primary_val (Fin 7) sample_cdp)))) = Fin 7"
proof -
  have "dbl_ok (Fin (of_int 7))" by (rule ok_int) simp
  moreover have "isnan (cdp_hw_intercept sample_cdp)" by (simp add: sample_cdp_def)
  moreover have "identity hw_additive_functions = 0" by (simp add: hw_additive_functions_def)
  ultimately show ?thesis
    using hwpredict_bootstrap [of hw_additive_functions sample_cdp "Fin 7" _ _ _ _ CDP_primary_val NaN,
        OF _ _ _ _ _ refl]
    by (simp add: isnan_def del: scratch_set.simps scratch_get.simps)
qed

text \<open>for both methods the deviation that \<open>update_devseasonal\<close> computes is unknown or not
  negative if the smoothing parameter is between 0 and 1 and the stored deviation is unknown or not
  negative.\<close>

theorem devseasonal_not_negative:
  assumes "fs \<in> {hw_additive_functions, hw_multiplicative_functions}"
    and "0 \<le> cdp_idx" and "cdp_idx < int (length (cdp_prep rrd))"
    and "0 \<le> rra_seasonal_gamma (rra_at rrd rra_idx)" and "rra_seasonal_gamma (rra_at rrd rra_idx) \<le> 1"
    and "isnan (cdp_seasonal_deviation (cdp_at rrd cdp_idx)) \<or>
         0 \<le> cdp_seasonal_deviation (cdp_at rrd cdp_idx)"
    and "d = scratch_get sidx
           (cdp_at (update_devseasonal rrd cdp_idx rra_idx ds_idx sidx sd fs) cdp_idx)"
  shows "isnan d \<or> 0 \<le> d"
  using assms hw_add.update_devseasonal_nonneg [of cdp_idx rrd rra_idx d sidx ds_idx sd]
    hw_mult.update_devseasonal_nonneg [of cdp_idx rrd rra_idx d sidx ds_idx sd]
  by blast

theorem devseasonal_not_negative_witness:
  "0 \<le> scratch_get CDP_primary_val (cdp_at
     (update_devseasonal sample_hw 3 3 0 CDP_primary_val [1] hw_additive_functions) 3)"
proof -
  define d where "d = scratch_get CDP_primary_val (cdp_at
     (update_devseasonal sample_hw 3 3 0 CDP_primary_val [1] hw_additive_functions) 3)"
  have "(0 :: dbl) \<le> rra_seasonal_gamma (rra_at sample_hw 3)" by code_simp
  moreover have "rra_seasonal_gamma (rra_at sample_hw 3) \<le> (1 :: dbl)" by code_simp
  moreover have "(0 :: dbl) \<le> cdp_seasonal_deviation (cdp_at sample_hw 3)" by code_simp
  moreover have "(3 :: int) < int (length (cdp_prep sample_hw))" by (simp add: sample_hw_def)
  moreover have "\<not> isnan d" unfolding d_def by code_simp
  ultimately show ?thesis
    using devseasonal_not_negative [of hw_additive_functions 3 sample_hw 3 d CDP_primary_val 0 "[1]"]
    by (simp add: d_def)
qed

text \<open>C31: \<open>update_failures\<close> keeps in the window the violations of the latest observations, the
  newest first, and its archive value tells whether there are at least as many as the threshold.\<close>

theorem failures_window:
  assumes "0 \<le> cdp_idx" and "cdp_idx < int (length (cdp_prep rrd))"
    and "rra_window_len (rra_at rrd rra_idx) = int w" and "0 < w" and "w < 2 ^ 16"
    and "w \<le> length (violations (cdp_at rrd cdp_idx))"
    and "list_all (\<lambda>v. v = 0 \<or> v = 1) (violations (cdp_at rrd cdp_idx))"
    and "c' = cdp_at (update_failures rrd cdp_idx rra_idx ds_idx sidx fs) cdp_idx"
  shows "take w (violations c') = failure_violation rrd cdp_idx rra_idx ds_idx sidx fs #
      take (w - 1) (violations (cdp_at rrd cdp_idx)) \<and>
    scratch_get sidx c' = (if sum_list (take w (violations c')) <
      rra_failure_threshold (rra_at rrd rra_idx) then 0 else 1)"
  using update_failures_cdp [OF assms(1-5) refl assms(6-8) refl] by blast

theorem failures_window_witness:
  "take 3 (violations (cdp_at (update_failures sample_hw 4 4 0 CDP_primary_val hw_additive_functions) 4)) =
   [1, 0, 0]"
proof -
  have v: "failure_violation sample_hw 4 4 0 CDP_primary_val hw_additive_functions = 1" by code_simp
  have "rra_window_len (rra_at sample_hw 4) = int 3" "violations (cdp_at sample_hw 4) = replicate 28 0"
    "(4 :: int) < int (length (cdp_prep sample_hw))"
    by (simp_all add: rra_at_def cdp_at_def sample_hw_def sample_hw_rra_def)
  moreover have "replicate 2 (0 :: int) = [0, 0]" by (simp add: numeral_2_eq_2)
  ultimately show ?thesis
    using failures_window [of 4 sample_hw 4 3 _ 0 CDP_primary_val hw_additive_functions, OF _ _ _ _ _ _ _ refl]
    by (simp add: v list_all_iff)
qed

end
