(* ===== verification/Rrd_Fifo.thy ===== *)
theory Rrd_Fifo
  imports Rrd_Format
begin

text \<open>
  The fixed-capacity queue at the end of \<open>rrd_hw.c\<close>, which the smoother uses as its sliding
  window, and the contract the smoother relies on (\<open>locale fifo_queue\<close>).
\<close>

section \<open>Definitions\<close>

record FIFOqueue =
  queue :: "dbl list"
  capacity :: cint
  head :: cint
  tail :: cint

text \<open>\<open>mem\<close> is the content of the block \<open>malloc\<close> returns.\<close>

definition queue_alloc :: "dbl list \<Rightarrow> cint \<Rightarrow> FIFOqueue" where
  "queue_alloc mem cap = \<lparr>queue = mem, capacity = cap, head = cap, tail = 0\<rparr>"

definition queue_isempty :: "FIFOqueue \<Rightarrow> bool" where
  "queue_isempty q \<longleftrightarrow> head q mod capacity q = tail q"

definition queue_push :: "FIFOqueue \<Rightarrow> dbl \<Rightarrow> FIFOqueue" where
  "queue_push q v = q\<lparr>queue := updi (queue q) (tail q) v, tail := (tail q + 1) mod capacity q\<rparr>"

definition queue_pop :: "FIFOqueue \<Rightarrow> dbl \<times> FIFOqueue" where
  "queue_pop q = (let h = head q mod capacity q in (nthi (queue q) h, q\<lparr>head := h + 1\<rparr>))"

section \<open>The contract\<close>

locale fifo_queue =
  fixes holds :: "'q \<Rightarrow> 'a list \<Rightarrow> bool"
    and push :: "'q \<Rightarrow> 'a \<Rightarrow> 'q"
    and pop :: "'q \<Rightarrow> 'a \<times> 'q"
    and room :: "'q \<Rightarrow> nat"
  assumes push_holds: "holds q xs \<Longrightarrow> length xs < room q \<Longrightarrow> holds (push q x) (xs @ [x])"
    and room_push: "room (push q x) = room q"
    and pop_holds: "holds q (x # xs) \<Longrightarrow> fst (pop q) = x \<and> holds (snd (pop q)) xs"
    and room_pop: "room (snd (pop q)) = room q"
begin

text \<open>Filling: the values end up in the queue in their order.\<close>

lemma fill_holds:
  assumes "holds q xs" and "length xs + length vs \<le> room q"
  shows "holds (foldl push q vs) (xs @ vs)" and "room (foldl push q vs) = room q"
proof -
  have "holds (foldl push q vs) (xs @ vs) \<and> room (foldl push q vs) = room q"
    using assms
  proof (induction vs arbitrary: q xs)
    case (Cons v vs)
    then show ?case using Cons.IH [of "push q v" "xs @ [v]"] push_holds [of q xs v]
      by (simp add: room_push)
  qed simp
  then show "holds (foldl push q vs) (xs @ vs)" "room (foldl push q vs) = room q" by simp_all
qed

text \<open>Sliding: every value is pushed and the oldest one popped.\<close>

fun slide :: "'q \<Rightarrow> 'a list \<Rightarrow> 'a list \<times> 'q" where
  "slide q [] = ([], q)"
| "slide q (v # vs) =
     (let (x, q') = pop (push q v); (xs, q'') = slide q' vs in (x # xs, q''))"

lemma slide_holds:
  assumes "holds q xs" and "length xs < room q"
  shows "fst (slide q vs) = take (length vs) (xs @ vs)"
    and "holds (snd (slide q vs)) (drop (length vs) (xs @ vs))"
proof -
  have "fst (slide q vs) = take (length vs) (xs @ vs) \<and>
      holds (snd (slide q vs)) (drop (length vs) (xs @ vs))"
    using assms
  proof (induction vs arbitrary: q xs)
    case (Cons v vs)
    obtain y ys where ys: "xs @ [v] = y # ys" by (cases xs) auto
    then have len: "length ys = length xs" and app: "xs @ v # vs = y # ys @ vs"
      by (metis length_Cons length_append_singleton nat.inject)
        (metis append.assoc append_Cons append_Nil ys)
    have "holds (push q v) (y # ys)" using push_holds [OF Cons.prems, of v] ys by simp
    from pop_holds [OF this] obtain q' where q': "pop (push q v) = (y, q')" "holds q' ys"
      by (metis prod.collapse)
    have "room q' = room q" using room_pop [of "push q v"] by (simp add: q'(1) room_push)
    with Cons.IH [OF q'(2)] Cons.prems(2) len q'(1) show ?case
      by (simp add: split_beta Let_def app del: take_append drop_append)
  qed simp
  then show "fst (slide q vs) = take (length vs) (xs @ vs)"
    "holds (snd (slide q vs)) (drop (length vs) (xs @ vs))" by simp_all
qed

end

section \<open>The array queue keeps the contract\<close>

definition queue_holds :: "FIFOqueue \<Rightarrow> dbl list \<Rightarrow> bool" where
  "queue_holds q xs \<longleftrightarrow>
     0 < capacity q \<and> int (length (queue q)) = capacity q \<and> int (length xs) \<le> capacity q \<and>
     tail q = (head q + int (length xs)) mod capacity q \<and>
     (\<forall>i < length xs. nthi (queue q) ((head q + int i) mod capacity q) = xs ! i)"

lemma queue_push_holds:
  assumes "queue_holds q xs" and "length xs < nat (capacity q)"
  shows "queue_holds (queue_push q x) (xs @ [x])"
proof -
  let ?c = "capacity q" and ?n = "int (length xs)"
  have c: "0 < ?c" "int (length (queue q)) = ?c" "?n < ?c"
    and t: "tail q = (head q + ?n) mod ?c"
    and v: "\<And>i. i < length xs \<Longrightarrow> nthi (queue q) ((head q + int i) mod ?c) = xs ! i"
    using assms by (auto simp: queue_holds_def)
  have pos: "0 \<le> k mod ?c" "k mod ?c < ?c" for k using c(1) by simp_all
  have diff: "nat ((head q + int i) mod ?c) \<noteq> nat (tail q)" if "i < length xs" for i
  proof
    assume "nat ((head q + int i) mod ?c) = nat (tail q)"
    then have "(head q + int i) mod ?c = (head q + ?n) mod ?c"
      using pos [of "head q + int i"] pos [of "head q + ?n"] by (simp add: t eq_nat_nat_iff)
    then have "?c dvd ?n - int i" by (metis add_diff_cancel_left mod_eq_dvd_iff)
    with that c(3) show False using zdvd_imp_le [of ?c "?n - int i"] by simp
  qed
  have "nthi (updi (queue q) (tail q) x) ((head q + int i) mod ?c) = (xs @ [x]) ! i"
    if "i < Suc (length xs)" for i
  proof (cases "i = length xs")
    case True
    have "nat (tail q) < length (queue q)" using pos [of "head q + ?n"] c(2) t by (simp add: nat_less_iff)
    with True show ?thesis by (simp add: t)
  next
    case False
    with that have "i < length xs" by simp
    with v diff [OF this] show ?thesis by (simp add: nth_append)
  qed
  moreover have "(tail q + 1) mod ?c = (head q + (?n + 1)) mod ?c"
    by (simp add: t mod_add_left_eq mod_add_right_eq ac_simps)
  ultimately show ?thesis using c
    by (simp add: queue_holds_def queue_push_def add.commute [of 1])
qed

lemma queue_pop_holds:
  assumes "queue_holds q (x # xs)"
  shows "fst (queue_pop q) = x \<and> queue_holds (snd (queue_pop q)) xs"
proof -
  let ?c = "capacity q"
  have c: "0 < ?c" "int (length (queue q)) = ?c" "1 + int (length xs) \<le> ?c"
    and t: "tail q = (head q + (1 + int (length xs))) mod ?c"
    and v: "\<And>i. i < Suc (length xs) \<Longrightarrow> nthi (queue q) ((head q + int i) mod ?c) = (x # xs) ! i"
    using assms by (auto simp: queue_holds_def)
  have shift: "(head q mod ?c + 1 + k) mod ?c = (head q + (1 + k)) mod ?c" for k
    by (metis add.assoc mod_add_left_eq)
  have "nthi (queue q) ((head q mod ?c + 1 + int i) mod ?c) = xs ! i" if "i < length xs" for i
    using v [of "Suc i"] that by (simp add: shift)
  with c t v [of 0] show ?thesis
    by (simp add: queue_holds_def queue_pop_def Let_def shift)
qed

interpretation hwq: fifo_queue queue_holds queue_push queue_pop "\<lambda>q. nat (capacity q)"
  by unfold_locales
    (use queue_push_holds queue_pop_holds in \<open>auto simp: queue_push_def queue_pop_def Let_def\<close>)

lemma queue_alloc_holds: "0 < cap \<Longrightarrow> int (length mem) = cap \<Longrightarrow> queue_holds (queue_alloc mem cap) []"
  by (simp add: queue_holds_def queue_alloc_def)

text \<open>A queue filled to its capacity looks empty.\<close>

lemma queue_isempty_iff:
  assumes "queue_holds q xs"
  shows "queue_isempty q \<longleftrightarrow> xs = [] \<or> int (length xs) = capacity q"
proof
  let ?c = "capacity q" and ?n = "int (length xs)"
  have c: "0 < ?c" "?n \<le> ?c" and t: "tail q = (head q + ?n) mod ?c"
    using assms by (auto simp: queue_holds_def)
  {
    assume "queue_isempty q"
    then have "?c dvd ?n" by (metis add_diff_cancel_left' mod_eq_dvd_iff queue_isempty_def t)
    with c show "xs = [] \<or> ?n = ?c" using zdvd_imp_le [of ?c ?n] by (cases xs) auto
  }
  show "xs = [] \<or> ?n = ?c \<Longrightarrow> queue_isempty q" using t by (auto simp: queue_isempty_def)
qed

context fifo_queue
begin

lemma slide_state: "snd (slide q vs) = foldl (\<lambda>q v. snd (pop (push q v))) q vs"
  by (induction vs arbitrary: q) (simp_all add: Let_def split_beta)

text \<open>The value popped next is as old as the queue was filled.\<close>

lemma slide_oldest:
  assumes "holds q xs" and "length xs < room q"
  shows "fst (pop (push (foldl (\<lambda>q v. snd (pop (push q v))) q vs) x)) = (xs @ vs @ [x]) ! length vs"
proof -
  have "fst (slide q (vs @ [x])) = take (Suc (length vs)) (xs @ vs @ [x])"
    using slide_holds(1) [OF assms, of "vs @ [x]"] by simp
  moreover have "fst (slide q (vs @ [x])) =
      fst (slide q vs) @ [fst (pop (push (foldl (\<lambda>q v. snd (pop (push q v))) q vs) x))]"
    by (induction vs arbitrary: q) (simp_all add: Let_def split_beta)
  moreover have "length (fst (slide q vs)) = length vs"
    using slide_holds(1) [OF assms, of vs] by simp
  ultimately have "(fst (slide q vs) @ [fst (pop (push (foldl (\<lambda>q v. snd (pop (push q v))) q vs) x))]) !
      length vs = take (Suc (length vs)) (xs @ vs @ [x]) ! length vs" by simp
  with \<open>length (fst (slide q vs)) = length vs\<close> show ?thesis
    by (metis lessI nth_append_length nth_take)
qed

end

text \<open>C32: the window of the smoother. A queue filled with fewer values than its capacity and then
  slid over further ones, pushing each and popping one, always pops the value that was pushed as
  many steps ago as the queue was filled; nothing is lost at the end of the array.\<close>

theorem queue_window:
  assumes "int (length mem) = cap" and "int (length xs) < cap"
  shows "fst (queue_pop (queue_push (foldl (\<lambda>q v. snd (queue_pop (queue_push q v)))
           (foldl queue_push (queue_alloc mem cap) xs) vs) x)) = (xs @ vs @ [x]) ! length vs"
proof -
  have e: "queue_holds (queue_alloc mem cap) []" "nat (capacity (queue_alloc mem cap)) = nat cap"
    using assms queue_alloc_holds [of cap mem] by (simp_all add: queue_alloc_def)
  from hwq.fill_holds [OF this(1), of xs] assms(2) this(2)
  have "queue_holds (foldl queue_push (queue_alloc mem cap) xs) xs"
    "length xs < nat (capacity (foldl queue_push (queue_alloc mem cap) xs))" by simp_all
  then show ?thesis by (rule hwq.slide_oldest)
qed

theorem queue_window_witness:
  "fst (queue_pop (queue_push (foldl (\<lambda>q v. snd (queue_pop (queue_push q v)))
     (foldl queue_push (queue_alloc [NaN, NaN, NaN] 3) [PInf, 0]) [1, NaN]) 1)) = 1"
  using queue_window [of "[NaN, NaN, NaN]" 3 "[PInf, 0]" "[1, NaN]" 1] by (simp add: numeral_2_eq_2)

end
