(* ===== verification/Rrd_Hw.thy ===== *)
theory Rrd_Hw
  imports Rrd_Hw_Update Rrd_Fifo Rrd_File
begin

text \<open>
  \<open>rrd_hw.c\<close>: reading the cached seasonal coefficients, the smoother, the initialisation and
  reset of the model coefficients and the dispatcher \<open>update_aberrant_CF\<close>. A function that
  can fail returns the error it sets, if any. \<open>malloc\<close> is taken to succeed.
\<close>

section \<open>Seasonal coefficients\<close>

definition lookup_seasonal ::
  "rrd_t \<Rightarrow> ulong \<Rightarrow> ulong \<Rightarrow> rrd_file_t \<Rightarrow> ulong \<Rightarrow> dbl list option
   \<Rightarrow> rrd_error option \<times> rrd_file_t \<times> dbl list option" where
  "lookup_seasonal rrd rra_idx rra_start f offset coef =
     (let row0 = u64 (nthi (rra_ptr rrd) rra_idx + offset);
          row_idx = (if row0 \<ge> row_cnt (rra_at rrd rra_idx)
                     then row0 mod row_cnt (rra_at rrd rra_idx) else row0);
          pos_tmp = rra_start + row_idx * ds_cnt (stat_head rrd) * 8
      in case rrd_read (rrd_seek f pos_tmp) (nat (ds_cnt (stat_head rrd))) of
           (Some vs, f') \<Rightarrow> (None, f', Some vs)
         | (None, f') \<Rightarrow> (Some Read_error, f', coef))"

section \<open>Violations and initialisation\<close>

fun erase_loop :: "nat \<Rightarrow> int list \<Rightarrow> int list" where
  "erase_loop 0 vs = vs"
| "erase_loop (Suc i) vs = erase_loop i (vs[i := 0])"

definition erase_violations :: "rrd_t \<Rightarrow> ulong \<Rightarrow> ulong \<Rightarrow> rrd_t" where
  "erase_violations rrd cdp_idx rra_idx =
     (if rrd_cf_conv (cf_nam (rra_at rrd rra_idx)) \<noteq> Some CF_FAILURES then rrd
      else cdp_upd rrd cdp_idx (\<lambda>c.
             c\<lparr>violations := erase_loop (nat (u16 (rra_window_len (rra_at rrd rra_idx))))
                               (violations c)\<rparr>))"

definition init_hwpredict_cdp :: "cdp_prep_t \<Rightarrow> cdp_prep_t" where
  "init_hwpredict_cdp cdp =
     cdp\<lparr>cdp_hw_intercept := NaN, cdp_hw_last_intercept := NaN, cdp_hw_slope := NaN,
         cdp_hw_last_slope := NaN, cdp_null_count := 1, cdp_last_null_count := 1\<rparr>"

definition init_seasonal_cdp :: "cdp_prep_t \<Rightarrow> cdp_prep_t" where
  "init_seasonal_cdp cdp =
     cdp\<lparr>cdp_hw_intercept := NaN, cdp_hw_last_intercept := NaN, cdp_null_count := 1\<rparr>"

section \<open>The smoother\<close>

definition MyMod :: "clong \<Rightarrow> ulong \<Rightarrow> ulong" where
  "MyMod val m = (if val < 0 then m - \<bar>val\<bar> mod m else val mod m)"

definition smoother_offset :: "rrd_t \<Rightarrow> ulong \<Rightarrow> ulong" where
  "smoother_offset rrd rra_idx =
     (let row_count = row_cnt (rra_at rrd rra_idx)
      in if version_num rrd \<ge> 4
         then d2u64 (dfloor (rra_seasonal_smoothing_window (rra_at rrd rra_idx) / dint 2
                             * dint row_count))
         else d2u64 (dfloor (dlit (5 / 100) / dint 2 * dint row_count)))"

text \<open>The reading loop: all values, or the first unknown one ends it. A failed read is an error;
  the code then goes on with an indeterminate value, the model stops.\<close>

fun smoother_read :: "nat \<Rightarrow> rrd_file_t \<Rightarrow> dbl list \<Rightarrow> rrd_error + dbl list option \<times> rrd_file_t" where
  "smoother_read 0 f vs = Inr (Some vs, f)"
| "smoother_read (Suc n) f vs =
     (case rrd_read f 1 of
        (Some [v], f') \<Rightarrow> if isnan v then Inr (None, f') else smoother_read n f' (vs @ [v])
      | (_, f') \<Rightarrow> Inl Read_error)"

record smoother =
  buffers :: "FIFOqueue list"
  working_average :: "dbl list"
  baseline :: "dbl list"
  rrd_values :: "dbl list"

definition smoother_init :: "dbl list \<Rightarrow> nat \<Rightarrow> cint \<Rightarrow> dbl list \<Rightarrow> smoother" where
  "smoother_init mem row_length cap vals =
     \<lparr>buffers = replicate row_length (queue_alloc mem cap),
      working_average = replicate row_length 0,
      baseline = replicate row_length 0,
      rrd_values = vals\<rparr>"

text \<open>The inner body of the loop that sums the first \<open>2 * offset\<close> terms.\<close>

definition prime_cell :: "ulong \<Rightarrow> nat \<Rightarrow> ulong \<Rightarrow> nat \<Rightarrow> nat \<Rightarrow> smoother \<Rightarrow> smoother" where
  "prime_cell offset row_length row_count i j sm =
     (let k = MyMod (s64 (int i - offset)) row_count;
          v = nthi (rrd_values sm) (k * int row_length + int j)
      in sm\<lparr>buffers := (buffers sm)[j := queue_push (buffers sm ! j) v],
            working_average := (working_average sm)[j := working_average sm ! j + v]\<rparr>)"

definition smoother_prime :: "ulong \<Rightarrow> nat \<Rightarrow> ulong \<Rightarrow> smoother \<Rightarrow> smoother" where
  "smoother_prime offset row_length row_count =
     fold (\<lambda>i. fold (prime_cell offset row_length row_count i) [0..<row_length])
       [0..<nat (2 * offset)]"

text \<open>The inner body of the loop that computes the moving averages, reading from the copy.\<close>

definition average_cell ::
  "dbl list \<Rightarrow> ulong \<Rightarrow> nat \<Rightarrow> ulong \<Rightarrow> nat \<Rightarrow> nat \<Rightarrow> smoother \<Rightarrow> smoother" where
  "average_cell cpy offset row_length row_count i j sm =
     (let v = nthi cpy (MyMod (int i) row_count * int row_length + int j);
          sum1 = working_average sm ! j + v;
          k = MyMod (s64 (int i - offset)) row_count;
          w = sum1 / dint (2 * offset + 1);
          (old, q) = queue_pop (queue_push (buffers sm ! j) v)
      in sm\<lparr>buffers := (buffers sm)[j := q],
            rrd_values := updi (rrd_values sm) (k * int row_length + int j) w,
            baseline := (baseline sm)[j := baseline sm ! j + w],
            working_average := (working_average sm)[j := sum1 - old]\<rparr>)"

definition smoother_average :: "ulong \<Rightarrow> nat \<Rightarrow> ulong \<Rightarrow> smoother \<Rightarrow> smoother" where
  "smoother_average offset row_length row_count sm =
     fold (\<lambda>i. fold (average_cell (rrd_values sm) offset row_length row_count i) [0..<row_length])
       [nat offset..<nat (row_count + offset)] sm"

text \<open>Rescaling a seasonal archive by its mean and moving the mean into the intercept.\<close>

definition rescale_values :: "(dbl \<Rightarrow> dbl \<Rightarrow> dbl) \<Rightarrow> nat \<Rightarrow> dbl list \<Rightarrow> dbl list \<Rightarrow> dbl list" where
  "rescale_values init row_length base vals =
     map (\<lambda>p. init (vals ! p) (base ! (p mod row_length))) [0..<length vals]"

definition add_baseline :: "rrd_t \<Rightarrow> ulong \<Rightarrow> dbl list \<Rightarrow> rrd_t" where
  "add_baseline rrd dep base =
     fold (\<lambda>j rrd. cdp_upd rrd (cdp_index rrd dep (int j)) (\<lambda>c.
             c\<lparr>cdp_hw_intercept := cdp_hw_intercept c + base ! j\<rparr>)) [0..<length base] rrd"

text \<open>One write of all values, which is done as a whole or not at all.\<close>

definition smoother_write ::
  "rrd_t \<Rightarrow> ulong \<Rightarrow> rrd_file_t \<Rightarrow> dbl list \<Rightarrow> rrd_error option \<times> rrd_t \<times> rrd_file_t" where
  "smoother_write rrd rra_start f vals =
     (let f1 = rrd_seek f rra_start
      in if file_pos f1 + 8 * int (length vals) > file_len f1 then (Some Beyond_end_of_file, rrd, f1)
         else (None, rrd, snd (rrd_write_block f1 vals)))"

definition apply_smoother ::
  "dbl list \<Rightarrow> rrd_t \<Rightarrow> ulong \<Rightarrow> ulong \<Rightarrow> rrd_file_t \<Rightarrow> rrd_error option \<times> rrd_t \<times> rrd_file_t" where
  "apply_smoother mem rrd rra_idx rra_start f =
     (let row_length = nat (ds_cnt (stat_head rrd));
          row_count = row_cnt (rra_at rrd rra_idx);
          offset = smoother_offset rrd rra_idx
      in if offset = 0 then (None, rrd, f)
         else case smoother_read (row_length * nat row_count) (rrd_seek f rra_start) [] of
           Inl e \<Rightarrow> (Some e, rrd, f)
         | Inr (None, f1) \<Rightarrow> (None, rrd, f1)
         | Inr (Some vals, f1) \<Rightarrow>
             let sm = smoother_average offset row_length row_count
                        (smoother_prime offset row_length row_count
                          (smoother_init mem row_length (s32 (2 * offset + 1)) vals));
                 base = map (\<lambda>b. b / dint row_count) (baseline sm);
                 dep = rra_dependent_rra_idx (rra_at rrd rra_idx)
             in if rrd_cf_conv (cf_nam (rra_at rrd rra_idx)) = Some CF_SEASONAL
                then (case rrd_cf_conv (cf_nam (rra_at rrd dep)) of
                    Some CF_HWPREDICT \<Rightarrow> smoother_write (add_baseline rrd dep base) rra_start f1
                      (rescale_values hw_additive_init_seasonality row_length base (rrd_values sm))
                  | Some CF_MHWPREDICT \<Rightarrow> smoother_write (add_baseline rrd dep base) rra_start f1
                      (rescale_values hw_multiplicative_init_seasonality row_length base
                         (rrd_values sm))
                  | _ \<Rightarrow> (Some No_valid_dependency, rrd, f1))
                else smoother_write rrd rra_start f1 (rrd_values sm))"

section \<open>Resetting the coefficients\<close>

text \<open>The writing loop of \<open>reset_aberrant_coefficients\<close> over the rows of a seasonal archive.\<close>

fun reset_rows :: "nat \<Rightarrow> int \<Rightarrow> rrd_file_t \<Rightarrow> bool \<times> rrd_file_t" where
  "reset_rows 0 dscnt f = (True, f)"
| "reset_rows (Suc n) dscnt f =
     (case rrd_write f NaN of
        (False, f') \<Rightarrow> (False, f')
      | (True, f') \<Rightarrow> reset_rows n dscnt (rrd_seek_cur f' ((dscnt - 1) * 8)))"

definition reset_rra ::
  "rrd_t \<Rightarrow> rrd_file_t \<Rightarrow> ulong \<Rightarrow> ulong \<Rightarrow> ulong \<Rightarrow> rrd_error option \<times> rrd_t \<times> rrd_file_t" where
  "reset_rra rrd f rra_start ds_idx rra_idx =
     (let cdp_idx = cdp_index rrd rra_idx ds_idx
      in case rrd_cf_conv (cf_nam (rra_at rrd rra_idx)) of
        Some CF_HWPREDICT \<Rightarrow> (None, cdp_upd rrd cdp_idx init_hwpredict_cdp, f)
      | Some CF_MHWPREDICT \<Rightarrow> (None, cdp_upd rrd cdp_idx init_hwpredict_cdp, f)
      | Some CF_FAILURES \<Rightarrow> (None, erase_violations rrd cdp_idx rra_idx, f)
      | None \<Rightarrow> (Some (Unknown_cf (cf_nam (rra_at rrd rra_idx))), rrd, f)
      | Some cf \<Rightarrow>
          if cf = CF_SEASONAL \<or> cf = CF_DEVSEASONAL
          then (case reset_rows (nat (row_cnt (rra_at rrd rra_idx))) (ds_cnt (stat_head rrd))
                       (rrd_seek f (rra_start + ds_idx * 8)) of
                  (ok, f') \<Rightarrow>
                    (if ok then None else Some Seek_error,
                     cdp_upd rrd cdp_idx (\<lambda>c.
                       c\<lparr>cdp_hw_intercept := NaN, cdp_hw_last_intercept := NaN\<rparr>), f'))
          else (None, rrd, f))"

text \<open>The loop over the archives; a failed write ends it. An unknown consolidation function sets
  the error and the loop goes on. The final write of \<open>cdp_prep\<close> copies the mapping onto itself.\<close>

fun reset_loop ::
  "nat \<Rightarrow> ulong \<Rightarrow> ulong \<Rightarrow> ulong \<Rightarrow> rrd_error option \<Rightarrow> rrd_t \<Rightarrow> rrd_file_t
   \<Rightarrow> rrd_error option \<times> rrd_t \<times> rrd_file_t" where
  "reset_loop 0 rra_idx rra_start ds_idx err rrd f = (err, rrd, f)"
| "reset_loop (Suc n) rra_idx rra_start ds_idx err rrd f =
     (case reset_rra rrd f rra_start ds_idx rra_idx of
        (Some Seek_error, rrd', f') \<Rightarrow> (Some Seek_error, rrd', f')
      | (e, rrd', f') \<Rightarrow>
          reset_loop n (rra_idx + 1)
            (rra_start + row_cnt (rra_at rrd rra_idx) * ds_cnt (stat_head rrd) * 8) ds_idx
            (if e = None then err else e) rrd' f')"

text \<open>The first archive starts behind the header; the sizes are those of \<open>rrd_get_header_size\<close>,
  with the long form of \<open>live_head_t\<close> whatever the version is.\<close>

definition reset_aberrant_coefficients ::
  "rrd_t \<Rightarrow> rrd_file_t \<Rightarrow> ulong \<Rightarrow> rrd_error option \<times> rrd_t \<times> rrd_file_t" where
  "reset_aberrant_coefficients rrd f ds_idx =
     (let h = stat_head rrd;
          rra_start = 128 + 120 * ds_cnt h + 120 * rra_cnt h + 16 + 112 * ds_cnt h
            + 80 * ds_cnt h * rra_cnt h + 8 * rra_cnt h
      in reset_loop (nat (rra_cnt h)) 0 rra_start ds_idx None rrd f)"

section \<open>The dispatcher\<close>

text \<open>The error an unknown consolidation function of a dependent archive sets; the caller ignores
  the return value. \<open>dep_functions\<close> is the inner \<open>switch\<close>.\<close>

definition dep_functions :: "rrd_t \<Rightarrow> ulong \<Rightarrow> rrd_error option \<times> hw_functions_t option" where
  "dep_functions rrd dep =
     (case rrd_cf_conv (cf_nam (rra_at rrd dep)) of
        Some CF_HWPREDICT \<Rightarrow> (None, Some hw_additive_functions)
      | Some CF_MHWPREDICT \<Rightarrow> (None, Some hw_multiplicative_functions)
      | None \<Rightarrow> (Some (Unknown_cf (cf_nam (rra_at rrd dep))), None)
      | Some cf \<Rightarrow> (None, None))"

definition with_functions ::
  "rrd_error option \<times> hw_functions_t option \<Rightarrow> (hw_functions_t \<Rightarrow> rrd_t) \<Rightarrow> rrd_t
   \<Rightarrow> rrd_error option \<times> rrd_t" where
  "with_functions r update rrd = (fst r, case snd r of None \<Rightarrow> rrd | Some fs \<Rightarrow> update fs)"

definition update_aberrant_CF ::
  "rrd_t \<Rightarrow> dbl \<Rightarrow> cf_en \<Rightarrow> ulong \<Rightarrow> ulong \<Rightarrow> ulong \<Rightarrow> scratch_idx \<Rightarrow> dbl list
   \<Rightarrow> rrd_error option \<times> rrd_t" where
  "update_aberrant_CF rrd pdp_value current_cf cdp_idx rra_idx ds_idx sidx seasonal_coef =
     (let rrd1 = cdp_upd rrd cdp_idx (scratch_set sidx pdp_value);
          dep = rra_dependent_rra_idx (rra_at rrd rra_idx)
      in case current_cf of
        CF_HWPREDICT \<Rightarrow>
          (None, update_hwpredict rrd1 cdp_idx rra_idx ds_idx sidx hw_additive_functions)
      | CF_MHWPREDICT \<Rightarrow>
          (None, update_hwpredict rrd1 cdp_idx rra_idx ds_idx sidx hw_multiplicative_functions)
      | CF_DEVPREDICT \<Rightarrow> (None, update_devpredict rrd1 cdp_idx rra_idx ds_idx sidx)
      | CF_SEASONAL \<Rightarrow> with_functions (dep_functions rrd1 dep)
          (update_seasonal rrd1 cdp_idx rra_idx ds_idx sidx seasonal_coef) rrd1
      | CF_DEVSEASONAL \<Rightarrow> with_functions (dep_functions rrd1 dep)
          (update_devseasonal rrd1 cdp_idx rra_idx ds_idx sidx seasonal_coef) rrd1
      | CF_FAILURES \<Rightarrow>
          with_functions (dep_functions rrd1 (rra_dependent_rra_idx (rra_at rrd dep)))
            (update_failures rrd1 cdp_idx rra_idx ds_idx sidx) rrd1
      | _ \<Rightarrow> (None, rrd1))"

section \<open>Lemmas\<close>

lemma erase_violations_cdp_only [simp]: "cdp_only rrd (erase_violations rrd ci ri)"
  by (simp add: erase_violations_def)

lemma update_aberrant_CF_cdp_only:
  "cdp_only rrd (snd (update_aberrant_CF rrd v cf ci ri di s sc))"
proof -
  have "cdp_only rrd rrd'" if "cdp_only (cdp_upd rrd ci (scratch_set s v)) rrd'" for rrd'
    using cdp_only_trans [OF cdp_only_upd that] .
  then show ?thesis
    by (simp add: update_aberrant_CF_def Let_def with_functions_def split: cf_en.split option.split)
qed

text \<open>A plain archive of one data point per row gets the data point.\<close>

lemma update_aberrant_CF_plain:
  "cf \<in> {CF_AVERAGE, CF_MINIMUM, CF_MAXIMUM, CF_LAST} \<Longrightarrow>
   update_aberrant_CF rrd v cf ci ri di s sc = (None, cdp_upd rrd ci (scratch_set s v))"
  by (auto simp: update_aberrant_CF_def)

lemma lookup_seasonal_row:
  assumes "rra_start = header_len f + 8 * int base"
    and "ds_cnt (stat_head rrd) = int n" and "row_cnt (rra_at rrd rra_idx) = int rows" and "0 < rows"
    and "0 \<le> nthi (rra_ptr rrd) rra_idx" and "0 \<le> off"
    and "nthi (rra_ptr rrd) rra_idx + off < 2 ^ 64"
    and "row = nat ((nthi (rra_ptr rrd) rra_idx + off) mod int rows)"
    and "base + rows * n \<le> length (file_vals f)"
  shows "lookup_seasonal rrd rra_idx rra_start f off coef =
    (None, f\<lparr>file_pos := header_len f + 8 * int (base + row * n + n)\<rparr>,
     Some (map (get_val (file_vals f)) [base + row * n..<base + row * n + n]))"
proof -
  let ?r = "nthi (rra_ptr rrd) rra_idx + off"
  have row: "int row = ?r mod int rows" "row < rows"
    using assms(4,8) by (simp_all add: nat_less_iff)
  have idx: "(if u64 ?r \<ge> int rows then u64 ?r mod int rows else u64 ?r) = int row"
    using assms(5-7) row(1) by (simp add: u64_id)
  have "Suc row * n \<le> rows * n" using row(2) by (intro mult_le_mono1) simp
  then have "rrd_read (rrd_seek f (header_len f + 8 * int (base + row * n))) n =
    (Some (map (get_val (file_vals f)) [base + row * n..<base + row * n + n]),
     f\<lparr>file_pos := header_len f + 8 * int (base + row * n + n)\<rparr>)"
    using rrd_read_row [of "rrd_seek f (header_len f + 8 * int (base + row * n))" "base + row * n" n]
      assms(9) by (simp add: rrd_seek_def)
  then show ?thesis
    unfolding lookup_seasonal_def Let_def assms(1-3) idx by (simp add: algebra_simps)
qed

text \<open>The wrap-around index: in range except for negative multiples of the row count.\<close>

lemma MyMod_value:
  assumes "0 < m"
  shows "MyMod v m = (if v < 0 \<and> v mod m = 0 then m else v mod m)"
proof (cases "v < 0")
  case True
  have "(- v) mod m = (if v mod m = 0 then 0 else m - v mod m)"
    by (simp add: zmod_zminus1_eq_if)
  with True show ?thesis by (simp add: MyMod_def)
qed (simp add: MyMod_def)

lemma MyMod_in_range:
  assumes "0 < m" and "- m < v"
  shows "0 \<le> MyMod v m" and "MyMod v m < m" and "MyMod v m = v mod m"
proof -
  have "v mod m \<noteq> 0" if "v < 0"
    using that assms mod_pos_pos_trivial [of "v + m" m] by auto
  then show "MyMod v m = v mod m" using MyMod_value [OF assms(1)] by auto
  then show "0 \<le> MyMod v m" "MyMod v m < m" using assms(1) by simp_all
qed

text \<open>\<open>lookup_seasonal\<close> reads, whatever the offset is, the row of the ring that is so many rows
  behind the current one, modulo the number of rows, and no row of another archive.\<close>

theorem lookup_seasonal_ring:
  assumes "rra_start = header_len f + 8 * int base"
    and "ds_cnt (stat_head rrd) = int n" and "row_cnt (rra_at rrd rra_idx) = int rows" and "0 < rows"
    and "0 \<le> nthi (rra_ptr rrd) rra_idx" and "0 \<le> off"
    and "nthi (rra_ptr rrd) rra_idx + off < 2 ^ 64"
    and "base + rows * n \<le> length (file_vals f)"
    and "lookup_seasonal rrd rra_idx rra_start f off coef = (err, f', coef')"
  shows "err = None \<and> file_vals f' = file_vals f \<and>
    (\<exists>row < rows. int row = (nthi (rra_ptr rrd) rra_idx + off) mod int rows \<and>
       coef' = Some (map (get_val (file_vals f)) [base + row * n..<base + row * n + n]))"
  using lookup_seasonal_row [OF assms(1-7) refl assms(8), of coef] assms(4,9)
  by (auto simp: nat_less_iff intro!: exI [of _ "nat ((nthi (rra_ptr rrd) rra_idx + off) mod int rows)"])

theorem lookup_seasonal_ring_witness:
  "\<exists>f'. lookup_seasonal sample_rrd 0 1280 sample_file 3 None = (None, f', Some [dint 2, dint 3])"
proof -
  obtain err f' coef' where r: "lookup_seasonal sample_rrd 0 1280 sample_file 3 None = (err, f', coef')"
    by (metis prod_cases3)
  have "rra_at sample_rrd 0 = sample_rra ''AVERAGE'' 4 1" by (simp add: rra_at_def)
  with lookup_seasonal_ring [of 1280 sample_file 0 sample_rrd 2 0 4 3 None err f' coef'] r
  have "err = None" "\<exists>row < 4. int row = 1 \<and>
      coef' = Some (map (get_val (file_vals sample_file)) [row * 2..<row * 2 + 2])"
    by (auto simp: sample_file_def)
  then have "coef' = Some [dint 2, dint 3]"
    by (auto simp: get_val_def sample_file_def upt_rec nth_append)
  with r \<open>err = None\<close> show ?thesis by blast
qed

end
