(* ===== verification/Rrd_Parsetime.thy ===== *)
theory Rrd_Parsetime
  imports Rrd_Format
begin

text \<open>
  Times in the style of \<open>at(1)\<close>: the scanner and the parser of \<open>rrd_parsetime.c\<close>, and
  \<open>rrd_proc_start_end\<close>. The static variables of the scanner and of \<open>plus_minus\<close> are the record
  \<open>scanner\<close>. The error messages are the type \<open>pt_error\<close>. The clock, \<open>localtime_r\<close> and \<open>mktime\<close>, which
  also normalises its argument, are the fields of \<open>time_env\<close>; \<open>time(NULL)\<close> reads the same clock
  as \<open>gettimeofday\<close>.
\<close>

section \<open>Tokens\<close>

datatype token_id =
    MIDNIGHT | NOON | TEATIME | PM | AM | YESTERDAY | TODAY | TOMORROW | NOW | START | END | EPOCH
  | SECONDS | MINUTES | HOURS | DAYS | WEEKS | MONTHS | YEARS | MONTHS_MINUTES
  | NUMBER | PLUS | MINUS | DOT | COLON | SLASH | ID | JUNK
  | JAN | FEB | MAR | APR | MAY | JUN | JUL | AUG | SEP | OCT | NOV | DEC
  | SUN | MON | TUE | WED | THU | FRI | SAT
  | EOF

definition month_tokens :: "token_id list" where
  "month_tokens = [JAN, FEB, MAR, APR, MAY, JUN, JUL, AUG, SEP, OCT, NOV, DEC]"

definition wday_tokens :: "token_id list" where
  "wday_tokens = [SUN, MON, TUE, WED, THU, FRI, SAT]"

definition VariousWords :: "(string \<times> token_id) list" where
  "VariousWords =
     [(''midnight'', MIDNIGHT), (''noon'', NOON), (''teatime'', TEATIME), (''am'', AM), (''pm'', PM),
      (''tomorrow'', TOMORROW), (''yesterday'', YESTERDAY), (''today'', TODAY), (''now'', NOW),
      (''n'', NOW), (''start'', START), (''s'', START), (''end'', END), (''e'', END), (''epoch'', EPOCH),
      (''jan'', JAN), (''feb'', FEB), (''mar'', MAR), (''apr'', APR), (''may'', MAY), (''jun'', JUN),
      (''jul'', JUL), (''aug'', AUG), (''sep'', SEP), (''oct'', OCT), (''nov'', NOV), (''dec'', DEC),
      (''january'', JAN), (''february'', FEB), (''march'', MAR), (''april'', APR), (''may'', MAY),
      (''june'', JUN), (''july'', JUL), (''august'', AUG), (''september'', SEP), (''october'', OCT),
      (''november'', NOV), (''december'', DEC), (''sunday'', SUN), (''sun'', SUN), (''monday'', MON),
      (''mon'', MON), (''tuesday'', TUE), (''tue'', TUE), (''wednesday'', WED), (''wed'', WED),
      (''thursday'', THU), (''thu'', THU), (''friday'', FRI), (''fri'', FRI), (''saturday'', SAT),
      (''sat'', SAT)]"

definition TimeMultipliers :: "(string \<times> token_id) list" where
  "TimeMultipliers =
     [(''second'', SECONDS), (''seconds'', SECONDS), (''sec'', SECONDS), (''s'', SECONDS),
      (''minute'', MINUTES), (''minutes'', MINUTES), (''min'', MINUTES), (''m'', MONTHS_MINUTES),
      (''hour'', HOURS), (''hours'', HOURS), (''hr'', HOURS), (''h'', HOURS), (''day'', DAYS),
      (''days'', DAYS), (''d'', DAYS), (''week'', WEEKS), (''weeks'', WEEKS), (''wk'', WEEKS),
      (''w'', WEEKS), (''month'', MONTHS), (''months'', MONTHS), (''mon'', MONTHS), (''year'', YEARS),
      (''years'', YEARS), (''yr'', YEARS), (''y'', YEARS)]"

section \<open>Scanner\<close>

text \<open>\<open>sct\<close> is the rest of the current argument, \<open>scp\<close> the arguments not yet begun; \<open>pm_op\<close> and
  \<open>pm_prev\<close> are the static variables of \<open>plus_minus\<close>, with \<open>None\<close> for -1.\<close>

record scanner =
  Specials :: "(string \<times> token_id) list"
  scp :: "string list"
  scc :: int
  sct :: string
  sc_need :: bool
  sc_token :: string
  sc_len :: nat
  sc_tokid :: token_id
  pm_op :: token_id
  pm_prev :: "token_id option"

fun mystrcasecmp :: "string \<Rightarrow> string \<Rightarrow> int" where
  "mystrcasecmp [] [] = 0"
| "mystrcasecmp [] (d # ds) = - of_char (to_lower d)"
| "mystrcasecmp (c # cs) [] = of_char (to_lower c)"
| "mystrcasecmp (c # cs) (d # ds) =
     (if to_lower c = to_lower d then mystrcasecmp cs ds
      else of_char (to_lower c) - of_char (to_lower d))"

fun find_special :: "(string \<times> token_id) list \<Rightarrow> string \<Rightarrow> token_id" where
  "find_special [] arg = ID"
| "find_special ((nam, v) # ts) arg = (if mystrcasecmp nam arg = 0 then v else find_special ts arg)"

definition parse_token :: "scanner \<Rightarrow> string \<Rightarrow> scanner" where
  "parse_token s arg = s\<lparr>sc_tokid := find_special (Specials s) arg\<rparr>"

definition init_scanner :: "string list \<Rightarrow> scanner \<Rightarrow> scanner" where
  "init_scanner argv s =
     s\<lparr>scp := argv, scc := int (length argv), sc_need := True, sc_len := Suc (length (concat argv)),
       sc_token := []\<rparr>"

text \<open>A token that starts with the character \<open>c\<close>, the rest of the argument being \<open>r\<close>.\<close>

definition scan_token :: "scanner \<Rightarrow> char \<Rightarrow> string \<Rightarrow> scanner" where
  "scan_token s c r =
     (if is_digit c
      then s\<lparr>sc_token := c # takeWhile is_digit r, sct := dropWhile is_digit r, sc_tokid := NUMBER\<rparr>
      else if is_alpha c
      then parse_token (s\<lparr>sc_token := c # takeWhile is_alpha r, sct := dropWhile is_alpha r\<rparr>)
             (c # takeWhile is_alpha r)
      else if c = CHR '':'' then s\<lparr>sc_token := [c], sct := r, sc_tokid := COLON\<rparr>
      else if c = CHR ''.'' then s\<lparr>sc_token := [c], sct := r, sc_tokid := DOT\<rparr>
      else if c = CHR ''+'' then s\<lparr>sc_token := [c], sct := r, sc_tokid := PLUS\<rparr>
      else if c = CHR ''-'' then s\<lparr>sc_token := [c], sct := r, sc_tokid := MINUS\<rparr>
      else if c = CHR ''/'' then s\<lparr>sc_token := [c], sct := r, sc_tokid := SLASH\<rparr>
      else s\<lparr>sc_token := [c], sct := c # r, sc_tokid := EOF\<rparr>)"

definition is_blank :: "char \<Rightarrow> bool" where
  "is_blank c \<longleftrightarrow> is_space c \<or> c = CHR ''_'' \<or> c = CHR '',''"

definition next_arg :: "scanner \<Rightarrow> scanner" where
  "next_arg s =
     (if sc_need s then s\<lparr>sct := hd (scp s), scp := tl (scp s), scc := scc s - 1, sc_need := False\<rparr>
      else s)"

function token :: "scanner \<Rightarrow> scanner" where
  "token s =
     (let s0 = s\<lparr>sc_token := [], sc_tokid := EOF\<rparr>
      in if sc_need s \<and> scc s < 1 then s0
         else case dropWhile is_blank (sct (next_arg s0)) of
                [] \<Rightarrow> token ((next_arg s0)\<lparr>sct := [], sc_need := True\<rparr>)
              | c # r \<Rightarrow> scan_token (next_arg s0) c r)"
  by pat_completeness auto
termination
  by (relation "measure (\<lambda>s. 2 * nat (scc s) + (if sc_need s then 0 else 1))")
    (auto simp: next_arg_def)

declare token.simps [simp del]

section \<open>Grammar\<close>

datatype pt_error =
    Pt_number_after_sign | Pt_minutes_expected | Pt_minutes_range | Pt_hours_range | Pt_bad_year
  | Pt_before_epoch | Pt_mday_expected | Pt_number_after_sep | Pt_year_after_sep | Pt_bad_month
  | Pt_bad_mday | Pt_start_end_offset | Pt_now_offset | Pt_unparsable | Pt_trailing | Pt_out_of_range

datatype rrd_timetype_t =
    ABSOLUTE_TIME | RELATIVE_TO_START_TIME | RELATIVE_TO_END_TIME | RELATIVE_TO_EPOCH

record rrd_time_value_t =
  tv_type :: rrd_timetype_t
  tv_offset :: clong
  tv_tm :: tm

record time_env =
  te_now :: "int \<times> int"
  te_localtime :: "time_t \<Rightarrow> tm"
  te_mktime :: "tm \<Rightarrow> time_t \<times> tm"

definition expect2 :: "token_id \<Rightarrow> pt_error \<Rightarrow> scanner \<Rightarrow> pt_error + scanner" where
  "expect2 desired err s = (let s' = token s in if sc_tokid s' = desired then Inr s' else Inl err)"

text \<open>\<open>try(b)\<close>\<close>

definition tbind :: "'e + 'a \<Rightarrow> ('a \<Rightarrow> 'e + 'b) \<Rightarrow> 'e + 'b" where
  "tbind x f = (case x of Inl e \<Rightarrow> Inl e | Inr v \<Rightarrow> f v)"

lemma tbind_simps [simp]: "tbind (Inl e) f = Inl e" "tbind (Inr v) f = f v"
  by (simp_all add: tbind_def)

definition tm_upd :: "(tm \<Rightarrow> tm) \<Rightarrow> rrd_time_value_t \<Rightarrow> rrd_time_value_t" where
  "tm_upd f tv = tv\<lparr>tv_tm := f (tv_tm tv)\<rparr>"

text \<open>The guess of \<open>plus_minus\<close> at the unit \<open>m\<close>.\<close>

definition guess_unit :: "token_id option \<Rightarrow> cint \<Rightarrow> token_id" where
  "guess_unit prev delta =
     (if prev \<in> {Some DAYS, Some WEEKS, Some MONTHS, Some YEARS} then MONTHS
      else if prev \<in> {Some SECONDS, Some MINUTES, Some HOURS} then MINUTES
      else if delta < 6 then MONTHS else MINUTES)"

text \<open>The \<open>switch\<close> over the unit; \<open>int\<close> products wrap.\<close>

definition add_unit :: "token_id \<Rightarrow> token_id \<Rightarrow> cint \<Rightarrow> rrd_time_value_t \<Rightarrow> rrd_time_value_t" where
  "add_unit u op delta tv =
     (let sg = (\<lambda>d. if op = PLUS then d else s32 (- d))
      in if u = YEARS then tm_upd (\<lambda>t. t\<lparr>tm_year := s32 (tm_year t + sg delta)\<rparr>) tv
         else if u = MONTHS then tm_upd (\<lambda>t. t\<lparr>tm_mon := s32 (tm_mon t + sg delta)\<rparr>) tv
         else if u = WEEKS then tm_upd (\<lambda>t. t\<lparr>tm_mday := s32 (tm_mday t + sg (s32 (delta * 7)))\<rparr>) tv
         else if u = DAYS then tm_upd (\<lambda>t. t\<lparr>tm_mday := s32 (tm_mday t + sg delta)\<rparr>) tv
         else if u = HOURS then tv\<lparr>tv_offset := s64 (tv_offset tv + sg (s32 (delta * 60 * 60)))\<rparr>
         else if u = MINUTES then tv\<lparr>tv_offset := s64 (tv_offset tv + sg (s32 (delta * 60)))\<rparr>
         else tv\<lparr>tv_offset := s64 (tv_offset tv + sg delta)\<rparr>)"

text \<open>\<open>doop\<close>: the operation, or \<open>None\<close> for \<open>PREVIOUS_OP\<close>.\<close>

definition plus_minus ::
  "token_id option \<Rightarrow> scanner \<times> rrd_time_value_t \<Rightarrow> pt_error + scanner \<times> rrd_time_value_t" where
  "plus_minus doop st =
     (case st of (s, tv) \<Rightarrow>
        tbind (case doop of
                 Some op \<Rightarrow> tbind (expect2 NUMBER Pt_number_after_sign (s\<lparr>pm_op := op\<rparr>))
                              (\<lambda>s'. Inr (s'\<lparr>pm_prev := None\<rparr>))
               | None \<Rightarrow> Inr s)
          (\<lambda>s1. let delta = atoi (sc_token s1);
                    s2 = token s1;
                    u = (if sc_tokid s2 = MONTHS_MINUTES then guess_unit (pm_prev s1) delta
                         else sc_tokid s2)
                in Inr (s2\<lparr>sc_tokid := u, pm_prev := Some u\<rparr>, add_unit u (pm_op s1) delta tv)))"

text \<open>Aborting \<open>tod\<close> restores some of the scanner's variables, not \<open>need\<close> and \<open>scp\<close>.\<close>

definition tod_abort :: "scanner \<Rightarrow> cint \<Rightarrow> scanner \<Rightarrow> scanner" where
  "tod_abort sv hour s =
     s\<lparr>scc := scc sv, sct := sct sv, sc_tokid := sc_tokid sv,
       sc_token := take (sc_len s - 1) (int_string hour)\<rparr>"

definition set_tod :: "cint \<Rightarrow> cint \<Rightarrow> tm \<Rightarrow> tm" where
  "set_tod hour minute t =
     (let t1 = t\<lparr>tm_hour := hour, tm_min := minute, tm_sec := 0\<rparr>
      in if hour = 24 then t1\<lparr>tm_hour := 0, tm_mday := s32 (tm_mday t + 1)\<rparr> else t1)"

definition tod :: "scanner \<times> rrd_time_value_t \<Rightarrow> pt_error + scanner \<times> rrd_time_value_t" where
  "tod st =
     (case st of (s, tv) \<Rightarrow>
        if length (sc_token s) > 2 then Inr (s, tv)
        else
          let hour = atoi (sc_token s); s1 = token s
          in if sc_tokid s1 = SLASH \<or> sc_tokid s1 = DOT then Inr (tod_abort s hour s1, tv)
             else
               tbind (if sc_tokid s1 = COLON
                      then tbind (expect2 NUMBER Pt_minutes_expected s1)
                             (\<lambda>s2. let m = atoi (sc_token s2)
                                   in if m > 59 then Inl Pt_minutes_range else Inr (m, token s2))
                      else Inr (0, s1))
                 (\<lambda>(minute, s3).
                    if sc_tokid s3 = AM \<or> sc_tokid s3 = PM
                    then (if hour > 12 then Inl Pt_hours_range
                          else let h = (if sc_tokid s3 = PM then (if hour \<noteq> 12 then hour + 12 else hour)
                                        else if hour = 12 then 0 else hour)
                               in Inr (token s3, tm_upd (set_tod h minute) tv))
                    else if hour > 23 then Inr (tod_abort s hour s3, tv)
                    else Inr (s3, tm_upd (set_tod hour minute) tv)))"

definition assign_date ::
  "clong \<Rightarrow> clong \<Rightarrow> clong \<Rightarrow> rrd_time_value_t \<Rightarrow> pt_error + rrd_time_value_t" where
  "assign_date mday mon year tv =
     tbind (if year > 138 then (if year > 1970 then Inr (year - 1900) else Inl Pt_bad_year)
            else if year \<ge> 0 \<and> year < 38 then Inr (year + 100) else Inr year)
       (\<lambda>y. if y < 70 then Inl Pt_before_epoch
            else Inr (tm_upd (\<lambda>t. t\<lparr>tm_mday := s32 mday, tm_mon := s32 mon, tm_year := s32 y\<rparr>) tv))"

fun token_index :: "token_id list \<Rightarrow> token_id \<Rightarrow> int" where
  "token_index [] t = 0"
| "token_index (u # us) t = (if u = t then 0 else 1 + token_index us t)"

text \<open>The numeric forms of \<open>day\<close>: the number \<open>mon\<close> has been read and is neither a time in seconds
  nor of the form YYYYMMDD. The result is the scanner, the day of the month, the month and the
  year.\<close>

definition numeric_date ::
  "scanner \<Rightarrow> clong \<Rightarrow> clong \<Rightarrow> pt_error + scanner \<times> clong \<times> clong \<times> clong" where
  "numeric_date s mon year =
     (let s1 = token s; sep = sc_tokid s1
      in if mon \<le> 31 \<and> (sep = SLASH \<or> sep = DOT)
         then tbind (expect2 NUMBER Pt_number_after_sep s1)
                (\<lambda>s2. let mday = atol (sc_token s2); s3 = token s2
                      in tbind (if sc_tokid s3 = sep
                                then tbind (expect2 NUMBER Pt_year_after_sep s3)
                                       (\<lambda>s4. Inr (token s4, atol (sc_token s4)))
                                else Inr (s3, year))
                           (\<lambda>(s5, y). if sep = DOT then Inr (s5, mon, mday, y) else Inr (s5, mday, mon, y)))
         else Inr (s1, 0, mon, year))"

definition day ::
  "time_env \<Rightarrow> scanner \<times> rrd_time_value_t \<Rightarrow> pt_error + scanner \<times> rrd_time_value_t" where
  "day te st =
     (case st of (s, tv) \<Rightarrow>
        let year = tm_year (tv_tm tv)
        in if sc_tokid s = YESTERDAY
           then Inr (token s, tm_upd (\<lambda>t. t\<lparr>tm_mday := s32 (tm_mday t - 1)\<rparr>) tv)
           else if sc_tokid s = TODAY then Inr (token s, tv)
           else if sc_tokid s = TOMORROW
           then Inr (token s, tm_upd (\<lambda>t. t\<lparr>tm_mday := s32 (tm_mday t + 1)\<rparr>) tv)
           else if sc_tokid s \<in> set month_tokens
           then tbind (expect2 NUMBER Pt_mday_expected s)
                  (\<lambda>s1. let mday = atol (sc_token s1); s2 = token s1;
                            (s3, y) = (if sc_tokid s2 = NUMBER then (token s2, atol (sc_token s2))
                                       else (s2, year))
                        in tbind (assign_date mday (token_index month_tokens (sc_tokid s)) y tv)
                             (\<lambda>tv'. Inr (s3, tv')))
           else if sc_tokid s \<in> set wday_tokens
           then Inr (token s, tm_upd (\<lambda>t. t\<lparr>tm_mday :=
                  s32 (tm_mday t + (token_index wday_tokens (sc_tokid s) - tm_wday t))\<rparr>) tv)
           else if sc_tokid s = NUMBER
           then (let mon = atol (sc_token s)
                 in if mon > 10 * 365 * 24 * 60 * 60
                    then Inr (token s, tv\<lparr>tv_tm := te_localtime te mon\<rparr>)
                    else tbind (if mon > 19700101 \<and> mon < 24000101
                                then Inr (token s, atol (take 2 (drop 6 (sc_token s))),
                                          atol (take 2 (drop 4 (sc_token s))), atol (take 4 (sc_token s)))
                                else numeric_date s mon year)
                           (\<lambda>(s1, mday, mon1, y).
                              let m = mon1 - 1
                              in if m < 0 \<or> m > 11 then Inl Pt_bad_month
                                 else if mday < 1 \<or> mday > 31 then Inl Pt_bad_mday
                                 else tbind (assign_date mday m y tv) (\<lambda>tv'. Inr (s1, tv'))))
           else Inr (s, tv))"

section \<open>The parser\<close>

text \<open>What is left to scan: the measure of the loop over the offsets.\<close>

fun args_left :: "nat \<Rightarrow> string list \<Rightarrow> nat" where
  "args_left 0 as = 0"
| "args_left (Suc n) as = length (hd as) + 2 + args_left n (tl as)"

definition sc_left :: "scanner \<Rightarrow> nat" where
  "sc_left s = (if sc_need s then 0 else Suc (length (sct s))) + args_left (nat (scc s)) (scp s)"

lemma scan_token_left:
  "sc_tokid (scan_token s c r) \<noteq> EOF \<Longrightarrow> sct s' = c # r \<Longrightarrow> \<not> sc_need s \<Longrightarrow> \<not> sc_need s' \<Longrightarrow>
   scc s' = scc s \<Longrightarrow> scp s' = scp s \<Longrightarrow> sc_left (scan_token s c r) < sc_left s'"
  by (auto simp: scan_token_def sc_left_def parse_token_def less_Suc_eq_le
      intro: le_trans [OF length_dropWhile_le] split: if_splits)

lemma scan_token_fields [simp]:
  "scc (scan_token s c r) = scc s" "scp (scan_token s c r) = scp s"
  "sc_need (scan_token s c r) = sc_need s" "Specials (scan_token s c r) = Specials s"
  "pm_op (scan_token s c r) = pm_op s" "pm_prev (scan_token s c r) = pm_prev s"
  "sc_len (scan_token s c r) = sc_len s"
  by (simp_all add: scan_token_def parse_token_def)

definition cleared :: "scanner \<Rightarrow> scanner" where
  "cleared s = s\<lparr>sc_token := [], sc_tokid := EOF\<rparr>"

lemma next_arg_fields [simp]:
  "\<not> sc_need (next_arg s)" "Specials (next_arg (cleared s)) = Specials s"
  by (simp_all add: next_arg_def cleared_def)

lemma next_arg_left: "\<not> (sc_need s \<and> scc s < 1) \<Longrightarrow> sc_left (next_arg (cleared s)) \<le> sc_left s"
  by (cases "nat (scc s)") (auto simp: next_arg_def sc_left_def cleared_def nat_diff_distrib)

text \<open>The calls of \<open>token\<close>: no argument is left, the current one is blank, or a token begins with \<open>c\<close>.\<close>

lemma token_stop: "sc_need s \<Longrightarrow> scc s < 1 \<Longrightarrow> token s = cleared s"
  by (simp add: token.simps cleared_def)

lemma token_skip:
  "\<not> (sc_need s \<and> scc s < 1) \<Longrightarrow> dropWhile is_blank (sct (next_arg (cleared s))) = [] \<Longrightarrow>
   token s = token ((next_arg (cleared s))\<lparr>sct := [], sc_need := True\<rparr>)"
  by (subst token.simps) (simp only: Let_def if_False list.case cleared_def)

lemma token_scan_arg:
  "\<not> (sc_need s \<and> scc s < 1) \<Longrightarrow> dropWhile is_blank (sct (next_arg (cleared s))) = c # r \<Longrightarrow>
   token s = scan_token (next_arg (cleared s)) c r"
  by (subst token.simps) (simp only: Let_def if_False list.case cleared_def)

lemma token_induct [case_names stop skip scan]:
  assumes "\<And>s. sc_need s \<Longrightarrow> scc s < 1 \<Longrightarrow> P s"
    and "\<And>s. \<not> (sc_need s \<and> scc s < 1) \<Longrightarrow> dropWhile is_blank (sct (next_arg (cleared s))) = [] \<Longrightarrow>
      P ((next_arg (cleared s))\<lparr>sct := [], sc_need := True\<rparr>) \<Longrightarrow> P s"
    and "\<And>s c r. \<not> (sc_need s \<and> scc s < 1) \<Longrightarrow> dropWhile is_blank (sct (next_arg (cleared s))) = c # r \<Longrightarrow> P s"
  shows "P s"
proof (induction s rule: token.induct)
  case (1 s)
  then show ?case
    using assms unfolding cleared_def by (metis list.exhaust)
qed

lemma token_left:
  "sc_left (token s) \<le> sc_left s \<and> (sc_tokid (token s) \<noteq> EOF \<longrightarrow> sc_left (token s) < sc_left s)"
proof (induction s rule: token_induct)
  case (stop s)
  then show ?case by (simp add: token_stop sc_left_def cleared_def)
next
  case (skip s)
  let ?s1 = "next_arg (cleared s)"
  have "sc_left (?s1\<lparr>sct := [], sc_need := True\<rparr>) < sc_left ?s1" by (simp add: sc_left_def)
  with skip next_arg_left [OF skip(1)] token_skip [OF skip(1,2)] show ?case by simp
next
  case (scan s c r)
  let ?s1 = "next_arg (cleared s)"
  have len: "length (c # r) \<le> length (sct ?s1)" by (metis scan(2) length_dropWhile_le)
  have "sc_left (?s1\<lparr>sct := c # r\<rparr>) \<le> sc_left ?s1" using len by (simp add: sc_left_def)
  moreover have "sc_left (scan_token ?s1 c r) \<le> sc_left (?s1\<lparr>sct := c # r\<rparr>)"
    by (auto simp: scan_token_def sc_left_def parse_token_def
        intro: le_SucI le_trans [OF length_dropWhile_le])
  moreover have "sc_left (scan_token ?s1 c r) < sc_left (?s1\<lparr>sct := c # r\<rparr>)"
    if "sc_tokid (scan_token ?s1 c r) \<noteq> EOF"
    using scan_token_left [OF that, of "?s1\<lparr>sct := c # r\<rparr>"] by simp
  ultimately show ?case
    using next_arg_left [OF scan(1)] unfolding token_scan_arg [OF scan(1,2)] by linarith
qed

lemma expect2_left: "expect2 d e s = Inr s' \<Longrightarrow> sc_left s' \<le> sc_left s"
  using token_left [of s] by (auto simp: expect2_def Let_def split: if_splits)

lemma sc_left_update [simp]:
  "sc_left (s\<lparr>pm_op := a\<rparr>) = sc_left s" "sc_left (s\<lparr>pm_prev := b\<rparr>) = sc_left s"
  "sc_left (s\<lparr>sc_tokid := t\<rparr>) = sc_left s"
  by (simp_all add: sc_left_def)

lemma token_le: "sc_left (token s) \<le> sc_left s"
  using token_left by blast

lemma plus_minus_left: "plus_minus doop (s, tv) = Inr (s', tv') \<Longrightarrow> sc_left s' \<le> sc_left s"
proof (cases doop)
  case None
  then show "plus_minus doop (s, tv) = Inr (s', tv') \<Longrightarrow> ?thesis"
    using token_le [of s] by (auto simp: plus_minus_def Let_def)
next
  case (Some op)
  assume "plus_minus doop (s, tv) = Inr (s', tv')"
  with Some obtain s1 where "expect2 NUMBER Pt_number_after_sign (s\<lparr>pm_op := op\<rparr>) = Inr s1"
    "sc_left s' = sc_left (token (s1\<lparr>pm_prev := None\<rparr>))"
    by (auto simp: plus_minus_def tbind_def Let_def split: sum.splits)
  then show ?thesis using expect2_left token_le [of "s1\<lparr>pm_prev := None\<rparr>"] by fastforce
qed

definition offset_token :: "token_id \<Rightarrow> bool" where
  "offset_token t \<longleftrightarrow> t = PLUS \<or> t = MINUS \<or> t = NUMBER"

function offset_loop :: "scanner \<Rightarrow> rrd_time_value_t \<Rightarrow> pt_error + scanner \<times> rrd_time_value_t" where
  "offset_loop s tv =
     (if offset_token (sc_tokid s)
      then (case plus_minus (if sc_tokid s = NUMBER then None else Some (sc_tokid s)) (s, tv) of
              Inl e \<Rightarrow> Inl e
            | Inr (s', tv') \<Rightarrow> offset_loop (token s') tv')
      else Inr (s, tv))"
  by pat_completeness auto
termination
proof (relation "measure (\<lambda>(s, tv). if offset_token (sc_tokid s) then Suc (sc_left s) else 0)", goal_cases)
  case (2 s tv p s' tv')
  then show ?case
    using plus_minus_left [of _ s tv s' tv'] token_left [of s'] by (force simp: offset_token_def)
qed simp

declare offset_loop.simps [simp del]

definition zero_date :: "tm \<Rightarrow> tm" where
  "zero_date t = t\<lparr>tm_sec := 0, tm_min := 0, tm_hour := 0, tm_mday := 0, tm_mon := 0, tm_year := 0\<rparr>"

text \<open>The part from \<open>KeepItRelative\<close> on.\<close>

definition relative_part ::
  "rrd_timetype_t \<Rightarrow> scanner \<times> rrd_time_value_t \<Rightarrow> pt_error + scanner \<times> rrd_time_value_t" where
  "relative_part ty st =
     (case st of (s, tv) \<Rightarrow>
        let s' = token s
        in if sc_tokid s' = PLUS \<or> sc_tokid s' = MINUS
           then Inr (s', (tm_upd zero_date tv)\<lparr>tv_type := ty\<rparr>)
           else Inl Pt_start_end_offset)"

text \<open>A specification that starts with a number; 30 and 30000 mark the hour and the year as not
  set.\<close>

definition number_part ::
  "time_env \<Rightarrow> scanner \<times> rrd_time_value_t \<Rightarrow> pt_error + scanner \<times> rrd_time_value_t" where
  "number_part te st =
     (case st of (s, tv) \<Rightarrow>
        let hour_sv = tm_hour (tv_tm tv); year_sv = tm_year (tv_tm tv)
        in tbind (tod (s, tm_upd (\<lambda>t. t\<lparr>tm_hour := 30, tm_year := 30000\<rparr>) tv)) (\<lambda>st1.
           tbind (day te st1) (\<lambda>(s2, tv2).
           tbind (if tm_hour (tv_tm tv2) = 30 \<and> tm_year (tv_tm tv2) \<noteq> 30000 then tod (s2, tv2)
                  else Inr (s2, tv2)) (\<lambda>(s3, tv3).
             Inr (s3, tm_upd (\<lambda>t. t\<lparr>tm_hour := (if tm_hour t = 30 then hour_sv else tm_hour t),
                                   tm_year := (if tm_year t = 30000 then year_sv else tm_year t)\<rparr>) tv3)))))"

definition hour_part ::
  "time_env \<Rightarrow> cint \<Rightarrow> scanner \<times> rrd_time_value_t \<Rightarrow> pt_error + scanner \<times> rrd_time_value_t" where
  "hour_part te hr st =
     (case st of (s, tv) \<Rightarrow>
        day te (token s, tm_upd (\<lambda>t. t\<lparr>tm_hour := hr, tm_min := 0, tm_sec := 0\<rparr>) tv))"

text \<open>The \<open>switch\<close> over the first token.\<close>

definition time_reference ::
  "time_env \<Rightarrow> scanner \<times> rrd_time_value_t \<Rightarrow> pt_error + scanner \<times> rrd_time_value_t" where
  "time_reference te st =
     (case st of (s, tv) \<Rightarrow>
        let t = sc_tokid s
        in if t = PLUS \<or> t = MINUS then Inr (s, tv)
           else if t = EPOCH then relative_part RELATIVE_TO_EPOCH (s, tv)
           else if t = START then relative_part RELATIVE_TO_START_TIME (s, tv)
           else if t = END then relative_part RELATIVE_TO_END_TIME (s, tv)
           else if t = NOW
           then (let s' = token s
                 in if sc_tokid s' = PLUS \<or> sc_tokid s' = MINUS \<or> sc_tokid s' = EOF then Inr (s', tv)
                    else Inl Pt_now_offset)
           else if t = NUMBER then number_part te (s, tv)
           else if t \<in> set month_tokens
           then tbind (day te (s, tv)) (\<lambda>(s', tv').
                  if sc_tokid s' = NUMBER then tod (s', tv') else Inr (s', tv'))
           else if t = TEATIME then hour_part te 16 (s, tv)
           else if t = NOON then hour_part te 12 (s, tv)
           else if t = MIDNIGHT then hour_part te 0 (s, tv)
           else Inl Pt_unparsable)"

text \<open>The initial values of the static variables; none of them is read before it is set.\<close>

definition scanner0 :: scanner where
  "scanner0 = \<lparr>Specials = VariousWords, scp = [], scc = 0, sct = [], sc_need = True, sc_token = [],
     sc_len = 0, sc_tokid = EOF, pm_op = PLUS, pm_prev = None\<rparr>"

definition default_time :: "time_env \<Rightarrow> rrd_time_value_t" where
  "default_time te = \<lparr>tv_type = ABSOLUTE_TIME, tv_offset = 0,
     tv_tm = (te_localtime te (fst (te_now te)))\<lparr>tm_isdst := - 1\<rparr>\<rparr>"

definition check_time :: "time_env \<Rightarrow> rrd_time_value_t \<Rightarrow> pt_error + rrd_time_value_t" where
  "check_time te tv =
     (if tv_type tv = ABSOLUTE_TIME
      then (case te_mktime te (tv_tm tv) of
              (t, tm') \<Rightarrow> if t = - 1 then Inl Pt_out_of_range else Inr (tv\<lparr>tv_tm := tm'\<rparr>))
      else Inr tv)"

definition rrd_parsetime :: "time_env \<Rightarrow> string \<Rightarrow> pt_error + rrd_time_value_t" where
  "rrd_parsetime te tspec =
     tbind (time_reference te (token (init_scanner [tspec] scanner0), default_time te)) (\<lambda>(s, tv).
     tbind (if sc_tokid s = PLUS \<or> sc_tokid s = MINUS
            then offset_loop (s\<lparr>Specials := TimeMultipliers\<rparr>) tv else Inr (s, tv)) (\<lambda>(s', tv').
       if sc_tokid s' \<noteq> EOF then Inl Pt_trailing else check_time te tv'))"

section \<open>Start and end\<close>

datatype start_end_error = Relative_to_each_other | Start_relative_to_itself | End_relative_to_itself

text \<open>The first time moved by the days, months, years and seconds of a relative one.\<close>

definition shifted_time :: "time_env \<Rightarrow> time_t \<Rightarrow> rrd_time_value_t \<Rightarrow> time_t" where
  "shifted_time te t tv =
     (let l = te_localtime te t; d = tv_tm tv
      in s64 (fst (te_mktime te (l\<lparr>tm_mday := s32 (tm_mday l + tm_mday d), tm_mon := s32 (tm_mon l + tm_mon d),
                                   tm_year := s32 (tm_year l + tm_year d)\<rparr>)) + tv_offset tv))"

definition tv_time :: "time_env \<Rightarrow> rrd_time_value_t \<Rightarrow> time_t" where
  "tv_time te tv = s64 (fst (te_mktime te (tv_tm tv)) + tv_offset tv)"

text \<open>\<open>mktime\<close> normalises the broken-down time it is given.\<close>

definition normalised :: "time_env \<Rightarrow> rrd_time_value_t \<Rightarrow> rrd_time_value_t" where
  "normalised te tv = tv\<lparr>tv_tm := snd (te_mktime te (tv_tm tv))\<rparr>"

definition rrd_proc_start_end ::
  "time_env \<Rightarrow> rrd_time_value_t \<Rightarrow> rrd_time_value_t \<Rightarrow> start_end_error + time_t \<times> time_t" where
  "rrd_proc_start_end te start_tv end_tv =
     (if tv_type start_tv = RELATIVE_TO_END_TIME \<and> tv_type end_tv = RELATIVE_TO_START_TIME
      then Inl Relative_to_each_other
      else if tv_type start_tv = RELATIVE_TO_START_TIME then Inl Start_relative_to_itself
      else if tv_type end_tv = RELATIVE_TO_END_TIME then Inl End_relative_to_itself
      else
        let (start, start_tv1, end_tv1) =
              (if tv_type start_tv = RELATIVE_TO_END_TIME
               then (shifted_time te (tv_time te end_tv) start_tv, start_tv, normalised te end_tv)
               else (tv_time te start_tv, normalised te start_tv, end_tv))
        in if tv_type end_tv = RELATIVE_TO_START_TIME
           then let start' = tv_time te start_tv1 in Inr (start', shifted_time te start' end_tv1)
           else Inr (start, tv_time te end_tv1))"

section \<open>A sample environment\<close>

text \<open>A clock in UTC, with the conversions of the Gregorian calendar.\<close>

definition civil_days :: "int \<Rightarrow> int \<Rightarrow> int" where
  "civil_days y m =
     (let z = (if m < 2 then y - 1 else y)
      in 365 * z + z div 4 - z div 100 + z div 400 + (153 * ((m + 10) mod 12) + 2) div 5 - 719468)"

definition utc_localtime :: "time_t \<Rightarrow> tm" where
  "utc_localtime t =
     (let days = t div 86400; secs = t mod 86400; z = days + 719468; era = z div 146097;
          doe = z mod 146097; yoe = (doe - doe div 1460 + doe div 36524 - doe div 146096) div 365;
          doy = doe - (365 * yoe + yoe div 4 - yoe div 100); mp = (5 * doy + 2) div 153;
          m = (mp + 2) mod 12; y = yoe + era * 400 + (if m < 2 then 1 else 0)
      in \<lparr>tm_sec = secs mod 60, tm_min = secs div 60 mod 60, tm_hour = secs div 3600,
          tm_mday = doy - (153 * mp + 2) div 5 + 1, tm_mon = m, tm_year = y - 1900,
          tm_wday = (days + 4) mod 7, tm_yday = days - civil_days y 0, tm_isdst = 0\<rparr>)"

definition utc_mktime :: "tm \<Rightarrow> time_t \<times> tm" where
  "utc_mktime t =
     (let y = tm_year t + 1900 + tm_mon t div 12; m = tm_mon t mod 12;
          v = (civil_days y m + tm_mday t - 1) * 86400 + tm_hour t * 3600 + tm_min t * 60 + tm_sec t
      in (v, utc_localtime v))"

definition sample_time :: time_env where
  "sample_time = \<lparr>te_now = (1200003600, 0), te_localtime = utc_localtime, te_mktime = utc_mktime\<rparr>"

section \<open>Scanning\<close>

text \<open>The characters after a token of digits, or of letters, do not extend it.\<close>

definition stops :: "(char \<Rightarrow> bool) \<Rightarrow> string \<Rightarrow> bool" where
  "stops P r \<longleftrightarrow> r = [] \<or> \<not> P (hd r)"

lemma stops_simps [simp]: "stops P []" "stops P (c # r) \<longleftrightarrow> \<not> P c"
  by (simp_all add: stops_def)

lemma takeWhile_stops: "list_all P w \<Longrightarrow> stops P r \<Longrightarrow> takeWhile P (w @ r) = w \<and> dropWhile P (w @ r) = r"
  by (induction w) (auto, (cases r; simp)+)

lemma not_blank: "is_digit c \<Longrightarrow> \<not> is_blank c" "is_alpha c \<Longrightarrow> \<not> is_blank c"
  by (auto simp: is_blank_def is_digit_not_space is_digit_def is_alpha_def is_space_def)

lemma token_scan:
  "\<not> sc_need s \<Longrightarrow> sct s = c # r \<Longrightarrow> \<not> is_blank c \<Longrightarrow> token s = scan_token (cleared s) c r"
  by (subst token_scan_arg [where c = c and r = r]) (simp_all add: next_arg_def cleared_def)

lemma token_number:
  "\<not> sc_need s \<Longrightarrow> sct s = ds @ r \<Longrightarrow> ds \<noteq> [] \<Longrightarrow> list_all is_digit ds \<Longrightarrow> stops is_digit r \<Longrightarrow>
   token s = s\<lparr>sc_token := ds, sct := r, sc_tokid := NUMBER\<rparr>"
  by (cases ds) (auto simp: token_scan not_blank scan_token_def cleared_def takeWhile_stops)

lemma token_word:
  "\<not> sc_need s \<Longrightarrow> sct s = w @ r \<Longrightarrow> w \<noteq> [] \<Longrightarrow> list_all is_alpha w \<Longrightarrow> stops is_alpha r \<Longrightarrow>
   token s = s\<lparr>sc_token := w, sct := r, sc_tokid := find_special (Specials s) w\<rparr>"
  by (cases w) (auto simp: token_scan not_blank scan_token_def cleared_def parse_token_def takeWhile_stops
      is_digit_def is_alpha_def)

lemma token_sign:
  "\<not> sc_need s \<Longrightarrow> sct s = c # r \<Longrightarrow> c = CHR ''+'' \<or> c = CHR ''-'' \<Longrightarrow>
   token s = s\<lparr>sc_token := [c], sct := r, sc_tokid := (if c = CHR ''+'' then PLUS else MINUS)\<rparr>"
  by (auto simp: token_scan is_blank_def is_space_def scan_token_def cleared_def is_digit_def is_alpha_def)

lemma token_end:
  "\<not> sc_need s \<Longrightarrow> sct s = [] \<Longrightarrow> scc s < 1 \<Longrightarrow> token s = (cleared s)\<lparr>sct := [], sc_need := True\<rparr>"
  by (subst token_skip) (simp_all add: token_stop next_arg_def cleared_def)

lemma token_first: "sc_need s \<Longrightarrow> scc s \<ge> 1 \<Longrightarrow> token s = token (next_arg s)"
proof -
  assume "sc_need s" "scc s \<ge> 1"
  then have n: "next_arg (cleared (next_arg s)) = next_arg (cleared s)" "\<not> (sc_need s \<and> scc s < 1)"
    by (simp_all add: next_arg_def cleared_def)
  show "token s = token (next_arg s)"
    by (cases "dropWhile is_blank (sct (next_arg (cleared s)))")
      (simp_all only: token_skip token_scan_arg n next_arg_fields simp_thms)
qed

text \<open>Once the scanner has reported the end, it reports the end for ever.\<close>

lemma find_special_not_eof: "EOF \<notin> snd ` set ts \<Longrightarrow> find_special ts w \<noteq> EOF"
  by (induction ts w rule: find_special.induct) auto

lemma token_Specials [simp]: "Specials (token s) = Specials s"
proof (induction s rule: token_induct)
  case (stop s)
  then show ?case by (simp add: token_stop cleared_def)
next
  case (skip s)
  show ?case unfolding token_skip [OF skip(1,2)] using skip(3-) token_skip [OF skip(1,2)] by simp
next
  case (scan s c r)
  show ?case unfolding token_scan_arg [OF scan(1,2)] by simp
qed

lemma scan_token_stuck:
  "EOF \<notin> snd ` set (Specials s) \<Longrightarrow> sc_tokid (scan_token s c r) = EOF \<Longrightarrow>
   sct (scan_token s c r) = c # r \<and> sc_tokid (scan_token s' c r) = EOF"
  using find_special_not_eof [of "Specials s" "c # takeWhile is_alpha r"]
  by (simp add: scan_token_def parse_token_def split: if_split_asm)

lemma token_eof_again:
  "EOF \<notin> snd ` set (Specials s) \<Longrightarrow> sc_tokid (token s) = EOF \<Longrightarrow> sc_tokid (token (token s)) = EOF"
proof (induction s rule: token_induct)
  case (stop s)
  then show ?case by (simp add: token_stop cleared_def)
next
  case (skip s)
  then show ?case unfolding token_skip [OF skip(1,2)] by simp
next
  case (scan s c r)
  let ?t = "scan_token (next_arg (cleared s)) c r"
  have st: "sct ?t = c # r" "\<And>s'. sc_tokid (scan_token s' c r) = EOF"
    using scan scan_token_stuck [of "next_arg (cleared s)" c r] by (simp_all add: token_scan_arg)
  have "\<not> is_blank c" using scan(2) hd_dropWhile [of is_blank "sct (next_arg (cleared s))"] by simp
  with st have "token ?t = scan_token (cleared ?t) c r" by (intro token_scan) simp_all
  with st show ?case using scan by (simp add: token_scan_arg)
qed

lemma token_funpow_Specials [simp]: "Specials ((token ^^ n) s) = Specials s"
  by (induction n) auto

text \<open>C40: The scanner reaches the end of its input: for the two word lists of the parser, after
  more calls than there is left to scan \<open>token\<close> has returned \<open>EOF\<close>, and it does so on every
  further call, as the loop over the offsets relies on.\<close>

theorem scanner_reaches_end:
  assumes "Specials s = VariousWords \<or> Specials s = TimeMultipliers" and "sc_left s < n"
  shows "sc_tokid ((token ^^ n) s) = EOF"
proof -
  have ne: "EOF \<notin> snd ` set (Specials ((token ^^ k) s))" for k
    using assms(1) by (auto simp: VariousWords_def TimeMultipliers_def)
  have "sc_tokid ((token ^^ Suc k) s) \<noteq> EOF \<Longrightarrow> k + sc_left ((token ^^ Suc k) s) < sc_left s" for k
  proof (induction k)
    case 0
    then show ?case using token_left [of s] by simp
  next
    case (Suc k)
    then have "sc_tokid ((token ^^ Suc k) s) \<noteq> EOF"
      using token_eof_again [OF ne [of k]] by auto
    with Suc token_left [of "(token ^^ Suc k) s"] show ?case by force
  qed
  from this [of "n - 1"] assms(2) show ?thesis by (cases n) auto
qed

theorem scanner_reaches_end_witness:
  "sc_tokid ((token ^^ 9) (init_scanner [''now'', ''-''] scanner0)) = EOF"
proof (rule scanner_reaches_end)
  show "Specials (init_scanner [''now'', ''-''] scanner0) = VariousWords \<or>
    Specials (init_scanner [''now'', ''-''] scanner0) = TimeMultipliers"
    by (simp add: init_scanner_def scanner0_def)
  show "sc_left (init_scanner [''now'', ''-''] scanner0) < 9"
    by (simp add: init_scanner_def scanner0_def sc_left_def numeral_2_eq_2)
qed

section \<open>What the parser computes\<close>

text \<open>An offset as it is written: a sign, or none for the operation of the offset before; digits; a
  unit word.\<close>

record offset_item =
  it_sign :: "char option"
  it_digits :: string
  it_unit :: string

definition item_text :: "offset_item \<Rightarrow> string" where
  "item_text i = (case it_sign i of None \<Rightarrow> [] | Some c \<Rightarrow> [c]) @ it_digits i @ it_unit i"

definition item_ok :: "offset_item \<Rightarrow> bool" where
  "item_ok i \<longleftrightarrow> it_sign i \<in> {None, Some (CHR ''+''), Some (CHR ''-'')} \<and>
     it_digits i \<noteq> [] \<and> list_all is_digit (it_digits i) \<and>
     it_unit i \<noteq> [] \<and> list_all is_alpha (it_unit i)"

text \<open>Its meaning, given the operation and the unit of the offset before.\<close>

fun offsets_meaning ::
  "token_id \<Rightarrow> token_id option \<Rightarrow> offset_item list \<Rightarrow> rrd_time_value_t \<Rightarrow> rrd_time_value_t" where
  "offsets_meaning op prev [] tv = tv"
| "offsets_meaning op prev (i # is) tv =
     (let op' = (case it_sign i of None \<Rightarrow> op | Some c \<Rightarrow> if c = CHR ''+'' then PLUS else MINUS);
          prev' = (case it_sign i of None \<Rightarrow> prev | Some c \<Rightarrow> None);
          n = atoi (it_digits i);
          w = find_special TimeMultipliers (it_unit i);
          u = (if w = MONTHS_MINUTES then guess_unit prev' n else w)
      in offsets_meaning op' (Some u) is (add_unit u op' n tv))"

lemma item_text_Cons:
  "item_ok i \<Longrightarrow> \<exists>c r. item_text i = c # r \<and> \<not> is_alpha c"
  by (auto simp: item_ok_def item_text_def neq_Nil_conv is_digit_def is_alpha_def split: option.splits)

lemma items_stop: "list_all item_ok is \<Longrightarrow> stops is_alpha (concat (map item_text is))"
  using item_text_Cons by (cases "is") fastforce+

lemma digits_stop: "it_unit i \<noteq> [] \<Longrightarrow> list_all is_alpha (it_unit i) \<Longrightarrow> stops is_digit (it_unit i @ r)"
  by (auto simp: neq_Nil_conv is_digit_def is_alpha_def)

text \<open>\<open>item_scanner s i r\<close>: the scanner after the number or the sign of \<open>i\<close>, with \<open>r\<close> to follow.\<close>

definition item_begun :: "scanner \<Rightarrow> offset_item \<Rightarrow> string \<Rightarrow> bool" where
  "item_begun s i r \<longleftrightarrow> \<not> sc_need s \<and> scc s < 1 \<and> Specials s = TimeMultipliers \<and>
     (case it_sign i of
        None \<Rightarrow> sc_tokid s = NUMBER \<and> sc_token s = it_digits i \<and> sct s = it_unit i @ r
      | Some c \<Rightarrow> sc_tokid s = (if c = CHR ''+'' then PLUS else MINUS) \<and> sct s = it_digits i @ it_unit i @ r)"

lemma token_begins:
  assumes "item_ok i" "\<not> sc_need s" "scc s < 1" "Specials s = TimeMultipliers" "sct s = item_text i @ r"
  shows "item_begun (token s) i r \<and> pm_op (token s) = pm_op s \<and> pm_prev (token s) = pm_prev s"
proof (cases "it_sign i")
  case None
  then have "token s = s\<lparr>sc_token := it_digits i, sct := it_unit i @ r, sc_tokid := NUMBER\<rparr>"
    using assms digits_stop [of i r] by (intro token_number) (simp_all add: item_text_def item_ok_def)
  then show ?thesis using assms None by (simp add: item_begun_def)
next
  case (Some c)
  then have "token s = s\<lparr>sc_token := [c], sct := it_digits i @ it_unit i @ r,
      sc_tokid := (if c = CHR ''+'' then PLUS else MINUS)\<rparr>"
    using assms by (intro token_sign) (auto simp: item_text_def item_ok_def)
  then show ?thesis using assms Some by (simp add: item_begun_def)
qed

lemma plus_minus_item:
  assumes "item_ok i" "item_begun s i r" "stops is_alpha r"
  defines "op \<equiv> (case it_sign i of None \<Rightarrow> pm_op s | Some c \<Rightarrow> if c = CHR ''+'' then PLUS else MINUS)"
    and "prev \<equiv> (case it_sign i of None \<Rightarrow> pm_prev s | Some c \<Rightarrow> None)"
    and "n \<equiv> atoi (it_digits i)" and "w \<equiv> find_special TimeMultipliers (it_unit i)"
  defines "u \<equiv> (if w = MONTHS_MINUTES then guess_unit prev n else w)"
  shows "plus_minus (if sc_tokid s = NUMBER then None else Some (sc_tokid s)) (s, tv) =
    Inr (s\<lparr>pm_op := op, pm_prev := Some u, sc_token := it_unit i, sct := r, sc_tokid := u\<rparr>, add_unit u op n tv)"
proof -
  have word: "token s1 = s1\<lparr>sc_token := it_unit i, sct := r, sc_tokid := w\<rparr>"
    if "\<not> sc_need s1" "sct s1 = it_unit i @ r" "Specials s1 = TimeMultipliers" for s1
    using token_word [OF that(1,2)] assms that by (simp add: item_ok_def)
  show ?thesis
  proof (cases "it_sign i")
    case None
    then show ?thesis
      using assms(2) word [of s] by (simp add: plus_minus_def item_begun_def Let_def op_def prev_def n_def u_def)
  next
    case (Some c)
    have "token (s\<lparr>pm_op := op\<rparr>) =
        s\<lparr>pm_op := op, sc_token := it_digits i, sct := it_unit i @ r, sc_tokid := NUMBER\<rparr>"
      using assms(1,2) Some digits_stop [of i r]
      by (subst token_number [of _ "it_digits i" "it_unit i @ r"]) (simp_all add: item_begun_def item_ok_def)
    then show ?thesis
      using assms(2) Some word
      by (auto simp: plus_minus_def item_begun_def expect2_def Let_def op_def prev_def n_def u_def)
  qed
qed

lemma begun_offset: "item_begun s i r \<Longrightarrow> offset_token (sc_tokid s)"
  by (auto simp: item_begun_def offset_token_def split: option.splits)

lemma offset_loop_item:
  assumes "item_ok i" "item_begun s i r" "stops is_alpha r"
  obtains s1 tv1 where "offset_loop s tv = offset_loop (token s1) tv1"
    and "\<not> sc_need s1" "scc s1 < 1" "Specials s1 = TimeMultipliers" "sct s1 = r"
    and "\<And>is. offsets_meaning (pm_op s) (pm_prev s) (i # is) tv = offsets_meaning (pm_op s1) (pm_prev s1) is tv1"
proof (rule that)
  note pm = plus_minus_item [OF assms, of tv]
  show "offset_loop s tv = offset_loop (token (fst (projr (plus_minus
      (if sc_tokid s = NUMBER then None else Some (sc_tokid s)) (s, tv))))) (snd (projr (plus_minus
      (if sc_tokid s = NUMBER then None else Some (sc_tokid s)) (s, tv))))"
    by (subst offset_loop.simps) (use begun_offset [OF assms(2)] in \<open>simp only: pm if_True sum.case prod.case sum.sel fst_conv snd_conv\<close>)
qed (use plus_minus_item [OF assms, of tv] assms(2) in \<open>simp_all add: item_begun_def Let_def\<close>)

lemma offset_loop_items:
  assumes "list_all item_ok (i # is)" "item_begun s i (concat (map item_text is))"
  shows "\<exists>s'. offset_loop s tv = Inr (s', offsets_meaning (pm_op s) (pm_prev s) (i # is) tv) \<and> sc_tokid s' = EOF"
  using assms
proof (induction "is" arbitrary: i s tv)
  case Nil
  obtain s1 tv1 where s1: "offset_loop s tv = offset_loop (token s1) tv1" "\<not> sc_need s1" "scc s1 < 1"
      "sct s1 = []" "offsets_meaning (pm_op s) (pm_prev s) [i] tv = tv1"
    using offset_loop_item [of i s "[]" tv] Nil by (metis concat.simps(1) list.map(1) list.pred_inject(2) offsets_meaning.simps(1) stops_simps(1))
  have "offset_loop (token s1) tv1 = Inr (token s1, tv1) \<and> sc_tokid (token s1) = EOF"
    by (subst offset_loop.simps) (simp add: token_end s1 cleared_def offset_token_def)
  with s1 show ?case by auto
next
  case (Cons j js)
  let ?r = "concat (map item_text (j # js))"
  have st: "stops is_alpha ?r" using Cons.prems(1) by (intro items_stop) simp
  obtain s1 tv1 where s1: "offset_loop s tv = offset_loop (token s1) tv1" "\<not> sc_need s1" "scc s1 < 1"
      "Specials s1 = TimeMultipliers" "sct s1 = ?r"
      "offsets_meaning (pm_op s) (pm_prev s) (i # j # js) tv = offsets_meaning (pm_op s1) (pm_prev s1) (j # js) tv1"
    using offset_loop_item [OF _ Cons.prems(2) st, of tv] Cons.prems(1) by (metis list.pred_inject(2))
  have b: "item_begun (token s1) j (concat (map item_text js)) \<and> pm_op (token s1) = pm_op s1 \<and>
      pm_prev (token s1) = pm_prev s1"
    using Cons.prems(1) s1 by (intro token_begins) simp_all
  then show ?case using Cons.IH [of j "token s1" tv1] Cons.prems(1) s1 by simp
qed

text \<open>C34: A time specification \<open>now\<close> followed by offsets means the current time moved by each offset in turn.
  An offset is a number and a unit; a sign holds for all the offsets up to the next sign; the unit
  \<open>m\<close> is months after days, weeks, months and years, minutes after seconds, minutes and
  hours, and else months below 6. The parser computes this meaning, and then has \<open>mktime\<close>
  normalise and check the result.\<close>

theorem now_offsets:
  assumes "list_all item_ok (i # is)" "it_sign i \<noteq> None"
  shows "rrd_parsetime te (''now'' @ concat (map item_text (i # is))) =
    check_time te (offsets_meaning PLUS None (i # is) (default_time te))"
proof -
  let ?r = "concat (map item_text (i # is))"
  let ?s = "init_scanner [''now'' @ ?r] scanner0"
  let ?n = "(next_arg ?s)\<lparr>sc_token := ''now'', sct := ?r, sc_tokid := NOW\<rparr>"
  have w: "find_special VariousWords ''now'' = NOW" by (simp add: VariousWords_def to_lower_def)
  have "token ?s = token (next_arg ?s)" by (rule token_first) (simp_all add: init_scanner_def)
  also have "\<dots> = ?n"
    using w items_stop [OF assms(1)]
    by (subst token_word [of _ "''now''" ?r]) (simp_all add: next_arg_def init_scanner_def scanner0_def is_alpha_def)
  finally have t: "token ?s = ?n" .
  obtain c where c: "it_sign i = Some c" "c = CHR ''+'' \<or> c = CHR ''-''"
    using assms by (auto simp: item_ok_def)
  let ?t = "(token ?n)\<lparr>Specials := TimeMultipliers\<rparr>"
  have tn: "token ?n = ?n\<lparr>sc_token := [c], sct := it_digits i @ it_unit i @ concat (map item_text is),
      sc_tokid := (if c = CHR ''+'' then PLUS else MINUS)\<rparr>"
    using c by (intro token_sign) (simp_all add: item_text_def)
  have b: "item_begun ?t i (concat (map item_text is))"
    unfolding tn using c by (simp add: item_begun_def next_arg_def init_scanner_def)
  have m: "offsets_meaning (pm_op ?t) (pm_prev ?t) (i # is) = offsets_meaning PLUS None (i # is)"
    by (rule ext) (simp add: c)
  have sgn: "sc_tokid (token ?n) = PLUS \<or> sc_tokid (token ?n) = MINUS"
    by (subst (1 2) tn) simp
  obtain s' where "offset_loop ?t (default_time te) = Inr (s', offsets_meaning PLUS None (i # is) (default_time te))"
      "sc_tokid s' = EOF"
    using offset_loop_items [OF assms(1) b, of "default_time te"] unfolding m by blast
  moreover have "time_reference te (token ?s, default_time te) = Inr (token ?n, default_time te)"
    using sgn unfolding t by (auto simp: time_reference_def Let_def)
  ultimately show ?thesis using sgn by (simp add: rrd_parsetime_def)
qed

text \<open>The evaluation of a parse on the sample clock.\<close>

lemmas token_eval =
  token_number token_word token_sign token_end cleared_def next_arg_def init_scanner_def scanner0_def

theorem now_offsets_witness:
  "rrd_parsetime sample_time ''now-1d2h+30m'' = Inr \<lparr>tv_type = ABSOLUTE_TIME, tv_offset = - 5400,
     tv_tm = utc_localtime (1200003600 - 86400)\<rparr>"
proof -
  let ?i = "\<lparr>it_sign = Some CHR ''-'', it_digits = ''1'', it_unit = ''d''\<rparr>"
  let ?is = "[\<lparr>it_sign = None, it_digits = ''2'', it_unit = ''h''\<rparr>,
    \<lparr>it_sign = Some CHR ''+'', it_digits = ''30'', it_unit = ''m''\<rparr>]"
  have ok: "list_all item_ok (?i # ?is)" by (simp add: item_ok_def is_digit_def is_alpha_def)
  have t: "''now'' @ concat (map item_text (?i # ?is)) = ''now-1d2h+30m''" by (simp add: item_text_def)
  have m: "check_time sample_time (offsets_meaning PLUS None (?i # ?is) (default_time sample_time)) =
    Inr \<lparr>tv_type = ABSOLUTE_TIME, tv_offset = - 5400, tv_tm = utc_localtime (1200003600 - 86400)\<rparr>"
    by code_simp
  show ?thesis using now_offsets [OF ok, of sample_time] unfolding t m by simp
qed

section \<open>Seconds since the epoch\<close>

text \<open>What is asked of the conversions of the C library: \<open>localtime\<close> gives an hour of the day and a year
  before 31900, and \<open>mktime\<close> takes it, and the time it has normalised, back.\<close>

definition converts :: "time_env \<Rightarrow> time_t \<Rightarrow> bool" where
  "converts te t \<longleftrightarrow> tm_hour (te_localtime te t) < 24 \<and> tm_year (te_localtime te t) < 30000 \<and>
     fst (te_mktime te (te_localtime te t)) = t \<and>
     fst (te_mktime te (snd (te_mktime te (te_localtime te t)))) = t"

lemma dec_val_bound: "list_all is_digit ds \<Longrightarrow> dec_val a ds < (a + 1) * 10 ^ length ds"
proof (induction ds arbitrary: a)
  case (Cons c ds)
  then have "dec_val (a * 10 + digit_val c) ds < (a * 10 + digit_val c + 1) * 10 ^ length ds" by simp
  also have "\<dots> \<le> ((a + 1) * 10) * 10 ^ length ds"
    using Cons.prems digit_val_range [of c] by (intro mult_right_mono) simp_all
  finally show ?case by (simp add: algebra_simps)
qed simp

text \<open>A number above \<open>10 * 365 * 24 * 60 * 60\<close> is a time in seconds: the parser accepts it, and the time
  its result stands for is that number.\<close>

theorem epoch_seconds_parsed:
  assumes "list_all is_digit ds" "10 * 365 * 24 * 60 * 60 < dec_val 0 ds" "dec_val 0 ds < 2 ^ 63"
    and "converts te (dec_val 0 ds)"
  shows "\<exists>tv. rrd_parsetime te ds = Inr tv \<and> tv_type tv = ABSOLUTE_TIME \<and> tv_time te tv = dec_val 0 ds"
proof -
  let ?v = "dec_val 0 ds" and ?s = "init_scanner [ds] scanner0"
  have len: "length ds > 2"
  proof (rule ccontr)
    assume "\<not> length ds > 2"
    then have "(10::int) ^ length ds \<le> 10 ^ 2" by (intro power_increasing) simp_all
    then show False using dec_val_bound [OF assms(1), of 0] assms(2) by simp
  qed
  then have ne: "ds \<noteq> []" by auto
  have a: "atol ds = ?v" using assms by (intro atol_digits)
  let ?n = "(next_arg ?s)\<lparr>sc_token := ds, sct := [], sc_tokid := NUMBER\<rparr>"
  have "token ?s = token (next_arg ?s)" by (rule token_first) (simp_all add: init_scanner_def)
  also have "\<dots> = ?n"
    using assms(1) ne by (subst token_number [of _ ds "[]"]) (simp_all add: next_arg_def init_scanner_def)
  finally have t: "token ?s = ?n" .
  have te: "token ?n = (cleared ?n)\<lparr>sct := [], sc_need := True\<rparr>"
    by (rule token_end) (simp_all add: next_arg_def init_scanner_def)
  let ?tv = "(default_time te)\<lparr>tv_tm := te_localtime te ?v\<rparr>"
  have "number_part te (?n, default_time te) = Inr (token ?n, ?tv)"
    using len assms a
    by (simp add: number_part_def tod_def day_def Let_def tm_upd_def converts_def month_tokens_def wday_tokens_def te cleared_def)
  then have "time_reference te (token ?s, default_time te) = Inr (token ?n, ?tv)"
    by (simp add: time_reference_def t Let_def month_tokens_def)
  moreover have "sc_tokid (token ?n) = EOF" unfolding te by (simp add: cleared_def)
  ultimately have "rrd_parsetime te ds = check_time te ?tv" by (simp add: rrd_parsetime_def)
  then show ?thesis using assms
    by (auto simp: check_time_def default_time_def converts_def tv_time_def s64_id split: prod.split)
qed

theorem epoch_seconds_parsed_witness:
  "\<exists>tv. rrd_parsetime sample_time ''1200003600'' = Inr tv \<and> tv_type tv = ABSOLUTE_TIME \<and>
    tv_time sample_time tv = 1200003600"
proof -
  have v: "dec_val 0 ''1200003600'' = 1200003600" by (simp add: digit_val_def)
  have c: "converts sample_time 1200003600" by code_simp
  show ?thesis
    using epoch_seconds_parsed [of "''1200003600''" sample_time] c unfolding v by (simp add: is_digit_def)
qed

section \<open>Start and end together\<close>

definition only_offset :: "rrd_time_value_t \<Rightarrow> bool" where
  "only_offset tv \<longleftrightarrow> tm_mday (tv_tm tv) = 0 \<and> tm_mon (tv_tm tv) = 0 \<and> tm_year (tv_tm tv) = 0"

definition int_tm :: "tm \<Rightarrow> bool" where
  "int_tm t \<longleftrightarrow> s32 (tm_mday t) = tm_mday t \<and> s32 (tm_mon t) = tm_mon t \<and> s32 (tm_year t) = tm_year t"

lemma shifted_time_offset:
  "only_offset tv \<Longrightarrow> int_tm (te_localtime te t) \<Longrightarrow> fst (te_mktime te (te_localtime te t)) = t \<Longrightarrow>
   shifted_time te t tv = s64 (t + tv_offset tv)"
  by (simp add: shifted_time_def only_offset_def int_tm_def Let_def)

text \<open>What is asked of the C library for the reference time \<open>tv\<close>: its conversion to a broken-down time
  and back, and that normalising is idempotent.\<close>

definition stable :: "time_env \<Rightarrow> rrd_time_value_t \<Rightarrow> bool" where
  "stable te tv \<longleftrightarrow>
     int_tm (te_localtime te (tv_time te tv)) \<and>
     fst (te_mktime te (te_localtime te (tv_time te tv))) = tv_time te tv \<and>
     fst (te_mktime te (snd (te_mktime te (tv_tm tv)))) = fst (te_mktime te (tv_tm tv))"

text \<open>Relative times: a start that is a number of seconds relative to the end is the end moved by these
  seconds, and an end relative to the start the start moved by them. The two
  cannot be relative to each other, and none can be relative to itself.\<close>

theorem start_end_relative:
  assumes "tv_type start_tv \<noteq> RELATIVE_TO_END_TIME \<Longrightarrow> stable te start_tv"
    and "tv_type end_tv \<noteq> RELATIVE_TO_START_TIME \<Longrightarrow> stable te end_tv"
  shows "case rrd_proc_start_end te start_tv end_tv of
      Inl e \<Rightarrow> tv_type start_tv = RELATIVE_TO_START_TIME \<or> tv_type end_tv = RELATIVE_TO_END_TIME \<or>
        tv_type start_tv = RELATIVE_TO_END_TIME \<and> tv_type end_tv = RELATIVE_TO_START_TIME
    | Inr (start, stop) \<Rightarrow>
        (tv_type start_tv = RELATIVE_TO_END_TIME \<longrightarrow> stop = tv_time te end_tv \<and>
           (only_offset start_tv \<longrightarrow> start = s64 (stop + tv_offset start_tv))) \<and>
        (tv_type end_tv = RELATIVE_TO_START_TIME \<longrightarrow> start = tv_time te start_tv \<and>
           (only_offset end_tv \<longrightarrow> stop = s64 (start + tv_offset end_tv))) \<and>
        (tv_type start_tv \<noteq> RELATIVE_TO_END_TIME \<longrightarrow> tv_type end_tv \<noteq> RELATIVE_TO_START_TIME \<longrightarrow>
           start = tv_time te start_tv \<and> stop = tv_time te end_tv)"
proof -
  have st: "stable te tv \<Longrightarrow> only_offset tv' \<Longrightarrow> shifted_time te (tv_time te tv) tv' = s64 (tv_time te tv + tv_offset tv')"
    "stable te tv \<Longrightarrow> tv_time te (normalised te tv) = tv_time te tv" for tv tv'
    by (simp_all add: shifted_time_offset stable_def normalised_def tv_time_def)
  show ?thesis using assms by (auto simp: rrd_proc_start_end_def Let_def st)
qed

theorem start_end_relative_witness:
  "rrd_proc_start_end sample_time
     \<lparr>tv_type = RELATIVE_TO_END_TIME, tv_offset = - 3600, tv_tm = zero_date (utc_localtime 0)\<rparr>
     \<lparr>tv_type = ABSOLUTE_TIME, tv_offset = 0, tv_tm = utc_localtime 1200003600\<rparr> =
   Inr (1200000000, 1200003600)" (is "rrd_proc_start_end _ ?s ?e = _")
proof -
  have st: "stable sample_time ?e" by code_simp
  have f: "tv_time sample_time ?e = 1200003600" "s64 (1200003600 - 3600) = 1200000000"
    "only_offset ?s" by code_simp+
  obtain x where x: "rrd_proc_start_end sample_time ?s ?e = x" by blast
  show ?thesis
    using start_end_relative [of ?s sample_time ?e] st f unfolding x
    by (cases x) auto
qed

section \<open>Three inputs\<close>

text \<open>A sign after a number without a unit is taken for the unit and dropped: 5 seconds more than
  10 seconds ago is read as 15 seconds ago.\<close>

lemma sign_taken_for_unit: "\<exists>tv. rrd_parsetime sample_time ''now-10+5'' = Inr tv \<and> tv_offset tv = - 15"
proof -
  have "rrd_parsetime sample_time ''now-10+5'' = Inr \<lparr>tv_type = ABSOLUTE_TIME, tv_offset = - 15,
     tv_tm = utc_localtime 1200003600\<rparr>" by code_simp
  then show ?thesis by auto
qed

text \<open>An offset after a date without a time of day is rejected: the second call of \<open>tod\<close> takes
  the sign for the hour.\<close>

lemma date_offset_rejected: "rrd_parsetime sample_time ''20200101+1d'' = Inl Pt_trailing"
  by code_simp

text \<open>A unit that is no unit counts as seconds, and \<open>epoch\<close> is the day before the first of January 1900.\<close>

lemma unknown_unit_is_seconds: "rrd_parsetime sample_time ''-5foo'' = rrd_parsetime sample_time ''-5s''"
  by code_simp

lemma epoch_reference:
  "map_sum id (tv_time sample_time) (rrd_parsetime sample_time ''epoch+100s'') = Inr (- 2209075200 + 100)"
  by code_simp

end
