(* ===== verification/Rrd_Create.thy ===== *)
theory Rrd_Create
  imports Rrd_Rpn_Parse Rrd_Hw Rrd_Parsetime
begin

text \<open>
  Creating a database, the definitions' part of \<open>rrd_create.c\<close>: durations (\<open>rrd_scaled_duration\<close> of
  \<open>rrd_utils.c\<close>), the hash of the file name (\<open>hash_32.c\<close>), the definitions of data sources (\<open>parseDS\<close>,
  \<open>parseGENERIC_DS\<close>) and archives (\<open>parseRRA\<close>, \<open>handle_dependent_rras\<close>,
  \<open>create_hw_contingent_rras\<close>), and the initial state (\<open>rrd_init_data\<close>).

  The regular expression for data sources is written out as the scan it amounts to; its parts are
  separated by characters that cannot occur in them. \<open>sscanf\<close> with \<open>%lf\<close> is a parameter, as is the
  sequence of random numbers. Allocations succeed.
\<close>

section \<open>Durations\<close>

datatype duration_error = Not_positive_number | Zero_divisor | Trailing_garbage | Not_positive | Would_truncate

definition unit_seconds :: "char \<Rightarrow> int option" where
  "unit_seconds c =
     (if c = CHR ''s'' then Some 1
      else if c = CHR ''m'' then Some 60
      else if c = CHR ''h'' then Some (60 * 60)
      else if c = CHR ''d'' then Some (24 * 60 * 60)
      else if c = CHR ''w'' then Some (7 * 24 * 60 * 60)
      else if c = CHR ''M'' then Some (31 * 24 * 60 * 60)
      else if c = CHR ''y'' then Some (366 * 24 * 60 * 60)
      else None)"

text \<open>\<open>strtoul\<close> matters only for a token that starts with a digit; a value out of range is \<open>ULONG_MAX\<close>.\<close>

definition rrd_scaled_duration :: "string \<Rightarrow> ulong \<Rightarrow> duration_error + ulong" where
  "rrd_scaled_duration tok divisor =
     (let v = min (2 ^ 64 - 1) (dec_val 0 (takeWhile is_digit tok));
          ep = dropWhile is_digit tok;
          scaled = (\<lambda>x. if x = 0 then Inl Not_positive
                        else if x mod divisor \<noteq> 0 then Inl Would_truncate
                        else Inr (x div divisor))
      in if tok = [] \<or> \<not> is_digit (hd tok) then Inl Not_positive_number
         else if divisor = 0 then Inl Zero_divisor
         else (case ep of
                 [] \<Rightarrow> if v = 0 then Inl Not_positive else Inr v
               | c # _ \<Rightarrow> (case unit_seconds c of None \<Rightarrow> Inl Trailing_garbage | Some u \<Rightarrow> scaled (u64 (v * u)))))"

section \<open>The hash of the file name\<close>

text \<open>\<open>Fnv32_t\<close> is \<open>unsigned long\<close>, which has 64 bits here, so the products are reduced modulo \<open>2 ^ 64\<close>.\<close>

definition fnv_step :: "int \<Rightarrow> char \<Rightarrow> int" where
  "fnv_step hval c = xor (u64 (hval * 16777619)) (of_char c)"

definition FnvHash :: "string \<Rightarrow> ulong" where
  "FnvHash str = foldl fnv_step 2166136261 str"

section \<open>Data sources\<close>

text \<open>The messages of the parsers. \<open>Division_by_zero\<close> stands for the undefined \<open>hash % period\<close>.\<close>

datatype create_error =
    Invalid_ds_format
  | Invalid_ds_type string
  | Ds_missing_separator
  | Ds_heartbeat_too_long
  | Ds_duration duration_error
  | Ds_min_val
  | Ds_max_val
  | Ds_min_not_less
  | Ds_no_min_max
  | Ds_compute rrd_error
  | Duplicate_ds string
  | Unrecognized_cf string
  | Invalid_row_count duration_error
  | Invalid_xff
  | Invalid_alpha
  | Invalid_gamma
  | Invalid_beta
  | Invalid_step duration_error
  | Threshold_range
  | Window_range
  | Window_shorter_than_threshold
  | Unexpected_extra_argument
  | Invalid_smoothing_window
  | Invalid_option string
  | Seasonal_cycle_too_long
  | Unknown_token
  | Too_few_rra_arguments
  | Bad_argument string
  | No_rra
  | No_ds
  | File_exists
  | Template_not_opened
  | Source_not_opened
  | Division_by_zero

record mapping_t =
  map_ds_nam :: string
  mapped_name :: string
  map_index :: cint

definition is_name_char :: "char \<Rightarrow> bool" where
  "is_name_char c \<longleftrightarrow> is_alpha c \<or> is_digit c \<or> c = CHR ''_'' \<or> c = CHR ''-''"

definition is_upper :: "char \<Rightarrow> bool" where
  "is_upper c \<longleftrightarrow> 65 \<le> (of_char c :: nat) \<and> (of_char c :: nat) \<le> 90"

text \<open>A run of one to nineteen characters.\<close>

definition run19 :: "(char \<Rightarrow> bool) \<Rightarrow> string \<Rightarrow> (string \<times> string) option" where
  "run19 P s = (let w = takeWhile P s in if w = [] \<or> length w > 19 then None else Some (w, dropWhile P s))"

text \<open>The optional part \<open>=name[index]\<close>: the name, the digits of the index and the rest.\<close>

definition ds_re_mapping :: "string \<Rightarrow> (string \<times> string \<times> string) option" where
  "ds_re_mapping s =
     (if take 1 s \<noteq> ''='' then Some ([], [], s)
      else case run19 is_name_char (tl s) of
        None \<Rightarrow> None
      | Some (m, r) \<Rightarrow>
          (if take 1 r \<noteq> ''['' then Some (m, [], r)
           else let ds = takeWhile is_digit (tl r); r' = dropWhile is_digit (tl r)
                in if ds = [] \<or> take 1 r' \<noteq> '']'' then None else Some (m, ds, tl r')))"

text \<open>\<open>DS_RE\<close>: the subgroups 1 to 5. The last one takes the rest of the line; \<open>$\<close> matches before a final newline.\<close>

definition ds_re :: "string \<Rightarrow> (string \<times> string \<times> string \<times> string \<times> string) option" where
  "ds_re def =
     (case run19 is_name_char def of
        None \<Rightarrow> None
      | Some (nam, r1) \<Rightarrow>
          (case ds_re_mapping r1 of
             None \<Rightarrow> None
           | Some (mapped, idx, r2) \<Rightarrow>
               (if take 1 r2 \<noteq> '':'' then None
                else case run19 is_upper (tl r2) of
                  None \<Rightarrow> None
                | Some (typ, r3) \<Rightarrow>
                    (let args = takeWhile (\<lambda>c. c \<noteq> CHR 0x0A) (tl r3);
                         r4 = dropWhile (\<lambda>c. c \<noteq> CHR 0x0A) (tl r3)
                     in if take 1 r3 = '':'' \<and> args \<noteq> [] \<and> length r4 \<le> 1
                        then Some (nam, mapped, idx, typ, args) else None))))"

text \<open>\<open>sscanf(s, "%18[^:]:%18[^:]", minstr, maxstr)\<close>: both strings if both conversions succeed.\<close>

definition scan_min_max :: "string \<Rightarrow> (string \<times> string) option" where
  "scan_min_max s =
     (let nc = (\<lambda>c. c \<noteq> CHR '':'');
          a = take 18 (takeWhile nc s);
          r = drop (length a) s;
          b = take 18 (takeWhile nc (tl r))
      in if a = [] \<or> take 1 r \<noteq> '':'' \<or> b = [] then None else Some (a, b))"

text \<open>\<open>U\<close>, or a number.\<close>

definition limit_value :: "string \<Rightarrow> dbl option" where
  "limit_value s =
     (if s = ''U'' then Some NaN
      else case rrd_strtodbl s of (rc, v, _) \<Rightarrow> if rc \<noteq> 2 then None else Some v)"

definition parseGENERIC_DS :: "string \<Rightarrow> ds_def_t \<Rightarrow> create_error + ds_def_t" where
  "parseGENERIC_DS def d =
     (let hb = takeWhile (\<lambda>c. c \<noteq> CHR '':'') def; r = dropWhile (\<lambda>c. c \<noteq> CHR '':'') def
      in if r = [] then Inl Ds_missing_separator
         else if length hb \<ge> 32 then Inl Ds_heartbeat_too_long
         else case rrd_scaled_duration hb 1 of
           Inl e \<Rightarrow> Inl (Ds_duration e)
         | Inr mrhb \<Rightarrow>
             (case scan_min_max (tl r) of
                None \<Rightarrow> Inl Ds_no_min_max
              | Some (mins, maxs) \<Rightarrow>
                  (case limit_value mins of
                     None \<Rightarrow> Inl Ds_min_val
                   | Some mn \<Rightarrow>
                       (case limit_value maxs of
                          None \<Rightarrow> Inl Ds_max_val
                        | Some mx \<Rightarrow>
                            if mn \<ge> mx then Inl Ds_min_not_less
                            else Inr (d\<lparr>ds_mrhb_cnt := mrhb, ds_min_val := mn, ds_max_val := mx\<rparr>)))))"

definition ds_def_zero :: ds_def_t where
  "ds_def_zero = \<lparr>ds_nam = [], dst = [], ds_mrhb_cnt = 0, ds_min_val = 0, ds_max_val = 0, ds_cdef = []\<rparr>"

text \<open>A version that is required at least: \<open>require_version\<close>, \<open>None\<close> for the null pointer.\<close>

definition at_least_version :: "string \<Rightarrow> string option \<Rightarrow> string option" where
  "at_least_version v req = (case req of None \<Rightarrow> Some v | Some w \<Rightarrow> if atoi w < atoi v then Some v else req)"

text \<open>The error that was set, the definition (its name is set whenever the expression matches), the
  mapping and the required version.\<close>

definition parseDS ::
  "(string \<Rightarrow> int) \<Rightarrow> string \<Rightarrow> string option
   \<Rightarrow> create_error option \<times> ds_def_t \<times> mapping_t \<times> string option" where
  "parseDS lookup def req =
     (case ds_re def of
        None \<Rightarrow> (Some Invalid_ds_format, ds_def_zero, \<lparr>map_ds_nam = [], mapped_name = [], map_index = - 1\<rparr>, req)
      | Some (nam, mapped, idx, typ, args) \<Rightarrow>
          let d = ds_def_zero\<lparr>ds_nam := nam, dst := typ\<rparr>;
              m = \<lparr>map_ds_nam = nam, mapped_name = mapped,
                    map_index = (if idx = [] then - 1 else s32 (atol idx))\<rparr>;
              req' = (if dst_conv typ = Some DST_DCOUNTER \<or> dst_conv typ = Some DST_DDERIVE
                      then at_least_version ''0005'' req else req);
              r = (case dst_conv typ of
                     None \<Rightarrow> Inl (Invalid_ds_type typ)
                   | Some DST_CDEF \<Rightarrow>
                       (case parseCDEF_DS lookup args d of Inl e \<Rightarrow> Inl (Ds_compute e) | Inr d' \<Rightarrow> Inr d')
                   | Some _ \<Rightarrow> parseGENERIC_DS args d)
          in case r of Inl e \<Rightarrow> (Some e, d, m, req') | Inr d' \<Rightarrow> (None, d', m, req'))"

section \<open>Archives\<close>

definition rra_def_zero :: rra_def_t where
  "rra_def_zero = \<lparr>cf_nam = [], row_cnt = 0, pdp_cnt = 0, rra_cdp_xff_val = 0, rra_par1 = 0, rra_par2 = 0,
     rra_dependent_rra_idx = 0, rra_par4 = 0, rra_failure_threshold = 0, rra_period = 0\<rparr>"

definition dec_dbl :: "int \<Rightarrow> int \<Rightarrow> dbl" where
  "dec_dbl a b = to_float (Fin (of_int a / of_int b))"

text \<open>The local variables of \<open>parseRRA\<close> that outlive a token.\<close>

record rra_parse =
  rp_def :: rra_def_t
  rp_token_min :: int
  rp_require :: "string option"

text \<open>The outcome of \<open>sscanf(s, "smoothing-window=%lf", &v)\<close>: -1, 0 and 1.\<close>

datatype scanned = Scan_eof | Scan_none | Scan_value dbl

text \<open>The token with index 0, the consolidation function.\<close>

definition rra_token0 :: "string \<Rightarrow> rra_parse \<Rightarrow> create_error + rra_parse" where
  "rra_token0 tok p =
     (let nam = take 19 (takeWhile is_upper tok); d = (rp_def p)\<lparr>cf_nam := nam, pdp_cnt := 1\<rparr>
      in case rrd_cf_conv nam of
           None \<Rightarrow> Inl (Unrecognized_cf nam)
         | Some cf \<Rightarrow>
             let seasonal = d\<lparr>rra_par1 := dec_dbl 1 10, rra_par2 := dec_dbl 5 100, rra_dependent_rra_idx := u64 (- 1)\<rparr>
             in Inr (if cf = CF_HWPREDICT \<or> cf = CF_MHWPREDICT
                     then p\<lparr>rp_def := d\<lparr>rra_par1 := dec_dbl 1 10, rra_par2 := dint 1 / dint 288,
                              rra_dependent_rra_idx := 2147483647\<rparr>,
                            rp_token_min := 5,
                            rp_require := (if cf = CF_MHWPREDICT then at_least_version ''0004'' (rp_require p)
                                           else rp_require p)\<rparr>
                     else if cf = CF_DEVSEASONAL then p\<lparr>rp_def := seasonal, rp_token_min := 3\<rparr>
                     else if cf = CF_SEASONAL then p\<lparr>rp_def := seasonal, rp_token_min := 4\<rparr>
                     else if cf = CF_DEVPREDICT
                     then p\<lparr>rp_def := d\<lparr>rra_dependent_rra_idx := u64 (- 1)\<rparr>, rp_token_min := 3\<rparr>
                     else if cf = CF_FAILURES
                     then p\<lparr>rp_def := d\<lparr>rra_par1 := dint 2, rra_par2 := dint 2, rra_par4 := 3,
                              rra_failure_threshold := 2, rra_dependent_rra_idx := u64 (- 1)\<rparr>,
                            rp_token_min := 5\<rparr>
                     else p\<lparr>rp_def := d\<rparr>))"

definition is_hw :: "cf_en \<Rightarrow> bool" where
  "is_hw cf \<longleftrightarrow> cf = CF_HWPREDICT \<or> cf = CF_MHWPREDICT"

definition is_seasonal :: "cf_en \<Rightarrow> bool" where
  "is_seasonal cf \<longleftrightarrow> cf = CF_SEASONAL \<or> cf = CF_DEVSEASONAL"

text \<open>A number with \<open>ok\<close>, or the error.\<close>

definition number_if :: "(dbl \<Rightarrow> bool) \<Rightarrow> create_error \<Rightarrow> string \<Rightarrow> create_error + dbl" where
  "number_if ok e tok = (case rrd_strtodbl tok of (rc, v, _) \<Rightarrow> if rc \<noteq> 2 \<or> \<not> ok v then Inl e else Inr v)"

text \<open>The index of another archive, which counts from 1: \<open>atoi(token) - 1\<close>.\<close>

definition rra_index_arg :: "string \<Rightarrow> ulong" where
  "rra_index_arg tok = u64 (s32 (atoi tok - 1))"

definition rra_token1 :: "ulong \<Rightarrow> cf_en \<Rightarrow> string \<Rightarrow> rra_def_t \<Rightarrow> create_error + rra_def_t" where
  "rra_token1 pstep cf tok d =
     (if is_hw cf \<or> is_seasonal cf \<or> cf = CF_DEVPREDICT \<or> cf = CF_FAILURES
      then (case rrd_scaled_duration tok pstep of
              Inl e \<Rightarrow> Inl (Invalid_row_count e) | Inr n \<Rightarrow> Inr (d\<lparr>row_cnt := n\<rparr>))
      else tbind (number_if (\<lambda>v. \<not> v < 0 \<and> \<not> v \<ge> 1) Invalid_xff tok) (\<lambda>v. Inr (d\<lparr>rra_cdp_xff_val := v\<rparr>)))"

definition rra_token2 :: "ulong \<Rightarrow> ulong \<Rightarrow> cf_en \<Rightarrow> string \<Rightarrow> rra_def_t \<Rightarrow> create_error + rra_def_t" where
  "rra_token2 pstep hash cf tok d =
     (if is_hw cf
      then tbind (number_if (\<lambda>v. \<not> v \<le> 0 \<and> \<not> v \<ge> 1) Invalid_alpha tok) (\<lambda>v. Inr (d\<lparr>rra_par1 := v\<rparr>))
      else if is_seasonal cf
      then tbind (number_if (\<lambda>v. \<not> v \<le> 0 \<and> \<not> v \<ge> 1) Invalid_gamma tok)
             (\<lambda>v. Inr (d\<lparr>rra_par1 := v, rra_par4 := hash mod row_cnt d\<rparr>))
      else if cf = CF_FAILURES
      then (if atoi tok < 1 \<or> atoi tok > 28 then Inl Threshold_range
            else Inr (d\<lparr>rra_failure_threshold := atoi tok\<rparr>))
      else if cf = CF_DEVPREDICT then Inr (d\<lparr>rra_dependent_rra_idx := rra_index_arg tok\<rparr>)
      else (case rrd_scaled_duration tok pstep of
              Inl e \<Rightarrow> Inl (Invalid_step e) | Inr n \<Rightarrow> Inr (d\<lparr>pdp_cnt := n\<rparr>)))"

text \<open>Of two errors for one token the later one is reported.\<close>

definition rra_token3 :: "ulong \<Rightarrow> cf_en \<Rightarrow> string \<Rightarrow> rra_def_t \<Rightarrow> create_error + rra_def_t" where
  "rra_token3 pstep cf tok d =
     (if is_hw cf
      then tbind (number_if (\<lambda>v. \<not> v < 0 \<and> \<not> v > 1) Invalid_beta tok) (\<lambda>v. Inr (d\<lparr>rra_par2 := v\<rparr>))
      else if is_seasonal cf then Inr (d\<lparr>rra_dependent_rra_idx := rra_index_arg tok\<rparr>)
      else if cf = CF_FAILURES
      then (if u64 (atoi tok) < rra_failure_threshold d then Inl Window_shorter_than_threshold
            else if atoi tok < 1 \<or> atoi tok > 28 then Inl Window_range
            else Inr (d\<lparr>rra_par4 := u64 (atoi tok)\<rparr>))
      else if cf = CF_DEVPREDICT then Inl Unexpected_extra_argument
      else (case rrd_scaled_duration tok (u64 (pstep * pdp_cnt d)) of
              Inl e \<Rightarrow> Inl (Invalid_row_count e) | Inr n \<Rightarrow> Inr (d\<lparr>row_cnt := n\<rparr>)))"

definition smoothing_token ::
  "(string \<Rightarrow> scanned) \<Rightarrow> string \<Rightarrow> rra_parse \<Rightarrow> create_error + rra_parse" where
  "smoothing_token scan tok p =
     (case scan tok of
        Scan_none \<Rightarrow> Inl (Invalid_option tok)
      | r \<Rightarrow>
         let w = (case r of Scan_value v \<Rightarrow> v | _ \<Rightarrow> rra_par2 (rp_def p))
         in if w < 0 \<or> w > 1 then Inl Invalid_smoothing_window
            else Inr (p\<lparr>rp_def := (rp_def p)\<lparr>rra_par2 := w\<rparr>,
                        rp_require := at_least_version ''0004'' (rp_require p)\<rparr>))"

definition rra_token4 ::
  "(string \<Rightarrow> scanned) \<Rightarrow> cf_en \<Rightarrow> string \<Rightarrow> rra_parse \<Rightarrow> create_error + rra_parse" where
  "rra_token4 scan cf tok p =
     (let d = rp_def p
      in if cf = CF_FAILURES then Inr (p\<lparr>rp_def := d\<lparr>rra_dependent_rra_idx := rra_index_arg tok\<rparr>\<rparr>)
         else if is_seasonal cf then smoothing_token scan tok p
         else if is_hw cf
         then (let period = u16 (atoi tok)
               in if period > row_cnt d then Inl Seasonal_cycle_too_long
                  else Inr (p\<lparr>rp_def := d\<lparr>rra_period := dint period\<rparr>\<rparr>))
         else Inl Unexpected_extra_argument)"

text \<open>The \<open>switch\<close> over \<open>token_idx\<close>. After the first token the consolidation function is a known one.\<close>

definition rra_token ::
  "(string \<Rightarrow> scanned) \<Rightarrow> ulong \<Rightarrow> ulong \<Rightarrow> nat \<Rightarrow> string \<Rightarrow> rra_parse \<Rightarrow> create_error + rra_parse" where
  "rra_token scan pstep hash idx tok p =
     (let d = rp_def p; cf = the (rrd_cf_conv (cf_nam d)); set_def = (\<lambda>d'. Inr (p\<lparr>rp_def := d'\<rparr>))
      in if idx = 0 then rra_token0 tok p
         else if idx = 1 then tbind (rra_token1 pstep cf tok d) set_def
         else if idx = 2 then tbind (rra_token2 pstep hash cf tok d) set_def
         else if idx = 3 then tbind (rra_token3 pstep cf tok d) set_def
         else if idx = 4 then rra_token4 scan cf tok p
         else if idx = 5 then Inr (p\<lparr>rp_def := d\<lparr>rra_dependent_rra_idx := rra_index_arg tok\<rparr>\<rparr>)
         else Inl Unknown_token)"

fun rra_tokens ::
  "(string \<Rightarrow> scanned) \<Rightarrow> ulong \<Rightarrow> ulong \<Rightarrow> nat \<Rightarrow> string list \<Rightarrow> rra_parse \<Rightarrow> create_error + rra_parse" where
  "rra_tokens scan pstep hash idx [] p =
     (if int idx < rp_token_min p then Inl Too_few_rra_arguments else Inr p)"
| "rra_tokens scan pstep hash idx (tok # toks) p =
     tbind (rra_token scan pstep hash idx tok p) (rra_tokens scan pstep hash (Suc idx) toks)"

text \<open>\<open>strtok_r\<close> with the separator \<open>:\<close> yields the fields that are not empty.\<close>

definition strtok_fields :: "string \<Rightarrow> string list" where
  "strtok_fields s = filter (\<lambda>f. f \<noteq> []) (split_at_char (CHR '':'') s)"

definition parseRRA ::
  "(string \<Rightarrow> scanned) \<Rightarrow> ulong \<Rightarrow> ulong \<Rightarrow> string \<Rightarrow> string option
   \<Rightarrow> create_error + rra_def_t \<times> string option" where
  "parseRRA scan pstep hash def req =
     tbind (rra_tokens scan pstep hash 0 (strtok_fields (drop 4 def))
              \<lparr>rp_def = rra_def_zero, rp_token_min = 4, rp_require = req\<rparr>)
       (\<lambda>p. Inr (rp_def p, rp_require p))"

section \<open>The archives of the Holt-Winters method\<close>

definition hw_contingent :: "rra_def_t \<Rightarrow> ulong \<Rightarrow> int \<Rightarrow> ulong \<Rightarrow> rra_def_t list" where
  "hw_contingent hw hw_index period hash =
     (let seasonal = rra_def_zero\<lparr>row_cnt := period, rra_par4 := hash mod period, pdp_cnt := 1,
            rra_par1 := rra_par1 hw, rra_dependent_rra_idx := hw_index\<rparr>
      in [seasonal\<lparr>cf_nam := ''SEASONAL''\<rparr>, seasonal\<lparr>cf_nam := ''DEVSEASONAL''\<rparr>,
          rra_def_zero\<lparr>cf_nam := ''DEVPREDICT'', row_cnt := row_cnt hw, pdp_cnt := 1,
            rra_dependent_rra_idx := hw_index + 2\<rparr>,
          rra_def_zero\<lparr>cf_nam := ''FAILURES'', row_cnt := period, pdp_cnt := 1, rra_par1 := dint 2, rra_par2 := dint 2,
            rra_failure_threshold := 7, rra_par4 := 9, rra_dependent_rra_idx := hw_index + 2\<rparr>])"

text \<open>The first argument is the array without its last element, which is the second.\<close>

definition create_hw_contingent_rras ::
  "rra_def_t list \<Rightarrow> rra_def_t \<Rightarrow> int \<Rightarrow> ulong \<Rightarrow> create_error + rra_def_t list" where
  "create_hw_contingent_rras rras hw period hash =
     (let hw_index = int (length rras)
      in if period = 0 then Inl Division_by_zero
         else Inr (rras @ [hw\<lparr>rra_dependent_rra_idx := hw_index + 1\<rparr>]
                   @ hw_contingent hw hw_index period hash))"

definition handle_dependent_rras :: "rra_def_t list \<Rightarrow> rra_def_t \<Rightarrow> ulong \<Rightarrow> create_error + rra_def_t list" where
  "handle_dependent_rras rras d hash =
     (if (rrd_cf_conv (cf_nam d) = Some CF_HWPREDICT \<or> rrd_cf_conv (cf_nam d) = Some CF_MHWPREDICT) \<and>
         rra_dependent_rra_idx d = 2147483647
      then create_hw_contingent_rras rras d (u16 (d2s64 (rra_period d))) hash
      else Inr (rras @ [d]))"

section \<open>The arguments\<close>

record create_state =
  cs_ds :: "ds_def_t list"
  cs_rra :: "rra_def_t list"
  cs_mappings :: "mapping_t list"
  cs_require :: "string option"

definition lookup_new_DS :: "ds_def_t list \<Rightarrow> string \<Rightarrow> int" where
  "lookup_new_DS ds nam = ds_match_loop 0 ds nam"

text \<open>A \<open>DS:\<close> argument; the error of a duplicate name takes the place of one of the parser.\<close>

definition create_ds :: "string \<Rightarrow> create_state \<Rightarrow> create_error + create_state" where
  "create_ds def s =
     (case parseDS (lookup_new_DS (cs_ds s)) def (cs_require s) of
        (err, d, m, req) \<Rightarrow>
          if lookup_new_DS (cs_ds s) (ds_nam d) \<ge> 0 then Inl (Duplicate_ds (ds_nam d))
          else (case err of
                  Some e \<Rightarrow> Inl e
                | None \<Rightarrow> Inr (s\<lparr>cs_ds := cs_ds s @ [d], cs_mappings := cs_mappings s @ [m], cs_require := req\<rparr>)))"

definition create_rra ::
  "(string \<Rightarrow> scanned) \<Rightarrow> ulong \<Rightarrow> ulong \<Rightarrow> string \<Rightarrow> create_state \<Rightarrow> create_error + create_state" where
  "create_rra scan pstep hash def s =
     tbind (parseRRA scan pstep hash def (cs_require s)) (\<lambda>(d, req).
     tbind (handle_dependent_rras (cs_rra s) d hash) (\<lambda>rras.
       Inr (s\<lparr>cs_rra := rras, cs_require := req\<rparr>)))"

fun create_args ::
  "(string \<Rightarrow> scanned) \<Rightarrow> ulong \<Rightarrow> ulong \<Rightarrow> string list \<Rightarrow> create_state \<Rightarrow> create_error + create_state" where
  "create_args scan pstep hash [] s = Inr s"
| "create_args scan pstep hash (a # as) s =
     tbind (if take 3 a = ''DS:'' then create_ds (drop 3 a) s
            else if take 4 a = ''RRA:'' then create_rra scan pstep hash a s
            else Inl (Bad_argument a))
       (create_args scan pstep hash as)"

section \<open>The initial state\<close>

definition pdp_reset :: "ulong \<Rightarrow> time_t \<Rightarrow> pdp_prep_t" where
  "pdp_reset pstep lastup = \<lparr>last_ds = ''U'', pdp_unkn_sec_cnt = u64 lastup mod pstep, pdp_val = NaN\<rparr>"

definition reset_pdp_prep :: "rrd_t \<Rightarrow> rrd_t" where
  "reset_pdp_prep rrd = rrd\<lparr>pdp_prep :=
     replicate (nat (ds_cnt (stat_head rrd))) (pdp_reset (pdp_step (stat_head rrd)) (last_up (live_head rrd)))\<rparr>"

definition cdp_zero :: cdp_prep_t where
  "cdp_zero = \<lparr>cdp_val = 0, cdp_unkn_pdp_cnt = 0, cdp_hw_intercept = 0, cdp_hw_last_intercept = 0,
     cdp_hw_slope = 0, cdp_hw_last_slope = 0, cdp_null_count = 0, cdp_last_null_count = 0,
     cdp_primary_val = 0, cdp_secondary_val = 0, violations = replicate 28 0\<rparr>"

definition init_cdp :: "rrd_t \<Rightarrow> rra_def_t \<Rightarrow> pdp_prep_t \<Rightarrow> cdp_prep_t \<Rightarrow> cdp_prep_t" where
  "init_cdp rrd rra pdp cdp =
     (case rrd_cf_conv (cf_nam rra) of
        Some CF_HWPREDICT \<Rightarrow> init_hwpredict_cdp cdp
      | Some CF_MHWPREDICT \<Rightarrow> init_hwpredict_cdp cdp
      | Some CF_SEASONAL \<Rightarrow> init_seasonal_cdp cdp
      | Some CF_DEVSEASONAL \<Rightarrow> init_seasonal_cdp cdp
      | Some CF_FAILURES \<Rightarrow> cdp_zero
      | _ \<Rightarrow> cdp\<lparr>cdp_val := NaN,
               cdp_unkn_pdp_cnt := u64 (last_up (live_head rrd) - pdp_unkn_sec_cnt pdp)
                 mod u64 (pdp_step (stat_head rrd) * pdp_cnt rra) div pdp_step (stat_head rrd)\<rparr>)"

text \<open>\<open>rrd_select_initial_row\<close>: the i-th random number modulo the number of rows.\<close>

definition rrd_select_initial_row :: "(nat \<Rightarrow> int) \<Rightarrow> nat \<Rightarrow> rra_def_t \<Rightarrow> ulong" where
  "rrd_select_initial_row rnd i rra = u64 (rnd i) mod row_cnt rra"

definition total_rows :: "rra_def_t list \<Rightarrow> nat" where
  "total_rows rras = (\<Sum>r\<leftarrow>rras. nat (row_cnt r))"

text \<open>The database with its values.\<close>

definition rrd_init_data :: "(nat \<Rightarrow> int) \<Rightarrow> rrd_t \<Rightarrow> rrd_t \<times> dbl list" where
  "rrd_init_data rnd rrd =
     (let r1 = reset_pdp_prep rrd;
          r2 = r1\<lparr>cdp_prep := concat (map (\<lambda>rra. map (\<lambda>pdp. init_cdp r1 rra pdp cdp_zero) (pdp_prep r1)) (rra_def r1))\<rparr>;
          r3 = r2\<lparr>rra_ptr := map (\<lambda>i. rrd_select_initial_row rnd i (rra_def r2 ! i)) [0..<length (rra_def r2)]\<rparr>
      in (r3, replicate (total_rows (rra_def r3) * nat (ds_cnt (stat_head r3))) NaN))"

section \<open>The new database\<close>

record create_env =
  ce_now :: time_t
  ce_rnd :: "nat \<Rightarrow> int"
  ce_scan :: "string \<Rightarrow> scanned"

text \<open>The step: the argument, else the template's, else 300.\<close>

definition create_step :: "ulong \<Rightarrow> rrd_t option \<Rightarrow> ulong" where
  "create_step pstep tpl =
     (let p = (case tpl of Some t \<Rightarrow> if pstep = 0 then pdp_step (stat_head t) else pstep | None \<Rightarrow> pstep)
      in if p = 0 then 300 else p)"

definition create_last_up :: "create_env \<Rightarrow> time_t \<Rightarrow> rrd_t option \<Rightarrow> bool \<Rightarrow> time_t" where
  "create_last_up env lastup tpl have_sources =
     (case tpl of
        Some t \<Rightarrow>
          if \<not> lastup > 0 \<and> last_up (live_head t) > 0 \<and> \<not> have_sources then last_up (live_head t)
          else if lastup > 0 then lastup else ce_now env - 10
      | None \<Rightarrow> if lastup > 0 then lastup else ce_now env - 10)"

definition create_start :: "rrd_t option \<Rightarrow> create_state" where
  "create_start tpl =
     (case tpl of
        None \<Rightarrow> \<lparr>cs_ds = [], cs_rra = [], cs_mappings = [], cs_require = None\<rparr>
      | Some t \<Rightarrow> \<lparr>cs_ds = ds_def t, cs_rra = rra_def t, cs_mappings = [], cs_require = None\<rparr>)"

definition create_rrd :: "create_state \<Rightarrow> ulong \<Rightarrow> time_t \<Rightarrow> rrd_t" where
  "create_rrd s pstep lastup =
     \<lparr>stat_head = \<lparr>version = (case cs_require s of None \<Rightarrow> ''0003'' | Some v \<Rightarrow> take 4 v),
        ds_cnt = int (length (cs_ds s)), rra_cnt = int (length (cs_rra s)), pdp_step = pstep\<rparr>,
      ds_def = cs_ds s, rra_def = cs_rra s, live_head = \<lparr>last_up = lastup, last_up_usec = 0\<rparr>,
      legacy_last_up = 0, pdp_prep = [], cdp_prep = [], rra_ptr = []\<rparr>"

text \<open>\<open>rrd_create_r2\<close> up to the sources: the database, its values and the mappings.\<close>

definition create_base ::
  "create_env \<Rightarrow> string \<Rightarrow> ulong \<Rightarrow> time_t \<Rightarrow> rrd_t option \<Rightarrow> bool \<Rightarrow> string list
   \<Rightarrow> create_error + (rrd_t \<times> dbl list) \<times> mapping_t list" where
  "create_base env filename pstep lastup tpl have_sources argv =
     (let pstep' = create_step pstep tpl
      in tbind (create_args (ce_scan env) pstep' (FnvHash filename) argv (create_start tpl)) (\<lambda>s.
           if cs_rra s = [] then Inl No_rra
           else if cs_ds s = [] then Inl No_ds
           else Inr (rrd_init_data (ce_rnd env)
                       (create_rrd s pstep' (create_last_up env lastup tpl have_sources)), cs_mappings s)))"

section \<open>A created database is well formed\<close>

lemma scaled_duration_cases:
  assumes "rrd_scaled_duration tok divisor = Inr n"
  shows "divisor \<noteq> 0 \<and> (\<exists>x. 0 < x \<and> (n = x \<or> x mod divisor = 0 \<and> n = x div divisor))"
proof -
  have v: "0 \<le> dec_val 0 (takeWhile is_digit tok)"
    by (rule dec_val_mono) (auto simp: list_all_iff dest: set_takeWhileD)
  show ?thesis
  proof (cases "dropWhile is_digit tok")
    case Nil
    have "divisor \<noteq> 0 \<and> 0 < n"
      using assms v unfolding rrd_scaled_duration_def Let_def Nil list.case by (auto split: if_split_asm)
    then show ?thesis by auto
  next
    case (Cons c r)
    note unf = assms [unfolded rrd_scaled_duration_def Let_def Cons list.case]
    from unf obtain u where u: "unit_seconds c = Some u" "divisor \<noteq> 0"
      by (simp split: if_split_asm option.splits)
    let ?x = "u64 (min (2 ^ 64 - 1) (dec_val 0 (takeWhile is_digit tok)) * u)"
    have "?x \<noteq> 0" "?x mod divisor = 0" "n = ?x div divisor"
      using unf [unfolded u(1) option.case] by (auto split: if_split_asm)
    moreover have "0 \<le> ?x" by (simp add: u64_def)
    ultimately show ?thesis using u by (intro conjI exI [of _ ?x]) linarith+
  qed
qed

lemma scaled_duration_positive:
  assumes "rrd_scaled_duration tok divisor = Inr n" "0 \<le> divisor"
  shows "0 < n"
proof -
  obtain x where x: "divisor \<noteq> 0" "0 < x" "n = x \<or> x mod divisor = 0 \<and> n = x div divisor"
    using scaled_duration_cases [OF assms(1)] by (elim conjE exE)
  have "0 < divisor" using x(1) assms(2) by simp
  moreover have "divisor \<le> x" if "x mod divisor = 0"
    using that x(2) by (metis mod_eq_0_iff_dvd zdvd_imp_le)
  ultimately have "x mod divisor = 0 \<longrightarrow> 0 < x div divisor"
    by (simp add: pos_imp_zdiv_pos_iff)
  with x(2,3) show ?thesis by metis
qed

text \<open>The functions whose second argument is the number of rows.\<close>

definition rows_first :: "cf_en \<Rightarrow> bool" where
  "rows_first cf \<longleftrightarrow> is_hw cf \<or> is_seasonal cf \<or> cf = CF_DEVPREDICT \<or> cf = CF_FAILURES"

definition rra_inv :: "nat \<Rightarrow> rra_parse \<Rightarrow> bool" where
  "rra_inv idx p \<longleftrightarrow>
     (if idx = 0 then rp_token_min p = 4
      else case rrd_cf_conv (cf_nam (rp_def p)) of
        None \<Rightarrow> False
      | Some cf \<Rightarrow> 0 < pdp_cnt (rp_def p) \<and> (if rows_first cf then rp_token_min p \<ge> 3 else rp_token_min p = 4) \<and>
          (idx \<ge> (if rows_first cf then 2 else 4) \<longrightarrow> 0 < row_cnt (rp_def p)))"

lemma tbind_Inr: "tbind x f = Inr y \<longleftrightarrow> (\<exists>v. x = Inr v \<and> f v = Inr y)"
  by (cases x) auto

lemmas rra_token_defs = rra_token1_def rra_token2_def rra_token3_def

lemma rra_token0_inv: "rra_token0 tok p = Inr p' \<Longrightarrow> rp_token_min p = 4 \<Longrightarrow> rra_inv (Suc 0) p'"
  by (cases "rrd_cf_conv (take 19 (takeWhile is_upper tok))")
    (auto simp: rra_token0_def Let_def rra_inv_def rows_first_def is_hw_def is_seasonal_def)

text \<open>What the tokens 1 to 5 keep of a definition.\<close>

definition rra_keeps :: "nat \<Rightarrow> cf_en \<Rightarrow> rra_def_t \<Rightarrow> rra_def_t \<Rightarrow> bool" where
  "rra_keeps idx cf d d' \<longleftrightarrow> cf_nam d' = cf_nam d \<and> (0 < pdp_cnt d \<longrightarrow> 0 < pdp_cnt d') \<and>
     (0 < row_cnt d \<longrightarrow> 0 < row_cnt d') \<and> (idx = (if rows_first cf then 1 else 3) \<longrightarrow> 0 < row_cnt d')"

lemma rra_token1_keeps: "rra_token1 pstep cf tok d = Inr d' \<Longrightarrow> 0 \<le> pstep \<Longrightarrow> rra_keeps 1 cf d d'"
  by (auto simp: rra_token1_def rra_keeps_def rows_first_def tbind_Inr scaled_duration_positive
      split: if_splits sum.splits)

lemma rra_token2_keeps: "rra_token2 pstep hash cf tok d = Inr d' \<Longrightarrow> 0 \<le> pstep \<Longrightarrow> rra_keeps 2 cf d d'"
  by (auto simp: rra_token2_def rra_keeps_def tbind_Inr scaled_duration_positive
      split: if_splits sum.splits)

lemma rra_token3_keeps: "rra_token3 pstep cf tok d = Inr d' \<Longrightarrow> 0 \<le> pstep \<Longrightarrow> rra_keeps 3 cf d d'"
  by (auto simp: rra_token3_def rra_keeps_def rows_first_def tbind_Inr u64_def scaled_duration_positive
      split: if_splits sum.splits)

lemma rra_token4_keeps:
  "rra_token4 scan cf tok p = Inr p' \<Longrightarrow> rra_keeps 4 cf (rp_def p) (rp_def p') \<and> rp_token_min p' = rp_token_min p"
  by (auto simp: rra_token4_def smoothing_token_def rra_keeps_def Let_def split: if_splits scanned.splits)

lemma rra_token_keeps:
  assumes "rra_token scan pstep hash (Suc i) tok p = Inr p'" "0 \<le> pstep"
    and "rrd_cf_conv (cf_nam (rp_def p)) = Some cf"
  shows "rra_keeps (Suc i) cf (rp_def p) (rp_def p') \<and> rp_token_min p' = rp_token_min p"
proof -
  consider "i = 0" | "i = 1" | "i = 2" | "i = 3" | "i = 4" | "i > 4" by linarith
  then show ?thesis
  proof cases
    case 1
    with assms rra_token1_keeps [of pstep cf tok "rp_def p"] show ?thesis
      by (auto simp: rra_token_def Let_def tbind_Inr)
  next
    case 2
    with assms rra_token2_keeps [of pstep hash cf tok "rp_def p"] show ?thesis
      by (auto simp: rra_token_def Let_def tbind_Inr numeral_2_eq_2)
  next
    case 3
    with assms rra_token3_keeps [of pstep cf tok "rp_def p"] show ?thesis
      by (auto simp: rra_token_def Let_def tbind_Inr numeral_3_eq_3)
  next
    case 4
    with assms rra_token4_keeps [of scan cf tok p p'] show ?thesis by (auto simp: rra_token_def Let_def)
  qed (use assms in \<open>auto simp: rra_token_def Let_def rra_keeps_def\<close>)
qed

lemma rra_token_inv:
  assumes "rra_inv idx p" "rra_token scan pstep hash idx tok p = Inr p'" "0 \<le> pstep"
  shows "rra_inv (Suc idx) p'"
proof (cases idx)
  case 0
  with assms have "rra_token0 tok p = Inr p'" "rp_token_min p = 4"
    by (simp_all add: rra_token_def rra_inv_def)
  with 0 show ?thesis by (simp add: rra_token0_inv)
next
  case (Suc i)
  with assms(1) obtain cf where cf: "rrd_cf_conv (cf_nam (rp_def p)) = Some cf"
    by (auto simp: rra_inv_def split: option.splits)
  have "rra_keeps (Suc i) cf (rp_def p) (rp_def p') \<and> rp_token_min p' = rp_token_min p"
    using assms Suc cf by (intro rra_token_keeps) simp_all
  then show ?thesis using assms(1) cf unfolding Suc
    by (auto simp: rra_inv_def rra_keeps_def split: if_splits)
qed

lemma rra_tokens_positive:
  "rra_tokens scan pstep hash idx toks p = Inr p' \<Longrightarrow> rra_inv idx p \<Longrightarrow> 0 \<le> pstep \<Longrightarrow>
   0 < row_cnt (rp_def p') \<and> 0 < pdp_cnt (rp_def p')"
proof (induction toks arbitrary: idx p)
  case Nil
  then show ?case by (cases idx) (auto simp: rra_inv_def split: if_splits option.splits)
next
  case (Cons tok toks)
  then show ?case using rra_token_inv by (fastforce simp: tbind_Inr)
qed

lemma parseRRA_positive:
  assumes "parseRRA scan pstep hash def req = Inr (d, req')" "0 \<le> pstep"
  shows "0 < row_cnt d \<and> 0 < pdp_cnt d"
  using assms rra_tokens_positive [of scan pstep hash 0]
  by (auto simp: parseRRA_def tbind_Inr rra_inv_def)

definition rra_positive :: "rra_def_t \<Rightarrow> bool" where
  "rra_positive d \<longleftrightarrow> 0 < row_cnt d \<and> 0 < pdp_cnt d"

lemma contingent_positive:
  "rra_positive hw \<Longrightarrow> 0 < period \<Longrightarrow> list_all rra_positive (hw_contingent hw i period hash)"
  by (simp add: hw_contingent_def rra_positive_def Let_def)

lemma handle_dependent_positive:
  assumes "handle_dependent_rras rras d hash = Inr rras'" "list_all rra_positive rras" "rra_positive d"
  shows "list_all rra_positive rras'"
proof -
  have "0 \<le> u16 x" for x by (simp add: u16_def)
  then show ?thesis
    using assms contingent_positive [of d "u16 (d2s64 (rra_period d))"]
    by (auto simp: handle_dependent_rras_def create_hw_contingent_rras_def Let_def rra_positive_def
        order_less_le split: if_splits)
qed

text \<open>The invariant of the loop over the arguments; \<open>d\<close> tells whether the names of a template are pairwise different.\<close>

definition args_inv :: "bool \<Rightarrow> create_state \<Rightarrow> bool" where
  "args_inv d s \<longleftrightarrow> list_all rra_positive (cs_rra s) \<and> (d \<longrightarrow> distinct (map ds_nam (cs_ds s)))"

lemma lookup_new_DS_none: "lookup_new_DS ds nam < 0 \<Longrightarrow> nam \<notin> ds_nam ` set ds"
proof -
  have "ds_match_loop k ds nam < 0 \<Longrightarrow> 0 \<le> k \<Longrightarrow> nam \<notin> ds_nam ` set ds" for k
    by (induction ds arbitrary: k) (auto split: if_splits)
  then show "lookup_new_DS ds nam < 0 \<Longrightarrow> nam \<notin> ds_nam ` set ds" by (auto simp: lookup_new_DS_def)
qed

lemma create_ds_inv: "create_ds def s = Inr s' \<Longrightarrow> args_inv d s \<Longrightarrow> args_inv d s'"
  using lookup_new_DS_none
  by (fastforce simp: create_ds_def args_inv_def split: prod.splits option.splits if_splits)

lemma create_rra_inv:
  "create_rra scan pstep hash def s = Inr s' \<Longrightarrow> 0 \<le> pstep \<Longrightarrow> args_inv d s \<Longrightarrow> args_inv d s'"
  using handle_dependent_positive parseRRA_positive
  by (fastforce simp: create_rra_def tbind_Inr args_inv_def rra_positive_def)

lemma create_args_inv:
  "create_args scan pstep hash as s = Inr s' \<Longrightarrow> 0 \<le> pstep \<Longrightarrow> args_inv d s \<Longrightarrow> args_inv d s'"
proof (induction "as" arbitrary: s)
  case (Cons a as)
  from Cons.prems(1) obtain s1 where s1: "create_args scan pstep hash as s1 = Inr s'"
    and "create_ds (drop 3 a) s = Inr s1 \<or> create_rra scan pstep hash a s = Inr s1"
    by (auto simp: tbind_Inr split: if_splits)
  then have "args_inv d s1" using create_ds_inv create_rra_inv Cons.prems(2,3) by blast
  with Cons.IH [OF s1] Cons.prems(2) show ?case by blast
qed simp

lemma init_data_shape:
  assumes "rrd_init_data rnd (create_rrd s pstep lastup) = (rrd, vals)"
  shows "stat_head rrd = stat_head (create_rrd s pstep lastup)" "ds_def rrd = cs_ds s" "rra_def rrd = cs_rra s"
    "live_head rrd = \<lparr>last_up = lastup, last_up_usec = 0\<rparr>"
    "pdp_prep rrd = replicate (length (cs_ds s)) (pdp_reset pstep lastup)"
    "length (cdp_prep rrd) = length (cs_rra s) * length (cs_ds s)"
    "rra_ptr rrd = map (\<lambda>i. rrd_select_initial_row rnd i (cs_rra s ! i)) [0..<length (cs_rra s)]"
    "vals = replicate (total_rows (cs_rra s) * length (cs_ds s)) NaN"
  using assms
  by (auto simp: rrd_init_data_def Let_def reset_pdp_prep_def create_rrd_def length_concat comp_def
      sum_list_triv)

lemma create_base_wf:
  assumes "create_base env filename pstep lastup tpl have_sources argv = Inr ((rrd, vals), ms)"
    and "\<And>t. tpl = Some t \<Longrightarrow> rrd_wf t"
    and "0 \<le> pstep" "pstep < 2 ^ 31"
    and "\<And>r. r \<in> set (rra_def rrd) \<Longrightarrow> row_cnt r < 2 ^ 62 \<and> pdp_cnt r < 2 ^ 31"
  shows "rrd_wf rrd \<and> ((\<forall>t. tpl = Some t \<longrightarrow> distinct (map ds_nam (ds_def t))) \<longrightarrow> distinct (map ds_nam (ds_def rrd))) \<and>
    ds_def rrd \<noteq> [] \<and> rra_def rrd \<noteq> [] \<and> vals = replicate (total_rows (rra_def rrd) * nds rrd) NaN"
proof -
  let ?p = "create_step pstep tpl"
  have p: "0 < ?p" "?p < 2 ^ 31"
    using assms(2,3,4) by (auto simp: create_step_def rrd_wf_def split: option.splits)
  obtain s where s: "create_args (ce_scan env) ?p (FnvHash filename) argv (create_start tpl) = Inr s"
    and ne: "cs_rra s \<noteq> []" "cs_ds s \<noteq> []"
    and i: "rrd_init_data (ce_rnd env) (create_rrd s ?p (create_last_up env lastup tpl have_sources)) = (rrd, vals)"
    using assms(1) by (auto simp: create_base_def Let_def tbind_Inr split: if_splits)
  have inv: "args_inv (\<forall>t. tpl = Some t \<longrightarrow> distinct (map ds_nam (ds_def t))) s"
    using create_args_inv [OF s] p assms(2)
    by (cases tpl) (auto simp: create_start_def args_inv_def rrd_wf_def rra_ok_def rra_positive_def list_all_length)
  note sh = init_data_shape [OF i]
  have "rra_ok rrd j" if "j < length (cs_rra s)" for j
  proof -
    have "0 < row_cnt (cs_rra s ! j) \<and> 0 < pdp_cnt (cs_rra s ! j)"
      using inv that by (simp add: args_inv_def list_all_length rra_positive_def)
    moreover have "cs_rra s ! j \<in> set (rra_def rrd)" using that sh(3) by simp
    ultimately show ?thesis
      using assms(5) that by (simp add: rra_ok_def sh(3,7) rrd_select_initial_row_def)
  qed
  then have "rrd_wf rrd" using p by (simp add: rrd_wf_def sh create_rrd_def)
  with ne inv sh show ?thesis by (simp add: args_inv_def)
qed

definition sample_create :: create_env where
  "sample_create = \<lparr>ce_now = 1200000010, ce_rnd = (\<lambda>i. 3), ce_scan = (\<lambda>s. Scan_none)\<rparr>"

text \<open>C38: A \<open>HWPREDICT\<close> or \<open>MHWPREDICT\<close> archive without an explicit index brings the four archives the
  method needs, and all of them point to each other as the update code follows the indices: the prediction and
  the seasonal coefficients to each other, the deviations to the prediction, and the predicted
  deviations and the failures to the seasonal deviations. The failure window fits the room for the
  violations.\<close>

theorem contingent_archives:
  assumes "handle_dependent_rras rras d hash = Inr rras'"
    and "rrd_cf_conv (cf_nam d) = Some CF_HWPREDICT \<or> rrd_cf_conv (cf_nam d) = Some CF_MHWPREDICT"
    and "rra_dependent_rra_idx d = 2147483647"
  defines "k \<equiv> length rras" and "dep \<equiv> \<lambda>i. nat (rra_dependent_rra_idx (rras' ! i))"
    and "cf \<equiv> \<lambda>i. rrd_cf_conv (cf_nam (rras' ! i))"
  shows "length rras' = k + 5 \<and> take k rras' = rras \<and> cf_nam (rras' ! k) = cf_nam d \<and>
    dep k = k + 1 \<and> cf (k + 1) = Some CF_SEASONAL \<and> dep (k + 1) = k \<and>
    cf (k + 2) = Some CF_DEVSEASONAL \<and> dep (k + 2) = k \<and>
    cf (k + 3) = Some CF_DEVPREDICT \<and> dep (k + 3) = k + 2 \<and>
    cf (k + 4) = Some CF_FAILURES \<and> dep (k + 4) = k + 2 \<and>
    rra_failure_threshold (rras' ! (k + 4)) \<le> rra_window_len (rras' ! (k + 4)) \<and>
    rra_window_len (rras' ! (k + 4)) \<le> 28 \<and>
    row_cnt (rras' ! (k + 1)) = row_cnt (rras' ! (k + 2)) \<and>
    rra_seasonal_smooth_idx (rras' ! (k + 1)) < row_cnt (rras' ! (k + 1))"
proof -
  let ?p = "u16 (d2s64 (rra_period d))"
  have p: "0 \<le> ?p" by (simp add: u16_def)
  have r: "rras' = rras @ [d\<lparr>rra_dependent_rra_idx := int k + 1\<rparr>] @ hw_contingent d (int k) ?p hash" "?p \<noteq> 0"
    using assms(1-3)
    by (auto simp: handle_dependent_rras_def create_hw_contingent_rras_def Let_def k_def split: if_splits)
  have n: "rras' ! (k + j) = (d\<lparr>rra_dependent_rra_idx := int k + 1\<rparr> # hw_contingent d (int k) ?p hash) ! j" for j
    by (simp add: r(1) k_def nth_append)
  have e: "rras' ! k = d\<lparr>rra_dependent_rra_idx := int k + 1\<rparr>"
    "rras' ! (k + 1) = hw_contingent d (int k) ?p hash ! 0" "rras' ! (k + 2) = hw_contingent d (int k) ?p hash ! 1"
    "rras' ! (k + 3) = hw_contingent d (int k) ?p hash ! 2" "rras' ! (k + 4) = hw_contingent d (int k) ?p hash ! 3"
    using n [of 0] n [of 1] n [of 2] n [of 3] n [of 4] by simp_all
  have "hash mod ?p < ?p" using p r(2) by simp
  moreover have "nat (int k + 1) = k + 1" "nat (int k + 2) = k + 2" by simp_all
  moreover have "length rras' = k + 5" "take k rras' = rras"
    by (simp_all add: r(1) k_def hw_contingent_def Let_def)
  ultimately show ?thesis
    unfolding dep_def cf_def e by (simp add: hw_contingent_def Let_def rrd_cf_conv_def)
qed

theorem contingent_archives_witness:
  "\<exists>rras'. handle_dependent_rras [] (rra_def_zero\<lparr>cf_nam := ''HWPREDICT'', row_cnt := 1440,
      rra_dependent_rra_idx := 2147483647, rra_period := dint 288\<rparr>) 77 = Inr rras' \<and>
    length rras' = 5 \<and> rrd_cf_conv (cf_nam (rras' ! 1)) = Some CF_SEASONAL \<and>
    rra_dependent_rra_idx (rras' ! 4) = 2"
proof -
  let ?d = "rra_def_zero\<lparr>cf_nam := ''HWPREDICT'', row_cnt := 1440, rra_dependent_rra_idx := 2147483647,
    rra_period := dint 288\<rparr>"
  have "handle_dependent_rras [] ?d 77 = create_hw_contingent_rras [] ?d 288 77"
    by code_simp
  then obtain rras' where r: "handle_dependent_rras [] ?d 77 = Inr rras'"
    by (auto simp: create_hw_contingent_rras_def Let_def)
  have "nat (rra_dependent_rra_idx (rras' ! 4)) = 2 \<and> length rras' = 5 \<and>
      rrd_cf_conv (cf_nam (rras' ! 1)) = Some CF_SEASONAL"
    using contingent_archives [OF r] by (simp add: rrd_cf_conv_def)
  with r show ?thesis by (intro exI [of _ rras']) auto
qed

section \<open>Five inputs\<close>

text \<open>The index of the archive that another one depends on is not compared with the number of archives; the update would
  access the archive with index 98 of one.\<close>

lemma dependent_index_unchecked:
  "map_sum id (\<lambda>x. (nrra (fst (fst x)), rra_dependent_rra_idx (rra_def (fst (fst x)) ! 0)))
     (create_base sample_create ''a.rrd'' 300 0 None False
       [''DS:t:GAUGE:600:U:U'', ''RRA:DEVPREDICT:10:99'']) = Inr (1, 98)"
  by code_simp

text \<open>A period of zero reaches \<open>hash % period\<close>.\<close>

lemma period_zero_divides:
  "create_base sample_create ''a.rrd'' 300 0 None False
     [''DS:t:GAUGE:600:U:U'', ''RRA:HWPREDICT:10:0.1:0.1:0''] = Inl Division_by_zero"
  by code_simp

text \<open>The maximum is cut to 18 characters: the largest 64 bit counter value loses two digits.\<close>

lemma long_maximum_truncated:
  "scan_min_max ''0:18446744073709551615'' = Some (''0'', ''184467440737095516'')"
  by code_simp

text \<open>Only the first letter of a unit is looked at: a month is a minute.\<close>

lemma month_is_minute: "rrd_scaled_duration ''1month'' 1 = Inr 60"
  by code_simp

text \<open>Archives that come with a \<open>MHWPREDICT\<close> archive have a smoothing window of zero in a file of version 4, one that is
  defined explicitly has 0.05.\<close>

lemma contingent_smoothing_window:
  "map_sum id (\<lambda>x. (version (stat_head (fst (fst x))), rra_seasonal_smoothing_window (rra_def (fst (fst x)) ! 1)))
     (create_base sample_create ''a.rrd'' 300 0 None False
       [''DS:t:GAUGE:600:U:U'', ''RRA:MHWPREDICT:10:0.1:0.1:5'']) = Inr (''0004'', 0)"
  by code_simp

end
