(* ===== verification/Rrd_Coverage.thy ===== *)
theory Rrd_Coverage
  imports Rrd_Format
begin

text \<open>
  Coverage arrays of \<open>rrd_create.c\<close>: a time range, split into intervals that are covered by data
  or not, and \<open>add_coverage\<close>, which marks a new interval as covered and tells how many seconds it
  adds; the ends of an interval are inclusive. Times are far from the limits of \<open>time_t\<close>; the
  number of seconds is kept in an \<open>int\<close>.
\<close>

section \<open>Intervals\<close>

definition overlap :: "time_t \<Rightarrow> time_t \<Rightarrow> time_t \<Rightarrow> time_t \<Rightarrow> clong" where
  "overlap start1 end1 start2 end2 =
     (if start1 \<ge> end1 then 0
      else if start2 \<ge> end2 then 0
      else if start1 > end2 then 0
      else if start2 > end1 then 0
      else min end1 end2 - max start1 start2)"

definition is_interval_within_interval :: "time_t \<Rightarrow> time_t \<Rightarrow> time_t \<Rightarrow> time_t \<Rightarrow> bool" where
  "is_interval_within_interval start1 end1 start2 end2 \<longleftrightarrow>
     (if end1 - start1 > end2 - start2 then False
      else overlap start1 end1 start2 end2 = end1 - start1)"

definition is_time_within_interval :: "time_t \<Rightarrow> time_t \<Rightarrow> time_t \<Rightarrow> bool" where
  "is_time_within_interval t start en \<longleftrightarrow> t \<ge> start \<and> t \<le> en"

record coverage_t =
  covered :: bool
  cov_start :: time_t
  cov_end :: time_t

definition set_interval :: "bool \<Rightarrow> time_t \<Rightarrow> time_t \<Rightarrow> coverage_t" where
  "set_interval c s e = \<lparr>covered = c, cov_start = s, cov_end = e\<rparr>"

section \<open>Adding an interval\<close>

text \<open>Case (A): the new interval lies within an interval that is not covered, which is split. The result is what
  takes its place.\<close>

definition split_uncovered :: "coverage_t \<Rightarrow> time_t \<Rightarrow> time_t \<Rightarrow> coverage_t list" where
  "split_uncovered cc start en =
     (if start = cov_start cc \<and> en = cov_end cc then [cc\<lparr>covered := True\<rparr>]
      else if cov_start cc = start then [set_interval True start en, set_interval False (en + 1) (cov_end cc)]
      else if cov_end cc = en then [set_interval False (cov_start cc) (start - 1), set_interval True start en]
      else [set_interval False (cov_start cc) (start - 1), set_interval True start en,
            set_interval False (en + 1) (cov_end cc)])"

text \<open>The loop over the array, from the current element on. An element that case (C) inserts is the current one of
  the next round.\<close>

function add_loop :: "coverage_t list \<Rightarrow> time_t \<Rightarrow> time_t \<Rightarrow> cint \<Rightarrow> coverage_t list \<times> cint" where
  "add_loop [] start en newly = ([], newly)"
| "add_loop (cc # cs) start en newly =
     (let os = cov_start cc; oe = cov_end cc
      in if is_interval_within_interval start en os oe
         then if covered cc then (cc # cs, newly)
              else (split_uncovered cc start en @ cs, s32 (newly + (en - start + 1)))
         else
           let all = is_interval_within_interval os oe start en \<and> \<not> covered cc;
               c1 = (if all then cc\<lparr>covered := True\<rparr> else cc);
               n1 = (if all then s32 (newly + (oe - os + 1)) else newly)
           in if is_time_within_interval start os oe
              then if covered c1 then (case add_loop cs (oe + 1) en n1 of (r, n) \<Rightarrow> (c1 # r, n))
                   else if cov_start c1 = start
                   then (case add_loop cs (oe + 1) en n1 of (r, n) \<Rightarrow> (c1\<lparr>covered := True\<rparr> # r, n))
                   else (case add_loop (set_interval True start oe # cs) (oe + 1) en (s32 (n1 + (oe - start + 1))) of
                           (r, n) \<Rightarrow> (set_interval False os (start - 1) # r, n))
              else (case add_loop cs start en n1 of (r, n) \<Rightarrow> (c1 # r, n)))"
  by pat_completeness auto
termination
  by (relation "measure (\<lambda>(cs, start, en, newly). 2 * length cs + (if cs \<noteq> [] \<and> \<not> covered (hd cs) then 1 else 0))")
    (auto simp: set_interval_def split: if_splits)

declare add_loop.simps(2) [simp del]

text \<open>The cleanup pass.\<close>

fun collapse :: "coverage_t list \<Rightarrow> coverage_t list" where
  "collapse (a # b # cs) =
     (if covered a = covered b then collapse (a\<lparr>cov_end := cov_end b\<rparr> # cs) else a # collapse (b # cs))"
| "collapse cs = cs"

definition add_coverage :: "coverage_t list \<Rightarrow> time_t \<Rightarrow> time_t \<Rightarrow> coverage_t list \<times> cint" where
  "add_coverage cs start en =
     (let lo = cov_start (hd cs); hi = cov_end (last cs);
          s = (if start < lo then lo else start);
          e = (if en > hi then hi else en)
      in if e < lo \<or> s > hi then (cs, 0)
         else case add_loop cs s e 0 of (r, n) \<Rightarrow> (collapse r, n))"

section \<open>What an array stands for\<close>

text \<open>The array splits the range from \<open>a\<close> up to \<open>b\<close> into intervals whose lengths are multiples of \<open>g\<close>.\<close>

fun chain :: "int \<Rightarrow> time_t \<Rightarrow> coverage_t list \<Rightarrow> time_t \<Rightarrow> bool" where
  "chain g a [] b \<longleftrightarrow> a = b"
| "chain g a (c # cs) b \<longleftrightarrow> cov_start c = a \<and> a \<le> cov_end c \<and> g dvd cov_end c + 1 - a \<and> chain g (cov_end c + 1) cs b"

fun covered_set :: "coverage_t list \<Rightarrow> time_t set" where
  "covered_set [] = {}"
| "covered_set (c # cs) = (if covered c then {cov_start c..cov_end c} else {}) \<union> covered_set cs"

fun total_coverage :: "coverage_t list \<Rightarrow> int" where
  "total_coverage [] = 0"
| "total_coverage (c # cs) = (if covered c then cov_end c - cov_start c + 1 else 0) + total_coverage cs"

lemma set_interval_simps [simp]:
  "covered (set_interval c s e) = c" "cov_start (set_interval c s e) = s" "cov_end (set_interval c s e) = e"
  by (simp_all add: set_interval_def)

lemma chain_le: "chain g a cs b \<Longrightarrow> a \<le> b"
  by (induction cs arbitrary: a) fastforce+

lemma chain_last: "chain g a cs b \<Longrightarrow> cs \<noteq> [] \<Longrightarrow> cov_start (hd cs) = a \<and> cov_end (last cs) + 1 = b"
  by (induction cs arbitrary: a) (auto split: if_splits)

lemma covered_set_range: "chain g a cs b \<Longrightarrow> covered_set cs \<subseteq> {a..<b}"
proof (induction cs arbitrary: a)
  case (Cons c cs)
  then have "covered_set cs \<subseteq> {cov_end c + 1..<b}" "cov_end c + 1 \<le> b" using chain_le by auto
  with Cons.prems show ?case by auto
qed simp

lemma total_coverage_card: "chain g a cs b \<Longrightarrow> total_coverage cs = int (card (covered_set cs))"
proof (induction cs arbitrary: a)
  case (Cons c cs)
  have ch: "chain g (cov_end c + 1) cs b" using Cons.prems by simp
  then have "covered_set cs \<subseteq> {cov_end c + 1..<b}" by (rule covered_set_range)
  then have "finite (covered_set cs)" "{cov_start c..cov_end c} \<inter> covered_set cs = {}"
    by (auto intro: finite_subset)
  then show ?case using Cons.IH [OF ch] Cons.prems by (simp add: card_Un_disjoint)
qed simp

text \<open>Intervals of more than one second are within one another as the name says.\<close>

lemma within_iff:
  "s1 < e1 \<Longrightarrow> s2 < e2 \<Longrightarrow> is_interval_within_interval s1 e1 s2 e2 \<longleftrightarrow> s2 \<le> s1 \<and> e1 \<le> e2"
  by (auto simp: is_interval_within_interval_def overlap_def min_def max_def)

lemma dvd_longer: "2 \<le> g \<Longrightarrow> g dvd e + 1 - s \<Longrightarrow> s \<le> e \<Longrightarrow> (s :: int) < e"
  using zdvd_imp_le [of g "e + 1 - s"] by simp

lemma split_uncovered_correct:
  assumes "chain g a (cc # cs) b" "\<not> covered cc" "a \<le> start" "start \<le> en" "en \<le> cov_end cc"
    and "g dvd start - a" "g dvd en + 1 - start"
  shows "chain g a (split_uncovered cc start en @ cs) b \<and>
    covered_set (split_uncovered cc start en @ cs) = covered_set (cc # cs) \<union> {start..en} \<and>
    total_coverage (split_uncovered cc start en @ cs) = total_coverage (cc # cs) + (en - start + 1)"
proof -
  have "g dvd cov_end cc + 1 - start" using dvd_diff [OF _ assms(6), of "cov_end cc + 1 - a"] assms(1) by (simp add: algebra_simps)
  from dvd_diff [OF this assms(7)] have d: "g dvd cov_end cc - en" by simp
  show ?thesis using assms d by (auto simp: split_uncovered_def)
qed

definition loop_size :: "coverage_t list \<Rightarrow> nat" where
  "loop_size cs = 2 * length cs + (if cs \<noteq> [] \<and> \<not> covered (hd cs) then 1 else 0)"

lemma add_loop_correct:
  assumes "2 \<le> g"
  shows "chain g a cs b \<Longrightarrow> cs \<noteq> [] \<Longrightarrow> a \<le> start \<Longrightarrow> start \<le> en \<Longrightarrow> en < b \<Longrightarrow> g dvd start - a \<Longrightarrow> g dvd en + 1 - start \<Longrightarrow>
    0 \<le> k \<Longrightarrow> k + (en - start + 1) < 2 ^ 31 \<Longrightarrow> add_loop cs start en k = (r, n) \<Longrightarrow>
    chain g a r b \<and> r \<noteq> [] \<and> covered_set r = covered_set cs \<union> {start..en} \<and>
    total_coverage r - total_coverage cs = n - k"
proof (induction "loop_size cs" arbitrary: cs a start k r n rule: less_induct)
  case less
  then obtain cc ds where cs: "cs = cc # ds" by (cases cs) auto
  let ?os = "cov_start cc" and ?oe = "cov_end cc"
  have os: "?os = a" "a \<le> ?oe" "g dvd ?oe + 1 - a" and ch: "chain g (?oe + 1) ds b"
    using less.prems(1) cs by simp_all
  have lt: "start < en" "?os < ?oe"
    using dvd_longer [OF assms] less.prems os by simp_all
  have w: "is_interval_within_interval start en ?os ?oe \<longleftrightarrow> en \<le> ?oe"
    "is_interval_within_interval ?os ?oe start en \<longleftrightarrow> start = a \<and> ?oe \<le> en"
    using within_iff [OF lt] within_iff [OF lt(2,1)] os less.prems(3) by auto
  have id: "s32 x = x" if "0 \<le> x" "x < 2 ^ 31" for x using that by (simp add: s32_id)
  have d1: "g dvd ?oe + 1 - start" using dvd_diff [OF os(3) less.prems(6)] by (simp add: algebra_simps)
  have d2: "g dvd en + 1 - (?oe + 1)" using dvd_diff [OF less.prems(7) d1] by simp
  have sz: "loop_size ds < loop_size cs" by (simp add: cs loop_size_def)
  note loop = trans [OF sym [OF add_loop.simps(2) [of cc ds start en k, unfolded w Let_def]] less.prems(10) [unfolded cs]]
  have next_iv: "chain g (?oe + 1) r' b \<and> r' \<noteq> [] \<and> covered_set r' = covered_set ds \<union> {?oe + 1..en} \<and>
      total_coverage r' - total_coverage ds = n - k'"
    if "?oe < en" "0 \<le> k'" "k' + (en - ?oe) < 2 ^ 31" "add_loop ds (?oe + 1) en k' = (r', n)" for k' r'
  proof (rule less.hyps [OF sz ch])
    show "ds \<noteq> []" using that(1) less.prems(5) ch by (cases ds) auto
  qed (use that less.prems(5) d2 in auto)
  consider "en \<le> ?oe" "covered cc" | "en \<le> ?oe" "\<not> covered cc" | "?oe < start"
    | "?oe < en" "start \<le> ?oe" "covered cc" | "?oe < en" "start \<le> ?oe" "\<not> covered cc" "start = a"
    | "?oe < en" "start \<le> ?oe" "\<not> covered cc" "start \<noteq> a"
    by linarith
  then show ?case
  proof cases
    case 1
    with loop less.prems os show ?thesis by (auto simp: cs)
  next
    case 2
    have "(r, n) = (split_uncovered cc start en @ ds, k + (en - start + 1))"
      using loop 2 less.prems(4,8,9) id [of "k + (en - start + 1)"] by simp
    moreover have "split_uncovered cc start en \<noteq> []" by (simp add: split_uncovered_def)
    ultimately show ?thesis
      using split_uncovered_correct [OF less.prems(1) [unfolded cs] 2(2) less.prems(3,4) 2(1) less.prems(6,7)]
      by (simp add: cs)
  next
    case 3
    then have ne: "ds \<noteq> []" using less.prems(4,5) ch by (cases ds) auto
    obtain r' where r': "add_loop ds start en k = (r', n)" "r = cc # r'"
      using loop 3 less.prems(4) os by (auto simp: is_time_within_interval_def split: prod.splits)
    have "g dvd start - (?oe + 1)" using d1 by (metis dvd_minus_iff minus_diff_eq)
    from less.hyps [OF sz ch ne _ less.prems(4,5) this less.prems(7,8,9) r'(1)] 3 r'(2) os
    show ?thesis by (auto simp: cs)
  next
    case 4
    obtain r' where r': "add_loop ds (?oe + 1) en k = (r', n)" "r = cc # r'"
      using loop 4 less.prems(3) os by (auto simp: is_time_within_interval_def split: prod.splits)
    from next_iv [OF 4(1) less.prems(8) _ r'(1)] 4 less.prems(3,9) r'(2) os
    show ?thesis by (auto simp: cs)
  next
    case 5
    let ?k = "k + (?oe - ?os + 1)"
    have "s32 ?k = ?k" using 5 os less.prems(8,9) by (intro id) auto
    then obtain r' where r': "add_loop ds (?oe + 1) en ?k = (r', n)" "r = cc\<lparr>covered := True\<rparr> # r'"
      using loop 5 os by (auto simp: is_time_within_interval_def split: prod.splits)
    from next_iv [OF 5(1) _ _ r'(1)] 5 less.prems(8,9) r'(2) os
    show ?thesis by (auto simp: cs)
  next
    case 6
    let ?k = "k + (?oe - start + 1)" and ?c = "set_interval True start ?oe"
    have s: "s32 ?k = ?k" using 6 os less.prems(8,9) by (intro id) auto
    obtain r' where r': "add_loop (?c # ds) (?oe + 1) en ?k = (r', n)" "r = set_interval False a (start - 1) # r'"
      using loop 6 os less.prems(3) s by (auto simp: is_time_within_interval_def split: prod.splits)
    have ch': "chain g start (?c # ds) b" using ch 6 d1 by simp
    have sz': "loop_size (?c # ds) < loop_size cs" using 6 by (simp add: cs loop_size_def)
    have k': "0 \<le> ?k" "?k + (en - (?oe + 1) + 1) < 2 ^ 31" using 6 less.prems(8,9) by simp_all
    have se: "start \<le> ?oe + 1" "?oe + 1 \<le> en" using 6 by simp_all
    have "chain g start r' b \<and> r' \<noteq> [] \<and> covered_set r' = covered_set (?c # ds) \<union> {?oe + 1..en} \<and>
        total_coverage r' - total_coverage (?c # ds) = n - ?k"
      by (rule less.hyps [OF sz' ch' _ se less.prems(5) d1 d2 k' r'(1)]) simp
    moreover have "{start..?oe} \<union> {?oe + 1..en} = {start..en}" using 6 by auto
    ultimately show ?thesis using r'(2) 6 os less.prems(3,6) by (auto simp: cs)
  qed
qed

lemma chain_dvd: "chain g a cs b \<Longrightarrow> g dvd b - a"
proof (induction cs arbitrary: a)
  case (Cons c cs)
  then have "g dvd (b - (cov_end c + 1)) + (cov_end c + 1 - a)" by (intro dvd_add) auto
  then show ?case by (simp add: algebra_simps)
qed simp

lemma collapse_correct:
  "chain g a cs b \<Longrightarrow> chain g a (collapse cs) b \<and> covered_set (collapse cs) = covered_set cs \<and>
   total_coverage (collapse cs) = total_coverage cs"
proof (induction cs arbitrary: a rule: collapse.induct)
  case (1 x y cs)
  have ch: "cov_start x = a" "a \<le> cov_end x" "cov_start y = cov_end x + 1" "cov_end x + 1 \<le> cov_end y"
      "chain g (cov_end y + 1) cs b" and d: "g dvd cov_end x + 1 - a" "g dvd cov_end y + 1 - (cov_end x + 1)"
    using "1.prems" by auto
  show ?case
  proof (cases "covered x = covered y")
    case True
    have "g dvd cov_end y + 1 - a" using dvd_add [OF d] by (simp add: algebra_simps)
    with ch have "chain g a (x\<lparr>cov_end := cov_end y\<rparr> # cs) b" by simp
    from "1.IH"(1) [OF True this] True ch show ?thesis by auto
  next
    case False
    from "1.IH"(2) [OF False, of "cov_end x + 1"] "1.prems" False show ?thesis by auto
  qed
qed auto

lemma collapse_alternates: "successively (\<lambda>x y. covered x \<noteq> covered y) (collapse cs)"
proof -
  have "collapse cs \<noteq> [] \<longleftrightarrow> cs \<noteq> []" and "cs \<noteq> [] \<Longrightarrow> covered (hd (collapse cs)) = covered (hd cs)" for cs
    by (induction cs rule: collapse.induct) auto
  then show ?thesis
    by (induction cs rule: collapse.induct) (auto simp: successively_Cons)
qed

text \<open>C35: Adding an interval to the coverage of a range marks exactly its part within the range as covered, reports the
  number of seconds that were not covered before, and leaves an array that splits the same range
  into intervals that are covered and not covered in turn. All intervals start and end on a common
  grid of at least two seconds; \<open>add_coverage_single_second\<close> shows what happens on a grid of one.\<close>

theorem add_coverage_correct:
  assumes "chain g a cs b" "cs \<noteq> []" "2 \<le> g" "b - a < 2 ^ 31"
    and "start \<le> en" "g dvd start - a" "g dvd en + 1 - a"
    and "add_coverage cs start en = (r, n)"
  shows "chain g a r b \<and> covered_set r = covered_set cs \<union> ({start..en} \<inter> {a..<b}) \<and>
    n = int (card (covered_set r)) - int (card (covered_set cs)) \<and>
    (r = cs \<or> successively (\<lambda>x y. covered x \<noteq> covered y) r)"
proof -
  have e: "cov_start (hd cs) = a" "cov_end (last cs) = b - 1" using chain_last [OF assms(1,2)] by auto
  let ?s = "if start < a then a else start" and ?e = "if en > b - 1 then b - 1 else en"
  show ?thesis
  proof (cases "?e < a \<or> ?s > b - 1")
    case True
    then have "r = cs" "n = 0" using assms(8) by (auto simp: add_coverage_def e Let_def)
    moreover have "{start..en} \<inter> {a..<b} = {}"
      using True chain_le [OF assms(1)] assms(5) by (auto split: if_splits)
    ultimately show ?thesis using assms(1) by simp
  next
    case False
    then obtain r0 where r0: "add_loop cs ?s ?e 0 = (r0, n)" "r = collapse r0"
      using assms(8) by (auto simp: add_coverage_def e Let_def split: prod.splits)
    have se: "a \<le> ?s" "?s \<le> ?e" "?e < b" using False assms(5) by auto
    have gs: "g dvd ?s - a" using assms(6) by simp
    have "g dvd ?e + 1 - a" using assms(7) chain_dvd [OF assms(1)] by simp
    from dvd_diff [OF this gs] have ge: "g dvd ?e + 1 - ?s" by (simp only: diff_diff_eq2 diff_add_cancel)
    have "0 + (?e - ?s + 1) < 2 ^ 31" using se assms(4) by linarith
    from add_loop_correct [OF assms(3,1,2) se gs ge _ this r0(1)]
    have l: "chain g a r0 b" "covered_set r0 = covered_set cs \<union> {?s..?e}"
      "total_coverage r0 - total_coverage cs = n" by simp_all
    have "{?s..?e} = {start..en} \<inter> {a..<b}" by auto
    with l collapse_correct [OF l(1)] collapse_alternates [of r0] total_coverage_card [OF assms(1)]
      total_coverage_card [of g a r b] r0(2)
    show ?thesis by simp
  qed
qed

theorem add_coverage_correct_witness:
  "add_coverage [set_interval False 1 10] 3 6 =
     ([set_interval False 1 2, set_interval True 3 6, set_interval False 7 10], 4) \<and>
   covered_set [set_interval False 1 2, set_interval True 3 6, set_interval False 7 10] = {3..6}"
proof -
  let ?cs = "[set_interval False 1 10]"
  let ?r = "[set_interval False 1 2, set_interval True 3 6, set_interval False 7 10]"
  have r: "add_coverage ?cs 3 6 = (?r, 4)" by code_simp
  have "covered_set ?r = covered_set ?cs \<union> ({3..6} \<inter> {1..<11})"
    using add_coverage_correct [of 2 1 ?cs 11 3 6, OF _ _ _ _ _ _ _ r] by simp
  with r show ?thesis by auto
qed

text \<open>An interval of a single second counts as within every interval, so a second one splits the wrong
  element, and the array no longer covers its range in order.\<close>

lemma add_coverage_single_second:
  "add_coverage [set_interval False 1 4, set_interval True 5 5, set_interval False 6 10] 8 8 =
     ([set_interval False 1 7, set_interval True 8 8, set_interval False 9 4, set_interval True 5 5,
       set_interval False 6 10], 1)"
  by code_simp

end
