(* ===== verification/Rrd_Quicksort.thy ===== *)
theory Rrd_Quicksort
  imports Rrd_Prelude
begin

text \<open>
  \<open>quicksort.c\<close>: sorting in place with a comparison that takes an extra argument, here part of
  the function. Offsets count elements instead of bytes; the pivot is the element at \<open>beg\<close>, which the loop
  does not move.
\<close>

definition swap :: "nat \<Rightarrow> nat \<Rightarrow> 'a list \<Rightarrow> 'a list" where
  "swap i j xs = xs[i := xs ! j, j := xs ! i]"

text \<open>The loop of \<open>sort\<close>: the array and the offset where \<open>l\<close> and \<open>r\<close> meet. After an exchange the next round
  advances \<open>l\<close> over the element that has come there.\<close>

function partition_loop :: "('a \<Rightarrow> 'a \<Rightarrow> int) \<Rightarrow> nat \<Rightarrow> nat \<Rightarrow> nat \<Rightarrow> 'a list \<Rightarrow> 'a list \<times> nat" where
  "partition_loop cmp beg l r xs =
     (if l < r
      then if cmp (xs ! l) (xs ! beg) \<le> 0 then partition_loop cmp beg (Suc l) r xs
           else if cmp (xs ! r) (xs ! beg) \<ge> 0 then partition_loop cmp beg l (r - 1) xs
           else partition_loop cmp beg (Suc l) r (swap l r xs)
      else (xs, l))"
  by pat_completeness auto
termination
  by (relation "measure (\<lambda>(cmp, beg, l, r, xs). r - l)") auto

declare partition_loop.simps [simp del]

lemma partition_loop_bounds:
  "l \<le> r \<Longrightarrow> l \<le> snd (partition_loop cmp beg l r xs) \<and> snd (partition_loop cmp beg l r xs) \<le> r"
proof (induction cmp beg l r xs rule: partition_loop.induct)
  case (1 cmp beg l r xs)
  have "l < r \<Longrightarrow> l \<le> r - 1" by simp
  with 1 show ?case by (subst (1 2) partition_loop.simps) (simp del: One_nat_def, linarith)
qed

text \<open>Both branches after the loop leave \<open>l\<close> one below \<open>r\<close>.\<close>

definition place_pivot :: "('a \<Rightarrow> 'a \<Rightarrow> int) \<Rightarrow> nat \<Rightarrow> nat \<Rightarrow> 'a list \<Rightarrow> 'a list" where
  "place_pivot cmp beg l xs =
     (if cmp (xs ! l) (xs ! beg) \<le> 0 then swap l beg xs else swap (l - 1) beg xs)"

function sort_range :: "('a \<Rightarrow> 'a \<Rightarrow> int) \<Rightarrow> nat \<Rightarrow> nat \<Rightarrow> 'a list \<Rightarrow> 'a list" where
  "sort_range cmp beg en xs =
     (if beg \<ge> en then xs
      else let ys = fst (partition_loop cmp beg (Suc beg) en xs);
               r = snd (partition_loop cmp beg (Suc beg) en xs)
           in sort_range cmp r en (sort_range cmp beg (r - 1) (place_pivot cmp beg r ys)))"
  by pat_completeness auto
termination
proof (relation "measure (\<lambda>(cmp, beg, en, xs). en - beg)", goal_cases)
  case (2 cmp beg en xs ys r)
  then show ?case using partition_loop_bounds [of "Suc beg" en cmp beg xs] by auto
next
  case (3 cmp beg en xs ys r)
  then show ?case using partition_loop_bounds [of "Suc beg" en cmp beg xs] by auto
qed simp

declare sort_range.simps [simp del]

definition quick_sort :: "('a \<Rightarrow> 'a \<Rightarrow> int) \<Rightarrow> 'a list \<Rightarrow> 'a list" where
  "quick_sort cmp xs = sort_range cmp 0 (length xs - 1) xs"

section \<open>It sorts\<close>

lemma length_swap [simp]: "length (swap i j xs) = length xs"
  by (simp add: swap_def)

lemma mset_swap [simp]: "i < length xs \<Longrightarrow> j < length xs \<Longrightarrow> mset (swap i j xs) = mset xs"
  by (auto simp: swap_def mset_swap)

lemma nth_swap:
  "i < length xs \<Longrightarrow> j < length xs \<Longrightarrow> k < length xs \<Longrightarrow>
   swap i j xs ! k = (if k = j then xs ! i else if k = i then xs ! j else xs ! k)"
  by (auto simp: swap_def nth_list_update)

text \<open>What a call changes: only the elements from \<open>b\<close> to \<open>e\<close>, which it permutes.\<close>

definition permutes :: "nat \<Rightarrow> nat \<Rightarrow> 'a list \<Rightarrow> 'a list \<Rightarrow> bool" where
  "permutes b e xs ys \<longleftrightarrow> length ys = length xs \<and> mset ys = mset xs \<and>
     (\<forall>k < length xs. k < b \<or> e < k \<longrightarrow> ys ! k = xs ! k)"

lemma permutes_refl [simp]: "permutes b e xs xs"
  by (simp add: permutes_def)

lemma permutes_trans: "permutes b e xs ys \<Longrightarrow> permutes b e ys zs \<Longrightarrow> permutes b e xs zs"
  by (auto simp: permutes_def)

lemma permutes_mono: "permutes b e xs ys \<Longrightarrow> b' \<le> b \<Longrightarrow> e \<le> e' \<Longrightarrow> permutes b' e' xs ys"
  by (auto simp: permutes_def)

lemma permutes_swap: "b \<le> i \<Longrightarrow> i \<le> e \<Longrightarrow> b \<le> j \<Longrightarrow> j \<le> e \<Longrightarrow> e < length xs \<Longrightarrow> permutes b e xs (swap i j xs)"
  by (auto simp: permutes_def nth_swap)

lemma permutes_length: "permutes b e xs ys \<Longrightarrow> length ys = length xs"
  by (simp add: permutes_def)

lemma permutes_outside: "permutes b e xs ys \<Longrightarrow> k < length xs \<Longrightarrow> k < b \<or> e < k \<Longrightarrow> ys ! k = xs ! k"
  by (auto simp: permutes_def)

text \<open>The elements of the range stay in it.\<close>

lemma permutes_set:
  assumes "permutes b e xs ys" "e < length xs"
  shows "(\<lambda>k. ys ! k) ` {b..e} = (\<lambda>k. xs ! k) ` {b..e}"
proof -
  have split: "mset zs = mset (take b zs) + mset (drop b (take (Suc e) zs)) + mset (drop (Suc e) zs)"
    if "b \<le> Suc e" for zs :: "'a list"
  proof -
    have "take b zs = take b (take (Suc e) zs)" using that by (simp add: min_def)
    then show ?thesis by (metis append_take_drop_id mset_append)
  qed
  show ?thesis
  proof (cases "b \<le> e")
    case True
    have "take b ys = take b xs" "drop (Suc e) ys = drop (Suc e) xs"
      using assms True by (auto intro!: nth_equalityI simp: permutes_def)
    then have "mset (drop b (take (Suc e) ys)) = mset (drop b (take (Suc e) xs))"
      using split [of ys] split [of xs] assms(1) True by (simp add: permutes_def)
    then have "set (drop b (take (Suc e) ys)) = set (drop b (take (Suc e) xs))" by (metis set_mset_mset)
    moreover have "set (drop b (take (Suc e) zs)) = (\<lambda>k. zs ! k) ` {b..e}" if "length zs = length xs" for zs :: "'a list"
    proof -
      have "drop b (take (Suc e) zs) = map (\<lambda>k. zs ! k) [b..<Suc e]"
        using assms(2) that by (intro nth_equalityI) (auto simp del: upt_Suc)
      then show ?thesis by (simp only: set_map set_upt atLeastLessThanSuc_atLeastAtMost)
    qed
    ultimately show ?thesis using assms(1) by (simp add: permutes_length)
  qed simp
qed

lemma partition_loop_permutes:
  "Suc beg \<le> l \<Longrightarrow> l \<le> r \<Longrightarrow> r < length xs \<Longrightarrow> permutes (Suc beg) r xs (fst (partition_loop cmp beg l r xs))"
proof (induction cmp beg l r xs rule: partition_loop.induct)
  case (1 cmp beg l r xs)
  let ?go = "partition_loop cmp beg"
  consider "\<not> l < r" | "l < r" "cmp (xs ! l) (xs ! beg) \<le> 0"
    | "l < r" "\<not> cmp (xs ! l) (xs ! beg) \<le> 0" "cmp (xs ! r) (xs ! beg) \<ge> 0"
    | "l < r" "\<not> cmp (xs ! l) (xs ! beg) \<le> 0" "\<not> cmp (xs ! r) (xs ! beg) \<ge> 0" by blast
  then show ?case
  proof cases
    case 1
    then show ?thesis by (simp add: partition_loop.simps)
  next
    case 2
    then have "?go l r xs = ?go (Suc l) r xs" by (simp add: partition_loop.simps)
    with 2 "1.IH"(1) "1.prems" show ?thesis by simp
  next
    case 3
    then have "?go l r xs = ?go l (r - 1) xs" by (simp add: partition_loop.simps)
    moreover have "permutes (Suc beg) (r - 1) xs (fst (?go l (r - 1) xs))"
      using 3 "1.IH"(2) "1.prems" by simp
    ultimately show ?thesis by (auto intro: permutes_mono)
  next
    case 4
    then have g: "?go l r xs = ?go (Suc l) r (swap l r xs)" by (simp add: partition_loop.simps)
    have "permutes (Suc beg) r (swap l r xs) (fst (?go (Suc l) r (swap l r xs)))"
      using 4 "1.IH"(3) "1.prems" by simp
    moreover have "permutes (Suc beg) r xs (swap l r xs)" using 4 "1.prems" by (intro permutes_swap) auto
    ultimately show ?thesis unfolding g by (rule permutes_trans [rotated])
  qed
qed

section \<open>The order\<close>

text \<open>What a comparison has to be: a total preorder.\<close>

definition comparison :: "('a \<Rightarrow> 'a \<Rightarrow> int) \<Rightarrow> bool" where
  "comparison cmp \<longleftrightarrow> (\<forall>a b. cmp a b \<le> 0 \<longleftrightarrow> cmp b a \<ge> 0) \<and>
     (\<forall>a b c. cmp a b \<le> 0 \<longrightarrow> cmp b c \<le> 0 \<longrightarrow> cmp a c \<le> 0)"

text \<open>Where the loop ends, all elements below are at most the pivot, all above at least; the element there
  is not compared yet.\<close>

definition split_at_pivot :: "('a \<Rightarrow> 'a \<Rightarrow> int) \<Rightarrow> nat \<Rightarrow> nat \<Rightarrow> nat \<Rightarrow> nat \<Rightarrow> 'a list \<Rightarrow> bool" where
  "split_at_pivot cmp beg en l r xs \<longleftrightarrow>
     (\<forall>k. beg < k \<longrightarrow> k < l \<longrightarrow> cmp (xs ! k) (xs ! beg) \<le> 0) \<and>
     (\<forall>k. r < k \<longrightarrow> k \<le> en \<longrightarrow> cmp (xs ! beg) (xs ! k) \<le> 0)"

lemma partition_loop_split:
  "comparison cmp \<Longrightarrow> beg < l \<Longrightarrow> l \<le> r \<Longrightarrow> r \<le> en \<Longrightarrow> en < length xs \<Longrightarrow> split_at_pivot cmp beg en l r xs \<Longrightarrow>
   split_at_pivot cmp beg en (snd (partition_loop cmp beg l r xs)) (snd (partition_loop cmp beg l r xs))
     (fst (partition_loop cmp beg l r xs))"
proof (induction cmp beg l r xs rule: partition_loop.induct)
  case (1 cmp beg l r xs)
  let ?go = "partition_loop cmp beg"
  consider "\<not> l < r" | "l < r" "cmp (xs ! l) (xs ! beg) \<le> 0"
    | "l < r" "\<not> cmp (xs ! l) (xs ! beg) \<le> 0" "cmp (xs ! r) (xs ! beg) \<ge> 0"
    | "l < r" "\<not> cmp (xs ! l) (xs ! beg) \<le> 0" "\<not> cmp (xs ! r) (xs ! beg) \<ge> 0" by blast
  then show ?case
  proof cases
    case 1
    then show ?thesis using "1.prems" by (simp add: partition_loop.simps)
  next
    case 2
    then have "?go l r xs = ?go (Suc l) r xs" by (simp add: partition_loop.simps)
    moreover have "split_at_pivot cmp beg en (Suc l) r xs"
      using 2 "1.prems"(6) by (auto simp: split_at_pivot_def less_Suc_eq)
    ultimately show ?thesis using 2 "1.IH"(1) "1.prems" by simp
  next
    case 3
    then have "?go l r xs = ?go l (r - 1) xs" by (simp add: partition_loop.simps)
    moreover have "cmp (xs ! beg) (xs ! r) \<le> 0" using 3 "1.prems"(1) by (simp add: comparison_def)
    then have "split_at_pivot cmp beg en l (r - 1) xs"
      using "1.prems"(6) unfolding split_at_pivot_def by (metis Suc_pred' gr0I less_Suc_eq_le linorder_neqE_nat not_less_zero diff_0_eq_0 not_less)
    ultimately show ?thesis using 3 "1.IH"(2) "1.prems" by simp
  next
    case 4
    then have g: "?go l r xs = ?go (Suc l) r (swap l r xs)" by (simp add: partition_loop.simps)
    have "split_at_pivot cmp beg en (Suc l) r (swap l r xs)"
      using 4 "1.prems" by (auto simp: split_at_pivot_def nth_swap less_Suc_eq)
    then show ?thesis unfolding g using 4 "1.IH"(3) "1.prems" by simp
  qed
qed

text \<open>After the pivot is placed, everything up to \<open>r - 1\<close> is at most everything from \<open>r\<close> on.\<close>

lemma place_pivot_split:
  assumes "comparison cmp" "beg < r" "r \<le> en" "en < length xs" "split_at_pivot cmp beg en r r xs"
    and "beg \<le> i" "i < r" "r \<le> j" "j \<le> en"
  shows "cmp (place_pivot cmp beg r xs ! i) (place_pivot cmp beg r xs ! j) \<le> 0"
proof -
  have tr: "cmp a b \<le> 0 \<Longrightarrow> cmp b c \<le> 0 \<Longrightarrow> cmp a c \<le> 0" for a b c using assms(1) by (auto simp: comparison_def)
  have tot: "\<not> cmp a b \<le> 0 \<Longrightarrow> cmp b a \<le> 0" for a b using assms(1) by (metis comparison_def linorder_le_cases)
  have self: "cmp a a \<le> 0" for a using tot by blast
  let ?p = "xs ! beg"
  have low: "cmp (xs ! k) ?p \<le> 0" if "beg \<le> k" "k < r" for k
    using assms(5) that self by (cases "k = beg") (auto simp: split_at_pivot_def)
  have high: "cmp ?p (xs ! k) \<le> 0" if "r < k" "k \<le> en" for k
    using assms(5) that by (auto simp: split_at_pivot_def)
  show ?thesis
  proof (cases "cmp (xs ! r) ?p \<le> 0")
    case True
    then have "cmp (swap r beg xs ! i) ?p \<le> 0" "cmp ?p (swap r beg xs ! j) \<le> 0"
      using assms low high self by (auto simp: nth_swap)
    with True tr show ?thesis by (auto simp: place_pivot_def)
  next
    case False
    have "cmp (swap (r - 1) beg xs ! i) ?p \<le> 0"
      using low [of i] low [of "r - 1"] self assms(2-4,6,7) by (subst nth_swap) auto
    moreover have "swap (r - 1) beg xs ! j = xs ! j" using assms(2-4,8,9) by (subst nth_swap) auto
    moreover have "cmp ?p (xs ! j) \<le> 0" using high [of j] tot [OF False] assms(8,9) by (cases "j = r") auto
    ultimately show ?thesis using False tr by (auto simp: place_pivot_def)
  qed
qed

lemma place_pivot_permutes:
  "beg < r \<Longrightarrow> r \<le> en \<Longrightarrow> en < length xs \<Longrightarrow> permutes beg en xs (place_pivot cmp beg r xs)"
  by (auto simp: place_pivot_def intro!: permutes_swap)

definition sorted_range :: "('a \<Rightarrow> 'a \<Rightarrow> int) \<Rightarrow> nat \<Rightarrow> nat \<Rightarrow> 'a list \<Rightarrow> bool" where
  "sorted_range cmp b e xs \<longleftrightarrow> (\<forall>i j. b \<le> i \<longrightarrow> i < j \<longrightarrow> j \<le> e \<longrightarrow> cmp (xs ! i) (xs ! j) \<le> 0)"

lemma sort_range_correct:
  "comparison cmp \<Longrightarrow> en < length xs \<Longrightarrow>
   permutes beg en xs (sort_range cmp beg en xs) \<and> sorted_range cmp beg en (sort_range cmp beg en xs)"
proof (induction cmp beg en xs rule: sort_range.induct)
  case (1 cmp beg en xs)
  show ?case
  proof (cases "beg \<ge> en")
    case True
    then show ?thesis by (auto simp: sort_range.simps sorted_range_def)
  next
    case False
    define ys where "ys = fst (partition_loop cmp beg (Suc beg) en xs)"
    define r where "r = snd (partition_loop cmp beg (Suc beg) en xs)"
    define zs where "zs = place_pivot cmp beg r ys"
    define us where "us = sort_range cmp beg (r - 1) zs"
    define vs where "vs = sort_range cmp r en us"
    have vs: "sort_range cmp beg en xs = vs"
      using False by (subst sort_range.simps) (simp add: Let_def vs_def us_def zs_def ys_def r_def)
    have r: "beg < r" "r \<le> en" using partition_loop_bounds [of "Suc beg" en cmp beg xs] False by (auto simp: r_def)
    have p1: "permutes beg en xs ys"
      using partition_loop_permutes [of beg "Suc beg" en xs cmp] False "1.prems"(2)
      by (auto simp: ys_def intro: permutes_mono)
    then have ly: "length ys = length xs" by (rule permutes_length)
    have p2: "permutes beg en ys zs"
      unfolding zs_def using r ly "1.prems"(2) by (intro place_pivot_permutes) simp_all
    then have lz: "length zs = length xs" using ly by (simp add: permutes_length)
    have sp: "split_at_pivot cmp beg en r r ys"
      unfolding r_def ys_def using False "1.prems"
      by (intro partition_loop_split) (auto simp: split_at_pivot_def)
    have cross: "cmp a b \<le> 0" if "a \<in> (\<lambda>k. zs ! k) ` {beg..r - 1}" "b \<in> (\<lambda>k. zs ! k) ` {r..en}" for a b
      using that place_pivot_split [OF "1.prems"(1) r _ sp] ly "1.prems"(2) r by (auto simp: zs_def)
    have IH1: "permutes beg (r - 1) zs us" "sorted_range cmp beg (r - 1) us"
      using "1.IH"(1) [OF False refl refl] r lz "1.prems" unfolding us_def zs_def ys_def r_def by auto
    then have lu: "length us = length xs" using lz by (simp add: permutes_length)
    have IH2: "permutes r en us vs" "sorted_range cmp r en vs"
      using "1.IH"(2) [OF False refl refl] lu "1.prems" unfolding vs_def us_def zs_def ys_def r_def by auto
    have "sorted_range cmp beg en vs"
      unfolding sorted_range_def
    proof (intro allI impI)
      fix i j assume ij: "beg \<le> i" "i < j" "j \<le> en"
      show "cmp (vs ! i) (vs ! j) \<le> 0"
      proof (cases "j < r \<or> r \<le> i")
        case True
        then show ?thesis
          using ij IH1(2) IH2 permutes_outside [OF IH2(1)] lu "1.prems"(2) r by (auto simp: sorted_range_def)
      next
        case False
        have "r - 1 < length zs" using r lz "1.prems"(2) by simp
        note im = permutes_set [OF IH1(1) this]
        have "vs ! i = us ! i" "i \<in> {beg..r - 1}"
          using False ij permutes_outside [OF IH2(1), of i] lu "1.prems"(2) r by auto
        then have "vs ! i \<in> (\<lambda>k. zs ! k) ` {beg..r - 1}" using im by (metis imageI)
        moreover have "us ! k = zs ! k" if "k \<in> {r..en}" for k
          using that permutes_outside [OF IH1(1), of k] lz r "1.prems"(2) by auto
        then have "(\<lambda>k. us ! k) ` {r..en} = (\<lambda>k. zs ! k) ` {r..en}" by (rule image_cong [OF refl])
        then have "vs ! j \<in> (\<lambda>k. zs ! k) ` {r..en}"
          using False ij permutes_set [OF IH2(1)] lu "1.prems"(2) by auto
        ultimately show ?thesis by (rule cross)
      qed
    qed
    moreover have "permutes beg en xs vs"
      using p1 p2 permutes_mono [OF IH1(1), of beg en] permutes_mono [OF IH2(1), of beg en] r
      by (meson diff_le_self le_trans less_imp_le order_refl permutes_trans)
    ultimately show ?thesis unfolding vs by blast
  qed
qed

text \<open>C39: \<open>quick_sort\<close> permutes the array into an order that agrees with the comparison, provided this is a total
  preorder. It ends for every comparison.\<close>

theorem quick_sort_sorts:
  assumes "comparison cmp"
  shows "mset (quick_sort cmp xs) = mset xs \<and> sorted_wrt (\<lambda>a b. cmp a b \<le> 0) (quick_sort cmp xs)"
proof (cases xs)
  case Nil
  then show ?thesis by (simp add: quick_sort_def sort_range.simps)
next
  case Cons
  then have "length xs - 1 < length xs" by simp
  from sort_range_correct [OF assms this, of 0] show ?thesis
    by (auto simp: quick_sort_def permutes_def sorted_range_def sorted_wrt_iff_nth_less)
qed

theorem quick_sort_sorts_witness:
  "quick_sort (\<lambda>a b. a - b) [3, 1, 2, 1 :: int] = [1, 1, 2, 3] \<and>
   sorted_wrt (\<lambda>a b. a - b \<le> 0) (quick_sort (\<lambda>a b. a - b) [3, 1, 2, 1 :: int])"
proof -
  have "comparison (\<lambda>a b. a - b :: int)" by (auto simp: comparison_def)
  moreover have "quick_sort (\<lambda>a b. a - b) [3, 1, 2, 1 :: int] = [1, 1, 2, 3]" by code_simp
  ultimately show ?thesis using quick_sort_sorts by blast
qed

end
