(* ===== verification/Rrd_Cdp.thy ===== *)
theory Rrd_Cdp
  imports Rrd_Hw
begin

text \<open>
  Consolidation: \<open>update_cdp\<close> of \<open>rrd_update.c\<close> and its helpers. One call takes a primary data
  point that stands for \<open>elapsed_pdp_st\<close> equal ones and updates the value being consolidated,
  the value for the next archive row and the one for the rows after it.

  The reference is \<open>window_value\<close>: what an archive row is for the list of the primary data
  points it covers. The locale \<open>selection\<close> is what minimum and maximum have in common.
\<close>

section \<open>Definitions\<close>

definition IFDNAN :: "dbl \<Rightarrow> dbl \<Rightarrow> dbl" where
  "IFDNAN x y = (if isnan x then y else x)"

definition initialize_cdp_val :: "cf_en \<Rightarrow> dbl \<Rightarrow> ulong \<Rightarrow> ulong \<Rightarrow> cdp_prep_t \<Rightarrow> cdp_prep_t" where
  "initialize_cdp_val current_cf pdp_temp_val start_pdp_offset pdpcnt scratch =
     scratch\<lparr>cdp_primary_val :=
       (case current_cf of
          CF_AVERAGE \<Rightarrow>
            (let cum_val = IFDNAN (cdp_val scratch) 0; cur_val = IFDNAN pdp_temp_val 0
             in (cum_val + cur_val * dint start_pdp_offset)
                / dint (u64 (pdpcnt - cdp_unkn_pdp_cnt scratch)))
        | CF_MAXIMUM \<Rightarrow>
            (let cum_val = IFDNAN (cdp_val scratch) (- PInf); cur_val = IFDNAN pdp_temp_val (- PInf)
             in if cur_val > cum_val then cur_val else cum_val)
        | CF_MINIMUM \<Rightarrow>
            (let cum_val = IFDNAN (cdp_val scratch) PInf; cur_val = IFDNAN pdp_temp_val PInf
             in if cur_val < cum_val then cur_val else cum_val)
        | _ \<Rightarrow> pdp_temp_val)\<rparr>"

definition initialize_carry_over :: "dbl \<Rightarrow> cf_en \<Rightarrow> ulong \<Rightarrow> ulong \<Rightarrow> ulong \<Rightarrow> dbl" where
  "initialize_carry_over pdp_temp_val current_cf elapsed_pdp_st start_pdp_offset pdpcnt =
     (let pdp_into_cdp_cnt = u64 (elapsed_pdp_st - start_pdp_offset) mod pdpcnt
      in if pdp_into_cdp_cnt = 0 \<or> isnan pdp_temp_val
         then (case current_cf of
                 CF_MAXIMUM \<Rightarrow> - PInf | CF_MINIMUM \<Rightarrow> PInf | CF_AVERAGE \<Rightarrow> 0 | _ \<Rightarrow> NaN)
         else (case current_cf of
                 CF_AVERAGE \<Rightarrow> pdp_temp_val * dint pdp_into_cdp_cnt | _ \<Rightarrow> pdp_temp_val))"

definition calculate_cdp_val :: "dbl \<Rightarrow> dbl \<Rightarrow> ulong \<Rightarrow> cf_en \<Rightarrow> dbl" where
  "calculate_cdp_val cdpval pdp_temp_val elapsed_pdp_st current_cf =
     (if isnan cdpval
      then (if current_cf = CF_AVERAGE then pdp_temp_val * dint elapsed_pdp_st else pdp_temp_val)
      else if current_cf = CF_AVERAGE then cdpval + pdp_temp_val * dint elapsed_pdp_st
      else if current_cf = CF_MINIMUM then (if pdp_temp_val < cdpval then pdp_temp_val else cdpval)
      else if current_cf = CF_MAXIMUM then (if pdp_temp_val > cdpval then pdp_temp_val else cdpval)
      else pdp_temp_val)"

definition update_cdp ::
  "cf_en \<Rightarrow> dbl \<Rightarrow> ulong \<Rightarrow> ulong \<Rightarrow> ulong \<Rightarrow> ulong \<Rightarrow> dbl \<Rightarrow> cdp_prep_t \<Rightarrow> cdp_prep_t" where
  "update_cdp current_cf pdp_temp_val rra_step_cnt elapsed_pdp_st start_pdp_offset pdpcnt xff scratch =
     (if rra_step_cnt \<noteq> 0
      then
        let s1 = (if isnan pdp_temp_val
                  then scratch\<lparr>cdp_unkn_pdp_cnt := u64 (cdp_unkn_pdp_cnt scratch + start_pdp_offset),
                               cdp_secondary_val := NaN\<rparr>
                  else scratch\<lparr>cdp_secondary_val := pdp_temp_val\<rparr>);
            s2 = (if dint (cdp_unkn_pdp_cnt s1) > dint pdpcnt * xff
                  then s1\<lparr>cdp_primary_val := NaN\<rparr>
                  else initialize_cdp_val current_cf pdp_temp_val start_pdp_offset pdpcnt s1)
        in s2\<lparr>cdp_val := initialize_carry_over pdp_temp_val current_cf elapsed_pdp_st
                           start_pdp_offset pdpcnt,
              cdp_unkn_pdp_cnt := (if isnan pdp_temp_val
                                   then u64 (elapsed_pdp_st - start_pdp_offset) mod pdpcnt else 0)\<rparr>
      else if isnan pdp_temp_val
      then scratch\<lparr>cdp_unkn_pdp_cnt := u64 (cdp_unkn_pdp_cnt scratch + elapsed_pdp_st)\<rparr>
      else scratch\<lparr>cdp_val := calculate_cdp_val (cdp_val scratch) pdp_temp_val elapsed_pdp_st
                               current_cf\<rparr>)"

text \<open>Archives of one data point per row after a gap, and those of the Holt-Winters family.\<close>

definition reset_cdp ::
  "rrd_t \<Rightarrow> ulong \<Rightarrow> dbl list \<Rightarrow> dbl list \<Rightarrow> dbl list \<Rightarrow> ulong \<Rightarrow> ulong \<Rightarrow> ulong \<Rightarrow> cf_en \<Rightarrow> rrd_t" where
  "reset_cdp rrd elapsed_pdp_st pdp_temp last_seasonal_coef seasonal_coef rra_idx ds_idx cdp_idx
     current_cf =
     (case current_cf of
        CF_SEASONAL \<Rightarrow> cdp_upd rrd cdp_idx (\<lambda>c.
          c\<lparr>cdp_hw_last_intercept := nthi last_seasonal_coef ds_idx,
            cdp_hw_intercept := nthi seasonal_coef ds_idx\<rparr>)
      | CF_DEVSEASONAL \<Rightarrow> cdp_upd rrd cdp_idx (\<lambda>c.
          c\<lparr>cdp_hw_last_intercept := nthi last_seasonal_coef ds_idx,
            cdp_hw_intercept := nthi seasonal_coef ds_idx\<rparr>)
      | CF_HWPREDICT \<Rightarrow> cdp_upd rrd cdp_idx (\<lambda>c.
          c\<lparr>cdp_null_count := u64 (cdp_null_count c + elapsed_pdp_st),
            cdp_last_null_count := u64 (cdp_last_null_count c + (elapsed_pdp_st - 1)),
            cdp_primary_val := NaN, cdp_secondary_val := NaN\<rparr>)
      | CF_MHWPREDICT \<Rightarrow> cdp_upd rrd cdp_idx (\<lambda>c.
          c\<lparr>cdp_null_count := u64 (cdp_null_count c + elapsed_pdp_st),
            cdp_last_null_count := u64 (cdp_last_null_count c + (elapsed_pdp_st - 1)),
            cdp_primary_val := NaN, cdp_secondary_val := NaN\<rparr>)
      | CF_DEVPREDICT \<Rightarrow> cdp_upd rrd cdp_idx (\<lambda>c.
          c\<lparr>cdp_primary_val := NaN, cdp_secondary_val := NaN\<rparr>)
      | CF_FAILURES \<Rightarrow> erase_violations (cdp_upd rrd cdp_idx (\<lambda>c.
          c\<lparr>cdp_primary_val := 0, cdp_secondary_val := 0\<rparr>)) cdp_idx rra_idx
      | _ \<Rightarrow> cdp_upd rrd cdp_idx (\<lambda>c.
          c\<lparr>cdp_primary_val := nthi pdp_temp ds_idx, cdp_secondary_val := nthi pdp_temp ds_idx\<rparr>))"

section \<open>The reference\<close>

definition known_pdps :: "dbl list \<Rightarrow> dbl list" where
  "known_pdps ps = filter (\<lambda>v. \<not> isnan v) ps"

definition unknown_cnt :: "dbl list \<Rightarrow> nat" where
  "unknown_cnt ps = length (filter isnan ps)"

definition dmax :: "dbl \<Rightarrow> dbl \<Rightarrow> dbl" where
  "dmax a v = (if v > a then v else a)"

definition dmin :: "dbl \<Rightarrow> dbl \<Rightarrow> dbl" where
  "dmin a v = (if v < a then v else a)"

text \<open>The value of a row for the data points it covers: unknown if more than the fraction \<open>xff\<close>
  of them is unknown, else the average, the maximum or the minimum of the known ones; for \<open>LAST\<close> the
  last data point, known or not.\<close>

definition window_value :: "cf_en \<Rightarrow> dbl \<Rightarrow> dbl list \<Rightarrow> dbl" where
  "window_value cf xff ps =
     (if dint (int (unknown_cnt ps)) > dint (int (length ps)) * xff then NaN
      else (case cf of
              CF_AVERAGE \<Rightarrow> foldl (+) 0 (known_pdps ps) / dint (int (length (known_pdps ps)))
            | CF_MAXIMUM \<Rightarrow> foldl dmax (- PInf) (known_pdps ps)
            | CF_MINIMUM \<Rightarrow> foldl dmin PInf (known_pdps ps)
            | _ \<Rightarrow> last ps))"

definition plain_cf :: "cf_en \<Rightarrow> bool" where
  "plain_cf cf \<longleftrightarrow> cf \<in> {CF_AVERAGE, CF_MINIMUM, CF_MAXIMUM, CF_LAST}"

text \<open>The preparation area holds the data points \<open>ps\<close> of an unfinished row.\<close>

definition window_prep :: "cf_en \<Rightarrow> cdp_prep_t \<Rightarrow> dbl list \<Rightarrow> bool" where
  "window_prep cf c ps \<longleftrightarrow>
     cdp_unkn_pdp_cnt c = int (unknown_cnt ps) \<and>
     (case cf of
        CF_AVERAGE \<Rightarrow> IFDNAN (cdp_val c) 0 = foldl (+) 0 (known_pdps ps)
      | CF_MAXIMUM \<Rightarrow> IFDNAN (cdp_val c) (- PInf) = foldl dmax (- PInf) (known_pdps ps)
      | CF_MINIMUM \<Rightarrow> IFDNAN (cdp_val c) PInf = foldl dmin PInf (known_pdps ps)
      | _ \<Rightarrow> True)"

lemma pdps_append [simp]:
  "known_pdps (ps @ qs) = known_pdps ps @ known_pdps qs"
  "unknown_cnt (ps @ qs) = unknown_cnt ps + unknown_cnt qs"
  "known_pdps [] = []" "unknown_cnt [] = 0"
  "known_pdps [v] = (if isnan v then [] else [v])"
  "unknown_cnt [v] = (if isnan v then 1 else 0)"
  by (simp_all add: known_pdps_def unknown_cnt_def)

lemma unknown_known: "unknown_cnt ps + length (known_pdps ps) = length ps"
  using sum_length_filter_compl [of isnan ps] by (simp add: unknown_cnt_def known_pdps_def)

lemma pdps_replicate [simp]:
  "known_pdps (replicate n v) = (if isnan v then [] else replicate n v)"
  "unknown_cnt (replicate n v) = (if isnan v then n else 0)"
  by (induction n) (simp_all add: known_pdps_def unknown_cnt_def)

section \<open>One data point at a time\<close>

text \<open>A data point is unknown or finite, and not the negative zero, which an average may turn into
  the positive one.\<close>

definition pdp_ok :: "dbl \<Rightarrow> bool" where
  "pdp_ok v \<longleftrightarrow> isnan v \<or> (\<exists>r. v = Fin r \<and> dbl_ok v)"

lemma finite_sum_known:
  "\<not> isnan a \<Longrightarrow> list_all (\<lambda>v. \<exists>r. v = Fin r) vs \<Longrightarrow> \<not> isnan (foldl (+) a vs)"
  by (induction vs arbitrary: a) (auto simp: plus_dbl_def isnan_def dpack_def Let_def)

lemma known_sum_ok:
  assumes "list_all pdp_ok ps"
  shows "dbl_ok (foldl (+) 0 (known_pdps ps))" "foldl (+) 0 (known_pdps ps) \<noteq> NZero"
    "\<not> isnan (foldl (+) 0 (known_pdps ps))"
proof -
  have "list_all (\<lambda>v. dbl_ok v \<and> v \<noteq> NZero) (known_pdps ps)" "list_all (\<lambda>v. \<exists>r. v = Fin r) (known_pdps ps)"
    using assms by (auto simp: list_all_iff pdp_ok_def known_pdps_def)
  with sum_not_NZero [of 0] finite_sum_known [of 0]
  show "dbl_ok (foldl (+) 0 (known_pdps ps))" "foldl (+) 0 (known_pdps ps) \<noteq> NZero"
    "\<not> isnan (foldl (+) 0 (known_pdps ps))"
    by (simp_all add: zero_dbl_def)
qed

lemma update_cdp_partial:
  assumes "window_prep cf c ps" and "list_all pdp_ok ps" and "pdp_ok v" and "int (length ps) < 2 ^ 62"
  shows "window_prep cf (update_cdp cf v 0 1 s n xff c) (ps @ [v])"
proof (cases "isnan v")
  case True
  have "int (unknown_cnt ps) < 2 ^ 62" using unknown_known [of ps] assms(4) by linarith
  then have "u64 (int (unknown_cnt ps) + 1) = int (unknown_cnt ps) + 1" by (intro u64_id) simp_all
  with True assms(1) show ?thesis
    by (auto simp: window_prep_def update_cdp_def split: cf_en.splits)
next
  case False
  then obtain r where v: "v = Fin r" "dbl_ok v" using assms(3) by (auto simp: pdp_ok_def)
  have sum: "\<not> isnan (foldl (+) 0 (known_pdps ps) + v)"
    using finite_sum_known [OF known_sum_ok(3) [OF assms(2)], of "[v]"] by (simp add: v)
  have "IFDNAN (calculate_cdp_val (cdp_val c) v 1 CF_AVERAGE) 0 = foldl (+) 0 (known_pdps ps) + v"
    if "IFDNAN (cdp_val c) 0 = foldl (+) 0 (known_pdps ps)"
    using that False v sum by (auto simp: IFDNAN_def calculate_cdp_val_def dbl_add_0 split: if_splits)
  moreover have "dmax (- PInf) v = v" "dmin PInf v = v"
    using v by (simp_all add: dmax_def dmin_def uminus_dbl_def dbl_order_defs)
  ultimately show ?thesis using False assms(1)
    by (auto simp: window_prep_def update_cdp_def IFDNAN_def calculate_cdp_val_def dmax_def dmin_def
        split: cf_en.splits if_splits)
qed

lemma update_cdp_complete:
  assumes "window_prep cf c ps" and "plain_cf cf" and "list_all pdp_ok ps" and "pdp_ok v"
    and "Suc (length ps) = n" and "n < 2 ^ 62"
    and c'_def: "c' = update_cdp cf v 1 1 1 (int n) xff c"
  shows "cdp_primary_val c' = window_value cf xff (ps @ [v])" and "window_prep cf c' []"
proof -
  have len: "unknown_cnt ps + length (known_pdps ps) = n - 1" "0 < n"
    using unknown_known [of ps] assms(5) by auto
  then have u: "u64 (int (unknown_cnt ps) + 1) = int (unknown_cnt ps) + 1"
    using assms(6) by (intro u64_id) simp_all
  have sub: "u64 (int n - int (unknown_cnt (ps @ [v]))) = int (length (known_pdps (ps @ [v])))"
    using len assms(5,6) by (subst u64_id) auto
  note sum = known_sum_ok [OF assms(3)]
  have avg: "IFDNAN v 0 * dint 1 = IFDNAN v 0" using assms(4) by (auto simp: IFDNAN_def pdp_ok_def)
  have add: "foldl (+) 0 (known_pdps ps) + IFDNAN v 0 = foldl (+) 0 (known_pdps (ps @ [v]))"
    using sum by (auto simp: IFDNAN_def dbl_add_0)
  have ext: "\<not> - PInf > x" "\<not> PInf < x" for x :: dbl
    by (simp_all add: uminus_dbl_def dbl_order_defs)
  show "window_prep cf c' []"
    using assms(2) by (auto simp: c'_def update_cdp_def window_prep_def initialize_carry_over_def
        initialize_cdp_val_def IFDNAN_def plain_cf_def u64_def Let_def uminus_dbl_def split: cf_en.splits)
  show "cdp_primary_val c' = window_value cf xff (ps @ [v])"
    using assms(1,2) len(2) u sub avg add ext assms(5) sum
    by (auto simp: c'_def update_cdp_def window_value_def window_prep_def initialize_cdp_val_def
        plain_cf_def Let_def dmax_def dmin_def IFDNAN_def add.commute split: cf_en.splits if_splits)
qed

section \<open>A stream of data points\<close>

text \<open>\<open>start_pdp_offset\<close> and \<open>rra_step_cnt\<close> as \<open>update_all_cdp_prep\<close> computes them.\<close>

definition start_offset :: "ulong \<Rightarrow> ulong \<Rightarrow> ulong" where
  "start_offset pdpcnt proc_pdp_cnt = pdpcnt - proc_pdp_cnt mod pdpcnt"

definition step_count :: "ulong \<Rightarrow> ulong \<Rightarrow> ulong \<Rightarrow> ulong \<Rightarrow> ulong" where
  "step_count elapsed_pdp_st offset pdpcnt rowcnt =
     (if offset \<le> elapsed_pdp_st
      then min ((elapsed_pdp_st - offset) div pdpcnt + 1) rowcnt else 0)"

text \<open>The rows an archive gets from data points that come one by one, the first one being the
  \<open>k\<close>-th since the epoch.\<close>

fun feed :: "cf_en \<Rightarrow> nat \<Rightarrow> nat \<Rightarrow> dbl \<Rightarrow> nat \<Rightarrow> cdp_prep_t \<Rightarrow> dbl list \<Rightarrow> dbl list \<times> cdp_prep_t" where
  "feed cf n rows xff k c [] = ([], c)"
| "feed cf n rows xff k c (v # vs) =
     (let s = start_offset (int n) (int k);
          st = step_count 1 s (int n) (int rows);
          c' = update_cdp cf v st 1 s (int n) xff c;
          (rs, c'') = feed cf n rows xff (Suc k) c' vs
      in ((if st = 0 then rs else cdp_primary_val c' # rs), c''))"

text \<open>The full windows of a list.\<close>

function windows :: "nat \<Rightarrow> 'a list \<Rightarrow> 'a list list" where
  "windows n xs = (if n = 0 \<or> length xs < n then [] else take n xs # windows n (drop n xs))"
  by pat_completeness auto
termination
  by (relation "measure (\<lambda>(n, xs). length xs)") auto

declare windows.simps [simp del]

lemma windows_short: "length xs < n \<Longrightarrow> windows n xs = []"
  by (simp add: windows.simps)

lemma windows_full: "0 < n \<Longrightarrow> length xs = n \<Longrightarrow> windows n (xs @ ys) = xs # windows n ys"
  by (subst windows.simps) simp

lemma feed_windows:
  assumes "plain_cf cf" and "0 < n" and "n < 2 ^ 62" and "0 < rows"
    and "window_prep cf c ps" and "length ps = k mod n" and "list_all pdp_ok ps" and "list_all pdp_ok vs"
  shows "fst (feed cf n rows xff k c vs) = map (window_value cf xff) (windows n (ps @ vs))"
  using assms(5-8)
proof (induction vs arbitrary: k c ps)
  case Nil
  then show ?case using assms(2) by (simp add: windows_short)
next
  case (Cons v vs)
  let ?s = "start_offset (int n) (int k)"
  have s: "?s = int n - int (length ps)" using Cons.prems(2) by (simp add: start_offset_def zmod_int)
  have lt: "length ps < n" using Cons.prems(2) assms(2) by simp
  have v: "pdp_ok v" using Cons.prems(4) by simp
  show ?case
  proof (cases "Suc (length ps) = n")
    case True
    let ?c' = "update_cdp cf v 1 1 1 (int n) xff c"
    have c': "cdp_primary_val ?c' = window_value cf xff (ps @ [v])" "window_prep cf ?c' []"
      using update_cdp_complete [OF Cons.prems(1) assms(1) Cons.prems(3) v True assms(3) refl] by blast+
    have k: "Suc k mod n = 0" using Cons.prems(2) True by (simp add: mod_Suc)
    have "?s = 1" using s True by simp
    moreover have "step_count 1 1 (int n) (int rows) = 1"
      using assms(2,4) by (simp add: step_count_def)
    moreover have "fst (feed cf n rows xff (Suc k) ?c' vs) = map (window_value cf xff) (windows n vs)"
      using Cons.IH [OF c'(2), of "Suc k"] k Cons.prems(4) by simp
    ultimately show ?thesis
      using c'(1) windows_full [OF assms(2), of "ps @ [v]" vs] True by (simp add: split_beta Let_def)
  next
    case False
    with lt s have "step_count 1 ?s (int n) (int rows) = 0" by (simp add: step_count_def)
    moreover have "window_prep cf (update_cdp cf v 0 1 ?s (int n) xff c) (ps @ [v])"
      using Cons.prems lt assms(3) by (intro update_cdp_partial) simp_all
    moreover have "Suc k mod n = Suc (length ps)"
      using Cons.prems(2) lt False by (simp add: mod_Suc)
    ultimately show ?thesis
      using Cons.IH [of _ "ps @ [v]" "Suc k"] Cons.prems by (simp add: split_beta Let_def)
  qed
qed

section \<open>Several data points at once\<close>

text \<open>Consolidations that select one of the values.\<close>

locale selection =
  fixes start :: dbl and comb :: "dbl \<Rightarrow> dbl \<Rightarrow> dbl"
  assumes comb_idem: "comb (comb a v) v = comb a v"
    and comb_first: "\<not> isnan v \<Longrightarrow> comb start v = v"
    and comb_none: "comb a start = a"
begin

lemma fold_replicate: "0 < k \<Longrightarrow> foldl comb a (replicate k v) = comb a v"
proof (induction k arbitrary: a)
  case (Suc k)
  then show ?case by (cases k) (simp_all add: comb_idem)
qed simp

text \<open>Repeating a data point does not change the selection.\<close>

lemma fold_repeated:
  "0 < k \<Longrightarrow> foldl comb start (known_pdps (ps @ replicate k v)) =
     comb (foldl comb start (known_pdps ps)) (IFDNAN v start)"
  by (simp add: fold_replicate IFDNAN_def comb_none)

lemma fold_constant: "0 < k \<Longrightarrow> \<not> isnan v \<Longrightarrow> foldl comb start (replicate k v) = v"
  by (simp add: fold_replicate comb_first)

end

interpretation maximum: selection "- PInf" dmax
  by unfold_locales (auto simp: dmax_def dbl_order_defs uminus_dbl_def isnan_def)

interpretation minimum: selection PInf dmin
  by unfold_locales (auto simp: dmin_def dbl_order_defs isnan_def)

text \<open>One call for \<open>e\<close> equal data points: the pending row is the one of the separate calls, the
  rows that follow are full of the data point, and the rest starts the next row.\<close>

definition selecting_cf :: "cf_en \<Rightarrow> bool" where
  "selecting_cf cf \<longleftrightarrow> cf \<in> {CF_MAXIMUM, CF_MINIMUM, CF_LAST}"

lemma update_cdp_bulk:
  assumes prep: "window_prep cf c ps" and cf: "selecting_cf cf"
    and n: "length ps < n" "n < 2 ^ 62" and s: "s = n - length ps" "s \<le> e" "e < 2 ^ 62"
    and st: "st \<noteq> 0"
    and c': "c' = update_cdp cf v st (int e) (int s) (int n) xff c"
  shows "cdp_primary_val c' = window_value cf xff (ps @ replicate s v)"
    and "window_prep cf c' (replicate ((e - s) mod n) v)"
    and "0 \<le> dint (int n) * xff \<Longrightarrow> dint (int n) * xff < dint (int n) \<Longrightarrow>
         cdp_secondary_val c' = window_value cf xff (replicate n v)"
proof -
  have s0: "0 < s" "0 < n" "length ps + s = n" using n s by auto
  have "unknown_cnt ps \<le> length ps" using unknown_known [of ps] by simp
  then have u: "u64 (int (unknown_cnt ps) + int s) = int (unknown_cnt ps) + int s"
    using n s by (intro u64_id) auto
  have e: "u64 (int e - int s) mod int n = int ((e - s) mod n)"
    using s by (subst u64_id) (auto simp: zmod_int of_nat_diff)
  have zero: "int ((e - s) mod n) = 0 \<longleftrightarrow> (e - s) mod n = 0" by simp
  show "cdp_primary_val c' = window_value cf xff (ps @ replicate s v)"
    using prep cf st s0 u
    by (auto simp: c' update_cdp_def window_value_def window_prep_def initialize_cdp_val_def
        selecting_cf_def Let_def maximum.fold_repeated minimum.fold_repeated dmax_def dmin_def
        split: cf_en.splits if_splits simp del: pdps_append(1))
  show "window_prep cf c' (replicate ((e - s) mod n) v)"
    using cf st e maximum.fold_constant [of "(e - s) mod n" v] minimum.fold_constant [of "(e - s) mod n" v]
    by (auto simp: c' update_cdp_def window_prep_def initialize_cdp_val_def initialize_carry_over_def
        selecting_cf_def Let_def IFDNAN_def uminus_dbl_def split: cf_en.splits)
  show "cdp_secondary_val c' = window_value cf xff (replicate n v)"
    if x: "0 \<le> dint (int n) * xff" "dint (int n) * xff < dint (int n)"
  proof -
    have "\<not> 0 > dint (int n) * xff" using x(1) by (simp add: less_eq_dbl_def)
    then show ?thesis using cf st s0 x(2)
      by (auto simp: c' update_cdp_def window_value_def initialize_cdp_val_def selecting_cf_def Let_def
          maximum.fold_constant minimum.fold_constant isnan_def split: cf_en.splits)
  qed
qed

lemma inf_bounds: "\<not> x < - PInf" "\<not> PInf < (x :: dbl)"
  by (simp_all add: uminus_dbl_def dbl_order_defs)

text \<open>Not yet a full row.\<close>

lemma update_cdp_bulk_partial:
  assumes prep: "window_prep cf c ps" and cf: "selecting_cf cf" and e: "0 < e" "e < 2 ^ 62"
    and n: "length ps < 2 ^ 62" and c': "c' = update_cdp cf v 0 (int e) s n xff c"
  shows "window_prep cf c' (ps @ replicate e v)"
proof -
  have "unknown_cnt ps \<le> length ps" using unknown_known [of ps] by simp
  then have u: "u64 (int (unknown_cnt ps) + int e) = int (unknown_cnt ps) + int e"
    using n e by (intro u64_id) auto
  show ?thesis
    using prep cf e u maximum.comb_first [of v] minimum.comb_first [of v]
    by (auto simp: c' update_cdp_def window_prep_def calculate_cdp_val_def selecting_cf_def
        maximum.fold_repeated minimum.fold_repeated IFDNAN_def dmax_def dmin_def inf_bounds
        split: cf_en.splits if_splits simp del: pdps_append(1))
qed

lemma reset_cdp_cdp_only [simp]: "cdp_only rrd (reset_cdp rrd e pt ls sc ri di ci cf)"
  using cdp_only_trans [OF cdp_only_upd erase_violations_cdp_only]
  by (simp add: reset_cdp_def split: cf_en.split)


definition sample_pdps :: "dbl list" where
  "sample_pdps = [Fin 1, Fin 4, NaN, Fin 2, NaN, NaN, Fin 8]"

lemma small_int_ok: "\<bar>k\<bar> \<le> 2 ^ 53 \<Longrightarrow> pdp_ok (Fin (of_int k))"
  using ok_int [of k] by (simp add: pdp_ok_def)


text \<open>\<open>LAST\<close> ignores known data points before an unknown one, even if \<open>xff\<close> allows for it.\<close>

lemma last_unknown:
  "fst (feed CF_LAST 2 3 (dint 1 / dint 2) 0 sample_cdp [Fin 4, NaN]) = [NaN] \<and>
   \<not> dint (int (unknown_cnt [Fin 4, NaN])) > dint 2 * (dint 1 / dint 2)"
  by code_simp

lemma windows_replicate: "0 < n \<Longrightarrow> windows n (replicate m v) = replicate (m div n) (replicate n v)"
proof (induction m rule: less_induct)
  case (less m)
  show ?case
  proof (cases "m < n")
    case False
    with less.prems have "m div n = Suc ((m - n) div n)" by (simp add: le_div_geq)
    moreover have "min m n = n" using False by simp
    ultimately show ?thesis using less.IH [of "m - n"] less.prems False by (subst windows.simps) simp
  qed (simp add: windows_short)
qed

text \<open>C13: one call of \<open>update_cdp\<close> for \<open>e\<close> equal data points that complete at least one row gives
  the rows that \<open>e\<close> calls for one data point each would give: the primary value first, then the
  secondary value for every other completed row; and it leaves the same unfinished row behind.\<close>

theorem bulk_is_repeated_update:
  assumes "selecting_cf cf" and "window_prep cf c ps" and "length ps = k mod n"
    and "0 < n" and "n < 2 ^ 62" and "0 < rows" and "list_all pdp_ok (v # ps)"
    and "s = n - k mod n" and "s \<le> e" and "e < 2 ^ 62" and "st \<noteq> 0"
    and "0 \<le> dint (int n) * xff" and "dint (int n) * xff < dint (int n)"
    and "c' = update_cdp cf v st (int e) (int s) (int n) xff c"
  shows "fst (feed cf n rows xff k c (replicate e v)) =
      cdp_primary_val c' # replicate ((e - s) div n) (cdp_secondary_val c') \<and>
    window_prep cf c' (replicate ((e - s) mod n) v)"
proof -
  have len: "length ps < n" "s = n - length ps" using assms(3,4,8) by simp_all
  note bulk = update_cdp_bulk [OF assms(2,1) len(1) assms(5) len(2) assms(9-11,14)]
  have rep: "replicate e v = replicate s v @ replicate (e - s) v"
    using assms(9) by (simp flip: replicate_add)
  have "fst (feed cf n rows xff k c (replicate e v)) =
      map (window_value cf xff) (windows n (ps @ replicate e v))"
    using assms by (intro feed_windows) (auto simp: plain_cf_def selecting_cf_def list_all_iff)
  also have "windows n (ps @ replicate e v) =
      (ps @ replicate s v) # replicate ((e - s) div n) (replicate n v)"
    unfolding rep using windows_full [of n "ps @ replicate s v" "replicate (e - s) v"] len assms(4)
    by (simp add: windows_replicate)
  finally show ?thesis using bulk(1,2) bulk(3) [OF assms(12,13)] by simp
qed

theorem bulk_is_repeated_update_witness:
  "fst (feed CF_MAXIMUM 2 3 (dint 1 / dint 2) 0 sample_cdp (replicate 5 (Fin 8))) = [Fin 8, Fin 8]"
proof -
  define c' where "c' = update_cdp CF_MAXIMUM (Fin 8) 2 (int 5) (int 2) (int 2) (dint 1 / dint 2) sample_cdp"
  have "0 \<le> dint (int 2) * (dint 1 / dint 2)" by code_simp
  moreover have "dint (int 2) * (dint 1 / dint 2) < dint (int 2)" by code_simp
  moreover have "window_prep CF_MAXIMUM sample_cdp []"
    by (simp add: window_prep_def sample_cdp_def IFDNAN_def)
  moreover have "pdp_ok (Fin 8)" using small_int_ok [of 8] by simp
  moreover have "cdp_primary_val c' = Fin 8" unfolding c'_def by code_simp
  moreover have "cdp_secondary_val c' = Fin 8" unfolding c'_def by code_simp
  ultimately show ?thesis
    using bulk_is_repeated_update [of CF_MAXIMUM sample_cdp "[]" 0 2 3 "Fin 8" 2 5 2 _ c']
    by (simp add: selecting_cf_def c'_def)
qed

end
