(* ===== verification/Rrd_Prefill.thy ===== *)
theory Rrd_Prefill
  imports Rrd_Create Rrd_Coverage Rrd_Quicksort Rrd_Cdp
begin

text \<open>
  Filling a new database from others, the second half of \<open>rrd_create.c\<close>: the end time of a row and the row of a
  time, the consolidation of source rows into one row of the new archive (\<open>prefill_bin\<close>), the
  search for candidate archives (with \<open>find_candidate_rras\<close> of \<open>rrd_modify.c\<close>), the preparation areas, and
  \<open>rrd_prefill_data\<close> and \<open>rrd_create_r2\<close>. A database is paired with its values, row by row over all archives.
  The \<open>qsort\<close> of the C library is a parameter, as is what lies behind the array \<open>pdp_prep\<close>, from which one call reads.
\<close>

section \<open>Rows and times\<close>

definition positive_mod :: "cint \<Rightarrow> cint \<Rightarrow> cint" where
  "positive_mod a b = (let x = cmod a b in if x < 0 then s32 (x + b) else x)"

definition timeslot :: "rrd_t \<Rightarrow> rra_def_t \<Rightarrow> cint" where
  "timeslot rrd rra = s32 (pdp_cnt rra * pdp_step (stat_head rrd))"

definition end_time_for_row :: "rrd_t \<Rightarrow> rra_def_t \<Rightarrow> cint \<Rightarrow> cint \<Rightarrow> time_t" where
  "end_time_for_row rrd rra cur_row row =
     (let ts = timeslot rrd rra; past_cnt = positive_mod (s32 (cur_row - row)) (s32 (row_cnt rra));
          lastup = last_up (live_head rrd)
      in (lastup - cmod lastup ts) - s32 (past_cnt * ts))"

definition end_time_for_row_simple :: "rrd_t \<Rightarrow> nat \<Rightarrow> cint \<Rightarrow> time_t" where
  "end_time_for_row_simple rrd i row = end_time_for_row rrd (rra_def rrd ! i) (s32 (rra_ptr rrd ! i)) row"

definition row_for_time :: "rrd_t \<Rightarrow> rra_def_t \<Rightarrow> cint \<Rightarrow> time_t \<Rightarrow> cint" where
  "row_for_time rrd rra cur_row req_time =
     (let lastup = last_up (live_head rrd);
          ts = timeslot rrd rra;
          delta = cmod req_time ts;
          req = (if delta > 0 then req_time + (ts - delta) else req_time);
          delta2 = cmod req ts;
          lastup2 = (if delta2 > 0 then lastup + (ts - delta2) else lastup)
      in if req > lastup2 then - 1
         else if req \<le> s32 (s32 lastup2 - s32 (s32 (row_cnt rra) * ts)) then - 1
         else let past_cnt = s32 (cdiv (lastup2 - req) ts)
              in if past_cnt \<ge> s32 (row_cnt rra) then - 1
                 else let row = positive_mod (s32 (cur_row - past_cnt)) (s32 (row_cnt rra))
                      in if row < 0 then s32 (row + s32 (row_cnt rra)) else row)"

section \<open>Consolidation\<close>

text \<open>\<open>None\<close> is a consolidation function that is not known.\<close>

definition prefill_consolidate :: "cf_en option \<Rightarrow> dbl \<Rightarrow> dbl \<Rightarrow> cint \<Rightarrow> cint \<Rightarrow> dbl" where
  "prefill_consolidate cf est added bin_size newly =
     (case cf of
        Some CF_MINIMUM \<Rightarrow> if isnan est then added else if est < added then est else added
      | Some CF_MAXIMUM \<Rightarrow> if isnan est then added else if est > added then est else added
      | Some CF_LAST \<Rightarrow> added
      | _ \<Rightarrow> (if isnan est then 0 else est) + added / dint bin_size * dint newly)"

definition prefill_finish :: "cf_en option \<Rightarrow> dbl \<Rightarrow> cint \<Rightarrow> cint \<Rightarrow> dbl" where
  "prefill_finish cf est bin_size tot =
     (if tot = 0 then NaN
      else if cf = Some CF_AVERAGE then est / dint tot * dint bin_size
      else est)"

section \<open>Candidates\<close>

text \<open>An archive of a source: the number of the source, the source, the archive, the values of its rows
  and the data source (\<open>extra.l\<close>).\<close>

record candidate_t =
  ca_src :: nat
  ca_rrd :: rrd_t
  ca_rra_index :: nat
  ca_values :: "dbl list"
  ca_ds :: nat

definition ca_rra :: "candidate_t \<Rightarrow> rra_def_t" where
  "ca_rra c = rra_def (ca_rrd c) ! ca_rra_index c"

text \<open>Where the values of an archive begin.\<close>

definition vals_base :: "rrd_t \<Rightarrow> nat \<Rightarrow> nat" where
  "vals_base rrd i = total_rows (take i (rra_def rrd)) * nat (ds_cnt (stat_head rrd))"

definition select_create_candidates :: "rra_def_t \<Rightarrow> rra_def_t \<Rightarrow> bool" where
  "select_create_candidates tofill maybe \<longleftrightarrow>
     rrd_cf_conv (cf_nam maybe) = Some CF_AVERAGE \<or> rrd_cf_conv (cf_nam maybe) = rrd_cf_conv (cf_nam tofill)"

definition cdp_match :: "rra_def_t \<Rightarrow> rra_def_t \<Rightarrow> bool" where
  "cdp_match tofill maybe \<longleftrightarrow>
     rrd_cf_conv (cf_nam tofill) = rrd_cf_conv (cf_nam maybe) \<and> pdp_cnt tofill = pdp_cnt maybe"

definition order_candidates :: "rrd_t \<Rightarrow> rra_def_t \<Rightarrow> candidate_t \<Rightarrow> candidate_t \<Rightarrow> cint" where
  "order_candidates trrd trra a b =
     (let acf = rrd_cf_conv (cf_nam (ca_rra a)); bcf = rrd_cf_conv (cf_nam (ca_rra b));
          tcf = rrd_cf_conv (cf_nam trra);
          slot = (\<lambda>rrd rra. u64 (pdp_cnt rra * s32 (pdp_step (stat_head rrd))));
          asz = slot (ca_rrd a) (ca_rra a); bsz = slot (ca_rrd b) (ca_rra b); tsz = slot trrd trra
      in if acf = tcf \<and> asz = tsz then - 1
         else if bcf = tcf \<and> bsz = tsz then 1
         else if acf \<noteq> bcf
         then if acf = Some CF_AVERAGE then - 1 else if bcf = Some CF_AVERAGE then 1 else 0
         else let d = s32 (asz - bsz)
              in if d \<noteq> 0 then d else s32 (- s32 (row_cnt (ca_rra a) - row_cnt (ca_rra b))))"

type_synonym source = "rrd_t \<times> dbl list"

text \<open>The comparison for \<open>qsort\<close>; the candidates are those of one source.\<close>

definition sort_candidates :: "candidate_t \<Rightarrow> candidate_t \<Rightarrow> cint" where
  "sort_candidates a b =
     (if ca_src a = ca_src b \<and> ca_rra_index a = ca_rra_index b then 0
      else if pdp_cnt (ca_rra a) = pdp_cnt (ca_rra b) then s32 (row_cnt (ca_rra b) - row_cnt (ca_rra a))
      else s32 (pdp_cnt (ca_rra a) - pdp_cnt (ca_rra b)))"

type_synonym candidate_qsort = "(candidate_t \<Rightarrow> candidate_t \<Rightarrow> cint) \<Rightarrow> candidate_t list \<Rightarrow> candidate_t list"

text \<open>\<open>find_candidate_rras\<close>: the archives of one source the selection accepts, sorted. The target's archive is
  never one of a source.\<close>

definition find_candidate_rras ::
  "candidate_qsort \<Rightarrow> nat \<Rightarrow> source \<Rightarrow> rra_def_t \<Rightarrow> nat
   \<Rightarrow> (rra_def_t \<Rightarrow> rra_def_t \<Rightarrow> bool) \<Rightarrow> candidate_t list" where
  "find_candidate_rras qs srcno src rra ds sel =
     (let rrd = fst src
      in qs sort_candidates (map (\<lambda>i. \<lparr>ca_src = srcno, ca_rrd = rrd, ca_rra_index = i,
                       ca_values = drop (vals_base rrd i) (snd src), ca_ds = ds\<rparr>)
              (filter (\<lambda>i. sel rra (rra_def rrd ! i)) [0..<nat (rra_cnt (stat_head rrd))])))"

definition find_ds_match :: "string \<Rightarrow> rrd_t \<Rightarrow> mapping_t option \<Rightarrow> int" where
  "find_ds_match nam src m =
     (let looked = (case m of Some mp \<Rightarrow> if mapped_name mp \<noteq> [] then mapped_name mp else nam | None \<Rightarrow> nam);
          i = ds_match_loop 0 (take (nat (ds_cnt (stat_head src))) (ds_def src)) looked
      in if i < 0 then ds_cnt (stat_head src) else i)"

fun find_mapping :: "string \<Rightarrow> mapping_t list \<Rightarrow> mapping_t option" where
  "find_mapping nam [] = None"
| "find_mapping nam (m # ms) = (if nam = map_ds_nam m then Some m else find_mapping nam ms)"

text \<open>The loop over the sources, the first of which has the index 1. \<open>order\<close> sorts the candidates of one source, if given.\<close>

definition find_matching_candidates ::
  "candidate_qsort \<Rightarrow> source list \<Rightarrow> mapping_t list \<Rightarrow> rrd_t \<Rightarrow> rra_def_t \<Rightarrow> nat
   \<Rightarrow> (rra_def_t \<Rightarrow> rra_def_t \<Rightarrow> bool) \<Rightarrow> (candidate_t \<Rightarrow> candidate_t \<Rightarrow> cint) option \<Rightarrow> candidate_t list" where
  "find_matching_candidates qs sources maps rrd rra ds sel order =
     (let nam = ds_nam (ds_def rrd ! ds); mp = find_mapping nam maps
      in concat (map (\<lambda>(k, src).
           if (case mp of Some m \<Rightarrow> map_index m \<ge> 0 \<and> int k + 1 \<noteq> map_index m | None \<Rightarrow> False) then []
           else let sds = find_ds_match nam (fst src) mp
                in if sds < ds_cnt (stat_head (fst src))
                   then let cs = find_candidate_rras qs k src rra (nat sds) sel
                        in (case order of Some cmp \<Rightarrow> quick_sort cmp cs | None \<Rightarrow> cs)
                   else [])
           (zip [0..<length sources] sources)))"

section \<open>One row of the new archive\<close>

text \<open>The local variables of \<open>prefill_bin\<close> that the loops change.\<close>

record bin_state =
  bs_coverage :: "coverage_t list"
  bs_total :: clong
  bs_value :: dbl

definition slot_seconds :: "rrd_t \<Rightarrow> rra_def_t \<Rightarrow> clong" where
  "slot_seconds rrd rra = s64 (pdp_cnt rra * pdp_step (stat_head rrd))"

text \<open>One row \<open>ci\<close> of a candidate.\<close>

definition bin_row :: "cf_en option \<Rightarrow> clong \<Rightarrow> time_t \<Rightarrow> candidate_t \<Rightarrow> int \<Rightarrow> bin_state \<Rightarrow> bin_state" where
  "bin_row cf bin_size bin_end c ci st =
     (let bin_start = bin_end - bin_size + 1;
          csize = slot_seconds (ca_rrd c) (ca_rra c);
          cend = end_time_for_row_simple (ca_rrd c) (ca_rra_index c) (s32 ci);
          cstart = cend - csize + 1;
          cov = overlap bin_start bin_end cstart cend + 1;
          v = ca_values c ! (nat ci * nat (ds_cnt (stat_head (ca_rrd c))) + ca_ds c)
      in if cov > 0 \<and> \<not> isnan v
         then case add_coverage (bs_coverage st) cstart cend of
                (cs, newly) \<Rightarrow>
                  if newly > 0
                  then \<lparr>bs_coverage = cs, bs_total = bs_total st + newly,
                        bs_value = prefill_consolidate cf (bs_value st) v (s32 bin_size) newly\<rparr>
                  else st\<lparr>bs_coverage := cs\<rparr>
         else st)"

text \<open>The rows of a candidate: \<open>ci\<close> returns to the first row after the last one.\<close>

fun bin_rows :: "cf_en option \<Rightarrow> clong \<Rightarrow> time_t \<Rightarrow> candidate_t \<Rightarrow> nat \<Rightarrow> int \<Rightarrow> bin_state \<Rightarrow> bin_state" where
  "bin_rows cf bin_size bin_end c 0 ci st = st"
| "bin_rows cf bin_size bin_end c (Suc n) ci st =
     (if bs_total st < bin_size
      then let ci' = (if ci = row_cnt (ca_rra c) then 0 else ci)
           in bin_rows cf bin_size bin_end c n (ci' + 1) (bin_row cf bin_size bin_end c ci' st)
      else st)"

definition bin_candidate :: "cf_en option \<Rightarrow> clong \<Rightarrow> time_t \<Rightarrow> candidate_t \<Rightarrow> bin_state \<Rightarrow> bin_state" where
  "bin_candidate cf bin_size bin_end c st =
     (let cur = s32 (rra_ptr (ca_rrd c) ! ca_rra_index c);
          end_bin = u64 (row_for_time (ca_rrd c) (ca_rra c) cur bin_end);
          start_bin = u64 (row_for_time (ca_rrd c) (ca_rra c) cur (bin_end - bin_size + 1))
      in if start_bin < row_cnt (ca_rra c) \<and> end_bin < row_cnt (ca_rra c)
         then bin_rows cf bin_size bin_end c
                (nat (positive_mod (s32 (end_bin - start_bin + 1)) (s32 (row_cnt (ca_rra c))))) start_bin st
         else st)"

fun bin_candidates :: "cf_en option \<Rightarrow> clong \<Rightarrow> time_t \<Rightarrow> candidate_t list \<Rightarrow> bin_state \<Rightarrow> bin_state" where
  "bin_candidates cf bin_size bin_end [] st = st"
| "bin_candidates cf bin_size bin_end (c # cs) st =
     (if bs_total st < bin_size
      then bin_candidates cf bin_size bin_end cs (bin_candidate cf bin_size bin_end c st) else st)"

text \<open>The value of the row \<open>cnt\<close> of archive \<open>i\<close>, or \<open>None\<close> if it stays as it is.\<close>

definition prefill_bin :: "rrd_t \<Rightarrow> nat \<Rightarrow> candidate_t list \<Rightarrow> cint \<Rightarrow> dbl option" where
  "prefill_bin rrd i cands cnt =
     (let rra = rra_def rrd ! i; cf = rrd_cf_conv (cf_nam rra);
          bin_size = slot_seconds rrd rra;
          min_required = d2s64 (rra_cdp_xff_val rra * dint bin_size);
          bin_end = end_time_for_row_simple rrd i cnt;
          st = bin_candidates cf bin_size bin_end cands
                 \<lparr>bs_coverage = [set_interval False (bin_end - bin_size + 1) bin_end], bs_total = 0, bs_value = NaN\<rparr>
      in if bs_total st > min_required
         then Some (prefill_finish cf (bs_value st) (s32 bin_size) (s32 (bs_total st))) else None)"

section \<open>The preparation areas\<close>

text \<open>The count \<open>PDP_unkn_sec_cnt\<close> read as a double (\<open>u_val\<close>): the bits of a count below \<open>2 ^ 52\<close> are a
  subnormal number.\<close>

definition count_as_double :: "ulong \<Rightarrow> dbl" where
  "count_as_double n = Fin (of_int n / 2 ^ 1074)"

definition pdp_window :: "rrd_t \<Rightarrow> time_t \<times> time_t" where
  "pdp_window rrd =
     (let ps = pdp_step (stat_head rrd); b = last_up (live_head rrd) div ps * ps + 1 in (b, b + ps - 1))"

text \<open>\<open>srrd\<close>: the source of the candidate before, so that each one is looked at once. The result is the area to copy.\<close>

fun find_pdp :: "rrd_t \<Rightarrow> nat \<Rightarrow> nat option \<Rightarrow> candidate_t list \<Rightarrow> candidate_t option" where
  "find_pdp rrd ds srrd [] = None"
| "find_pdp rrd ds srrd (c # cs) =
     (if srrd = Some (ca_src c) then find_pdp rrd ds srrd cs
      else if last_ds (pdp_prep (ca_rrd c) ! ca_ds c) = ''U'' then find_pdp rrd ds (Some (ca_src c)) cs
      else if snd (pdp_window (ca_rrd c)) \<le> snd (pdp_window rrd) \<and> snd (pdp_window (ca_rrd c)) \<ge> fst (pdp_window rrd) \<and>
              dst (ds_def rrd ! ds) = dst (ds_def (ca_rrd c) ! ca_ds c)
      then Some c
      else find_pdp rrd ds (Some (ca_src c)) cs)"

definition prefill_pdp_prep :: "nat \<Rightarrow> candidate_t list \<Rightarrow> rrd_t \<Rightarrow> rrd_t" where
  "prefill_pdp_prep ds cands rrd =
     (if last_ds (pdp_prep rrd ! ds) \<noteq> ''U'' then rrd
      else case find_pdp rrd ds None cands of
        None \<Rightarrow> rrd
      | Some c \<Rightarrow>
          let p = pdp_prep (ca_rrd c) ! ca_ds c; u = count_as_double (pdp_unkn_sec_cnt p);
              known = d2s64 (dint (pdp_step (stat_head (ca_rrd c))) - u);
              max_known = last_up (live_head rrd) - fst (pdp_window rrd);
              p' = (if u > dint (pdp_step (stat_head rrd))
                    then p\<lparr>pdp_unkn_sec_cnt := max 0 (max_known - known)\<rparr> else p)
          in rrd\<lparr>pdp_prep := (pdp_prep rrd)[ds := p']\<rparr>)"

definition get_cdp_start_end :: "rrd_t \<Rightarrow> rra_def_t \<Rightarrow> time_t \<times> time_t" where
  "get_cdp_start_end rrd rra =
     (let cs = timeslot rrd rra; b = cdiv (last_up (live_head rrd)) cs * cs + 1 in (b, b + cs - 1))"

definition cdp_compatible :: "rrd_t \<Rightarrow> rra_def_t \<Rightarrow> candidate_t \<Rightarrow> bool" where
  "cdp_compatible rrd rra c \<longleftrightarrow>
     pdp_step (stat_head rrd) = pdp_step (stat_head (ca_rrd c)) \<and>
     get_cdp_start_end (ca_rrd c) (ca_rra c) = get_cdp_start_end rrd rra \<and>
     last_up (live_head rrd) div pdp_step (stat_head rrd) =
       last_up (live_head (ca_rrd c)) div pdp_step (stat_head (ca_rrd c))"

text \<open>The value of data source \<open>ds\<close> at time \<open>t\<close> in the archive that holds the data points.\<close>

definition cdp_source_value :: "source \<Rightarrow> nat \<Rightarrow> nat \<Rightarrow> time_t \<Rightarrow> dbl option" where
  "cdp_source_value db ci ds t =
     (let rrd = fst db; r = row_for_time rrd (rra_def rrd ! ci) (s32 (rra_ptr rrd ! ci)) t
      in if r < 0 then None
         else Some (snd db ! (vals_base rrd ci + nat r * nat (ds_cnt (stat_head rrd)) + ds)))"

text \<open>The loop over the data points from \<open>t\<close> up to \<open>upto_t\<close>; the step of a database is positive.\<close>

function cdp_fill_loop :: "source \<Rightarrow> nat \<Rightarrow> nat \<Rightarrow> rra_def_t \<Rightarrow> time_t \<Rightarrow> time_t \<Rightarrow> cdp_prep_t \<Rightarrow> cdp_prep_t" where
  "cdp_fill_loop db ci ds rra t upto_t cdp =
     (let ps = pdp_step (stat_head (fst db)); cs = s32 (ps * pdp_cnt rra)
      in if t < upto_t \<and> 0 < ps
         then cdp_fill_loop db ci ds rra (t + ps) upto_t
                (case cdp_source_value db ci ds t of
                   None \<Rightarrow> cdp
                 | Some v \<Rightarrow>
                     let n = s32 (pdp_cnt rra - cdiv (cmod t cs) ps)
                     in update_cdp (the (rrd_cf_conv (cf_nam rra))) v (if n = 1 then 1 else 0) 1 n
                          (pdp_cnt rra) (rra_cdp_xff_val rra) cdp)
         else cdp)"
  by pat_completeness auto
termination
  by (relation "measure (\<lambda>(db, ci, ds, rra, t, upto_t, cdp). nat (upto_t - t))") auto

declare cdp_fill_loop.simps [simp del]

text \<open>The new preparation area of data source \<open>ds\<close> in archive \<open>i\<close>; archive \<open>ci\<close> holds the data points.\<close>

definition prefill_cdp_prep :: "source \<Rightarrow> nat \<Rightarrow> nat \<Rightarrow> candidate_t list \<Rightarrow> nat \<Rightarrow> cdp_prep_t" where
  "prefill_cdp_prep db i ds cands ci =
     (let rrd = fst db; rra = rra_def rrd ! i; ps = pdp_step (stat_head rrd);
          b = fst (get_cdp_start_end rrd rra); e = snd (get_cdp_start_end rrd rra);
          old = cdp_prep rrd ! (i * nat (ds_cnt (stat_head rrd)) + ds)
      in case filter (cdp_compatible rrd rra) cands of
           c # _ \<Rightarrow> cdp_prep (ca_rrd c) ! (ca_rra_index c * nat (ds_cnt (stat_head (ca_rrd c))) + ca_ds c)
         | [] \<Rightarrow>
             let cdp = (init_cdp rrd rra (pdp_prep rrd ! ds) old)\<lparr>cdp_unkn_pdp_cnt := 0\<rparr>
             in if pdp_cnt rra = 1
                then (case cdp_source_value db ci ds (b - ps) of
                        None \<Rightarrow> cdp\<lparr>cdp_primary_val := 0, cdp_secondary_val := 0\<rparr>
                      | Some v \<Rightarrow> cdp\<lparr>cdp_primary_val := v, cdp_secondary_val := 0\<rparr>)
                else cdp_fill_loop db ci ds rra (b - pdp_cnt rra * ps) (min e (last_up (live_head rrd))) cdp)"

section \<open>The archive of single data points\<close>

text \<open>\<open>rra_for_cdp_prefilling\<close>: the longest average archive with one data point per row.\<close>

fun longest_average :: "nat \<Rightarrow> rra_def_t list \<Rightarrow> (nat \<times> ulong) option \<Rightarrow> (nat \<times> ulong) option" where
  "longest_average i [] best = best"
| "longest_average i (r # rs) best =
     longest_average (Suc i) rs
       (if pdp_cnt r = 1 \<and> rrd_cf_conv (cf_nam r) = Some CF_AVERAGE \<and>
           (case best of None \<Rightarrow> True | Some (_, rows) \<Rightarrow> rows < row_cnt r)
        then Some (i, row_cnt r) else best)"

definition largest_pdp :: "rra_def_t list \<Rightarrow> ulong" where
  "largest_pdp rras = foldl (\<lambda>m r. max m (pdp_cnt r)) 0 rras"

text \<open>The index, the database and whether an archive was added. \<open>init_cdp\<close> is given the preparation area with the
  index of the archive, not of the data source; \<open>junk\<close> is what is read behind the array.\<close>

definition rra_for_cdp_prefilling :: "pdp_prep_t \<Rightarrow> source \<Rightarrow> nat \<times> source \<times> bool" where
  "rra_for_cdp_prefilling junk db =
     (let rrd = fst db; n = u64 (largest_pdp (rra_def rrd) * 2); k = length (rra_def rrd);
          rra = rra_def_zero\<lparr>cf_nam := ''AVERAGE'', pdp_cnt := 1, row_cnt := n, rra_cdp_xff_val := dint 1 / dint 2\<rparr>;
          h = stat_head rrd;
          r1 = rrd\<lparr>stat_head := h\<lparr>rra_cnt := rra_cnt h + 1\<rparr>, rra_def := rra_def rrd @ [rra], rra_ptr := rra_ptr rrd @ [0]\<rparr>;
          pdp = (if k < length (pdp_prep rrd) then pdp_prep rrd ! k else junk);
          r2 = r1\<lparr>cdp_prep := cdp_prep rrd @ replicate (nat (ds_cnt h)) (init_cdp r1 rra pdp cdp_zero)\<rparr>
      in case longest_average 0 (rra_def rrd) None of
           Some (i, rows) \<Rightarrow>
             if rows < n then (k, (r2, snd db @ replicate (nat n * nat (ds_cnt h)) NaN), True) else (i, db, False)
         | None \<Rightarrow> (k, (r2, snd db @ replicate (nat n * nat (ds_cnt h)) NaN), True))"

definition remove_temporary_rra :: "nat \<Rightarrow> source \<Rightarrow> source" where
  "remove_temporary_rra k db =
     (let rrd = fst db; h = stat_head rrd
      in (rrd\<lparr>stat_head := h\<lparr>rra_cnt := rra_cnt h - 1\<rparr>, rra_def := take k (rra_def rrd), rra_ptr := take k (rra_ptr rrd),
             cdp_prep := take (k * nat (ds_cnt h)) (cdp_prep rrd)\<rparr>,
          take (vals_base rrd k) (snd db)))"

section \<open>The whole database\<close>

text \<open>The rows of data source \<open>ds\<close> in archive \<open>i\<close>.\<close>

definition prefill_rows :: "rrd_t \<Rightarrow> nat \<Rightarrow> nat \<Rightarrow> candidate_t list \<Rightarrow> dbl list \<Rightarrow> dbl list" where
  "prefill_rows rrd i ds cands vals =
     foldl (\<lambda>vs cnt. case prefill_bin rrd i cands (int cnt) of
              None \<Rightarrow> vs
            | Some v \<Rightarrow> vs[vals_base rrd i + cnt * nat (ds_cnt (stat_head rrd)) + ds := v])
       vals [0..<nat (row_cnt (rra_def rrd ! i))]"

definition prefill_ds :: "candidate_qsort \<Rightarrow> source list \<Rightarrow> mapping_t list \<Rightarrow> nat \<Rightarrow> nat \<Rightarrow> source \<Rightarrow> source" where
  "prefill_ds qs sources maps i ds db =
     (let rrd = fst db;
          cands = find_matching_candidates qs sources maps rrd (rra_def rrd ! i) ds select_create_candidates
                    (Some (order_candidates rrd (rra_def rrd ! i)))
      in if cands = [] then db
         else (prefill_pdp_prep ds cands rrd, prefill_rows rrd i ds cands (snd db)))"

definition prefill_cdp :: "candidate_qsort \<Rightarrow> source list \<Rightarrow> mapping_t list \<Rightarrow> nat \<Rightarrow> nat \<Rightarrow> nat \<Rightarrow> source \<Rightarrow> source" where
  "prefill_cdp qs sources maps ci i ds db =
     (let rrd = fst db;
          cands = find_matching_candidates qs sources maps rrd (rra_def rrd ! i) ds cdp_match None
      in (rrd\<lparr>cdp_prep := (cdp_prep rrd)[i * nat (ds_cnt (stat_head rrd)) + ds := prefill_cdp_prep db i ds cands ci]\<rparr>,
          snd db))"

text \<open>The nested loops over archives and data sources.\<close>

definition all_cells :: "(nat \<Rightarrow> nat \<Rightarrow> source \<Rightarrow> source) \<Rightarrow> source \<Rightarrow> source" where
  "all_cells f db =
     foldl (\<lambda>d (i, ds). f i ds d) db
       (List.product [0..<length (rra_def (fst db))] [0..<length (ds_def (fst db))])"

definition rrd_prefill_data ::
  "candidate_qsort \<Rightarrow> pdp_prep_t \<Rightarrow> source list \<Rightarrow> mapping_t list \<Rightarrow> source \<Rightarrow> source" where
  "rrd_prefill_data qs junk sources maps db =
     (if sources = [] then db
      else case rra_for_cdp_prefilling junk db of
        (ci, db1, added) \<Rightarrow>
          let db2 = all_cells (prefill_ds qs sources maps) db1;
              db3 = all_cells (prefill_cdp qs sources maps ci) db2
          in if added then remove_temporary_rra ci db3 else db3)"

text \<open>\<open>rrd_create_r2\<close>. The file system: whether the file exists, what opening the template and the sources yields (\<open>None\<close>
  for a failure). The result is the database that is written, its values and the file; \<open>write_fh\<close> writes
  version 3 in place of a lower one.\<close>

record create_fs =
  fs_exists :: bool
  fs_template :: "rrd_t option option"
  fs_sources :: "source option list option"

definition with_sources ::
  "candidate_qsort \<Rightarrow> pdp_prep_t \<Rightarrow> time_t \<Rightarrow> source list \<Rightarrow> mapping_t list \<Rightarrow> source \<Rightarrow> source" where
  "with_sources qs junk lastup srcs maps db =
     (let rrd = fst db; latest = foldl max 0 (map (\<lambda>s. last_up (live_head (fst s))) srcs);
          r = (if lastup = - 1
               then reset_pdp_prep (rrd\<lparr>live_head := (live_head rrd)\<lparr>last_up := latest\<rparr>\<rparr>) else rrd)
      in rrd_prefill_data qs junk srcs maps (r, snd db))"

definition write_version :: "rrd_t \<Rightarrow> rrd_t" where
  "write_version rrd =
     (if atoi (version (stat_head rrd)) < 3
      then rrd\<lparr>stat_head := (stat_head rrd)\<lparr>version := ''0003''\<rparr>\<rparr> else rrd)"

definition created_file :: "source \<Rightarrow> rrd_file_t" where
  "created_file db =
     \<lparr>header_len = rrd_get_header_size (fst db), file_pos = rrd_get_header_size (fst db), file_vals = snd db\<rparr>"

definition rrd_create_r2 ::
  "create_env \<Rightarrow> candidate_qsort \<Rightarrow> pdp_prep_t \<Rightarrow> create_fs \<Rightarrow> string \<Rightarrow> ulong \<Rightarrow> time_t \<Rightarrow> bool \<Rightarrow> string list
   \<Rightarrow> create_error + rrd_t \<times> rrd_file_t" where
  "rrd_create_r2 env qs junk fs filename pstep lastup no_overwrite argv =
     (if no_overwrite \<and> fs_exists fs then Inl File_exists
      else if fs_template fs = Some None then Inl Template_not_opened
      else let tpl = (case fs_template fs of Some t \<Rightarrow> t | None \<Rightarrow> None)
           in tbind (create_base env filename pstep lastup tpl (fs_sources fs \<noteq> None) argv) (\<lambda>(db, maps).
              case fs_sources fs of
                None \<Rightarrow> Inr (write_version (fst db), created_file (write_version (fst db), snd db))
              | Some srcs \<Rightarrow>
                  if None \<in> set srcs then Inl Source_not_opened
                  else let db' = with_sources qs junk lastup (map the srcs) maps db
                       in Inr (write_version (fst db'), created_file (write_version (fst db'), snd db'))))"

section \<open>Rows and times agree\<close>

lemma cmod_pos: "0 \<le> a \<Longrightarrow> 0 < b \<Longrightarrow> cmod a b = a mod b"
  by (simp add: cmod_def cdiv_def minus_mult_div_eq_mod sgn_if)

lemma cdiv_pos: "0 \<le> a \<Longrightarrow> 0 < b \<Longrightarrow> cdiv a b = a div b"
  by (cases "a = 0") (simp_all add: cdiv_def)

lemma positive_mod_eq:
  assumes "0 < b" "b < 2 ^ 31" "\<bar>a\<bar> < b"
  shows "positive_mod a b = a mod b"
proof (cases "a < 0")
  case True
  have "cmod a b = a" using True assms by (simp add: cmod_def cdiv_def)
  moreover have "(a + b) mod b = a + b" using True assms by (intro mod_pos_pos_trivial) auto
  then have "a mod b = a + b" by simp
  ultimately show ?thesis using True assms by (simp add: positive_mod_def s32_id)
next
  case False
  then show ?thesis using assms by (simp add: positive_mod_def cmod_pos)
qed

lemma s32_le: "- (2 ^ 31) \<le> x \<Longrightarrow> s32 x \<le> x"
  using zmod_le_nonneg_dividend [of "x + 2 ^ 31" "2 ^ 32"] by (simp add: s32_def)

lemma s32_diff: "s32 (s32 a - b) = s32 (a - b)"
proof -
  have "((a + 2 ^ 31) mod 2 ^ 32 - 2 ^ 31 - b + 2 ^ 31) mod 2 ^ 32 = ((a + 2 ^ 31) mod 2 ^ 32 - b) mod 2 ^ 32"
    by simp
  also have "\<dots> = (a + 2 ^ 31 - b) mod 2 ^ 32" by (rule mod_diff_left_eq)
  finally show ?thesis by (simp add: s32_def algebra_simps)
qed

text \<open>The size of an archive for which the \<open>int\<close> arithmetic of these functions does not overflow.\<close>

definition rows_fit :: "rrd_t \<Rightarrow> rra_def_t \<Rightarrow> bool" where
  "rows_fit rrd rra \<longleftrightarrow> 0 < pdp_cnt rra \<and> 0 < pdp_step (stat_head rrd) \<and> 0 < row_cnt rra \<and>
     row_cnt rra * (pdp_cnt rra * pdp_step (stat_head rrd)) < 2 ^ 31 \<and> 0 \<le> last_up (live_head rrd)"

lemma rows_fitD:
  assumes "rows_fit rrd rra"
  shows "timeslot rrd rra = pdp_cnt rra * pdp_step (stat_head rrd)" "0 < timeslot rrd rra"
    "s32 (row_cnt rra) = row_cnt rra" "0 < row_cnt rra" "row_cnt rra < 2 ^ 31"
    "row_cnt rra * timeslot rrd rra < 2 ^ 31" "0 \<le> last_up (live_head rrd)"
proof -
  let ?t = "pdp_cnt rra * pdp_step (stat_head rrd)"
  have t: "0 < ?t" and n: "0 < row_cnt rra" and b: "row_cnt rra * ?t < 2 ^ 31"
    using assms by (simp_all add: rows_fit_def)
  have "1 * ?t \<le> row_cnt rra * ?t" "row_cnt rra * 1 \<le> row_cnt rra * ?t"
    using t n by (intro mult_right_mono mult_left_mono; linarith)+
  with b t n have "?t < 2 ^ 31" "row_cnt rra < 2 ^ 31" by linarith+
  moreover from this t show ts: "timeslot rrd rra = ?t" by (simp add: timeslot_def s32_id)
  ultimately show "0 < timeslot rrd rra" "s32 (row_cnt rra) = row_cnt rra" "0 < row_cnt rra" "row_cnt rra < 2 ^ 31"
    "row_cnt rra * timeslot rrd rra < 2 ^ 31" using t n b by (simp_all add: s32_id)
  show "0 \<le> last_up (live_head rrd)" using assms by (simp add: rows_fit_def)
qed

text \<open>The end of the slot of the last update.\<close>

definition last_slot :: "rrd_t \<Rightarrow> rra_def_t \<Rightarrow> time_t" where
  "last_slot rrd rra = last_up (live_head rrd) - last_up (live_head rrd) mod timeslot rrd rra"

lemma end_time_eq:
  assumes "rows_fit rrd rra" "0 \<le> cur" "cur < row_cnt rra" "0 \<le> row" "row < row_cnt rra"
  shows "end_time_for_row rrd rra cur row = last_slot rrd rra - ((cur - row) mod row_cnt rra) * timeslot rrd rra"
proof -
  note f = rows_fitD [OF assms(1)]
  let ?p = "(cur - row) mod row_cnt rra"
  have p: "0 \<le> ?p" "?p < row_cnt rra" using f by simp_all
  have "?p * timeslot rrd rra \<le> row_cnt rra * timeslot rrd rra" using less_imp_le [OF p(2)] less_imp_le [OF f(2)] by (rule mult_right_mono)
  moreover have "0 \<le> ?p * timeslot rrd rra" using p f by simp
  ultimately have "s32 (?p * timeslot rrd rra) = ?p * timeslot rrd rra" using f by (intro s32_id) linarith+
  moreover have "s32 (cur - row) = cur - row" using assms f by (intro s32_id) linarith+
  moreover have "positive_mod (cur - row) (row_cnt rra) = ?p" using assms f by (intro positive_mod_eq) auto
  ultimately show ?thesis using f by (simp add: end_time_for_row_def Let_def cmod_pos last_slot_def)
qed

lemma row_for_time_eq:
  assumes "rows_fit rrd rra" "0 \<le> cur" "cur < row_cnt rra" "0 \<le> k" "k < row_cnt rra"
    and "last_slot rrd rra - (k + 1) * timeslot rrd rra < t" "t \<le> last_slot rrd rra - k * timeslot rrd rra" "0 \<le> t"
  shows "row_for_time rrd rra cur t = (cur - k) mod row_cnt rra"
proof -
  note f = rows_fitD [OF assms(1)]
  let ?ts = "timeslot rrd rra" and ?L = "last_up (live_head rrd)" and ?n = "row_cnt rra"
  define E where "E = last_slot rrd rra - k * ?ts"
  obtain q where q: "E = q * ?ts"
    unfolding E_def last_slot_def by (metis left_diff_distrib minus_mod_eq_div_mult)
  have tE: "E - ?ts < t" "t \<le> E" using assms(6,7) by (simp_all add: E_def algebra_simps)
  have al: "(if cmod t ?ts > 0 then t + (?ts - cmod t ?ts) else t) = E"
  proof (cases "t = E")
    case True
    then show ?thesis using assms(8) f q by (simp add: cmod_pos)
  next
    case False
    have "t = (q - 1) * ?ts + (t - (q - 1) * ?ts)" by simp
    moreover have "0 < t - (q - 1) * ?ts" "t - (q - 1) * ?ts < ?ts" using tE False q by (simp_all add: algebra_simps)
    ultimately have "t mod ?ts = t - (q - 1) * ?ts"
      by (metis mod_mult_self3 mod_pos_pos_trivial order_less_imp_le)
    then show ?thesis using assms(8) f q tE False by (simp add: cmod_pos algebra_simps)
  qed
  have E0: "cmod E ?ts = 0" using tE assms(8) f q by (simp add: cmod_pos)
  have LE: "last_slot rrd rra \<le> ?L" "?L < last_slot rrd rra + ?ts" using f by (simp_all add: last_slot_def)
  have kt: "0 \<le> k * ?ts" "(k + 1) * ?ts \<le> ?n * ?ts" using assms f by (auto intro: mult_right_mono)
  have "E \<le> ?L" using LE kt by (simp add: E_def)
  moreover have "\<not> E \<le> s32 (s32 ?L - s32 (?n * ?ts))"
  proof -
    have "0 \<le> ?n * ?ts" using f(2,4) by simp
    then have "s32 (?n * ?ts) = ?n * ?ts" using f(6) by (intro s32_id) linarith+
    moreover have "s32 (?L - ?n * ?ts) \<le> ?L - ?n * ?ts" using f by (intro s32_le) linarith
    moreover have "?L - ?n * ?ts < E" using LE kt by (simp add: E_def algebra_simps)
    ultimately show ?thesis by (simp add: s32_diff)
  qed
  moreover have "cdiv (?L - E) ?ts = k"
  proof -
    have "?L - E = ?L mod ?ts + k * ?ts" by (simp add: E_def last_slot_def)
    moreover have "0 \<le> ?L - E" using \<open>E \<le> ?L\<close> by simp
    moreover have "(?L mod ?ts + k * ?ts) div ?ts = k" using f(2) by (subst div_mult_self1) simp_all
    ultimately show ?thesis using f(2) by (simp only: cdiv_pos)
  qed
  moreover have "s32 k = k" "s32 (cur - k) = cur - k" using assms f by (intro s32_id; linarith)+
  moreover have "positive_mod (cur - k) ?n = (cur - k) mod ?n" using assms f by (intro positive_mod_eq) auto
  moreover have "0 \<le> (cur - k) mod ?n" using f by simp
  ultimately show ?thesis using f(3) assms(5) by (simp add: row_for_time_def Let_def al E0)
qed

text \<open>C36: The end time of a row and the row of a time are inverse to each other: every time within the slot that ends
  with a row belongs to this row.\<close>

theorem row_of_end_time:
  assumes "rows_fit rrd rra" "0 \<le> cur" "cur < row_cnt rra" "0 \<le> row" "row < row_cnt rra"
    and "end_time_for_row rrd rra cur row - timeslot rrd rra < t" "t \<le> end_time_for_row rrd rra cur row" "0 \<le> t"
  shows "row_for_time rrd rra cur t = row"
proof -
  let ?k = "(cur - row) mod row_cnt rra"
  note e = end_time_eq [OF assms(1-5)] and f = rows_fitD [OF assms(1)]
  have k: "0 \<le> ?k" "?k < row_cnt rra" using f by simp_all
  have "row_for_time rrd rra cur t = (cur - ?k) mod row_cnt rra"
    using row_for_time_eq [OF assms(1-3) k, of t] assms(6-8) unfolding e by (simp add: algebra_simps)
  also have "\<dots> = row mod row_cnt rra" by (simp add: mod_diff_right_eq)
  finally show ?thesis using assms(4,5) by simp
qed

theorem row_of_end_time_witness:
  "row_for_time sample_rrd (rra_def sample_rrd ! 0) 2 1199999700 = 1"
proof (rule row_of_end_time)
  show "rows_fit sample_rrd (rra_def sample_rrd ! 0)" by (simp add: rows_fit_def)
  have e: "end_time_for_row sample_rrd (rra_def sample_rrd ! 0) 2 1 = 1199999700" by code_simp
  show "end_time_for_row sample_rrd (rra_def sample_rrd ! 0) 2 1 - timeslot sample_rrd (rra_def sample_rrd ! 0) < 1199999700"
    "1199999700 \<le> end_time_for_row sample_rrd (rra_def sample_rrd ! 0) 2 1"
    unfolding e by (simp_all add: timeslot_def s32_def)
qed simp_all

section \<open>A prefilled database keeps its shape\<close>

definition same_shape :: "source \<Rightarrow> source \<Rightarrow> bool" where
  "same_shape a b \<longleftrightarrow> same_layout (fst a) (fst b) \<and> live_head (fst b) = live_head (fst a) \<and>
     rra_ptr (fst b) = rra_ptr (fst a) \<and> length (pdp_prep (fst b)) = length (pdp_prep (fst a)) \<and>
     length (cdp_prep (fst b)) = length (cdp_prep (fst a)) \<and> length (snd b) = length (snd a)"

lemma same_shape_refl [simp]: "same_shape a a"
  by (simp add: same_shape_def)

lemma same_shape_trans: "same_shape a b \<Longrightarrow> same_shape b c \<Longrightarrow> same_shape a c"
  by (auto simp: same_shape_def same_layout_def)

lemma same_shape_wf: "rrd_wf (fst a) \<Longrightarrow> same_shape a b \<Longrightarrow> rrd_wf (fst b)"
  by (auto simp: rrd_wf_def same_shape_def same_layout_def rra_ok_def)

lemma prefill_rows_length [simp]: "length (prefill_rows rrd i ds cands vals) = length vals"
proof -
  have "length (foldl (\<lambda>vs cnt. case f cnt of None \<Rightarrow> vs | Some v \<Rightarrow> vs[g cnt := v]) vs cs) = length vs" for f g vs cs
    by (induction cs arbitrary: vs) (auto split: option.splits)
  then show ?thesis by (simp add: prefill_rows_def)
qed

lemma prefill_ds_shape: "same_shape db (prefill_ds qs sources maps i ds db)"
  by (auto simp: prefill_ds_def Let_def same_shape_def prefill_pdp_prep_def same_layout_def split: option.splits)

lemma prefill_cdp_shape: "same_shape db (prefill_cdp qs sources maps ci i ds db)"
  by (simp add: prefill_cdp_def Let_def same_shape_def same_layout_def)

lemma all_cells_shape: "(\<And>i ds d. same_shape d (f i ds d)) \<Longrightarrow> same_shape db (all_cells f db)"
proof -
  assume f: "\<And>i ds d. same_shape d (f i ds d)"
  have "same_shape d (foldl (\<lambda>d (i, ds). f i ds d) d cells)" for d cells
  proof (induction cells arbitrary: d)
    case (Cons c cells)
    obtain i ds where c: "c = (i, ds)" by (cases c)
    show ?case unfolding c foldl_Cons prod.case by (rule same_shape_trans [OF f Cons])
  qed simp
  then show ?thesis by (simp add: all_cells_def)
qed

lemma temporary_rra_removed:
  assumes "rra_for_cdp_prefilling junk db = (k, db1, True)" "same_shape db1 db2"
    and "rrd_wf (fst db)" "length (snd db) = total_rows (rra_def (fst db)) * nds (fst db)"
  shows "same_shape db (remove_temporary_rra k db2)"
proof -
  let ?r = "fst db"
  have k: "k = nrra ?r"
    and d1: "stat_head (fst db1) = (stat_head ?r)\<lparr>rra_cnt := rra_cnt (stat_head ?r) + 1\<rparr>" "ds_def (fst db1) = ds_def ?r"
      "\<exists>x. rra_def (fst db1) = rra_def ?r @ [x]" "rra_ptr (fst db1) = rra_ptr ?r @ [0]" "live_head (fst db1) = live_head ?r"
      "length (pdp_prep (fst db1)) = length (pdp_prep ?r)"
      "length (cdp_prep (fst db1)) \<ge> length (cdp_prep ?r)" "length (snd db1) \<ge> length (snd db)"
    using assms(1) by (auto simp: rra_for_cdp_prefilling_def Let_def split: option.splits if_splits)
  obtain x where x: "rra_def (fst db1) = rra_def ?r @ [x]" using d1(3) by blast
  note w = rrd_wfD [OF assms(3)]
  have d2: "stat_head (fst db2) = (stat_head ?r)\<lparr>rra_cnt := rra_cnt (stat_head ?r) + 1\<rparr>" "ds_def (fst db2) = ds_def ?r"
      "rra_def (fst db2) = rra_def ?r @ [x]" "rra_ptr (fst db2) = rra_ptr ?r @ [0]" "live_head (fst db2) = live_head ?r"
      "length (pdp_prep (fst db2)) = length (pdp_prep ?r)"
      "length (cdp_prep (fst db2)) \<ge> length (cdp_prep ?r)" "length (snd db2) \<ge> length (snd db)"
    using assms(2) d1 x by (simp_all add: same_shape_def same_layout_def)
  have "vals_base (fst db2) k = length (snd db)"
    using d2(1,3) k w(1) assms(4) by (simp add: vals_base_def)
  moreover have "(stat_head ?r)\<lparr>rra_cnt := rra_cnt (stat_head ?r) + 1 - 1\<rparr> = stat_head ?r" by simp
  ultimately show ?thesis
    using d2 k w(1,4,5) by (simp add: remove_temporary_rra_def Let_def same_shape_def same_layout_def min_def)
qed

lemma prefill_shape:
  assumes "rrd_wf (fst db)" "length (snd db) = total_rows (rra_def (fst db)) * nds (fst db)"
  shows "same_shape db (rrd_prefill_data qs junk sources maps db)"
proof (cases "sources = []")
  case False
  obtain ci db1 added where r: "rra_for_cdp_prefilling junk db = (ci, db1, added)" by (metis prod_cases3)
  let ?db3 = "all_cells (prefill_cdp qs sources maps ci) (all_cells (prefill_ds qs sources maps) db1)"
  have s: "same_shape db1 ?db3"
    by (rule same_shape_trans [OF all_cells_shape all_cells_shape]) (rule prefill_ds_shape prefill_cdp_shape)+
  show ?thesis
  proof (cases added)
    case True
    then have "rra_for_cdp_prefilling junk db = (ci, db1, True)" using r by simp
    from temporary_rra_removed [OF this s assms] show ?thesis
      using False r True by (simp add: rrd_prefill_data_def Let_def)
  next
    case nadd: False
    then have "db1 = db"
      using r by (auto simp: rra_for_cdp_prefilling_def Let_def split: option.splits if_splits)
    then show ?thesis using s False r nadd by (simp add: rrd_prefill_data_def Let_def)
  qed
qed (simp add: rrd_prefill_data_def)

lemma prefill_rra_def: "rra_def (fst (rrd_prefill_data qs junk sources maps db)) = rra_def (fst db)"
proof -
  obtain ci db1 added where r: "rra_for_cdp_prefilling junk db = (ci, db1, added)" by (metis prod_cases3)
  let ?db3 = "all_cells (prefill_cdp qs sources maps ci) (all_cells (prefill_ds qs sources maps) db1)"
  have "same_shape db1 ?db3"
    by (rule same_shape_trans [OF all_cells_shape all_cells_shape]) (rule prefill_ds_shape prefill_cdp_shape)+
  then have "rra_def (fst ?db3) = rra_def (fst db1)" by (simp add: same_shape_def same_layout_def)
  with r show ?thesis
    by (auto simp: rrd_prefill_data_def rra_for_cdp_prefilling_def remove_temporary_rra_def Let_def
        split: option.splits if_splits)
qed

lemma write_version_wf [simp]: "rrd_wf (write_version rrd) = rrd_wf rrd"
  by (simp add: write_version_def rrd_wf_def rra_ok_def)

lemma write_version_defs [simp]:
  "rra_def (write_version rrd) = rra_def rrd" "ds_def (write_version rrd) = ds_def rrd"
  by (simp_all add: write_version_def)

lemma with_sources_shape:
  assumes "rrd_wf (fst db)" "length (snd db) = total_rows (rra_def (fst db)) * nds (fst db)"
    and "with_sources qs junk lastup srcs maps db = db'"
  shows "rrd_wf (fst db') \<and> same_layout (fst db) (fst db') \<and> length (snd db') = length (snd db)"
proof -
  obtain r where r: "db' = rrd_prefill_data qs junk srcs maps (r, snd db)" "rrd_wf r" "same_layout (fst db) r"
    using assms(1,3)
    by (fastforce simp: with_sources_def Let_def reset_pdp_prep_def rrd_wf_def rra_ok_def same_layout_def split: if_splits)
  have "same_shape (r, snd db) db'"
    unfolding r(1) using r(2,3) assms(2) by (intro prefill_shape) (simp_all add: same_layout_def)
  then show ?thesis using same_shape_wf [of "(r, snd db)" db'] r(2,3) by (auto simp: same_shape_def same_layout_def)
qed

text \<open>What \<open>rrd_create_r2\<close> writes is a well-formed database, with or without a template and sources, whatever the random
  numbers and the sources are: its arrays have the sizes the header announces, every archive has
  rows and a current row within them, the names of the data sources are pairwise different if those of the template are, and the
  file holds a value for every row and data source; without sources, every value is unknown. (The bounds on the
  step and the archives are those \<open>rrd_wf\<close> asks for; the parser does not impose them.)\<close>

lemma create_wf:
  assumes "rrd_create_r2 env qs junk fs filename pstep lastup no_overwrite argv = Inr (rrd, f)"
    and "\<And>t. fs_template fs = Some (Some t) \<Longrightarrow> rrd_wf t"
    and "0 \<le> pstep" "pstep < 2 ^ 31"
    and "\<And>r. r \<in> set (rra_def rrd) \<Longrightarrow> row_cnt r < 2 ^ 62 \<and> pdp_cnt r < 2 ^ 31"
  shows "rrd_wf rrd \<and>
    ((\<forall>t. fs_template fs = Some (Some t) \<longrightarrow> distinct (map ds_nam (ds_def t))) \<longrightarrow> distinct (map ds_nam (ds_def rrd))) \<and>
    ds_def rrd \<noteq> [] \<and> rra_def rrd \<noteq> [] \<and> header_len f = rrd_get_header_size rrd \<and> length (file_vals f) = total_rows (rra_def rrd) * nds rrd \<and>
    (fs_sources fs = None \<longrightarrow> set (file_vals f) \<subseteq> {NaN})"
proof -
  let ?tpl = "case fs_template fs of Some t \<Rightarrow> t | None \<Rightarrow> None"
  obtain r0 vals ms where b: "create_base env filename pstep lastup ?tpl (fs_sources fs \<noteq> None) argv = Inr ((r0, vals), ms)"
    and e: "(case fs_sources fs of
        None \<Rightarrow> Inr (write_version r0, created_file (write_version r0, vals))
      | Some srcs \<Rightarrow>
          if None \<in> set srcs then Inl Source_not_opened
          else let db' = with_sources qs junk lastup (map the srcs) ms (r0, vals)
               in Inr (write_version (fst db'), created_file (write_version (fst db'), snd db'))) = Inr (rrd, f)"
  proof -
    from assms(1) obtain v where
      "create_base env filename pstep lastup ?tpl (fs_sources fs \<noteq> None) argv = Inr v"
      "(case v of (db, ms) \<Rightarrow> case fs_sources fs of
          None \<Rightarrow> Inr (write_version (fst db), created_file (write_version (fst db), snd db))
        | Some srcs \<Rightarrow>
            if None \<in> set srcs then Inl Source_not_opened
            else let db' = with_sources qs junk lastup (map the srcs) ms db
                 in Inr (write_version (fst db'), created_file (write_version (fst db'), snd db'))) = Inr (rrd, f)"
      by (auto simp only: rrd_create_r2_def Let_def tbind_Inr split: if_split_asm)
    then show ?thesis using that by (cases v; cases "fst v") (simp only: prod.case fst_conv snd_conv)
  qed
  obtain db where db: "rrd = write_version (fst db)" "f = created_file (write_version (fst db), snd db)"
    "fs_sources fs = None \<and> db = (r0, vals) \<or> (\<exists>srcs. with_sources qs junk lastup srcs ms (r0, vals) = db) \<and> fs_sources fs \<noteq> None"
    using e by (fastforce simp: Let_def split: option.splits if_splits)
  have "rra_def (fst db) = rra_def r0"
    using db(3) by (auto simp: with_sources_def Let_def prefill_rra_def reset_pdp_prep_def)
  then have "rra_def rrd = rra_def r0" by (simp add: db(1) write_version_def)
  then have wf: "rrd_wf r0 \<and> ((\<forall>t. ?tpl = Some t \<longrightarrow> distinct (map ds_nam (ds_def t))) \<longrightarrow> distinct (map ds_nam (ds_def r0))) \<and>
      ds_def r0 \<noteq> [] \<and> rra_def r0 \<noteq> [] \<and> vals = replicate (total_rows (rra_def r0) * nds r0) NaN"
    using assms(2,5) by (intro create_base_wf [OF b _ assms(3,4)]) (auto split: option.splits)
  have "rrd_wf (fst db) \<and> same_layout r0 (fst db) \<and> length (snd db) = length vals"
    using db(3) with_sources_shape [of "(r0, vals)"] wf by fastforce
  moreover have "set (snd db) \<subseteq> {NaN}" if "fs_sources fs = None"
    using db(3) wf that by auto
  moreover have "?tpl = Some t \<longleftrightarrow> fs_template fs = Some (Some t)" for t by (auto split: option.splits)
  ultimately show ?thesis unfolding db(1,2) using wf by (auto simp: created_file_def same_layout_def)
qed

definition sample_fs :: create_fs where
  "sample_fs = \<lparr>fs_exists = False, fs_template = None, fs_sources = None\<rparr>"

text \<open>A \<open>qsort\<close> to evaluate with.\<close>

definition sample_qsort :: candidate_qsort where
  "sample_qsort = quick_sort"

definition sample_args :: "string list" where
  "sample_args = [''DS:in:COUNTER:600:0:U'', ''DS:temp:GAUGE:600:U:U'', ''RRA:AVERAGE:0.5:1:4'']"

lemma create_wf_sample:
  "\<exists>rrd f. rrd_create_r2 sample_create sample_qsort sample_pdp sample_fs ''a.rrd'' 300 0 False sample_args = Inr (rrd, f) \<and>
    rrd_wf rrd \<and> length (file_vals f) = 8"
proof -
  let ?c = "rrd_create_r2 sample_create sample_qsort sample_pdp sample_fs ''a.rrd'' 300 0 False sample_args"
  have e: "case ?c of Inl e \<Rightarrow> False | Inr (rrd, f) \<Rightarrow>
      map row_cnt (rra_def rrd) = [4] \<and> map pdp_cnt (rra_def rrd) = [1] \<and> nds rrd = 2"
    by code_simp
  then obtain rrd f where c: "?c = Inr (rrd, f)" by (auto split: sum.splits)
  then have sz: "map row_cnt (rra_def rrd) = [4]" "map pdp_cnt (rra_def rrd) = [1]" "nds rrd = 2"
    using e by simp_all
  then obtain r0 where r0: "rra_def rrd = [r0]" "row_cnt r0 = 4" "pdp_cnt r0 = 1" by auto
  then have b: "r \<in> set (rra_def rrd) \<Longrightarrow> row_cnt r < 2 ^ 62 \<and> pdp_cnt r < 2 ^ 31" for r by simp
  have "rrd_wf rrd \<and> length (file_vals f) = total_rows (rra_def rrd) * nds rrd"
    using create_wf [OF c _ _ _ b] by (simp add: sample_fs_def)
  with c sz r0 show ?thesis by (auto simp: total_rows_def)
qed

section \<open>Rows are copied\<close>

lemma add_coverage_whole:
  "s \<le> e \<Longrightarrow> e - s + 1 < 2 ^ 31 \<Longrightarrow>
   add_coverage [set_interval False s e] s e = ([set_interval True s e], e - s + 1)"
  by (simp add: add_coverage_def add_loop.simps(2) is_interval_within_interval_def overlap_def split_uncovered_def
      s32_id Let_def set_interval_def)

lemma slot_seconds_eq: "rows_fit rrd rra \<Longrightarrow> slot_seconds rrd rra = timeslot rrd rra"
proof -
  assume f: "rows_fit rrd rra"
  have "1 * timeslot rrd rra \<le> row_cnt rra * timeslot rrd rra"
    using rows_fitD [OF f] by (intro mult_right_mono) auto
  then show ?thesis using rows_fitD [OF f] by (simp add: slot_seconds_def s64_id)
qed

text \<open>C37: Where a source archive with the slots of the new one has a known value for a row, the new archive gets exactly this
  value, for the consolidation functions that select (\<open>MIN\<close>, \<open>MAX\<close>, \<open>LAST\<close>), provided
  the source has more than one row. The slots are longer than a second, and the share of seconds the archive asks for is
  less than one.\<close>

theorem prefill_copies:
  assumes "rows_fit rrd (rra_def rrd ! i)" "rows_fit (ca_rrd c) (ca_rra c)"
    and "timeslot (ca_rrd c) (ca_rra c) = timeslot rrd (rra_def rrd ! i)" "2 \<le> timeslot rrd (rra_def rrd ! i)"
    and "rrd_cf_conv (cf_nam (rra_def rrd ! i)) \<in> {Some CF_MINIMUM, Some CF_MAXIMUM, Some CF_LAST}"
    and "0 \<le> rra_ptr (ca_rrd c) ! ca_rra_index c" "rra_ptr (ca_rrd c) ! ca_rra_index c < row_cnt (ca_rra c)"
    and "0 \<le> r" "r < row_cnt (ca_rra c)" "2 \<le> row_cnt (ca_rra c)"
    and "end_time_for_row_simple (ca_rrd c) (ca_rra_index c) r = end_time_for_row_simple rrd i cnt"
    and "timeslot rrd (rra_def rrd ! i) \<le> end_time_for_row_simple rrd i cnt"
    and "v = ca_values c ! (nat r * nat (ds_cnt (stat_head (ca_rrd c))) + ca_ds c)" "\<not> isnan v"
    and "d2s64 (rra_cdp_xff_val (rra_def rrd ! i) * dint (timeslot rrd (rra_def rrd ! i))) < timeslot rrd (rra_def rrd ! i)"
  shows "prefill_bin rrd i (c # cs) cnt = Some v"
proof -
  let ?ts = "timeslot rrd (rra_def rrd ! i)" and ?E = "end_time_for_row_simple rrd i cnt" and ?n = "row_cnt (ca_rra c)"
  let ?cf = "rrd_cf_conv (cf_nam (rra_def rrd ! i))"
  note f = rows_fitD [OF assms(2)]
  have "1 * ?ts \<le> ?n * ?ts" using f assms(3) by (intro mult_right_mono) auto
  then have ts: "?ts < 2 ^ 31" using f(6) assms(3) by simp
  have cur: "s32 (rra_ptr (ca_rrd c) ! ca_rra_index c) = rra_ptr (ca_rrd c) ! ca_rra_index c"
    and r: "s32 r = r" using assms(6-9) f(5) by (intro s32_id; linarith)+
  have E: "end_time_for_row (ca_rrd c) (ca_rra c) (rra_ptr (ca_rrd c) ! ca_rra_index c) r = ?E"
    using assms(11) cur by (simp add: end_time_for_row_simple_def ca_rra_def)
  have row: "row_for_time (ca_rrd c) (ca_rra c) (rra_ptr (ca_rrd c) ! ca_rra_index c) t = r"
    if "?E - ?ts < t" "t \<le> ?E" "0 \<le> t" for t
    using row_of_end_time [OF assms(2,6,7,8,9)] that E assms(3) by simp
  let ?s0 = "\<lparr>bs_coverage = [set_interval False (?E - ?ts + 1) ?E], bs_total = 0, bs_value = NaN\<rparr>"
  let ?s1 = "\<lparr>bs_coverage = [set_interval True (?E - ?ts + 1) ?E], bs_total = ?ts, bs_value = v\<rparr>"
  have slots: "slot_seconds (ca_rrd c) (ca_rra c) = ?ts" "slot_seconds rrd (rra_def rrd ! i) = ?ts"
    using slot_seconds_eq assms(1-3) by simp_all
  have "bin_row ?cf ?ts ?E c r ?s0 = ?s1"
    using assms(4,5,11,13,14) ts r add_coverage_whole [of "?E - ?ts + 1" ?E]
    by (auto simp: bin_row_def Let_def slots overlap_def prefill_consolidate_def isnan_def)
  moreover have "u64 r = r" using assms(8,9) f(5) by (simp add: u64_id)
  moreover have "positive_mod (s32 (r - r + 1)) (s32 ?n) = 1"
    using positive_mod_eq [of ?n 1] f(3,5) assms(10) by (simp add: s32_id)
  moreover have "row_for_time (ca_rrd c) (ca_rra c) (rra_ptr (ca_rrd c) ! ca_rra_index c) ?E = r"
    "row_for_time (ca_rrd c) (ca_rra c) (rra_ptr (ca_rrd c) ! ca_rra_index c) (?E - ?ts + 1) = r"
    using assms(4,12) by (intro row; linarith)+
  ultimately have "bin_candidate ?cf ?ts ?E c ?s0 = ?s1"
    using assms(4,9) cur by (simp add: bin_candidate_def Let_def)
  then have "bin_candidates ?cf ?ts ?E (c # cs) ?s0 = ?s1"
    using assms(4) by (cases cs) simp_all
  then show ?thesis
    using assms(4,5,15) ts by (auto simp: prefill_bin_def Let_def slots prefill_finish_def s32_id)
qed

definition sample_candidate :: "nat \<Rightarrow> candidate_t" where
  "sample_candidate i = \<lparr>ca_src = 0, ca_rrd = sample_rrd, ca_rra_index = i, ca_values = replicate 8 1, ca_ds = 0\<rparr>"

lemma sample_candidate_simps [simp]:
  "ca_rrd (sample_candidate i) = sample_rrd" "ca_rra_index (sample_candidate i) = i"
  "ca_rra (sample_candidate i) = rra_def sample_rrd ! i" "ca_values (sample_candidate i) = replicate 8 1"
  "ca_ds (sample_candidate i) = 0"
  by (simp_all add: sample_candidate_def ca_rra_def)

theorem prefill_copies_witness: "prefill_bin sample_rrd 1 [sample_candidate 1] 0 = Some 1"
proof -
  have f: "rows_fit sample_rrd (rra_def sample_rrd ! 1)" by (simp add: rows_fit_def)
  have t: "timeslot sample_rrd (rra_def sample_rrd ! 1) = 600" by (simp add: timeslot_def s32_def)
  have e: "end_time_for_row_simple sample_rrd 1 0 = 1200000000" by code_simp
  have x: "d2s64 (rra_cdp_xff_val (rra_def sample_rrd ! 1) * dint 600) < 600" by code_simp
  show ?thesis
    by (rule prefill_copies [where r = 0]) (simp_all add: f [simplified] t [simplified] e [simplified] x [simplified] rrd_cf_conv_def one_dbl_def)
qed

text \<open>A row that spans all rows of the only source gets nothing: the number of rows to look at is taken modulo the number of
  rows.\<close>

lemma whole_archive_skipped:
  "prefill_bin (sample_rrd\<lparr>rra_def := [sample_rra ''MAX'' 3 4], rra_ptr := [0]\<rparr>) 0 [sample_candidate 0] 0 = None \<and>
   prefill_bin (sample_rrd\<lparr>rra_def := [sample_rra ''MAX'' 3 2], rra_ptr := [0]\<rparr>) 0 [sample_candidate 0] 0 = Some 1"
  by code_simp

end
