(* ===== verification/Rrd_Diff.thy ===== *)
theory Rrd_Diff
  imports Rrd_Strtod
begin

text \<open>
  \<open>rrd_diff.c\<close>: the difference of two counters given as decimal strings, by school
  subtraction from the last digit into the buffer \<open>res\<close> of \<open>LAST_DS_LEN + 1\<close> bytes, which is a list that
  is written byte by byte. A write outside the buffer is undefined and gives \<open>None\<close>. The NUL bytes the function writes
  behind the digits of its arguments are not modelled: its only caller has checked that
  nothing follows the digits of the first and overwrites the second afterwards.
\<close>

section \<open>Definitions\<close>

definition LAST_DS_LEN :: nat where
  "LAST_DS_LEN = 30"

text \<open>Skipping to the first digit, remembering a minus sign on the way.\<close>

fun skip_to_digit :: "bool \<Rightarrow> string \<Rightarrow> bool \<times> string" where
  "skip_to_digit neg [] = (neg, [])"
| "skip_to_digit neg (c # cs) =
     (if is_digit c then (neg, c # cs) else skip_to_digit (neg \<or> c = CHR ''-'') cs)"

abbreviation code :: "char \<Rightarrow> int" where
  "code c \<equiv> of_char c"

text \<open>One digit of the loop over \<open>x\<close>: the byte stored and the carry.\<close>

definition carry_digit :: "int \<Rightarrow> int \<times> int" where
  "carry_digit r = (if r < 48 then (r + 10, 1) else if 57 < r then (r - 10, 1) else (r, 0))"

text \<open>The loop, on the digits from the last one; the bytes stored, last digit first.\<close>

fun sub_loop :: "nat \<Rightarrow> int \<Rightarrow> string \<Rightarrow> string \<Rightarrow> int list \<times> int" where
  "sub_loop 0 c a b = ([], c)"
| "sub_loop (Suc x) c a b =
     (let raw = (case (a, b) of
            (a1 # _, b1 # _) \<Rightarrow> ((code a1 - c) - code b1) + 48
          | (a1 # _, []) \<Rightarrow> code a1 - c
          | ([], b1 # _) \<Rightarrow> (48 - code b1 - c) + 48
          | ([], []) \<Rightarrow> (48 - 48 - c) + 48);
          (r, c') = carry_digit raw;
          (rs, c'') = sub_loop x c' (tl a) (tl b)
      in (r # rs, c''))"

text \<open>The second loop, run when a carry is left: complement to ten.\<close>

fun complement_loop :: "int \<Rightarrow> int list \<Rightarrow> int list" where
  "complement_loop c [] = []"
| "complement_loop c (r # rs) =
     (let r' = (57 - r + c) + 48
      in if 57 < r' then (r' - 10) # complement_loop 1 rs else r' # complement_loop 0 rs)"

definition byte_string :: "int list \<Rightarrow> string" where
  "byte_string rs = map (\<lambda>r. char_of (nat r)) rs"

definition parse_or_nan :: "string \<Rightarrow> dbl" where
  "parse_or_nan res = (case rrd_strtodbl res of (rc, v, _) \<Rightarrow> if rc \<noteq> 2 then NaN else v)"

text \<open>The buffer. \<open>fill_blanks i n\<close> is the loop that blanks \<open>n\<close> bytes from \<open>i\<close> on, \<open>store_down\<close> stores bytes at \<open>r1\<close> and before it. What
  the buffer holds at the start is never read.\<close>

definition put_byte :: "nat \<Rightarrow> int \<Rightarrow> int list \<Rightarrow> int list option" where
  "put_byte i v res = (if i < length res then Some (res[i := v]) else None)"

fun fill_blanks :: "nat \<Rightarrow> nat \<Rightarrow> int list \<Rightarrow> int list option" where
  "fill_blanks i 0 res = Some res"
| "fill_blanks i (Suc n) res = Option.bind (put_byte i 32 res) (fill_blanks (Suc i) n)"

fun store_down :: "nat \<Rightarrow> int list \<Rightarrow> int list \<Rightarrow> int list option" where
  "store_down r1 [] res = Some res"
| "store_down r1 (v # vs) res = Option.bind (put_byte r1 v res) (store_down (r1 - 1) vs)"

definition blank_result :: "nat \<Rightarrow> int list option" where
  "blank_result m = Option.bind (fill_blanks 0 (m + 2) (replicate (LAST_DS_LEN + 1) 0)) (put_byte (m + 2) 0)"

text \<open>The string in the buffer, up to the NUL byte.\<close>

definition result_string :: "int list \<Rightarrow> string" where
  "result_string res = byte_string (takeWhile (\<lambda>v. v \<noteq> 0) res)"

text \<open>The two loops on the buffer and the number that is read from it.\<close>

definition buffer_diff :: "nat \<Rightarrow> string \<Rightarrow> string \<Rightarrow> int list \<Rightarrow> dbl option" where
  "buffer_diff m a b res =
     (let (rs, c) = sub_loop m 0 (rev a) (rev b)
      in Option.bind (store_down (m + 1) rs res) (\<lambda>res1.
           if c = 0 then Some (parse_or_nan (result_string res1))
           else map_option (\<lambda>res2. - parse_or_nan (result_string res2)) (store_down (m + 1) (complement_loop c rs) res1)))"

definition rrd_diff :: "string \<Rightarrow> string \<Rightarrow> dbl option" where
  "rrd_diff a_str b_str =
     (let (a_neg, a0) = skip_to_digit False a_str;
          (b_neg, b0) = skip_to_digit False b_str;
          a = takeWhile is_digit a0;
          b = takeWhile is_digit b0;
          m = max (length a) (length b)
      in if a = [] \<or> b = [] then Some NaN
         else if a_neg \<noteq> b_neg then Some NaN
         else if m > LAST_DS_LEN then Some NaN
         else map_option (\<lambda>result. if a_neg \<and> b_neg then - result else result)
                (Option.bind (blank_result m) (buffer_diff m a b)))"

section \<open>Values of digit sequences, last digit first\<close>

fun lval :: "int list \<Rightarrow> int" where
  "lval [] = 0"
| "lval (r # rs) = (r - 48) + 10 * lval rs"

definition digits_ok :: "int list \<Rightarrow> bool" where
  "digits_ok rs = list_all (\<lambda>r. 48 \<le> r \<and> r \<le> 57) rs"

fun sval :: "string \<Rightarrow> int" where
  "sval [] = 0"
| "sval (c # cs) = digit_val c + 10 * sval cs"

lemma sval_snoc: "sval (xs @ [c]) = sval xs + digit_val c * 10 ^ length xs"
  by (induction xs) (simp_all add: algebra_simps)

lemma dec_val_acc: "dec_val a cs = a * 10 ^ length cs + dec_val 0 cs"
proof (induction cs arbitrary: a)
  case (Cons c cs)
  show ?case using Cons [of "a * 10 + digit_val c"] Cons [of "digit_val c"]
    by (simp add: algebra_simps)
qed simp

lemma dec_val_rev: "dec_val 0 cs = sval (rev cs)"
proof (induction cs)
  case (Cons c cs)
  show ?case using Cons dec_val_acc [of "digit_val c" cs] by (simp add: sval_snoc)
qed simp

lemma code_digit: "code c = digit_val c + 48"
  by (simp add: digit_val_def)

text \<open>The loop subtracts: the stored digits and the carry stand for the difference.\<close>

lemma sub_loop_value:
  assumes "list_all is_digit a" and "list_all is_digit b" and "length a \<le> m" and "length b \<le> m"
    and "c = 0 \<or> c = 1" and "sub_loop m c a b = (rs, c')"
  shows "lval rs = sval a - sval b - c + c' * 10 ^ m \<and> digits_ok rs \<and> length rs = m
    \<and> (c' = 0 \<or> c' = 1)"
  using assms
proof (induction m arbitrary: c a b rs c')
  case 0
  then show ?case by (auto simp: digits_ok_def)
next
  case (Suc m)
  define av where "av = (case a of [] \<Rightarrow> 0 | x # _ \<Rightarrow> digit_val x)"
  define bv where "bv = (case b of [] \<Rightarrow> 0 | x # _ \<Rightarrow> digit_val x)"
  have av: "0 \<le> av" "av \<le> 9" "sval a = av + 10 * sval (tl a)"
    using Suc.prems(1) digit_val_range by (auto simp: av_def split: list.splits)
  have bv: "0 \<le> bv" "bv \<le> 9" "sval b = bv + 10 * sval (tl b)"
    using Suc.prems(2) digit_val_range by (auto simp: bv_def split: list.splits)
  obtain r c1 where rc: "carry_digit (av - bv - c + 48) = (r, c1)"
    by (cases "carry_digit (av - bv - c + 48)")
  have raw: "(case (a, b) of
            (a1 # _, b1 # _) \<Rightarrow> ((code a1 - c) - code b1) + 48
          | (a1 # _, []) \<Rightarrow> code a1 - c
          | ([], b1 # _) \<Rightarrow> (48 - code b1 - c) + 48
          | ([], []) \<Rightarrow> (48 - 48 - c) + 48) = av - bv - c + 48"
    by (simp add: av_def bv_def code_digit split: list.splits)
  obtain rs' where rs': "sub_loop m c1 (tl a) (tl b) = (rs', c')" "rs = r # rs'"
    using Suc.prems(6) unfolding sub_loop.simps raw by (auto simp: rc split: prod.splits)
  have r: "r - 48 = av - bv - c + 10 * c1" "48 \<le> r" "r \<le> 57" "c1 = 0 \<or> c1 = 1"
    using rc av bv Suc.prems(5) by (auto simp: carry_digit_def split: if_splits)
  have "list_all is_digit (tl a)" "list_all is_digit (tl b)"
    using Suc.prems(1,2) by (cases a; cases b; simp)+
  from Suc.IH [OF this _ _ r(4) rs'(1)] Suc.prems(3,4)
  have ih: "lval rs' = sval (tl a) - sval (tl b) - c1 + c' * 10 ^ m" "digits_ok rs'"
    "length rs' = m" "c' = 0 \<or> c' = 1" by simp_all
  show ?case using ih r av(3) bv(3) rs'(2) by (simp add: digits_ok_def algebra_simps)
qed

text \<open>The second loop computes the complement.\<close>

lemma complement_loop_value:
  assumes "digits_ok rs" and "c = 0 \<or> c = 1" and "c = 1 \<longrightarrow> lval rs \<noteq> 0"
  shows "lval (complement_loop c rs) = 10 ^ length rs - 1 + c - lval rs
    \<and> digits_ok (complement_loop c rs) \<and> length (complement_loop c rs) = length rs"
  using assms
proof (induction rs arbitrary: c)
  case Nil
  then show ?case by (auto simp: digits_ok_def)
next
  case (Cons r rs)
  let ?d = "57 - r + c"
  have ok: "digits_ok rs" and r: "48 \<le> r" "r \<le> 57" using Cons.prems(1) by (auto simp: digits_ok_def)
  show ?case
  proof (cases "57 < ?d + 48")
    case True
    then have "r = 48" "c = 1" using r Cons.prems(2) by auto
    with Cons.IH [OF ok, of 1] Cons.prems(3) show ?thesis
      by (auto simp: digits_ok_def algebra_simps)
  next
    case False
    with Cons.IH [OF ok, of 0] r Cons.prems(2) show ?thesis
      by (auto simp: digits_ok_def algebra_simps Let_def)
  qed
qed

lemma complement_digits:
  "digits_ok rs \<Longrightarrow> c = 0 \<or> c = 1 \<Longrightarrow>
   digits_ok (complement_loop c rs) \<and> length (complement_loop c rs) = length rs"
  by (induction rs arbitrary: c) (auto simp: digits_ok_def Let_def)

lemma byte_string_digits: "digits_ok rs \<Longrightarrow> list_all is_digit (byte_string rs)"
  by (induction rs) (auto simp: digits_ok_def byte_string_def is_digit_def nat_le_iff)

lemma digit_val_byte: "48 \<le> r \<Longrightarrow> r \<le> 57 \<Longrightarrow> digit_val (char_of (nat r)) = r - 48"
  using digit_val_digit_char [of "r - 48"] by (simp add: digit_char_def)

lemma sval_byte_string: "digits_ok rs \<Longrightarrow> sval (byte_string rs) = lval rs"
  by (induction rs) (auto simp: digits_ok_def byte_string_def digit_val_byte)

lemma lval_nonneg: "digits_ok rs \<Longrightarrow> 0 \<le> lval rs"
  by (induction rs) (auto simp: digits_ok_def)

lemma lval_less: "digits_ok rs \<Longrightarrow> lval rs < 10 ^ length rs"
  by (induction rs) (auto simp: digits_ok_def)

lemma sval_less: "list_all is_digit cs \<Longrightarrow> 0 \<le> sval cs \<and> sval cs < 10 ^ length cs"
proof (induction cs)
  case (Cons c cs)
  then show ?case using digit_val_range [of c] by simp
qed simp

lemma parse_or_nan_bytes:
  assumes "digits_ok rs" and "rs \<noteq> []" and "lval rs \<le> 2 ^ 53"
  shows "parse_or_nan (''  '' @ byte_string (rev rs)) = Fin (of_int (lval rs))"
proof -
  have v: "dec_val 0 (byte_string (rev rs)) = lval rs"
    using assms(1) by (simp add: dec_val_rev byte_string_def rev_map flip: sval_byte_string)
  have "digits_ok (rev rs)" using assms(1) by (simp add: digits_ok_def list_all_iff)
  then have d: "list_all is_digit (byte_string (rev rs))" by (rule byte_string_digits)
  have "byte_string (rev rs) \<noteq> []" using assms(2) by (simp add: byte_string_def)
  from rrd_strtodbl_digits [OF d this, of "''  ''"] assms(3) show ?thesis
    by (simp add: parse_or_nan_def v is_space_def)
qed

section \<open>Correctness\<close>

lemma takeWhile_digits_id: "list_all is_digit cs \<Longrightarrow> takeWhile is_digit cs = cs"
  by (induction cs) auto

lemma skip_to_digit_digits:
  "list_all is_digit cs \<Longrightarrow> cs \<noteq> [] \<Longrightarrow> skip_to_digit neg cs = (neg, cs)"
  by (cases cs) auto

lemma fill_blanks_value:
  "i \<le> length res \<Longrightarrow>
   fill_blanks i n res = (if i + n \<le> length res then Some (take i res @ replicate n 32 @ drop (i + n) res) else None)"
proof (induction n arbitrary: i res)
  case (Suc n)
  show ?case
  proof (cases "i < length res")
    case True
    then have "fill_blanks i (Suc n) res = (if Suc i + n \<le> length res
        then Some (take (Suc i) (res[i := 32]) @ replicate n 32 @ drop (Suc i + n) (res[i := 32])) else None)"
      using Suc.IH [of "Suc i" "res[i := 32]"] by (simp add: put_byte_def)
    then show ?thesis using True by (simp add: take_Suc_conv_app_nth)
  qed (use Suc.prems in \<open>simp add: put_byte_def\<close>)
qed simp

lemma store_down_value:
  "r1 < length res \<Longrightarrow> length vs \<le> Suc r1 \<Longrightarrow>
   store_down r1 vs res = Some (take (Suc r1 - length vs) res @ rev vs @ drop (Suc r1) res)"
proof (induction vs arbitrary: r1 res)
  case (Cons v vs)
  show ?case
  proof (cases vs)
    case Nil
    then show ?thesis using Cons.prems by (simp add: put_byte_def upd_conv_take_nth_drop)
  next
    case (Cons w ws)
    then obtain r0 where r0: "r1 = Suc r0" using Cons.prems by (cases r1) auto
    have "store_down r1 (v # vs) res = store_down r0 vs (res[r1 := v])" using Cons.prems r0 by (simp add: put_byte_def)
    also have "\<dots> = Some (take (Suc r0 - length vs) (res[r1 := v]) @ rev vs @ drop r1 (res[r1 := v]))"
      using Cons.IH [of r0 "res[r1 := v]"] Cons.prems r0 by simp
    also have "drop r1 (res[r1 := v]) = v # drop (Suc r1) res" using Cons.prems by (simp add: Cons_nth_drop_Suc [symmetric])
    finally show ?thesis using r0 by simp
  qed
qed simp

text \<open>The buffer has room for 28 digits, two blanks and the NUL byte.\<close>

lemma blank_result_value:
  "blank_result m = (if m \<le> 28 then Some ([32, 32] @ replicate m 32 @ 0 # replicate (28 - m) 0) else None)"
proof (cases "m \<le> 28")
  case True
  then obtain k where k: "28 = m + k" using le_Suc_ex by blast
  have "LAST_DS_LEN + 1 = (m + 2) + Suc k" using k by (simp add: LAST_DS_LEN_def)
  then have "replicate (LAST_DS_LEN + 1) 0 = replicate (m + 2) 0 @ replicate (Suc k) (0 :: int)"
    by (simp only: replicate_add)
  then show ?thesis using True k
    by (simp add: blank_result_def fill_blanks_value put_byte_def LAST_DS_LEN_def list_update_append)
qed (simp add: blank_result_def fill_blanks_value put_byte_def LAST_DS_LEN_def)

lemma stored_string:
  assumes "digits_ok rs" "length rs = m" "m \<le> 28" "length ds = m"
  shows "store_down (m + 1) rs ([32, 32] @ ds @ 0 # zs) = Some ([32, 32] @ rev rs @ 0 # zs)"
    and "result_string ([32, 32] @ rev rs @ 0 # zs) = ''  '' @ byte_string (rev rs)"
proof -
  show "store_down (m + 1) rs ([32, 32] @ ds @ 0 # zs) = Some ([32, 32] @ rev rs @ 0 # zs)"
    using store_down_value [of "m + 1" "[32, 32] @ ds @ 0 # zs" rs] assms by (simp add: numeral_2_eq_2)
  have "v \<in> set rs \<Longrightarrow> v \<noteq> 0" for v using assms(1) by (auto simp: digits_ok_def list_all_iff)
  then have "takeWhile (\<lambda>v. v \<noteq> 0) (rev rs @ 0 # zs) = rev rs" by (subst takeWhile_append2) auto
  moreover have "char_of (nat 32) = CHR '' ''" by code_simp
  ultimately show "result_string ([32, 32] @ rev rs @ 0 # zs) = ''  '' @ byte_string (rev rs)"
    by (simp add: result_string_def byte_string_def)
qed

lemma rrd_diff_unfold:
  assumes a: "list_all is_digit a" "a \<noteq> []" and b: "list_all is_digit b" "b \<noteq> []"
    and m: "max (length a) (length b) \<le> 28"
    and rs: "sub_loop (max (length a) (length b)) 0 (rev a) (rev b) = (rs, c)"
    and ok: "digits_ok rs" "length rs = max (length a) (length b)"
      "c \<noteq> 0 \<Longrightarrow> digits_ok (complement_loop c rs) \<and> length (complement_loop c rs) = length rs"
  shows "rrd_diff a b = Some (if c \<noteq> 0
    then - parse_or_nan (''  '' @ byte_string (rev (complement_loop c rs)))
    else parse_or_nan (''  '' @ byte_string (rev rs)))"
proof -
  let ?m = "max (length a) (length b)"
  have r: "blank_result ?m = Some ([32, 32] @ replicate ?m 32 @ 0 # replicate (28 - ?m) 0)" using m by (simp add: blank_result_value)
  have s1: "store_down (?m + 1) rs ([32, 32] @ replicate ?m 32 @ 0 # zs) = Some ([32, 32] @ rev rs @ 0 # zs)" for zs
    using stored_string(1) [OF ok(1,2) m] by simp
  have s2: "store_down (?m + 1) (complement_loop c rs) ([32, 32] @ rev rs @ 0 # zs) =
      Some ([32, 32] @ rev (complement_loop c rs) @ 0 # zs)" if "c \<noteq> 0" for zs
    using stored_string(1) [of "complement_loop c rs" ?m "rev rs"] ok(3) [OF that] ok(2) m by simp
  have t1: "result_string ([32, 32] @ rev rs @ 0 # zs) = ''  '' @ byte_string (rev rs)" for zs
    by (rule stored_string(2) [OF ok(1,2) m ok(2)])
  have t2: "result_string ([32, 32] @ rev (complement_loop c rs) @ 0 # zs) = ''  '' @ byte_string (rev (complement_loop c rs))"
    if "c \<noteq> 0" for zs using stored_string(2) [of "complement_loop c rs" ?m "rev rs"] ok(3) [OF that] ok(2) m by simp
  have "buffer_diff ?m a b ([32, 32] @ replicate ?m 32 @ 0 # replicate (28 - ?m) 0) = Some (if c \<noteq> 0
    then - parse_or_nan (''  '' @ byte_string (rev (complement_loop c rs)))
    else parse_or_nan (''  '' @ byte_string (rev rs)))"
    unfolding buffer_diff_def Let_def rs prod.case s1 using s2 t1 t2 by (simp del: append_Cons append_Nil)
  moreover have "\<not> LAST_DS_LEN < ?m" using m unfolding LAST_DS_LEN_def by linarith
  ultimately show ?thesis using a b r
    by (simp add: rrd_diff_def skip_to_digit_digits takeWhile_digits_id Let_def del: append_Cons append_Nil)
qed

lemma rrd_diff_digits:
  assumes a: "list_all is_digit a" "a \<noteq> []" and b: "list_all is_digit b" "b \<noteq> []"
    and m: "max (length a) (length b) \<le> 28"
    and small: "\<bar>dec_val 0 a - dec_val 0 b\<bar> \<le> 2 ^ 53"
  shows "rrd_diff a b = Some (Fin (of_int (dec_val 0 a - dec_val 0 b)))"
proof -
  let ?m = "max (length a) (length b)" and ?D = "dec_val 0 a - dec_val 0 b"
  obtain rs c where rs: "sub_loop ?m 0 (rev a) (rev b) = (rs, c)"
    by (cases "sub_loop ?m 0 (rev a) (rev b)")
  have ra: "list_all is_digit (rev a)" "list_all is_digit (rev b)"
    using a b by (simp_all add: list_all_iff)
  have v: "lval rs = ?D + c * 10 ^ ?m" "digits_ok rs" "length rs = ?m" "c = 0 \<or> c = 1"
    using sub_loop_value [OF ra _ _ _ rs] by (simp_all add: dec_val_rev)
  have ne: "rs \<noteq> []" using v(3) a(2) by auto
  show ?thesis
  proof (cases "c = 0")
    case True
    with v small have "lval rs = ?D" "lval rs \<le> 2 ^ 53" by simp_all
    with True parse_or_nan_bytes [OF v(2) ne] show ?thesis
      by (simp add: rrd_diff_unfold [OF a b m rs v(2,3)])
  next
    case False
    then have c: "c = 1" using v(4) by simp
    have neg: "?D < 0" using v(1,3) c lval_less [OF v(2)] by simp
    have "?D + 10 ^ ?m \<noteq> 0"
    proof -
      have "dec_val 0 b < 10 ^ ?m"
        using sval_less [OF ra(2)] power_increasing [of "length b" ?m "10 :: int"]
        unfolding dec_val_rev length_rev by linarith
      moreover have "0 \<le> dec_val 0 a" using sval_less [OF ra(1)] by (simp add: dec_val_rev)
      ultimately show ?thesis by simp
    qed
    then have cl: "lval (complement_loop c rs) = - ?D" "digits_ok (complement_loop c rs)"
      "complement_loop c rs \<noteq> []"
      "length (complement_loop c rs) = length rs"
      using complement_loop_value [OF v(2), of c] v(1,3) c ne by auto
    have "parse_or_nan (''  '' @ byte_string (rev (complement_loop c rs))) = Fin (of_int (- ?D))"
      using parse_or_nan_bytes [OF cl(2,3)] cl(1) small by simp
    with neg False show ?thesis
      by (simp add: rrd_diff_unfold [OF a b m rs v(2,3)] cl(2,4) uminus_Fin_nz del: of_int_minus)
  qed
qed

text \<open>C29: the difference of two readings given as digit strings is computed digit by digit and is
  exact as long as it is at most \<open>2 ^ 53\<close>, however large the readings are.\<close>

theorem rrd_diff_exact:
  assumes "list_all is_digit a" "a \<noteq> []" and "list_all is_digit b" "b \<noteq> []"
    and "max (length a) (length b) \<le> 28" and "\<bar>dec_val 0 a - dec_val 0 b\<bar> \<le> 2 ^ 53"
  shows "rrd_diff a b = Some (Fin (of_int (dec_val 0 a - dec_val 0 b)))"
  using assms by (rule rrd_diff_digits)

theorem rrd_diff_exact_witness:
  "rrd_diff ''18446744073709551615'' ''18446744073709551600'' = Some (Fin 15)"
  using rrd_diff_exact [of "''18446744073709551615''" "''18446744073709551600''"]
  by (simp add: is_digit_def digit_val_def)

text \<open>C30: The buffer of \<open>LAST_DS_LEN + 1\<close> bytes is too short for the longest readings the function admits: with 29 or 30 digits
  it writes behind the buffer, with up to 28 digits every write is inside it, and readings of more than
  30 digits are refused with NaN before anything is written.\<close>

theorem rrd_diff_overrun:
  assumes "list_all is_digit a" "a \<noteq> []" and "list_all is_digit b" "b \<noteq> []"
  shows "(rrd_diff a b = None \<longleftrightarrow> max (length a) (length b) \<in> {29, 30}) \<and>
    (30 < max (length a) (length b) \<longrightarrow> rrd_diff a b = Some NaN)"
proof -
  let ?m = "max (length a) (length b)"
  have e: "rrd_diff a b = (if LAST_DS_LEN < ?m then Some NaN
      else map_option (\<lambda>r. r) (Option.bind (blank_result ?m) (buffer_diff ?m a b)))"
    using assms by (simp add: rrd_diff_def skip_to_digit_digits takeWhile_digits_id Let_def)
  have "30 < ?m \<longrightarrow> rrd_diff a b = Some NaN" by (simp add: e LAST_DS_LEN_def)
  moreover have "rrd_diff a b = None \<longleftrightarrow> ?m \<in> {29, 30}"
  proof (cases "?m \<le> 28")
    case True
    have ra: "list_all is_digit (rev a)" "list_all is_digit (rev b)" using assms by (simp_all add: list_all_iff)
    obtain rs c where rs: "sub_loop ?m 0 (rev a) (rev b) = (rs, c)" by (cases "sub_loop ?m 0 (rev a) (rev b)")
    have v: "digits_ok rs" "length rs = ?m" "c = 0 \<or> c = 1" using sub_loop_value [OF ra _ _ _ rs] by simp_all
    then show ?thesis using rrd_diff_unfold [OF assms True rs v(1,2)] complement_digits [OF v(1)] True by auto
  qed (auto simp: e blank_result_value LAST_DS_LEN_def)
  ultimately show ?thesis by blast
qed

theorem rrd_diff_overrun_witness:
  "rrd_diff ''12345678901234567890123456789'' ''1'' = None \<and>
   rrd_diff ''1234567890123456789012345678901'' ''1'' = Some NaN"
  using rrd_diff_overrun [of "''12345678901234567890123456789''" "''1''"]
    rrd_diff_overrun [of "''1234567890123456789012345678901''" "''1''"]
  by (simp add: is_digit_def)

end
