(* ===== verification/Rrd_Pdp.thy ===== *)
theory Rrd_Pdp
  imports Rrd_Diff Rrd_Hw Rrd_Rpn_Calc
begin

text \<open>
  The primary data points: interpretation of the readings by data source type
  (\<open>update_pdp_prep\<close>), the time steps that have elapsed (\<open>calculate_elapsed_steps\<close>) and the
  accumulation of rates into data points (\<open>simple_update\<close>, \<open>process_pdp_st\<close>) of
  \<open>rrd_update.c\<close>. The error slot that \<open>rrd_set_error\<close> fills and \<open>rrd_test_error\<close> reads is an
  argument and a result.
\<close>

section \<open>Readings\<close>

text \<open>The character test for counters: digits, after an optional minus sign for \<open>DERIVE\<close>.\<close>

definition simple_integer :: "dst_en \<Rightarrow> string \<Rightarrow> bool" where
  "simple_integer d s =
     list_all is_digit (case s of
        c # cs \<Rightarrow> if d = DST_DERIVE \<and> c = CHR ''-'' then cs else s
      | [] \<Rightarrow> [])"

text \<open>The counter overflow correction.\<close>

definition counter_wrap :: "dbl \<Rightarrow> dbl" where
  "counter_wrap d =
     (let d1 = (if d < 0 then d + dint 4294967295 else d)
      in if d1 < 0 then d1 + dint 18446744069414584320 else d1)"

text \<open>\<open>rrd_strtodbl\<close> with an error message.\<close>

definition strtodbl_or :: "string \<Rightarrow> rrd_error + dbl" where
  "strtodbl_or s = (case rrd_strtodbl s of (rc, v, _) \<Rightarrow> if rc \<noteq> 2 then Inl (Bad_number s) else Inr v)"

text \<open>The \<open>switch\<close> of \<open>update_pdp_prep\<close>: \<open>pdp_new\<close> (rate times seconds) and the rate.\<close>

definition ds_reading ::
  "dst_en option \<Rightarrow> string \<Rightarrow> string \<Rightarrow> string \<Rightarrow> dbl \<Rightarrow> rrd_error + dbl \<times> dbl" where
  "ds_reading d dstname lastds upd interval =
     (case d of
        None \<Rightarrow> Inl (Unknown_dst dstname)
      | Some DST_CDEF \<Rightarrow> Inl (Unknown_dst dstname)
      | Some DST_ABSOLUTE \<Rightarrow>
          ebind (strtodbl_or upd) (\<lambda>newval. Inr (newval, newval / interval))
      | Some DST_GAUGE \<Rightarrow>
          ebind (strtodbl_or upd) (\<lambda>newval. Inr (newval * interval, newval))
      | Some dt \<Rightarrow>
          if dt = DST_COUNTER \<or> dt = DST_DERIVE
          then (if \<not> simple_integer dt upd then Inl (Not_simple_integer upd)
                else if take 1 lastds = ''U'' then Inr (NaN, NaN)
                else (case rrd_diff upd lastds of
                        None \<Rightarrow> Inl Undefined
                      | Some diff \<Rightarrow>
                          let new = (if dt = DST_COUNTER then counter_wrap diff else diff)
                          in Inr (new, new / interval)))
          else (if take 1 lastds = ''U'' then Inr (NaN, NaN)
                else ebind (strtodbl_or upd) (\<lambda>newval.
                     ebind (strtodbl_or lastds) (\<lambda>oldval.
                       if dt = DST_DCOUNTER \<and>
                          (newval > 0 \<and> oldval > newval \<or> newval < 0 \<and> newval > oldval)
                       then Inr (NaN, NaN)
                       else Inr (newval - oldval, (newval - oldval) / interval)))))"

definition rate_bound :: "ds_def_t \<Rightarrow> dbl \<Rightarrow> bool" where
  "rate_bound ds rate \<longleftrightarrow>
     \<not> isnan rate \<and>
     (\<not> isnan (ds_max_val ds) \<and> rate > ds_max_val ds \<or> \<not> isnan (ds_min_val ds) \<and> rate < ds_min_val ds)"

text \<open>One data source: whether the function returns -1, the error slot, the preparation area
  and \<open>pdp_new\<close>.\<close>

definition update_pdp_ds ::
  "rrd_error option \<Rightarrow> ds_def_t \<Rightarrow> pdp_prep_t \<Rightarrow> string \<Rightarrow> dbl
   \<Rightarrow> bool \<times> rrd_error option \<times> pdp_prep_t \<times> dbl" where
  "update_pdp_ds err ds prep upd interval =
     (let d = dst_conv (dst ds);
          err1 = (if d = None then Some (Unknown_dst (dst ds)) else err);
          prep1 = (if dint (ds_mrhb_cnt ds) < interval then prep\<lparr>last_ds := ''U''\<rparr> else prep);
          prep2 = prep1\<lparr>last_ds := strlcpy_take LAST_DS_LEN upd\<rparr>
      in if take 1 upd \<noteq> ''U'' \<and> d \<noteq> Some DST_CDEF \<and> dint (ds_mrhb_cnt ds) \<ge> interval
         then (case ds_reading d (dst ds) (last_ds prep1) upd interval of
                 Inl e \<Rightarrow> (True, Some e, prep1, NaN)
               | Inr (new, rate) \<Rightarrow>
                   if err1 \<noteq> None then (True, err1, prep1, new)
                   else (False, err1, prep2, if rate_bound ds rate then NaN else new))
         else (False, err1, prep2, NaN))"

fun update_pdp_loop ::
  "rrd_error option \<Rightarrow> ds_def_t list \<Rightarrow> pdp_prep_t list \<Rightarrow> string list \<Rightarrow> dbl
   \<Rightarrow> bool \<times> rrd_error option \<times> pdp_prep_t list \<times> dbl list" where
  "update_pdp_loop err (ds # dss) (prep # preps) (upd # upds) interval =
     (case update_pdp_ds err ds prep upd interval of
        (True, err', prep', new) \<Rightarrow> (True, err', prep' # preps, [new])
      | (False, err', prep', new) \<Rightarrow>
          (case update_pdp_loop err' dss preps upds interval of
             (fail, err'', preps', news) \<Rightarrow> (fail, err'', prep' # preps', new # news)))"
| "update_pdp_loop err dss preps upds interval = (False, err, preps, [])"

text \<open>\<open>updvals\<close> without the time, its first element.\<close>

definition update_pdp_prep ::
  "rrd_error option \<Rightarrow> rrd_t \<Rightarrow> string list \<Rightarrow> dbl \<Rightarrow> bool \<times> rrd_error option \<times> rrd_t \<times> dbl list" where
  "update_pdp_prep err rrd upds interval =
     (case update_pdp_loop err (ds_def rrd) (pdp_prep rrd) upds interval of
        (fail, err', preps, news) \<Rightarrow> (fail, err', rrd\<lparr>pdp_prep := preps\<rparr>, news))"

section \<open>Elapsed steps\<close>

text \<open>The result, \<open>pre_int\<close>, \<open>post_int\<close> and \<open>proc_pdp_cnt\<close>. The result is an \<open>int\<close> that the
  caller stores in an \<open>unsigned long\<close>.\<close>

definition calculate_elapsed_steps ::
  "rrd_t \<Rightarrow> ulong \<Rightarrow> ulong \<Rightarrow> dbl \<Rightarrow> ulong \<times> dbl \<times> dbl \<times> ulong" where
  "calculate_elapsed_steps rrd current_time current_time_usec interval =
     (let lastup = last_up (live_head rrd);
          step = pdp_step (stat_head rrd);
          proc_pdp_age = u64 lastup mod step;
          proc_pdp_st = u64 (lastup - proc_pdp_age);
          occu_pdp_age = current_time mod step;
          occu_pdp_st = u64 (current_time - occu_pdp_age);
          (pre_int, post_int) =
            (if occu_pdp_st > proc_pdp_st
             then (dint (s64 occu_pdp_st - lastup)
                     - dint (last_up_usec (live_head rrd)) / dint 1000000,
                   dint occu_pdp_age + dint current_time_usec / dint 1000000)
             else (interval, 0))
      in (u64 (s32 (u64 (occu_pdp_st - proc_pdp_st) div step)), pre_int, post_int,
          proc_pdp_st div step))"

section \<open>Accumulation\<close>

text \<open>\<open>u_cnt += floor(interval)\<close> is computed in \<open>double\<close>.\<close>

definition simple_update_ds :: "dbl \<Rightarrow> pdp_prep_t \<Rightarrow> dbl \<Rightarrow> pdp_prep_t" where
  "simple_update_ds interval p new =
     (if isnan new
      then p\<lparr>pdp_unkn_sec_cnt := d2u64 (dint (pdp_unkn_sec_cnt p) + dfloor interval)\<rparr>
      else if isnan (pdp_val p) then p\<lparr>pdp_val := new\<rparr>
      else p\<lparr>pdp_val := pdp_val p + new\<rparr>)"

definition simple_update :: "rrd_t \<Rightarrow> dbl \<Rightarrow> dbl list \<Rightarrow> rrd_t" where
  "simple_update rrd interval pdp_new =
     rrd\<lparr>pdp_prep := map2 (simple_update_ds interval) (pdp_prep rrd) pdp_new\<rparr>"

text \<open>The \<open>COMPUTE\<close> part of \<open>process_pdp_st\<close>: constants for the variables, then the calculator.\<close>

definition substitute_ds :: "dbl list \<Rightarrow> rpnp_t \<Rightarrow> rpnp_t" where
  "substitute_ds pdp_temp n =
     (if rp_op n = OP_VARIABLE then n\<lparr>rp_op := OP_NUMBER, rp_val := nthi pdp_temp (rp_ptr n)\<rparr>
      else n)\<lparr>rp_extra := None\<rparr>"

definition compute_ds :: "rpn_env \<Rightarrow> rrd_t \<Rightarrow> nat \<Rightarrow> dbl list \<Rightarrow> rrd_error + dbl list" where
  "compute_ds env rrd i pdp_temp =
     (case rpn_expand (ds_cdef (ds_def rrd ! i)) of
        None \<Rightarrow> Inl Undefined
      | Some nodes \<Rightarrow>
          ebind (rpn_calc env (map (substitute_ds pdp_temp) nodes) rpnstack_init
                   \<lparr>data_idx = 0, rpn_output = pdp_temp, output_idx = int i,
                    step_width = s32 (pdp_step (stat_head rrd))\<rparr>)
            (\<lambda>(nodes', st, out). Inr out))"

definition pdp_add :: "dbl \<Rightarrow> dbl \<Rightarrow> pdp_prep_t \<Rightarrow> dbl \<Rightarrow> pdp_prep_t" where
  "pdp_add interval pre_int p new =
     (if isnan new then p
      else p\<lparr>pdp_val := (if isnan (pdp_val p) then 0 else pdp_val p) + new / interval * pre_int\<rparr>)"

definition pdp_rate :: "dbl \<Rightarrow> dbl \<Rightarrow> ulong \<Rightarrow> ulong \<Rightarrow> clong \<Rightarrow> pdp_prep_t \<Rightarrow> dbl \<Rightarrow> dbl" where
  "pdp_rate interval pre_int mrhb step diff_pdp_st p new =
     (if interval > dint mrhb \<or> dint step / dint 2 < dint (s32 (pdp_unkn_sec_cnt p)) then NaN
      else pdp_val p / (dint (u64 (diff_pdp_st - pdp_unkn_sec_cnt p))
                        - (if isnan new then pre_int else 0)))"

definition pdp_restart :: "dbl \<Rightarrow> dbl \<Rightarrow> pdp_prep_t \<Rightarrow> dbl \<Rightarrow> pdp_prep_t" where
  "pdp_restart interval post_int p new =
     (if isnan new then p\<lparr>pdp_unkn_sec_cnt := d2u64 (dfloor post_int), pdp_val := NaN\<rparr>
      else p\<lparr>pdp_unkn_sec_cnt := 0, pdp_val := new / interval * post_int\<rparr>)"

text \<open>The error, the database and \<open>pdp_temp\<close>.\<close>

definition process_pdp_st ::
  "rpn_env \<Rightarrow> rrd_t \<Rightarrow> nat \<Rightarrow> dbl \<Rightarrow> dbl \<Rightarrow> dbl \<Rightarrow> clong \<Rightarrow> dbl list \<Rightarrow> dbl list
   \<Rightarrow> rrd_error option \<times> rrd_t \<times> dbl list" where
  "process_pdp_st env rrd i interval pre_int post_int diff_pdp_st pdp_new pdp_temp =
     (let ds = ds_def rrd ! i;
          p1 = pdp_add interval pre_int (pdp_prep rrd ! i) (pdp_new ! i);
          temp1 = pdp_temp[i := pdp_rate interval pre_int (ds_mrhb_cnt ds)
                     (pdp_step (stat_head rrd)) diff_pdp_st p1 (pdp_new ! i)];
          rrd1 = rrd\<lparr>pdp_prep := (pdp_prep rrd)[i := p1]\<rparr>;
          rrd2 = rrd\<lparr>pdp_prep := (pdp_prep rrd)[i := pdp_restart interval post_int p1 (pdp_new ! i)]\<rparr>
      in if dst_conv (dst ds) = None then (Some (Unknown_dst (dst ds)), rrd2, temp1)
         else if dst_conv (dst ds) = Some DST_CDEF
         then (case compute_ds env rrd i temp1 of
                 Inl e \<Rightarrow> (Some e, rrd1, temp1)
               | Inr temp2 \<Rightarrow> (None, rrd2, temp2))
         else (None, rrd2, temp1))"

text \<open>The loop over the data sources. A failed computation ends it; an unknown data source type
  only sets the error.\<close>

fun pdp_st_loop ::
  "rpn_env \<Rightarrow> nat \<Rightarrow> nat \<Rightarrow> dbl \<Rightarrow> dbl \<Rightarrow> dbl \<Rightarrow> clong \<Rightarrow> dbl list
   \<Rightarrow> rrd_error option \<Rightarrow> rrd_t \<Rightarrow> dbl list \<Rightarrow> bool \<times> rrd_error option \<times> rrd_t \<times> dbl list" where
  "pdp_st_loop env 0 i interval pre_int post_int diff_pdp_st pdp_new err rrd temp =
     (False, err, rrd, temp)"
| "pdp_st_loop env (Suc n) i interval pre_int post_int diff_pdp_st pdp_new err rrd temp =
     (case process_pdp_st env rrd i interval pre_int post_int diff_pdp_st pdp_new temp of
        (e, rrd', temp') \<Rightarrow>
          if e \<noteq> None \<and> dst_conv (dst (ds_def rrd ! i)) = Some DST_CDEF then (True, e, rrd', temp')
          else pdp_st_loop env n (Suc i) interval pre_int post_int diff_pdp_st pdp_new
                 (if e = None then err else e) rrd' temp')"

definition process_all_pdp_st ::
  "rpn_env \<Rightarrow> rrd_error option \<Rightarrow> rrd_t \<Rightarrow> dbl \<Rightarrow> dbl \<Rightarrow> dbl \<Rightarrow> ulong \<Rightarrow> dbl list \<Rightarrow> dbl list
   \<Rightarrow> bool \<times> rrd_error option \<times> rrd_t \<times> dbl list" where
  "process_all_pdp_st env err rrd interval pre_int post_int elapsed_pdp_st pdp_new pdp_temp =
     pdp_st_loop env (nat (ds_cnt (stat_head rrd))) 0 interval pre_int post_int
       (s64 (elapsed_pdp_st * pdp_step (stat_head rrd))) pdp_new err rrd pdp_temp"

section \<open>Lemmas on readings\<close>

lemma counter_wrap_forward: "0 \<le> d \<Longrightarrow> counter_wrap (Fin (of_int d)) = Fin (of_int d)"
  by (simp add: counter_wrap_def zero_dbl_def)

text \<open>The correction adds \<open>2 ^ 32 - 1\<close>.\<close>

lemma counter_wrap_32:
  assumes "- 4294967295 \<le> d" and "d < 0"
  shows "counter_wrap (Fin (of_int d)) = Fin (of_int (d + 4294967295))"
proof -
  have "Fin (of_int d) + dint 4294967295 = Fin (of_int (d + 4294967295))"
    using assms Fin_add_int [of d 4294967295] by (simp add: dint_exact)
  with assms show ?thesis by (simp add: counter_wrap_def zero_dbl_def Let_def del: of_int_add)
qed

lemma dst_conv_names [simp]:
  "dst_conv ''COUNTER'' = Some DST_COUNTER" "dst_conv ''GAUGE'' = Some DST_GAUGE"
  by (simp_all add: dst_conv_def)

lemma simple_integer_digits: "list_all is_digit s \<Longrightarrow> simple_integer d s"
  by (auto simp: simple_integer_def split: list.splits)

lemma digits_not_U: "list_all is_digit s \<Longrightarrow> take 1 s \<noteq> ''U''"
  by (cases s) (auto simp: is_digit_def)

lemma counter_reading:
  assumes old: "list_all is_digit old" "old \<noteq> []" and new: "list_all is_digit new" "new \<noteq> []"
    and m: "max (length new) (length old) \<le> 28" and small: "\<bar>dec_val 0 new - dec_val 0 old\<bar> \<le> 2 ^ 53"
  shows "ds_reading (Some DST_COUNTER) dn old new interval =
    Inr (let d = counter_wrap (Fin (of_int (dec_val 0 new - dec_val 0 old))) in (d, d / interval))"
  using rrd_diff_digits [OF new old m small] simple_integer_digits [OF new(1)] digits_not_U [OF old(1)]
  by (simp add: ds_reading_def Let_def)

section \<open>Lemmas on time steps\<close>

lemma calculate_elapsed_steps_value:
  assumes "0 < pdp_step (stat_head rrd)" and "pdp_step (stat_head rrd) < 2 ^ 31"
    and "0 \<le> last_up (live_head rrd)" and "last_up (live_head rrd) \<le> t" and "t < 2 ^ 62"
    and "t div pdp_step (stat_head rrd) - last_up (live_head rrd) div pdp_step (stat_head rrd) < 2 ^ 31"
  defines "step \<equiv> pdp_step (stat_head rrd)" and "old \<equiv> last_up (live_head rrd)"
  shows "calculate_elapsed_steps rrd t usec interval =
    (t div step - old div step,
     (if t div step > old div step
      then dint (t div step * step - old) - dint (last_up_usec (live_head rrd)) / dint 1000000
      else interval),
     (if t div step > old div step then dint (t mod step) + dint usec / dint 1000000 else 0),
     old div step)"
proof -
  have st: "0 < step" and ot: "0 \<le> old" "old \<le> t" "t < 2 ^ 62" using assms by simp_all
  have eqs: "old - old mod step = old div step * step" "t - t mod step = t div step * step"
    by (simp_all add: minus_mod_eq_div_mult)
  have le: "old div step \<le> t div step" using ot st by (simp add: zdiv_mono1)
  have rng: "0 \<le> old div step * step" "old div step * step \<le> t div step * step"
    "t div step * step \<le> t"
    using st ot le mult_right_mono [OF le, of step]
    by (simp_all add: pos_imp_zdiv_nonneg_iff minus_mod_eq_div_mult [symmetric] zmod_le_nonneg_dividend)
  have u: "u64 old = old" "u64 (old div step * step) = old div step * step"
    "u64 (t div step * step) = t div step * step"
    "u64 (t div step * step - old div step * step) = (t div step - old div step) * step"
    "s64 (t div step * step) = t div step * step"
    using rng ot by (simp_all add: u64_id s64_id left_diff_distrib)
  have n: "s32 (t div step - old div step) = t div step - old div step"
    "u64 (t div step - old div step) = t div step - old div step"
    using le assms(6) by (simp_all add: s32_id u64_id step_def old_def)
  have gt: "(t div step * step > old div step * step) = (t div step > old div step)"
    using st by simp
  show ?thesis
    unfolding calculate_elapsed_steps_def Let_def step_def [symmetric] old_def [symmetric]
    using st by (simp add: u eqs gt n split: if_splits)
qed

section \<open>A constant rate\<close>

lemma Fin_div_int:
  assumes "0 < b" and "\<bar>a\<bar> \<le> 2 ^ 53"
  shows "Fin (of_int (a * b)) / Fin (of_int b) = Fin (of_int a)"
proof -
  have "dpack (is_neg (Fin (of_int (a * b))) \<noteq> is_neg (Fin (of_int b))) (of_int a) = Fin (of_int a)"
    using assms by (intro dpack_exact [OF ok_int]) (auto simp: mult_less_0_iff)
  with assms(1) show ?thesis by (simp add: divide_dbl_def is_zero_def)
qed

lemma Fin_half:
  assumes "0 < k" and "k < 2 ^ 53"
  shows "dint k / dint 2 = Fin (of_int k / 2)"
proof -
  have half: "(of_int k / 2 :: rat) = of_int k * pow2 (- 1)" by (simp add: pow2_def)
  have "rnd53 (of_int k / 2) = of_int k / 2"
    unfolding rnd53_def half using assms by (intro rnd_to_exact) simp_all
  moreover have "(of_int k :: rat) < of_int (2 ^ 53)" using assms(2) by (simp only: of_int_less_iff)
  then have "(of_int k :: rat) / 2 < 2 ^ 1024" by simp
  ultimately have "dbl_ok (Fin (of_int k / 2))" using assms(1) by simp
  then show ?thesis
    using assms by (simp add: divide_dbl_def dint_exact is_zero_def dpack_exact)
qed

text \<open>The preparation area after \<open>k\<close> seconds at the rate \<open>r\<close> and \<open>u\<close> unknown seconds.\<close>

definition rate_prep :: "int \<Rightarrow> int \<Rightarrow> int \<Rightarrow> pdp_prep_t \<Rightarrow> bool" where
  "rate_prep r k u p \<longleftrightarrow>
     pdp_unkn_sec_cnt p = u \<and> (pdp_val p = Fin (of_int (r * k)) \<or> isnan (pdp_val p) \<and> k = 0)"

lemma mult_bound:
  fixes r a b :: int
  assumes "\<bar>r\<bar> * b \<le> m" and "0 \<le> a" and "a \<le> b"
  shows "\<bar>r * a\<bar> \<le> m"
  using assms mult_left_mono [of a b "\<bar>r\<bar>"] by (simp add: abs_mult)

lemma simple_update_rate:
  assumes "rate_prep r k u p" and "0 \<le> k" and "0 \<le> T" and "\<bar>r\<bar> * (k + T) \<le> 2 ^ 53"
  shows "rate_prep r (k + T) u (simple_update_ds i p (Fin (of_int (r * T))))"
proof -
  have "\<bar>r * k + r * T\<bar> \<le> 2 ^ 53"
    using mult_bound [OF assms(4), of "k + T"] assms by (simp add: distrib_left)
  then have "Fin (of_int (r * k)) + Fin (of_int (r * T)) = Fin (of_int (r * k + r * T))"
    by (rule Fin_add_int)
  with assms(1) show ?thesis
    by (auto simp: rate_prep_def simple_update_ds_def distrib_left simp del: of_int_add of_int_mult)
qed

lemma mult_int_exact:
  assumes "\<bar>r\<bar> * b \<le> 2 ^ 53" and "0 \<le> a" and "a \<le> b" and "0 < a \<or> 0 \<le> r"
  shows "Fin (of_int r) * Fin (of_int a) = Fin (of_int (r * a))"
  using Fin_mult_int [of r a] mult_bound [OF assms(1-3)] assms(2,4) by auto

lemma pdp_step_rate:
  assumes p: "rate_prep r k u p" and "0 \<le> k" and "0 \<le> u" and T: "0 < T" and P: "0 < P" "P \<le> T"
    and r: "0 \<le> r" and b: "r * (k + T) \<le> 2 ^ 53" "k + u + T \<le> 2 ^ 30" "0 < step" "step < 2 ^ 31"
    and live: "T \<le> mrhb" "mrhb \<le> 2 ^ 53" "2 * u \<le> step"
    and new: "new = Fin (of_int (r * T))"
    and p1: "p1 = pdp_add (dint T) (dint P) p new"
  shows "pdp_rate (dint T) (dint P) mrhb step (k + u + P) p1 new = Fin (of_int r)"
    and "0 \<le> Q \<Longrightarrow> Q \<le> T \<Longrightarrow> rate_prep r Q 0 (pdp_restart (dint T) (dint Q) p1 new)"
proof -
  have rT: "\<bar>r\<bar> * T \<le> 2 ^ 53" using mult_bound [OF _ _ _, of r "k + T" "2 ^ 53" T] b(1) r T assms(2)
    by (simp add: abs_mult)
  have T53: "T \<le> 2 ^ 53" "P \<le> 2 ^ 53" using b(2) P assms(2,3) by simp_all
  have rb: "\<bar>r\<bar> \<le> 2 ^ 53" using mult_bound [OF rT, of 1] T by simp
  have rate: "new / dint T = Fin (of_int r)"
    unfolding new using T T53 rb by (simp add: dint_exact Fin_div_int del: of_int_mult)
  have part: "Fin (of_int r) * dint a = Fin (of_int (r * a))" if "0 \<le> a" "a \<le> T" for a
    using that mult_int_exact [OF rT that] r T53 by (simp add: dint_exact)
  have add: "Fin (of_int (r * k)) + Fin (of_int (r * P)) = Fin (of_int (r * (k + P)))"
    using Fin_add_int [of "r * k" "r * P"] mult_bound [of r "k + T" "2 ^ 53" "k + P"] b(1) r P assms(2)
    by (simp add: distrib_left)
  have zero: "(0 :: dbl) + Fin (of_int (r * P)) = Fin (of_int (r * P))"
    using Fin_add_int [of 0 "r * P"] mult_bound [OF rT, of P] P by (simp add: zero_dbl_def)
  have val: "pdp_val p1 = Fin (of_int (r * (k + P)))" "pdp_unkn_sec_cnt p1 = u"
    using p P add zero part [of P]
    by (auto simp: p1 pdp_add_def rate_prep_def new rate [unfolded new] simp del: of_int_mult)
  have "u64 (k + u + P - u) = k + P" "s32 u = u"
    using b P assms(2,3) by (simp_all add: u64_id s32_id)
  moreover have "dint (k + P) = Fin (of_int (k + P))" using b(2) P assms(2,3) by (simp add: dint_exact)
  moreover have "Fin (of_int (r * (k + P))) / Fin (of_int (k + P)) = Fin (of_int r)"
    using P assms(2) rb by (intro Fin_div_int) simp_all
  moreover have "Fin (of_int (k + P)) - 0 = Fin (of_int (k + P))"
    using Fin_sub_int [of "k + P" 0] b(2) P assms(2,3) by (simp add: zero_dbl_def)
  moreover have "\<not> dint T > dint mrhb" using T live T53 by (simp add: dint_exact)
  moreover have "\<not> dint step / dint 2 < dint u"
    using Fin_half [of step] b live assms(3) by (simp add: dint_exact)
  ultimately show "pdp_rate (dint T) (dint P) mrhb step (k + u + P) p1 new = Fin (of_int r)"
    by (simp add: pdp_rate_def val new del: of_int_mult of_int_add)
  show "rate_prep r Q 0 (pdp_restart (dint T) (dint Q) p1 new)" if "0 \<le> Q" "Q \<le> T"
    using part [OF that] by (simp add: pdp_restart_def rate_prep_def new rate [unfolded new] del: of_int_mult)
qed



text \<open>What the code does with a \<open>COUNTER\<close> of less than \<open>2 ^ 32\<close> that is below its last reading: it is taken to have wrapped at 32 bits
  and gets \<open>2 ^ 32 - 1\<close> added, one less than the distance it has then covered, which the tutorial gives.\<close>

lemma counter_difference:
  assumes "list_all is_digit old" "old \<noteq> []" "length old \<le> 28"
    and "list_all is_digit new" "new \<noteq> []" "length new \<le> 28"
    and "dec_val 0 old < 2 ^ 32" and "dec_val 0 new < 2 ^ 32"
    and "d = (if dec_val 0 old \<le> dec_val 0 new then dec_val 0 new - dec_val 0 old
              else dec_val 0 new + 2 ^ 32 - dec_val 0 old - 1)"
  shows "ds_reading (Some DST_COUNTER) dn old new interval =
    Inr (Fin (of_int d), Fin (of_int d) / interval)"
proof -
  define x where "x = dec_val 0 new - dec_val 0 old"
  have pos: "0 \<le> dec_val 0 old" "0 \<le> dec_val 0 new"
    using dec_val_mono [of old 0] dec_val_mono [of new 0] assms by simp_all
  have small: "\<bar>x\<bar> \<le> 2 ^ 53" using pos assms(7,8) by (simp add: x_def)
  have "counter_wrap (Fin (of_int x)) = Fin (of_int d)"
    using counter_wrap_forward [of x] counter_wrap_32 [of x] pos assms(7-9) by (simp add: x_def)
  with counter_reading [OF assms(1,2,4,5) _ small [unfolded x_def], of dn interval] assms(3,6)
  show ?thesis by (simp add: x_def Let_def)
qed

lemma counter_difference_sample:
  "ds_reading (Some DST_COUNTER) ''COUNTER'' ''4294967295'' ''4'' (dint 1) = Inr (Fin 4, Fin 4 / dint 1) \<and>
   ds_reading (Some DST_COUNTER) ''COUNTER'' ''100'' ''160'' (dint 1) = Inr (Fin 60, Fin 60 / dint 1)"
proof
  have "ds_reading (Some DST_COUNTER) ''COUNTER'' ''4294967295'' ''4'' (dint 1) =
      Inr (Fin (of_int 4), Fin (of_int 4) / dint 1)"
    by (rule counter_difference) (simp_all add: is_digit_def digit_val_def)
  then show "ds_reading (Some DST_COUNTER) ''COUNTER'' ''4294967295'' ''4'' (dint 1) =
      Inr (Fin 4, Fin 4 / dint 1)" unfolding of_int_numeral .
  have "ds_reading (Some DST_COUNTER) ''COUNTER'' ''100'' ''160'' (dint 1) =
      Inr (Fin (of_int 60), Fin (of_int 60) / dint 1)"
    by (rule counter_difference) (simp_all add: is_digit_def digit_val_def)
  then show "ds_reading (Some DST_COUNTER) ''COUNTER'' ''100'' ''160'' (dint 1) =
      Inr (Fin 60, Fin 60 / dint 1)" unfolding of_int_numeral .
qed

text \<open>The steps between two updates. The number of elapsed steps is the difference of the step
  numbers of the two times; if it is positive, the interval is divided at the last step boundary
  into \<open>pre_int\<close> before and \<open>post_int\<close> after it.\<close>

theorem elapsed_steps_split:
  assumes "0 < pdp_step (stat_head rrd)" and "pdp_step (stat_head rrd) < 2 ^ 31"
    and "0 \<le> last_up (live_head rrd)" and "last_up (live_head rrd) \<le> t" and "t < 2 ^ 53"
    and "last_up_usec (live_head rrd) = 0"
    and "n = t div pdp_step (stat_head rrd) - last_up (live_head rrd) div pdp_step (stat_head rrd)"
    and "n < 2 ^ 31"
    and "calculate_elapsed_steps rrd t 0 interval = (elapsed, pre, post, proc)"
  shows "elapsed = n \<and> proc = last_up (live_head rrd) div pdp_step (stat_head rrd) \<and>
    (0 < n \<longrightarrow> pre + post = dint (t - last_up (live_head rrd)) \<and>
       post = dint (t mod pdp_step (stat_head rrd))) \<and>
    (n = 0 \<longrightarrow> pre = interval \<and> post = 0)"
proof -
  let ?step = "pdp_step (stat_head rrd)" and ?old = "last_up (live_head rrd)"
  have v: "calculate_elapsed_steps rrd t 0 interval =
    (t div ?step - ?old div ?step,
     (if t div ?step > ?old div ?step then dint (t div ?step * ?step - ?old) - dint 0 / dint 1000000
      else interval),
     (if t div ?step > ?old div ?step then dint (t mod ?step) + dint 0 / dint 1000000 else 0),
     ?old div ?step)"
    using calculate_elapsed_steps_value [of rrd t 0 interval] assms by simp
  have z: "dint 0 / dint 1000000 = Fin 0" by code_simp
  have m: "0 \<le> t mod ?step" "t mod ?step \<le> t" using assms(1,3,4) by (simp_all add: zmod_le_nonneg_dividend)
  have "dint (t div ?step * ?step - ?old) - Fin 0 = dint (t div ?step * ?step - ?old) \<and>
      dint (t mod ?step) + Fin 0 = dint (t mod ?step) \<and>
      dint (t div ?step * ?step - ?old) + dint (t mod ?step) = dint (t - ?old)"
    if "t div ?step > ?old div ?step"
  proof -
    have "t div ?step * ?step = t - t mod ?step" by (simp add: minus_mod_eq_div_mult)
    moreover have "\<bar>t - t mod ?step - ?old\<bar> \<le> 2 ^ 53" "\<bar>t mod ?step\<bar> \<le> 2 ^ 53" "\<bar>t - ?old\<bar> \<le> 2 ^ 53"
      using m assms(3-5) by linarith+
    ultimately show ?thesis
      using Fin_add_int [of "t - t mod ?step - ?old" "t mod ?step"] Fin_add_int [of "t mod ?step" 0]
        Fin_sub_int [of "t - t mod ?step - ?old" 0]
      by (simp add: dint_exact)
  qed
  with assms(7-9) v z show ?thesis by (auto split: if_splits)
qed

theorem elapsed_steps_split_witness:
  "case calculate_elapsed_steps sample_rrd 1200000750 0 (dint 750) of
     (elapsed, pre, post, proc) \<Rightarrow> elapsed = 2 \<and> pre + post = dint 750 \<and> post = dint 150"
proof -
  obtain e pre post proc where r: "calculate_elapsed_steps sample_rrd 1200000750 0 (dint 750) =
      (e, pre, post, proc)" by (metis prod_cases4)
  have t: "1200000750 mod pdp_step (stat_head sample_rrd) = 150"
    "1200000750 - last_up (live_head sample_rrd) = 750" by simp_all
  have "e = 2 \<and> proc = last_up (live_head sample_rrd) div pdp_step (stat_head sample_rrd) \<and>
      (0 < (2 :: int) \<longrightarrow> pre + post = dint (1200000750 - last_up (live_head sample_rrd)) \<and>
         post = dint (1200000750 mod pdp_step (stat_head sample_rrd))) \<and>
      ((2 :: int) = 0 \<longrightarrow> pre = dint 750 \<and> post = 0)"
    by (rule elapsed_steps_split [OF _ _ _ _ _ _ _ _ r]) simp_all
  then have "e = 2 \<and> pre + post = dint 750 \<and> post = dint 150" unfolding t by auto
  then show ?thesis unfolding r by auto
qed

text \<open>C23: A source that keeps a constant rate yields it, where no rounding can occur: the rate is a non-negative integer, times
  are whole seconds and the accumulated value is at most \<open>2 ^ 53\<close>. If the open data point has accumulated \<open>k\<close>
  seconds at the rate \<open>r\<close> and \<open>u\<close> unknown seconds, at most half a step of them, then the update that
  closes the step, within the heartbeat, gives the data point exactly the value \<open>r\<close>, and the rest of its
  interval starts the next data point at the same rate.\<close>

theorem constant_rate:
  assumes "rate_prep r k u p" and "0 \<le> k" and "0 \<le> u" and "0 < T" and "0 < P" and "P \<le> T"
    and "0 \<le> r" and "r * (k + T) \<le> 2 ^ 53" and "k + u + T \<le> 2 ^ 30" and "0 < step" and "step < 2 ^ 31"
    and "T \<le> mrhb" and "mrhb \<le> 2 ^ 53" and "2 * u \<le> step"
    and "new = Fin (of_int (r * T))" and "p1 = pdp_add (dint T) (dint P) p new"
  shows "pdp_rate (dint T) (dint P) mrhb step (k + u + P) p1 new = Fin (of_int r) \<and>
    rate_prep r (T - P) 0 (pdp_restart (dint T) (dint (T - P)) p1 new)"
  using pdp_step_rate [OF assms] assms(5,6) by simp

theorem constant_rate_witness:
  "pdp_rate (dint 200) (dint 150) 600 300 300 (pdp_add (dint 200) (dint 150)
     (sample_pdp\<lparr>pdp_unkn_sec_cnt := 50, pdp_val := Fin 700\<rparr>) (Fin 1400)) (Fin 1400) = Fin 7"
proof -
  have "rate_prep 7 100 50 (sample_pdp\<lparr>pdp_unkn_sec_cnt := 50, pdp_val := Fin 700\<rparr>)"
    by (simp add: rate_prep_def)
  from constant_rate [OF this, of 200 150 300 600, OF _ _ _ _ _ _ _ _ _ _ _ _ _ refl refl]
  show ?thesis by simp
qed

text \<open>C24: a reading that is accepted as known is no older than the heartbeat, is the one that
  the data source type makes of the string, and its rate is within the bounds of the data source;
  it is remembered as the last reading.\<close>

theorem accepted_reading:
  assumes "update_pdp_ds None ds prep upd interval = (False, err, prep', new)" and "\<not> isnan new"
  shows "interval \<le> dint (ds_mrhb_cnt ds) \<and> last_ds prep' = strlcpy_take LAST_DS_LEN upd \<and>
    (\<exists>rate. ds_reading (dst_conv (dst ds)) (dst ds) (last_ds prep) upd interval = Inr (new, rate) \<and>
       \<not> ds_max_val ds < rate \<and> \<not> rate < ds_min_val ds)"
proof -
  have ord: "\<not> dint (ds_mrhb_cnt ds) < interval" if "interval \<le> dint (ds_mrhb_cnt ds)"
    using that by (auto simp: dbl_order_defs split: if_splits)
  have nan: "\<not> x < NaN" "\<not> NaN < x" for x by (simp_all add: dbl_order_defs)
  from assms ord nan show ?thesis
    by (auto simp: update_pdp_ds_def Let_def rate_bound_def isnan_def split: if_splits sum.splits prod.splits)
qed

theorem accepted_reading_witness:
  "\<exists>rate. ds_reading (Some DST_GAUGE) ''GAUGE'' ''U'' ''21'' (dint 300) = Inr (Fin 6300, rate) \<and>
     \<not> ds_max_val (sample_ds ''temp'' ''GAUGE'') < rate"
proof -
  have "update_pdp_ds None (sample_ds ''temp'' ''GAUGE'') sample_pdp ''21'' (dint 300) =
      (False, None, sample_pdp\<lparr>last_ds := ''21''\<rparr>, Fin 6300)" by code_simp
  from accepted_reading [OF this] show ?thesis
    by (auto simp: sample_ds_def sample_pdp_def isnan_def)
qed

end
