(* ===== verification/Rrd_Reading.thy ===== *)
theory Rrd_Reading
  imports Rrd_Strtod Rrd_Sample Rrd_Parsetime
begin

text \<open>
  The arguments of an update: templates (\<open>parse_template\<close>, the redirection table of
  \<open>allocate_data_structures\<close>), the mapping of a template's values to the order of the file
  (\<open>rrd_map_template_to_values\<close>), the splitting of an update string (\<open>parse_ds\<close>) and its time
  (\<open>get_time_from_reading\<close>), all of \<open>rrd_update.c\<close>. The clock is the one of
  \<open>time_env\<close>; times after an \<open>@\<close> go through \<open>rrd_parsetime\<close>.
\<close>

section \<open>Mapping values to the file's order\<close>

abbreviation colon :: char where
  "colon \<equiv> CHR '':''"

definition count_fields :: "string \<Rightarrow> nat" where
  "count_fields s = (if s = [] then 0 else Suc (count_list s colon))"

text \<open>\<open>strchr(s, ':')\<close> and one character on, as often as the first argument says.\<close>

fun skip_fields :: "nat \<Rightarrow> string \<Rightarrow> string option" where
  "skip_fields 0 s = Some s"
| "skip_fields (Suc n) s =
     (case dropWhile (\<lambda>c. c \<noteq> colon) s of [] \<Rightarrow> None | _ # r \<Rightarrow> skip_fields n r)"

definition field_text :: "string \<Rightarrow> string" where
  "field_text s = takeWhile (\<lambda>c. c \<noteq> colon) s"

text \<open>\<open>_concat_field_n\<close>: the extended string; \<open>None\<close> for the return value -1.\<close>

definition concat_field_n :: "string \<Rightarrow> string \<Rightarrow> nat \<Rightarrow> string option" where
  "concat_field_n str val n = map_option (\<lambda>s. str @ field_text s) (skip_fields n val)"

text \<open>The search loop of \<open>_concat_field\<close>.\<close>

function find_field :: "string \<Rightarrow> string \<Rightarrow> nat \<Rightarrow> nat option" where
  "find_field nam tpl idx =
     (if take (length nam) tpl = nam \<and>
         (length tpl = length nam \<or> length nam < length tpl \<and> tpl ! length nam = colon)
      then Some idx
      else (case dropWhile (\<lambda>c. c \<noteq> colon) tpl of [] \<Rightarrow> None | _ # r \<Rightarrow> find_field nam r (Suc idx)))"
  by pat_completeness auto
termination
proof (relation "measure (\<lambda>(nam, tpl, idx). length tpl)")
  fix nam tpl :: string and idx x r
  assume "dropWhile (\<lambda>c. c \<noteq> colon) tpl = x # r"
  then have "length (x # r) \<le> length tpl" by (metis length_dropWhile_le)
  then show "((nam, r, Suc idx), nam, tpl, idx) \<in> measure (\<lambda>(nam, tpl, idx). length tpl)" by simp
qed simp

declare find_field.simps [simp del]

definition concat_field :: "string \<Rightarrow> string \<Rightarrow> string \<Rightarrow> string \<Rightarrow> (string \<times> nat) option" where
  "concat_field str tpl val field =
     (case find_field (field_text field) tpl 0 of
        Some i \<Rightarrow> map_option (\<lambda>s. (s, 1)) (concat_field_n (str @ [colon]) val (i + 1))
      | None \<Rightarrow> Some (str @ [colon] @ ''U'', 0))"

text \<open>The loop over the fields of the file's template.\<close>

fun map_loop :: "nat \<Rightarrow> string \<Rightarrow> string \<Rightarrow> string \<Rightarrow> string \<Rightarrow> nat \<Rightarrow> (string \<times> nat) option" where
  "map_loop 0 tpl val ptr mapped cnt = Some (mapped, cnt)"
| "map_loop (Suc k) tpl val ptr mapped cnt =
     (case concat_field mapped tpl val ptr of
        None \<Rightarrow> None
      | Some (mapped', ret) \<Rightarrow>
          map_loop k tpl val (tl (dropWhile (\<lambda>c. c \<noteq> colon) ptr)) mapped' (cnt + ret))"

definition rrd_map_template_to_values :: "string \<Rightarrow> string \<Rightarrow> string \<Rightarrow> rrd_error + string" where
  "rrd_map_template_to_values tpl file_tpl val =
     (if count_fields val = 0 \<or> count_fields tpl \<noteq> count_fields val - 1 then Inl Template_mismatch
      else if count_fields tpl > count_fields file_tpl then Inl Template_mismatch
      else case concat_field_n [] val 0 of
        None \<Rightarrow> Inl Template_mismatch
      | Some t \<Rightarrow>
          (case map_loop (count_fields file_tpl) tpl val file_tpl t 0 of
             None \<Rightarrow> Inl Template_mismatch
           | Some (mapped, cnt) \<Rightarrow>
               if cnt \<noteq> count_fields tpl then Inl Template_mismatch else Inr mapped))"

section \<open>The redirection table\<close>

text \<open>The table without a template: every data source that is not computed. The list has
  \<open>tmpl_cnt\<close> elements.\<close>

definition default_tmpl :: "rrd_t \<Rightarrow> int list" where
  "default_tmpl rrd =
     0 # filter (\<lambda>i. dst_conv (dst (nthi (ds_def rrd) (i - 1))) \<noteq> Some DST_CDEF)
           [1..int (nat (ds_cnt (stat_head rrd)))]"

fun parse_template_loop :: "rrd_t \<Rightarrow> string list \<Rightarrow> int list \<Rightarrow> rrd_error + int list" where
  "parse_template_loop rrd [] idx = Inr idx"
| "parse_template_loop rrd (nam # nams) idx =
     (if int (length idx) > ds_cnt (stat_head rrd) then Inl Template_too_long
      else let k = ds_match rrd nam + 1
           in if k = 0 then Inl (Unknown_ds_name nam) else parse_template_loop rrd nams (idx @ [k]))"

definition parse_template :: "rrd_t \<Rightarrow> string \<Rightarrow> rrd_error + int list" where
  "parse_template rrd tmplt = parse_template_loop rrd (split_at_char colon tmplt) [0]"

section \<open>The time of a reading\<close>

definition normalize_time :: "int \<times> int \<Rightarrow> int \<times> int" where
  "normalize_time t = (if snd t < 0 then (fst t - 1, snd t + 1000000) else t)"

definition initialize_time :: "time_env \<Rightarrow> int \<Rightarrow> time_t \<times> ulong" where
  "initialize_time te ver =
     (let t = normalize_time (te_now te) in (fst t, if ver \<ge> 3 then snd t else 0))"

definition reading_time :: "time_env \<Rightarrow> char \<Rightarrow> string \<Rightarrow> rrd_error + time_t \<times> ulong" where
  "reading_time te timesyntax str =
     (if timesyntax = CHR ''@''
      then (case rrd_parsetime te str of
              Inl e \<Rightarrow> Inl (Bad_time str)
            | Inr tv \<Rightarrow>
                if tv_type tv = RELATIVE_TO_END_TIME \<or> tv_type tv = RELATIVE_TO_START_TIME
                then Inl Relative_time else Inr (tv_time te tv, 0))
      else if str = ''N''
      then Inr (let t = normalize_time (te_now te) in (fst t, u64 (snd t)))
      else (case rrd_strtodbl str of (rc, v, _) \<Rightarrow>
              if rc \<noteq> 2 then Inl (Bad_time str)
              else let tmp = (if v < 0
                              then dint (fst (te_now te))
                                   + dint (snd (te_now te)) * to_float (Fin (1 / 1000000)) + v
                              else v);
                       t = d2s64 (dfloor tmp)
                   in Inr (t, u64 (d2s64 ((tmp - dint t) * dint 1000000)))))"

text \<open>What the parser of an update string returns: the return values -1, -2 and 0.\<close>

datatype parsed = Malformed rrd_error | Too_old time_t ulong | Reading "string list" time_t ulong

definition get_time_from_reading ::
  "time_env \<Rightarrow> rrd_t \<Rightarrow> char \<Rightarrow> string list \<Rightarrow> int \<Rightarrow> parsed" where
  "get_time_from_reading te rrd timesyntax updvals ver =
     (case reading_time te timesyntax (updvals ! 0) of
        Inl e \<Rightarrow> Malformed e
      | Inr (t, usec0) \<Rightarrow>
          let usec = (if ver < 3 then 0 else usec0); lh = live_head rrd
          in if t < last_up lh \<or> t = last_up lh \<and> s64 usec \<le> s64 (last_up_usec lh)
             then Too_old t usec else Reading updvals t usec)"

section \<open>Splitting an update string\<close>

text \<open>The values go to the places the table names; \<open>i\<close> counts them.\<close>

fun assign_values ::
  "int list \<Rightarrow> nat \<Rightarrow> string list \<Rightarrow> string list \<Rightarrow> rrd_error + string list \<times> nat" where
  "assign_values tmpl i [] updvals = Inr (updvals, i)"
| "assign_values tmpl i (v # vs) updvals =
     (if i < length tmpl
      then assign_values tmpl (Suc i) vs (updi updvals (tmpl ! i) v)
      else Inl (if i = 1 then Undefined else Extra_data))"

definition parse_ds :: "time_env \<Rightarrow> rrd_t \<Rightarrow> int list \<Rightarrow> string \<Rightarrow> int \<Rightarrow> parsed" where
  "parse_ds te rrd tmpl input ver =
     (let sep = (if CHR ''@'' \<in> set input then CHR ''@'' else colon)
      in if sep \<notin> set input then Malformed Timestamp_not_found
         else
           let time = takeWhile (\<lambda>c. c \<noteq> sep) input;
               vals = split_at_char colon (tl (dropWhile (\<lambda>c. c \<noteq> sep) input))
           in case assign_values tmpl 1 vals (time # replicate (nat (ds_cnt (stat_head rrd))) ''U'') of
                Inl e \<Rightarrow> Malformed e
              | Inr (updvals, i) \<Rightarrow>
                  if i \<noteq> length tmpl then Malformed Wrong_reading_count
                  else get_time_from_reading te rrd sep updvals ver)"

section \<open>Lemmas on the mapping\<close>

text \<open>Fields and separators.\<close>

fun join_colon :: "string list \<Rightarrow> string" where
  "join_colon [] = []"
| "join_colon [f] = f"
| "join_colon (f # fs) = f @ colon # join_colon fs"

lemma split_step:
  "split_at_char c s = takeWhile (\<lambda>x. x \<noteq> c) s #
     (case dropWhile (\<lambda>x. x \<noteq> c) s of [] \<Rightarrow> [] | _ # r \<Rightarrow> split_at_char c r)"
  by (induction s) auto

lemma split_fields:
  "dropWhile (\<lambda>x. x \<noteq> colon) s = [] \<Longrightarrow> split_at_char colon s = [field_text s]"
  "dropWhile (\<lambda>x. x \<noteq> colon) s = x # r \<Longrightarrow>
     split_at_char colon s = field_text s # split_at_char colon r"
  by (subst split_step, simp add: field_text_def del: dropWhile_eq_Nil_conv)+

lemma skip_fields_text:
  "map_option field_text (skip_fields n s) =
     (if n < length (split_at_char colon s) then Some (split_at_char colon s ! n) else None)"
proof (induction n arbitrary: s)
  case 0
  then show ?case by (cases "dropWhile (\<lambda>x. x \<noteq> colon) s") (simp_all add: split_fields)
next
  case (Suc n)
  show ?case
  proof (cases "dropWhile (\<lambda>x. x \<noteq> colon) s")
    case (Cons x r)
    then show ?thesis using Suc.IH [of r] by (simp add: split_fields(2) [OF Cons])
  qed (simp add: split_fields(1) del: dropWhile_eq_Nil_conv)
qed

text \<open>The position of a name in a list of fields.\<close>

fun field_index :: "string \<Rightarrow> string list \<Rightarrow> nat option" where
  "field_index nam [] = None"
| "field_index nam (f # fs) = (if f = nam then Some 0 else map_option Suc (field_index nam fs))"

lemma field_index_Some: "field_index nam fs = Some i \<Longrightarrow> i < length fs \<and> fs ! i = nam"
  by (induction fs arbitrary: i) (auto split: if_splits)

lemma field_index_None: "field_index nam fs = None \<longleftrightarrow> nam \<notin> set fs"
  by (induction fs) auto

lemma field_match:
  assumes "colon \<notin> set nam"
  shows "take (length nam) tpl = nam \<and>
      (length tpl = length nam \<or> length nam < length tpl \<and> tpl ! length nam = colon) \<longleftrightarrow>
    field_text tpl = nam"
  using assms
proof (induction nam arbitrary: tpl)
  case Nil
  then show ?case by (cases tpl) (auto simp: field_text_def)
next
  case (Cons c nam)
  show ?case
  proof (cases tpl)
    case (Cons d tpl')
    with Cons.IH [of tpl'] Cons.prems show ?thesis by (auto simp: field_text_def)
  qed (simp add: field_text_def)
qed

lemma find_field_index:
  assumes "colon \<notin> set nam"
  shows "find_field nam tpl idx =
    map_option (\<lambda>i. idx + i) (field_index nam (split_at_char colon tpl))"
  using assms
proof (induction nam tpl idx rule: find_field.induct)
  case (1 nam tpl idx)
  note match = field_match [OF "1.prems", of tpl]
  show ?case
  proof (cases "dropWhile (\<lambda>c. c \<noteq> colon) tpl")
    case Nil
    show ?thesis
      by (subst find_field.simps) (simp only: match Nil split_fields(1) [OF Nil], simp)
  next
    case (Cons x r)
    have "field_text tpl \<noteq> nam \<Longrightarrow> find_field nam r (Suc idx) =
        map_option (\<lambda>i. Suc idx + i) (field_index nam (split_at_char colon r))"
      using "1.IH" [OF _ Cons "1.prems"] match by blast
    then show ?thesis
      by (subst find_field.simps)
        (simp only: match Cons split_fields(2) [OF Cons], simp add: option.map_comp comp_def)
  qed
qed

text \<open>The value a field of the file gets: the one under its name, or unknown.\<close>

definition mapped_value :: "string list \<Rightarrow> string list \<Rightarrow> string \<Rightarrow> string" where
  "mapped_value tfs vfs nam =
     (case field_index nam tfs of Some i \<Rightarrow> vfs ! Suc i | None \<Rightarrow> ''U'')"

lemma concat_field_value:
  assumes "length (split_at_char colon val) = Suc (length (split_at_char colon tpl))"
  shows "concat_field str tpl val field =
    Some (str @ colon # mapped_value (split_at_char colon tpl) (split_at_char colon val) (field_text field),
          if field_text field \<in> set (split_at_char colon tpl) then 1 else 0)"
proof -
  have nocolon: "colon \<notin> set (field_text field)"
    by (auto simp: field_text_def dest: set_takeWhileD)
  show ?thesis
  proof (cases "field_index (field_text field) (split_at_char colon tpl)")
    case None
    moreover from None have "field_text field \<notin> set (split_at_char colon tpl)"
      by (simp add: field_index_None)
    ultimately show ?thesis using find_field_index [OF nocolon, of tpl 0]
      by (simp add: concat_field_def mapped_value_def)
  next
    case (Some i)
    note i = field_index_Some [OF Some]
    have "map_option field_text (skip_fields (Suc i) val) = Some (split_at_char colon val ! Suc i)"
      using i assms by (simp add: skip_fields_text del: skip_fields.simps)
    then obtain r where "skip_fields (Suc i) val = Some r" "field_text r = split_at_char colon val ! Suc i"
      by auto
    moreover have "field_text field \<in> set (split_at_char colon tpl)" using i by (metis nth_mem)
    ultimately show ?thesis using Some find_field_index [OF nocolon, of tpl 0]
      by (simp add: concat_field_def concat_field_n_def mapped_value_def del: skip_fields.simps)
  qed
qed

lemma map_loop_value:
  assumes "length (split_at_char colon val) = Suc (length (split_at_char colon tpl))"
  shows "map_loop (length (split_at_char colon ptr)) tpl val ptr mapped cnt =
    Some (mapped @ concat (map (\<lambda>f. colon # mapped_value (split_at_char colon tpl)
            (split_at_char colon val) f) (split_at_char colon ptr)),
          cnt + length (filter (\<lambda>f. f \<in> set (split_at_char colon tpl)) (split_at_char colon ptr)))"
proof (induction "length ptr" arbitrary: ptr mapped cnt rule: less_induct)
  case less
  show ?case
  proof (cases "dropWhile (\<lambda>c. c \<noteq> colon) ptr")
    case Nil
    show ?thesis by (simp add: split_fields(1) [OF Nil] concat_field_value [OF assms])
  next
    case (Cons x r)
    have "length (x # r) \<le> length ptr" by (metis Cons length_dropWhile_le)
    with less.hyps [of r] show ?thesis
      by (simp add: split_fields(2) [OF Cons] Cons concat_field_value [OF assms])
  qed
qed

lemma join_colon_concat: "t @ concat (map (\<lambda>f. colon # g f) fs) = join_colon (t # map g fs)"
proof (induction fs arbitrary: t)
  case (Cons a fs)
  show ?case by (simp add: Cons.IH [symmetric])
qed simp

lemma count_fields_split: "s \<noteq> [] \<Longrightarrow> count_fields s = length (split_at_char colon s)"
  by (simp add: count_fields_def length_split_at_char)

lemma map_template_value:
  fixes tpl file_tpl val :: string
  defines "ts \<equiv> split_at_char colon tpl" and "fs \<equiv> split_at_char colon file_tpl"
    and "vs \<equiv> split_at_char colon val"
  assumes ne: "tpl \<noteq> []" "file_tpl \<noteq> []" "val \<noteq> []" and len: "length vs = Suc (length ts)"
    and d: "distinct ts" "distinct fs" and sub: "set ts \<subseteq> set fs"
  shows "rrd_map_template_to_values tpl file_tpl val = Inr (join_colon (hd vs # map (mapped_value ts vs) fs))"
proof -
  have cnt: "length (filter (\<lambda>f. f \<in> set ts) fs) = length ts"
  proof -
    have "length (filter (\<lambda>f. f \<in> set ts) fs) = card (set ts \<inter> set fs)"
      using d(2) by (metis distinct_card distinct_filter inf_commute set_filter Collect_conj_eq Collect_mem_eq)
    then show ?thesis using sub d(1) by (simp add: Int_absorb2 distinct_card)
  qed
  have "length ts \<le> length fs" using sub d by (metis card_mono distinct_card List.finite_set)
  moreover have "concat_field_n [] val 0 = Some (hd vs)"
    by (simp add: concat_field_n_def vs_def field_text_def) (subst split_step, simp)
  moreover have "map_loop (length fs) tpl val file_tpl (hd vs) 0 =
      Some (join_colon (hd vs # map (mapped_value ts vs) fs), length ts)"
    using map_loop_value [of val tpl file_tpl "hd vs" 0] len cnt
    by (simp add: ts_def fs_def vs_def join_colon_concat)
  ultimately show ?thesis using len
    by (simp add: rrd_map_template_to_values_def count_fields_split [OF ne(1)] count_fields_split [OF ne(2)]
        count_fields_split [OF ne(3)] ts_def [symmetric] fs_def [symmetric] vs_def [symmetric])
qed

text \<open>C26: values given in the order of a template are brought into the order of the file: the time
  stays first, every data source of the file gets the value that stands under its name, and
  those the template does not name get \<open>U\<close>.\<close>

theorem template_mapping:
  assumes "tpl \<noteq> []" "file_tpl \<noteq> []" "val \<noteq> []"
    and "ts = split_at_char colon tpl" and "fs = split_at_char colon file_tpl"
    and "vs = split_at_char colon val"
    and "length vs = Suc (length ts)" and "distinct ts" "distinct fs" and "set ts \<subseteq> set fs"
  shows "rrd_map_template_to_values tpl file_tpl val = Inr (join_colon (hd vs # map (mapped_value ts vs) fs))"
  using map_template_value assms by blast

theorem template_mapping_witness:
  "rrd_map_template_to_values ''in:temp'' ''temp:out:in'' ''N:8:21'' = Inr ''N:21:U:8''"
  using template_mapping [of "''in:temp''" "''temp:out:in''" "''N:8:21''", OF _ _ _ refl refl refl]
  by (simp add: mapped_value_def)

lemma parse_template_loop_ok:
  assumes "rrd_wf rrd" and "parse_template_loop rrd nams idx = Inr idx'"
  shows "\<exists>ks. idx' = idx @ ks \<and> length ks = length nams \<and>
    (\<forall>j < length ks. 1 \<le> ks ! j \<and> ks ! j \<le> int (nds rrd) \<and> ds_nam (ds_def rrd ! nat (ks ! j - 1)) = nams ! j)"
  using assms(2)
proof (induction nams arbitrary: idx)
  case (Cons nam nams)
  define k where "k = ds_match rrd nam + 1"
  have ok: "k \<noteq> 0" "parse_template_loop rrd nams (idx @ [k]) = Inr idx'"
    using Cons.prems by (auto simp: k_def Let_def split: if_splits)
  have m: "ds_match rrd nam = ds_match_loop 0 (ds_def rrd) nam"
    by (simp add: ds_match_def rrd_wfD(1) [OF assms(1)])
  have k: "1 \<le> k" "k \<le> int (nds rrd)" "ds_nam (ds_def rrd ! nat (k - 1)) = nam"
    using ds_match_loop_found [of 0 "ds_def rrd" nam "k - 1"] ok(1) m by (auto simp: k_def)
  from Cons.IH [OF ok(2)] obtain ks where ks: "idx' = idx @ k # ks" "length ks = length nams"
    "\<forall>j < length ks. 1 \<le> ks ! j \<and> ks ! j \<le> int (nds rrd) \<and> ds_nam (ds_def rrd ! nat (ks ! j - 1)) = nams ! j"
    by auto
  with k show ?case by (intro exI [of _ "k # ks"]) (auto simp: nth_Cons split: nat.splits)
qed simp

text \<open>a template that is accepted names only data sources of the file, and the table it gives
  refers to them in the order of the template, the time being the first element.\<close>

theorem parse_template_ok:
  assumes "rrd_wf rrd" and "parse_template rrd tmplt = Inr idx"
  shows "length idx = Suc (length (split_at_char colon tmplt)) \<and> idx ! 0 = 0 \<and>
    (\<forall>j < length (split_at_char colon tmplt). 1 \<le> idx ! Suc j \<and> idx ! Suc j \<le> int (nds rrd) \<and>
       ds_nam (ds_def rrd ! nat (idx ! Suc j - 1)) = split_at_char colon tmplt ! j)"
  using parse_template_loop_ok [OF assms(1) assms(2) [unfolded parse_template_def]] by auto

theorem parse_template_ok_witness:
  "\<exists>idx. parse_template sample_rrd ''in:temp'' = Inr idx \<and> length idx = 3 \<and>
     ds_nam (ds_def sample_rrd ! nat (idx ! 1 - 1)) = ''in''"
proof -
  have r: "parse_template sample_rrd ''in:temp'' = Inr [0, 2, 1]" by code_simp
  have "split_at_char colon ''in:temp'' = [''in'', ''temp'']" by code_simp
  with parse_template_ok [OF sample_wf r] r show ?thesis by auto
qed

text \<open>The place a value is stored in.\<close>

lemma assign_values_places:
  assumes "assign_values tmpl i vs updvals = Inr (updvals', n)" and "distinct (drop i tmpl)"
    and "\<forall>j < length tmpl. 0 \<le> tmpl ! j \<and> tmpl ! j < int (length updvals)"
  shows "n = i + length vs \<and> length updvals' = length updvals \<and> (vs \<noteq> [] \<longrightarrow> n \<le> length tmpl) \<and>
    (\<forall>j < length vs. updvals' ! nat (tmpl ! (i + j)) = vs ! j) \<and>
    (\<forall>p. (\<forall>j < length vs. nat (tmpl ! (i + j)) \<noteq> p) \<longrightarrow> updvals' ! p = updvals ! p)"
  using assms
proof (induction tmpl i vs updvals rule: assign_values.induct)
  case (2 tmpl i v vs updvals)
  have i: "i < length tmpl" and r: "assign_values tmpl (Suc i) vs (updi updvals (tmpl ! i) v) = Inr (updvals', n)"
    using "2.prems"(1) by (auto split: if_splits)
  have d: "distinct (drop (Suc i) tmpl)" "tmpl ! i \<notin> set (drop (Suc i) tmpl)"
    using "2.prems"(2) i by (auto simp: Cons_nth_drop_Suc [symmetric])
  have "\<forall>j < length tmpl. 0 \<le> tmpl ! j \<and> tmpl ! j < int (length (updi updvals (tmpl ! i) v))"
    using "2.prems"(3) by simp
  from "2.IH" [OF i r d(1) this] have IH: "n = Suc i + length vs"
    "length updvals' = length updvals" "vs \<noteq> [] \<longrightarrow> n \<le> length tmpl"
    "\<forall>j < length vs. updvals' ! nat (tmpl ! (Suc i + j)) = vs ! j"
    "\<forall>p. (\<forall>j < length vs. nat (tmpl ! (Suc i + j)) \<noteq> p) \<longrightarrow> updvals' ! p = updi updvals (tmpl ! i) v ! p"
    unfolding length_list_update by blast+
  have le: "n \<le> length tmpl" using IH(1,3) i by (cases vs) auto
  have other: "nat (tmpl ! (Suc i + j)) \<noteq> nat (tmpl ! i)" if "j < length vs" for j
  proof -
    have "Suc i + j < length tmpl" using that le IH(1) by simp
    moreover from this have "tmpl ! (Suc i + j) \<in> set (drop (Suc i) tmpl)"
      by (metis Suc_leI i in_set_conv_nth length_drop less_diff_conv add.commute nth_drop)
    then have "tmpl ! (Suc i + j) \<noteq> tmpl ! i" using d(2) by auto
    ultimately show ?thesis using "2.prems"(3) i by (metis eq_nat_nat_iff)
  qed
  have v: "updvals' ! nat (tmpl ! i) = v"
    using IH(5) other "2.prems"(3) i by (auto simp: nat_less_iff)
  have "updvals' ! nat (tmpl ! (i + j)) = (v # vs) ! j" if "j < Suc (length vs)" for j
    using that v IH(4) by (cases j) auto
  moreover have "updvals' ! p = updvals ! p" if "\<forall>j < Suc (length vs). nat (tmpl ! (i + j)) \<noteq> p" for p
  proof -
    have "nat (tmpl ! (Suc i + j)) \<noteq> p" if "j < length vs" for j
      using \<open>\<forall>j < Suc (length vs). nat (tmpl ! (i + j)) \<noteq> p\<close> [rule_format, of "Suc j"] that by simp
    then have "updvals' ! p = updi updvals (tmpl ! i) v ! p" using IH(5) by blast
    then show ?thesis using that [rule_format, of 0] by simp
  qed
  ultimately show ?case using IH(1,2) le by auto
qed simp


text \<open>C22: an update string that is accepted. The time in front is later than the last update, in
  seconds or else in microseconds; every value stands at the place the table names for it, there
  are as many values as the table names, and every other data source is unknown.\<close>

theorem parse_ds_reading:
  assumes "parse_ds te rrd tmpl input ver = Reading updvals t usec"
    and "distinct tmpl" and "tmpl \<noteq> []"
    and "\<forall>j < length tmpl. 0 \<le> tmpl ! j \<and> tmpl ! j \<le> ds_cnt (stat_head rrd)"
    and "sep = (if CHR ''@'' \<in> set input then CHR ''@'' else colon)"
    and "vals = split_at_char colon (tl (dropWhile (\<lambda>c. c \<noteq> sep) input))"
  shows "(last_up (live_head rrd) < t \<or>
      last_up (live_head rrd) = t \<and> s64 (last_up_usec (live_head rrd)) < s64 usec) \<and>
    length vals = length tmpl - 1 \<and> length updvals = Suc (nat (ds_cnt (stat_head rrd))) \<and>
    (\<forall>j < length vals. updvals ! nat (tmpl ! Suc j) = vals ! j) \<and>
    (\<forall>p < nat (ds_cnt (stat_head rrd)). int (Suc p) \<notin> set (tl tmpl) \<longrightarrow> updvals ! Suc p = ''U'')"
proof -
  define time where "time = takeWhile (\<lambda>c. c \<noteq> sep) input"
  define init where "init = time # replicate (nat (ds_cnt (stat_head rrd))) ''U''"
  obtain n where a: "assign_values tmpl 1 vals init = Inr (updvals, n)" and n: "n = length tmpl"
    and later: "last_up (live_head rrd) < t \<or>
      last_up (live_head rrd) = t \<and> s64 (last_up_usec (live_head rrd)) < s64 usec"
    using assms(1)
    unfolding parse_ds_def Let_def assms(5) [symmetric] assms(6) [symmetric] time_def [symmetric]
      init_def [symmetric]
    by (auto simp: get_time_from_reading_def Let_def not_less not_le order_le_less split: if_splits sum.splits prod.splits)
  obtain x ts where tmpl: "tmpl = x # ts" using assms(3) by (cases tmpl) auto
  have range: "\<forall>j < length tmpl. 0 \<le> tmpl ! j \<and> tmpl ! j < int (length init)"
    using assms(4) by (fastforce simp: init_def)
  note places = assign_values_places [OF a _ range]
  have d: "distinct (drop 1 tmpl)" using assms(2) by simp
  have len: "length vals = length ts" using places [OF d] n tmpl by simp
  have "updvals ! Suc p = ''U''" if p: "p < nat (ds_cnt (stat_head rrd))" "int (Suc p) \<notin> set ts" for p
  proof -
    have "nat (tmpl ! (1 + j)) \<noteq> Suc p" if "j < length vals" for j
      using that p(2) len tmpl range [rule_format, of "Suc j"] by (force simp: in_set_conv_nth)
    then have "updvals ! Suc p = init ! Suc p" using places [OF d] by blast
    then show ?thesis using p(1) by (simp add: init_def)
  qed
  with places [OF d] later len tmpl show ?thesis by (auto simp: init_def)
qed

text \<open>A time in digits is read as it stands.\<close>

lemma reading_time_digits:
  assumes "list_all is_digit s" and "s \<noteq> []" and "dec_val 0 s \<le> 2 ^ 53"
  shows "reading_time te colon s = Inr (dec_val 0 s, 0)"
proof -
  have nn: "0 \<le> dec_val 0 s" using dec_val_mono [OF assms(1), of 0] by simp
  have N: "s \<noteq> ''N''" using assms(1) by (auto simp: is_digit_def)
  have v: "rrd_strtodbl s = (2, Fin (of_int (dec_val 0 s)), [])"
    using rrd_strtodbl_digits [OF assms, of "[]"] by simp
  have t: "d2s64 (Fin (of_int (dec_val 0 s))) = dec_val 0 s"
    using nn assms(3) by (simp add: d2s64_def rtrunc_def Let_def isinf_def)
  have z: "Fin (of_int (dec_val 0 s)) - dint (dec_val 0 s) = Fin 0"
    using Fin_sub_int [of "dec_val 0 s" "dec_val 0 s"] nn assms(3) by (simp add: dint_exact)
  have m: "Fin 0 * dint 1000000 = Fin 0" "d2s64 (Fin 0) = 0"
    by (simp_all add: times_dbl_def dint_exact d2s64_def rtrunc_def isinf_def)
  from nn show ?thesis
    by (simp add: reading_time_def N v t z m dfloor_def zero_dbl_def u64_def)
qed

theorem parse_ds_reading_witness:
  "\<exists>updvals t usec. parse_ds sample_time sample_rrd [0, 2] ''1200000300:8'' 3 = Reading updvals t usec \<and>
     1200000000 \<le> t \<and> updvals ! 2 = ''8'' \<and> updvals ! 1 = ''U''"
proof -
  have "reading_time sample_time colon ''1200000300'' = Inr (1200000300, 0)"
    using reading_time_digits [of "''1200000300''"] by (simp add: is_digit_def digit_val_def)
  then have r: "parse_ds sample_time sample_rrd [0, 2] ''1200000300:8'' 3 =
      Reading [''1200000300'', ''U'', ''8''] 1200000300 0"
    by (simp add: parse_ds_def get_time_from_reading_def numeral_2_eq_2)
  have v: "split_at_char colon (tl (dropWhile (\<lambda>c. c \<noteq> colon) ''1200000300:8'')) = [''8'']" by simp
  from parse_ds_reading [OF r _ _ _ refl refl] v r show ?thesis
    by (auto simp: less_Suc_eq numeral_2_eq_2)
qed

end
