(* ===== verification/Rrd_Update.thy ===== *)
theory Rrd_Update
  imports Rrd_Cdp Rrd_Pdp Rrd_Reading
begin

text \<open>
  An update from its arguments to the archives: the functions of \<open>rrd_update.c\<close> from
  \<open>update_all_cdp_prep\<close> to \<open>_rrd_updatex\<close>. The state they share, in C the \<open>rrd_t\<close>, the mapped
  file and the arrays allocated by \<open>allocate_data_structures\<close>, is the record \<open>ustate\<close>; its
  first field is the error slot of \<open>rrd_set_error\<close>. A function returns the C return value
  (0, -1 or -2) and the state. \<open>malloc\<close> and \<open>rrd_open\<close> are taken to succeed.
\<close>

section \<open>State\<close>

text \<open>One entry of the summary that \<open>rrd_update_v\<close> returns.\<close>

record summary_entry =
  se_time :: time_t
  se_cf :: string
  se_pdp_cnt :: ulong
  se_ds :: string
  se_val :: dbl

record ustate =
  u_err :: "rrd_error option"
  u_rrd :: rrd_t
  u_file :: rrd_file_t
  u_smooth :: bool
  u_steps :: "ulong list"
  u_skip :: "ulong list"
  u_temp :: "dbl list"
  u_last_seasonal :: "dbl list option"
  u_seasonal :: "dbl list option"
  u_summary :: "summary_entry list option"

definition coef_list :: "dbl list option \<Rightarrow> dbl list" where
  "coef_list c = (case c of None \<Rightarrow> [] | Some vs \<Rightarrow> vs)"

text \<open>The size of an archive in the file.\<close>

definition rra_bytes :: "rrd_t \<Rightarrow> ulong \<Rightarrow> ulong" where
  "rra_bytes rrd rra_idx = row_cnt (rra_at rrd rra_idx) * ds_cnt (stat_head rrd) * 8"

section \<open>Preparation of the archives\<close>

definition cdp_prep_ds ::
  "ulong \<Rightarrow> ulong \<Rightarrow> ulong \<Rightarrow> ulong \<Rightarrow> dbl list \<Rightarrow> dbl list \<Rightarrow> dbl list \<Rightarrow> cf_en \<Rightarrow> nat \<Rightarrow> rrd_t \<Rightarrow> rrd_t" where
  "cdp_prep_ds elapsed start steps rra_idx temp last_sc sc cf ds_idx rrd =
     (let cdp_idx = cdp_index rrd rra_idx (int ds_idx); def = rra_at rrd rra_idx
      in if pdp_cnt def > 1
         then cdp_upd rrd cdp_idx (update_cdp cf (temp ! ds_idx) steps elapsed start (pdp_cnt def)
                                     (rra_cdp_xff_val def))
         else if elapsed > 2
         then reset_cdp rrd elapsed temp last_sc sc rra_idx (int ds_idx) cdp_idx cf
         else rrd)"

text \<open>The loop over the data sources; it cannot set an error, and is not entered with one.\<close>

definition update_cdp_prep ::
  "rrd_t \<Rightarrow> ulong \<Rightarrow> ulong \<Rightarrow> ulong \<Rightarrow> ulong \<Rightarrow> dbl list \<Rightarrow> dbl list \<Rightarrow> dbl list \<Rightarrow> cf_en \<Rightarrow> rrd_t" where
  "update_cdp_prep rrd elapsed start steps rra_idx temp last_sc sc cf =
     fold (cdp_prep_ds elapsed start steps rra_idx temp last_sc sc cf)
       [0..<nat (ds_cnt (stat_head rrd))] rrd"

definition BURNIN_CYCLES :: int where
  "BURNIN_CYCLES = 3"

definition do_schedule_smooth :: "rrd_t \<Rightarrow> ulong \<Rightarrow> ulong \<Rightarrow> bool \<times> rrd_t" where
  "do_schedule_smooth rrd rra_idx elapsed =
     (let cdp_idx = rra_idx * ds_cnt (stat_head rrd);
          next_row = u64 (nthi (rra_ptr rrd) rra_idx + elapsed);
          rows = row_cnt (rra_at rrd rra_idx);
          smooth_idx = rra_seasonal_smooth_idx (rra_at rrd rra_idx)
      in if cdp_init_seasonal (cdp_at rrd cdp_idx) > BURNIN_CYCLES
         then (if smooth_idx > nthi (rra_ptr rrd) rra_idx then (next_row \<ge> smooth_idx, rrd)
               else (next_row \<ge> rows \<and> next_row \<ge> u64 (rows + smooth_idx), rrd))
         else if next_row \<ge> rows
         then (let init = u64 (cdp_init_seasonal (cdp_at rrd cdp_idx) + 1)
               in (init \<noteq> 0, cdp_upd rrd cdp_idx (\<lambda>c. c\<lparr>cdp_null_count := init\<rparr>)))
         else (False, rrd))"

text \<open>The seasonal part of the loop body of \<open>update_all_cdp_prep\<close>.\<close>

definition prep_seasonal :: "ulong \<Rightarrow> ulong \<Rightarrow> ulong \<Rightarrow> ustate \<Rightarrow> ustate" where
  "prep_seasonal elapsed rra_start rra_idx s =
     (let s1 =
        (if nthi (u_steps s) rra_idx > 1
         then (case lookup_seasonal (u_rrd s) rra_idx rra_start (u_file s) elapsed (u_last_seasonal s) of
                 (e1, f1, lsc) \<Rightarrow>
               (case lookup_seasonal (u_rrd s) rra_idx rra_start f1 (elapsed + 1) (u_seasonal s) of
                 (e2, f2, sc) \<Rightarrow>
                   s\<lparr>u_skip := updi (u_skip s) rra_idx 1, u_file := f2,
                     u_last_seasonal := lsc, u_seasonal := sc,
                     u_err := (if e2 \<noteq> None then e2 else if e1 \<noteq> None then e1 else u_err s)\<rparr>))
         else s)
      in case do_schedule_smooth (u_rrd s1) rra_idx elapsed of
           (sm, rrd') \<Rightarrow> s1\<lparr>u_rrd := rrd', u_smooth := u_smooth s1 \<or> sm\<rparr>)"

definition prep_rra :: "ulong \<Rightarrow> ulong \<Rightarrow> ulong \<Rightarrow> ulong \<Rightarrow> ustate \<Rightarrow> int \<times> ustate" where
  "prep_rra elapsed proc rra_start rra_idx s =
     (let def = rra_at (u_rrd s) rra_idx;
          start = start_offset (pdp_cnt def) proc;
          s1 = s\<lparr>u_skip := updi (u_skip s) rra_idx 0,
                 u_steps := updi (u_steps s) rra_idx
                   (step_count elapsed start (pdp_cnt def) (row_cnt def))\<rparr>
      in case rrd_cf_conv (cf_nam def) of
           None \<Rightarrow> (- 1, s1\<lparr>u_err := Some (Unknown_cf (cf_nam def))\<rparr>)
         | Some cf \<Rightarrow>
             let s2 = (if cf = CF_SEASONAL \<or> cf = CF_DEVSEASONAL
                       then prep_seasonal elapsed rra_start rra_idx s1 else s1)
             in if u_err s2 \<noteq> None then (- 1, s2)
                else (0, s2\<lparr>u_rrd := update_cdp_prep (u_rrd s2) elapsed start
                        (nthi (u_steps s2) rra_idx) rra_idx (u_temp s2)
                        (coef_list (u_last_seasonal s2)) (coef_list (u_seasonal s2)) cf\<rparr>))"

fun prep_loop :: "nat \<Rightarrow> ulong \<Rightarrow> ulong \<Rightarrow> ulong \<Rightarrow> ulong \<Rightarrow> ustate \<Rightarrow> int \<times> ustate" where
  "prep_loop 0 elapsed proc rra_start rra_idx s = (0, s)"
| "prep_loop (Suc n) elapsed proc rra_start rra_idx s =
     (case prep_rra elapsed proc rra_start rra_idx s of
        (ret, s') \<Rightarrow>
          if ret \<noteq> 0 then (ret, s')
          else prep_loop n elapsed proc (rra_start + rra_bytes (u_rrd s') rra_idx) (rra_idx + 1) s')"

definition update_all_cdp_prep :: "ulong \<Rightarrow> ulong \<Rightarrow> ulong \<Rightarrow> ustate \<Rightarrow> int \<times> ustate" where
  "update_all_cdp_prep rra_begin elapsed proc s =
     prep_loop (nat (rra_cnt (stat_head (u_rrd s)))) elapsed proc rra_begin 0 s"

section \<open>Aberrant behaviour detection\<close>

definition aberrant_ds :: "scratch_idx \<Rightarrow> cf_en \<Rightarrow> ulong \<Rightarrow> nat \<Rightarrow> ustate \<Rightarrow> ustate" where
  "aberrant_ds sidx cf rra_idx ds_idx s =
     (case update_aberrant_CF (u_rrd s) (u_temp s ! ds_idx) cf
             (cdp_index (u_rrd s) rra_idx (int ds_idx)) rra_idx (int ds_idx) sidx
             (coef_list (u_seasonal s)) of
        (e, rrd') \<Rightarrow> s\<lparr>u_rrd := rrd', u_err := (if e \<noteq> None then e else u_err s)\<rparr>)"

definition aberrant_rra ::
  "scratch_idx \<Rightarrow> ulong \<Rightarrow> ulong \<Rightarrow> ulong \<Rightarrow> ustate \<Rightarrow> int \<times> ustate" where
  "aberrant_rra sidx elapsed rra_start rra_idx s =
     (if pdp_cnt (rra_at (u_rrd s) rra_idx) \<noteq> 1 then (0, s)
      else case rrd_cf_conv (cf_nam (rra_at (u_rrd s) rra_idx)) of
        None \<Rightarrow> (- 1, s\<lparr>u_err := Some (Unknown_cf (cf_nam (rra_at (u_rrd s) rra_idx)))\<rparr>)
      | Some cf \<Rightarrow>
          let s1 = (if cf = CF_SEASONAL \<or> cf = CF_DEVSEASONAL
                    then (case lookup_seasonal (u_rrd s) rra_idx rra_start (u_file s)
                                 (elapsed + (if sidx = CDP_primary_val then 1 else 2)) (u_seasonal s) of
                            (e, f', sc) \<Rightarrow>
                              s\<lparr>u_file := f', u_seasonal := sc,
                                u_err := (if e \<noteq> None then e else u_err s)\<rparr>)
                    else s)
          in if u_err s1 \<noteq> None then (- 1, s1)
             else (0, fold (aberrant_ds sidx cf rra_idx) [0..<nat (ds_cnt (stat_head (u_rrd s1)))] s1))"

fun aberrant_loop ::
  "nat \<Rightarrow> scratch_idx \<Rightarrow> ulong \<Rightarrow> ulong \<Rightarrow> ulong \<Rightarrow> ustate \<Rightarrow> int \<times> ustate" where
  "aberrant_loop 0 sidx elapsed rra_start rra_idx s = (0, s)"
| "aberrant_loop (Suc n) sidx elapsed rra_start rra_idx s =
     (case aberrant_rra sidx elapsed rra_start rra_idx s of
        (ret, s') \<Rightarrow>
          if ret \<noteq> 0 then (ret, s')
          else aberrant_loop n sidx elapsed (rra_start + rra_bytes (u_rrd s') rra_idx) (rra_idx + 1) s')"

text \<open>The outer loop runs once for one elapsed step and twice for two.\<close>

definition update_aberrant_cdps :: "ulong \<Rightarrow> ulong \<Rightarrow> ustate \<Rightarrow> int \<times> ustate" where
  "update_aberrant_cdps rra_begin elapsed s =
     (let n = nat (rra_cnt (stat_head (u_rrd s)))
      in if elapsed = 1 then aberrant_loop n CDP_primary_val elapsed rra_begin 0 s
         else if elapsed = 2
         then (case aberrant_loop n CDP_primary_val elapsed rra_begin 0 s of
                 (ret, s') \<Rightarrow>
                   if ret \<noteq> 0 then (ret, s')
                   else aberrant_loop n CDP_secondary_val elapsed rra_begin 0 s')
         else (0, s))"

section \<open>Writing the archives\<close>

fun write_row_loop ::
  "nat \<Rightarrow> nat \<Rightarrow> ulong \<Rightarrow> scratch_idx \<Rightarrow> time_t \<Rightarrow> ustate \<Rightarrow> int \<times> ustate" where
  "write_row_loop 0 ds_idx rra_idx sidx rra_time s = (0, s)"
| "write_row_loop (Suc n) ds_idx rra_idx sidx rra_time s =
     (let rrd = u_rrd s;
          v = scratch_get sidx (cdp_at rrd (cdp_index rrd rra_idx (int ds_idx)));
          entry = \<lparr>se_time = rra_time, se_cf = cf_nam (rra_at rrd rra_idx),
                   se_pdp_cnt = pdp_cnt (rra_at rrd rra_idx),
                   se_ds = ds_nam (ds_def rrd ! ds_idx), se_val = v\<rparr>;
          s1 = s\<lparr>u_summary := map_option (\<lambda>es. es @ [entry]) (u_summary s)\<rparr>
      in case rrd_write (u_file s1) v of
           (True, f') \<Rightarrow> write_row_loop n (Suc ds_idx) rra_idx sidx rra_time (s1\<lparr>u_file := f'\<rparr>)
         | (False, f') \<Rightarrow> (- 1, s1\<lparr>u_file := f', u_err := Some Beyond_end_of_file\<rparr>))"

definition write_RRA_row :: "ulong \<Rightarrow> scratch_idx \<Rightarrow> time_t \<Rightarrow> ustate \<Rightarrow> int \<times> ustate" where
  "write_RRA_row rra_idx sidx rra_time s =
     write_row_loop (nat (ds_cnt (stat_head (u_rrd s)))) 0 rra_idx sidx rra_time s"

text \<open>Moving on to the next row: the row and the position in the file.\<close>

definition advance_row :: "ulong \<Rightarrow> ulong \<Rightarrow> ustate \<Rightarrow> ustate" where
  "advance_row rra_start rra_idx s =
     (let rrd = u_rrd s;
          row1 = u64 (nthi (rra_ptr rrd) rra_idx + 1);
          row = (if row1 \<ge> row_cnt (rra_at rrd rra_idx) then 0 else row1);
          pos = rra_start + ds_cnt (stat_head rrd) * row * 8
      in s\<lparr>u_rrd := rrd\<lparr>rra_ptr := updi (rra_ptr rrd) rra_idx row\<rparr>,
           u_file := (if pos \<noteq> file_pos (u_file s) then rrd_seek (u_file s) pos else u_file s)\<rparr>)"

definition row_time :: "rrd_t \<Rightarrow> ulong \<Rightarrow> time_t \<Rightarrow> ulong \<Rightarrow> ulong \<Rightarrow> time_t" where
  "row_time rrd rra_idx current_time steps step_subtract =
     (let step_time = pdp_cnt (rra_at rrd rra_idx) * pdp_step (stat_head rrd)
      in s64 (current_time - u64 current_time mod step_time - (steps - step_subtract) * step_time))"

text \<open>The inner loop of \<open>write_to_rras\<close>: \<open>k\<close> is \<open>rra_step_cnt\<close>, counted down.\<close>

fun write_rows ::
  "nat \<Rightarrow> scratch_idx \<Rightarrow> ulong \<Rightarrow> ulong \<Rightarrow> ulong \<Rightarrow> time_t \<Rightarrow> ustate \<Rightarrow> int \<times> ustate" where
  "write_rows 0 sidx step_subtract rra_start rra_idx current_time s = (0, s)"
| "write_rows (Suc k) sidx step_subtract rra_start rra_idx current_time s =
     (let s1 = advance_row rra_start rra_idx (s\<lparr>u_steps := updi (u_steps s) rra_idx (int k)\<rparr>)
      in if nthi (u_skip s) rra_idx \<noteq> 0
         then write_rows k CDP_secondary_val 2 rra_start rra_idx current_time s1
         else case write_RRA_row rra_idx sidx
                (if u_summary s = None then 0
                 else row_time (u_rrd s) rra_idx current_time (int (Suc k)) step_subtract) s1 of
            (ret, s2) \<Rightarrow>
              if ret \<noteq> 0 then (ret, s2)
              else write_rows k CDP_secondary_val 2 rra_start rra_idx current_time s2)"

fun write_loop :: "nat \<Rightarrow> ulong \<Rightarrow> ulong \<Rightarrow> time_t \<Rightarrow> ustate \<Rightarrow> int \<times> ustate" where
  "write_loop 0 rra_start rra_idx current_time s = (0, s)"
| "write_loop (Suc n) rra_start rra_idx current_time s =
     (case write_rows (nat (nthi (u_steps s) rra_idx)) CDP_primary_val 1 rra_start rra_idx current_time s of
        (ret, s') \<Rightarrow>
          if ret \<noteq> 0 then (ret, s')
          else write_loop n (rra_start + rra_bytes (u_rrd s') rra_idx) (rra_idx + 1) current_time s')"

definition write_to_rras :: "ulong \<Rightarrow> time_t \<Rightarrow> ustate \<Rightarrow> int \<times> ustate" where
  "write_to_rras rra_begin current_time s =
     write_loop (nat (rra_cnt (stat_head (u_rrd s)))) rra_begin 0 current_time s"

text \<open>\<open>mem\<close>: what the smoother's \<open>malloc\<close> returns.\<close>

fun smooth_loop :: "dbl list \<Rightarrow> nat \<Rightarrow> ulong \<Rightarrow> ulong \<Rightarrow> ustate \<Rightarrow> ustate" where
  "smooth_loop mem 0 rra_start rra_idx s = s"
| "smooth_loop mem (Suc n) rra_start rra_idx s =
     (let cf = rrd_cf_conv (cf_nam (rra_at (u_rrd s) rra_idx));
          s1 = (if cf = Some CF_DEVSEASONAL \<or> cf = Some CF_SEASONAL
                then (case apply_smoother mem (u_rrd s) rra_idx rra_start (u_file s) of
                        (e, rrd', f') \<Rightarrow>
                          s\<lparr>u_rrd := rrd', u_file := f', u_err := (if e \<noteq> None then e else u_err s)\<rparr>)
                else s)
      in if (cf = Some CF_DEVSEASONAL \<or> cf = Some CF_SEASONAL) \<and> u_err s1 \<noteq> None then s1
         else smooth_loop mem n (rra_start + rra_bytes (u_rrd s1) rra_idx) (rra_idx + 1) s1)"

definition smooth_all_rras :: "dbl list \<Rightarrow> ulong \<Rightarrow> ustate \<Rightarrow> ustate" where
  "smooth_all_rras mem rra_begin s =
     smooth_loop mem (nat (rra_cnt (stat_head (u_rrd s)))) rra_begin 0 s"

section \<open>One argument\<close>

definition reading_interval :: "rrd_t \<Rightarrow> time_t \<Rightarrow> ulong \<Rightarrow> dbl" where
  "reading_interval rrd t usec =
     dint (t - last_up (live_head rrd))
     + dint (s64 usec - s64 (last_up_usec (live_head rrd))) / dint 1000000"

text \<open>The calls of the branch that has passed a step: \<open>process_all_pdp_st\<close>,
  \<open>update_all_cdp_prep\<close>, \<open>update_aberrant_cdps\<close>, \<open>write_to_rras\<close>, each ending it on failure.\<close>

definition process_steps ::
  "rpn_env \<Rightarrow> ulong \<Rightarrow> dbl \<Rightarrow> dbl \<Rightarrow> dbl \<Rightarrow> ulong \<Rightarrow> ulong \<Rightarrow> time_t \<Rightarrow> dbl list \<Rightarrow> ustate
   \<Rightarrow> int \<times> ustate" where
  "process_steps env rra_begin interval pre_int post_int elapsed proc row_t pdp_new s =
     (case process_all_pdp_st env (u_err s) (u_rrd s) interval pre_int post_int elapsed pdp_new (u_temp s) of
        (fail, err, rrd, temp) \<Rightarrow>
          let s1 = s\<lparr>u_err := err, u_rrd := rrd, u_temp := temp\<rparr>
          in if fail then (- 1, s1)
             else case update_all_cdp_prep rra_begin elapsed proc s1 of (ret2, s2) \<Rightarrow>
               if ret2 = - 1 then (- 1, s2)
               else case update_aberrant_cdps rra_begin elapsed s2 of (ret3, s3) \<Rightarrow>
                 if ret3 = - 1 then (- 1, s3)
                 else case write_to_rras rra_begin row_t s3 of (ret4, s4) \<Rightarrow>
                   (if ret4 = - 1 then - 1 else 0, s4))"

text \<open>The split of the leftmost open data point from the full ones behind it.\<close>

definition open_part :: "ulong \<Rightarrow> dbl \<Rightarrow> dbl \<Rightarrow> dbl" where
  "open_part sec_open interval new =
     (if \<not> isnan new \<and> interval > 0 then new * dint sec_open / interval else NaN)"

definition rest_part :: "ulong \<Rightarrow> dbl \<Rightarrow> dbl \<Rightarrow> dbl" where
  "rest_part sec_open interval new =
     (if \<not> isnan new \<and> interval > 0 then new - open_part sec_open interval new else new)"

definition passed_step ::
  "rpn_env \<Rightarrow> ulong \<Rightarrow> time_t \<Rightarrow> dbl \<Rightarrow> ulong \<times> dbl \<times> dbl \<times> ulong \<Rightarrow> dbl list \<Rightarrow> ustate \<Rightarrow> int \<times> ustate" where
  "passed_step env rra_begin t interval steps pdp_new s =
     (case steps of (elapsed, pre_int, post_int, proc) \<Rightarrow>
        let sec_open = d2u64 pre_int mod pdp_step (stat_head (u_rrd s))
        in if elapsed > 1 \<and> sec_open > 0
           then (case process_steps env rra_begin (dint sec_open) (dint sec_open) 0 1 proc
                        (s64 (last_up (live_head (u_rrd s)) + sec_open))
                        (map (open_part sec_open interval) pdp_new) s of
                   (ret, s1) \<Rightarrow>
                     if ret \<noteq> 0 then (ret, s1)
                     else process_steps env rra_begin (interval - dint sec_open) (pre_int - dint sec_open)
                            post_int (elapsed - 1) (proc + 1) t
                            (map (rest_part sec_open interval) pdp_new) s1)
           else process_steps env rra_begin interval pre_int post_int elapsed proc t pdp_new s)"

definition set_last_up :: "time_t \<Rightarrow> ulong \<Rightarrow> int \<Rightarrow> rrd_t \<Rightarrow> rrd_t" where
  "set_last_up t usec ver rrd =
     (let rrd1 = rrd\<lparr>live_head := \<lparr>last_up = t, last_up_usec = usec\<rparr>\<rparr>
      in if ver < 3 then rrd1\<lparr>legacy_last_up := t\<rparr> else rrd1)"

definition process_reading ::
  "rpn_env \<Rightarrow> ulong \<Rightarrow> int \<Rightarrow> string list \<Rightarrow> time_t \<Rightarrow> ulong \<Rightarrow> ustate \<Rightarrow> int \<times> ustate" where
  "process_reading env rra_begin ver updvals t usec s =
     (let interval = reading_interval (u_rrd s) t usec
      in case update_pdp_prep (u_err s) (u_rrd s) (tl updvals) interval of
           (fail, err, rrd, pdp_new) \<Rightarrow>
             let s1 = s\<lparr>u_err := err, u_rrd := rrd, u_last_seasonal := None, u_seasonal := None\<rparr>;
                 steps = calculate_elapsed_steps rrd t usec interval
             in if fail then (- 1, s1)
                else case (if fst steps = 0
                           then (0, s1\<lparr>u_rrd := simple_update rrd interval pdp_new\<rparr>)
                           else passed_step env rra_begin t interval steps pdp_new s1) of
                  (ret, s2) \<Rightarrow>
                    if ret \<noteq> 0 then (ret, s2)
                    else (0, s2\<lparr>u_rrd := set_last_up t usec ver (u_rrd s2)\<rparr>))"

definition process_arg ::
  "rpn_env \<Rightarrow> time_env \<Rightarrow> ulong \<Rightarrow> int \<Rightarrow> int list \<Rightarrow> string \<Rightarrow> ustate \<Rightarrow> int \<times> ustate" where
  "process_arg env te rra_begin ver tmpl arg s =
     (case parse_ds te (u_rrd s) tmpl arg ver of
        Malformed e \<Rightarrow> (- 1, s\<lparr>u_err := Some e\<rparr>)
      | Too_old t usec \<Rightarrow> (- 2, s\<lparr>u_err := Some Time_not_after_last_update\<rparr>)
      | Reading updvals t usec \<Rightarrow> process_reading env rra_begin ver updvals t usec s)"

section \<open>All arguments\<close>

text \<open>The loop over the arguments: \<open>-1\<close> ends it, and so does \<open>-2\<close> unless past updates are
  skipped.\<close>

fun arg_loop ::
  "rpn_env \<Rightarrow> time_env \<Rightarrow> ulong \<Rightarrow> int \<Rightarrow> bool \<Rightarrow> int list \<Rightarrow> string list \<Rightarrow> ustate \<Rightarrow> ustate" where
  "arg_loop env te rra_begin ver skip_past tmpl [] s = s"
| "arg_loop env te rra_begin ver skip_past tmpl (arg # args) s =
     (case process_arg env te rra_begin ver tmpl arg s of
        (ret, s') \<Rightarrow>
          if ret = - 1 \<or> \<not> skip_past \<and> ret = - 2 then s'
          else arg_loop env te rra_begin ver skip_past tmpl args
                 (if ret = - 2 then s'\<lparr>u_err := None\<rparr> else s'))"

text \<open>The error slot: \<open>allocate_data_structures\<close> converts the type of every data source.\<close>

definition initial_state :: "rrd_t \<Rightarrow> rrd_file_t \<Rightarrow> summary_entry list option \<Rightarrow> ustate" where
  "initial_state rrd f summary =
     \<lparr>u_err = (case filter (\<lambda>d. dst_conv (dst d) = None) (ds_def rrd) of
                 [] \<Rightarrow> None | ds \<Rightarrow> Some (Unknown_dst (dst (last ds)))),
      u_rrd = rrd, u_file = f, u_smooth = False,
      u_steps = replicate (nrra rrd) 0, u_skip = replicate (nrra rrd) 0,
      u_temp = replicate (nds rrd) 0, u_last_seasonal = None, u_seasonal = None,
      u_summary = summary\<rparr>"

text \<open>The return value and the final state; the database is changed in place also when the
  return value is -1.\<close>

definition rrd_updatex ::
  "rpn_env \<Rightarrow> time_env \<Rightarrow> dbl list \<Rightarrow> rrd_t \<Rightarrow> rrd_file_t \<Rightarrow> string option \<Rightarrow> bool
   \<Rightarrow> string list \<Rightarrow> summary_entry list option \<Rightarrow> int \<times> ustate" where
  "rrd_updatex env te mem rrd f tmplt skip_past args summary =
     (let s0 = initial_state rrd f summary; rra_begin = header_len f; ver = version_num rrd
      in if args = [] then (- 1, s0\<lparr>u_err := Some Not_enough_arguments\<rparr>)
         else case (case tmplt of None \<Rightarrow> Inr (default_tmpl rrd) | Some t \<Rightarrow> parse_template rrd t) of
           Inl e \<Rightarrow> (- 1, s0\<lparr>u_err := Some e\<rparr>)
         | Inr tmpl \<Rightarrow>
             let s1 = arg_loop env te rra_begin ver skip_past tmpl args s0
             in if u_err s1 \<noteq> None then (- 1, s1)
                else (0, if u_smooth s1 then smooth_all_rras mem rra_begin s1 else s1))"

lemma set_last_up_simps [simp]:
  "stat_head (set_last_up t u v rrd) = stat_head rrd" "rra_def (set_last_up t u v rrd) = rra_def rrd"
  "ds_def (set_last_up t u v rrd) = ds_def rrd" "rra_ptr (set_last_up t u v rrd) = rra_ptr rrd"
  "pdp_prep (set_last_up t u v rrd) = pdp_prep rrd" "cdp_prep (set_last_up t u v rrd) = cdp_prep rrd"
  "last_up (live_head (set_last_up t u v rrd)) = t"
  by (simp_all add: set_last_up_def Let_def)

end
