(* ===== verification/Rrd_Update_Rows.thy ===== *)
theory Rrd_Update_Rows
  imports Rrd_Update
begin

text \<open>
  What \<open>write_to_rras\<close> does to the file: the rows behind the current one, with wrap-around, get
  the prepared values, and no other cell changes. The archives lie one behind the other.
\<close>

section \<open>Archives in the file\<close>

text \<open>The index of the first value of an archive, and the cell of a row and data source.\<close>

definition rra_base :: "rrd_t \<Rightarrow> nat \<Rightarrow> nat" where
  "rra_base rrd i = (\<Sum>r < i. nat (row_cnt (rra_def rrd ! r)) * nds rrd)"

definition rows_of :: "rrd_t \<Rightarrow> nat \<Rightarrow> nat" where
  "rows_of rrd i = nat (row_cnt (rra_def rrd ! i))"

definition cell_of :: "rrd_t \<Rightarrow> nat \<Rightarrow> nat \<Rightarrow> nat \<Rightarrow> nat" where
  "cell_of rrd i row d = rra_base rrd i + row * nds rrd + d"

definition file_fits :: "rrd_t \<Rightarrow> rrd_file_t \<Rightarrow> bool" where
  "file_fits rrd f \<longleftrightarrow> length (file_vals f) = rra_base rrd (nrra rrd)"

lemma rra_base_Suc: "rra_base rrd (Suc i) = rra_base rrd i + rows_of rrd i * nds rrd"
  by (simp add: rra_base_def rows_of_def)

lemma rra_base_mono: "i \<le> j \<Longrightarrow> rra_base rrd i \<le> rra_base rrd j"
  by (auto simp: rra_base_def intro!: sum_mono2)

lemma cell_in_rra:
  assumes "row < rows_of rrd i" and "d < nds rrd"
  shows "rra_base rrd i \<le> cell_of rrd i row d" "cell_of rrd i row d < rra_base rrd (Suc i)"
  using row_index_less [OF assms] by (auto simp: cell_of_def rra_base_Suc)

lemma cell_in_file:
  assumes "file_fits rrd f" and "i < nrra rrd" and "row < rows_of rrd i" and "d < nds rrd"
  shows "cell_of rrd i row d < length (file_vals f)"
  using cell_in_rra(2) [OF assms(3,4)] rra_base_mono [of "Suc i" "nrra rrd" rrd] assms(1,2)
  by (simp add: file_fits_def)

lemma cell_of_inj:
  assumes "row < rows_of rrd i" "d < nds rrd" and "row' < rows_of rrd i'" "d' < nds rrd"
    and "cell_of rrd i row d = cell_of rrd i' row' d'"
  shows "i = i' \<and> row = row' \<and> d = d'"
proof -
  have "i = i'"
  proof (rule ccontr)
    assume "i \<noteq> i'"
    then consider "Suc i \<le> i'" | "Suc i' \<le> i" by linarith
    then show False
      using cell_in_rra [OF assms(1,2)] cell_in_rra [OF assms(3,4)] assms(5)
        rra_base_mono [of "Suc i" i' rrd] rra_base_mono [of "Suc i'" i rrd]
      by cases auto
  qed
  with assms show ?thesis using row_index_inj [of d "nds rrd" d' row row'] by (simp add: cell_of_def)
qed

text \<open>A row of an archive.\<close>

definition row_vals :: "rrd_t \<Rightarrow> rrd_file_t \<Rightarrow> nat \<Rightarrow> nat \<Rightarrow> dbl list" where
  "row_vals rrd f i row = map (\<lambda>d. file_vals f ! cell_of rrd i row d) [0..<nds rrd]"

section \<open>Writing a row\<close>

text \<open>The values prepared for the rows of an archive.\<close>

definition prepared :: "rrd_t \<Rightarrow> nat \<Rightarrow> scratch_idx \<Rightarrow> dbl list" where
  "prepared rrd i sidx =
     map (\<lambda>d. scratch_get sidx (cdp_at rrd (cdp_index rrd (int i) (int d)))) [0..<nds rrd]"

lemma write_row_loop_block:
  assumes "file_pos (u_file s) = header_len (u_file s) + 8 * int c"
    and "c + n \<le> length (file_vals (u_file s))"
  shows "\<exists>sm. write_row_loop n d ri sidx t s =
    (0, s\<lparr>u_file := snd (rrd_write_block (u_file s)
           (map (\<lambda>j. scratch_get sidx (cdp_at (u_rrd s) (cdp_index (u_rrd s) ri (int j)))) [d..<d + n])),
         u_summary := sm\<rparr>) \<and> (sm = None \<longleftrightarrow> u_summary s = None)"
  using assms
proof (induction n arbitrary: c d s)
  case 0
  then show ?case by (intro exI [of _ "u_summary s"]) simp
next
  case (Suc n)
  let ?v = "scratch_get sidx (cdp_at (u_rrd s) (cdp_index (u_rrd s) ri (int d)))"
  let ?f = "(u_file s)\<lparr>file_vals := updi (file_vals (u_file s)) (int c) ?v,
      file_pos := header_len (u_file s) + 8 * int (Suc c)\<rparr>"
  have w: "rrd_write (u_file s) ?v = (True, ?f)"
    using Suc.prems by (auto simp: rrd_write_def file_len_def cell_at_def)
  define s1 where "s1 = s\<lparr>u_summary := map_option (\<lambda>es. es @
      [\<lparr>se_time = t, se_cf = cf_nam (rra_at (u_rrd s) ri), se_pdp_cnt = pdp_cnt (rra_at (u_rrd s) ri),
        se_ds = ds_nam (ds_def (u_rrd s) ! d), se_val = ?v\<rparr>]) (u_summary s), u_file := ?f\<rparr>"
  have step: "write_row_loop (Suc n) d ri sidx t s = write_row_loop n (Suc d) ri sidx t s1"
    using w by (simp add: s1_def Let_def)
  obtain sm where "write_row_loop n (Suc d) ri sidx t s1 =
      (0, s1\<lparr>u_file := snd (rrd_write_block (u_file s1)
           (map (\<lambda>j. scratch_get sidx (cdp_at (u_rrd s1) (cdp_index (u_rrd s1) ri (int j))))
              [Suc d..<Suc d + n])), u_summary := sm\<rparr>)" "sm = None \<longleftrightarrow> u_summary s1 = None"
    using Suc.IH [of s1 "Suc c" "Suc d"] Suc.prems by (auto simp: s1_def)
  moreover have "[d..<d + Suc n] = d # [Suc d..<Suc d + n]" by (simp add: upt_conv_Cons)
  ultimately show ?case
    using w by (intro exI [of _ sm])
      (simp add: step s1_def split_beta del: write_row_loop.simps upt_Suc add_Suc_right)
qed

text \<open>The row pointer is the only part of the database that changes.\<close>

definition set_ptr_row :: "rrd_t \<Rightarrow> nat \<Rightarrow> nat \<Rightarrow> rrd_t" where
  "set_ptr_row rrd i row = rrd\<lparr>rra_ptr := (rra_ptr rrd)[i := int row]\<rparr>"

lemma set_ptr_row_simps [simp]:
  "stat_head (set_ptr_row rrd i row) = stat_head rrd" "rra_def (set_ptr_row rrd i row) = rra_def rrd"
  "ds_def (set_ptr_row rrd i row) = ds_def rrd" "cdp_prep (set_ptr_row rrd i row) = cdp_prep rrd"
  "pdp_prep (set_ptr_row rrd i row) = pdp_prep rrd" "live_head (set_ptr_row rrd i row) = live_head rrd"
  "rra_ptr (set_ptr_row rrd i row) = (rra_ptr rrd)[i := int row]"
  "set_ptr_row (set_ptr_row rrd i row) i row' = set_ptr_row rrd i row'"
  "rra_base (set_ptr_row rrd i row) = rra_base rrd" "rows_of (set_ptr_row rrd i row) = rows_of rrd"
  "cell_of (set_ptr_row rrd i row) = cell_of rrd" "row_vals (set_ptr_row rrd i row) = row_vals rrd"
  "prepared (set_ptr_row rrd i row) = prepared rrd"
  "rra_at (set_ptr_row rrd i row) k = rra_at rrd k"
  by (simp_all add: set_ptr_row_def fun_eq_iff rra_base_def rows_of_def cell_of_def row_vals_def
      prepared_def cdp_at_def cdp_index_def rra_at_def)

lemma set_ptr_row_wf:
  assumes "rrd_wf rrd" and "i < nrra rrd" and "row < rows_of rrd i"
  shows "rrd_wf (set_ptr_row rrd i row)"
  using assms by (auto simp: rrd_wf_def rra_ok_def rows_of_def nth_list_update)

abbreviation cur_row :: "rrd_t \<Rightarrow> nat \<Rightarrow> nat" where
  "cur_row rrd i \<equiv> nat (rra_ptr rrd ! i)"

lemma wf_rows:
  assumes "rrd_wf rrd" and "i < nrra rrd"
  shows "0 < rows_of rrd i" "row_cnt (rra_def rrd ! i) = int (rows_of rrd i)"
    "rra_ptr rrd ! i = int (cur_row rrd i)" "cur_row rrd i < rows_of rrd i"
    "rows_of rrd i < 2 ^ 62" "i < length (rra_ptr rrd)" "0 \<le> rra_ptr rrd ! i"
  using rrd_wf_rra [OF assms] rrd_wfD(4) [OF assms(1)] assms(2)
  by (auto simp: rra_ok_def rows_of_def)

lemma advance_row_state:
  assumes wf: "rrd_wf (u_rrd s)" and i: "i < nrra (u_rrd s)"
    and start: "rra_start = header_len (u_file s) + 8 * int (rra_base (u_rrd s) i)"
    and row: "row = (cur_row (u_rrd s) i + 1) mod rows_of (u_rrd s) i"
  shows "u_rrd (advance_row rra_start (int i) s) = set_ptr_row (u_rrd s) i row"
    and "u_file (advance_row rra_start (int i) s) =
      (u_file s)\<lparr>file_pos := header_len (u_file s) + 8 * int (cell_of (u_rrd s) i row 0)\<rparr>"
    and "u_summary (advance_row rra_start (int i) s) = u_summary s"
    and "u_skip (advance_row rra_start (int i) s) = u_skip s"
    and "u_err (advance_row rra_start (int i) s) = u_err s"
    and "u_steps (advance_row rra_start (int i) s) = u_steps s"
proof -
  note r = wf_rows [OF wf i]
  have nxt: "(if u64 (rra_ptr (u_rrd s) ! i + 1) \<ge> row_cnt (rra_def (u_rrd s) ! i) then 0
      else u64 (rra_ptr (u_rrd s) ! i + 1)) = int row"
  proof -
    have "u64 (rra_ptr (u_rrd s) ! i + 1) = int (cur_row (u_rrd s) i + 1)"
      using r(4,5,7) by (subst u64_id) auto
    moreover have "Suc (cur_row (u_rrd s) i) mod rows_of (u_rrd s) i =
        (if Suc (cur_row (u_rrd s) i) = rows_of (u_rrd s) i then 0 else Suc (cur_row (u_rrd s) i))"
      using r(4) by (auto simp: mod_less)
    ultimately show ?thesis using r(2,4) by (auto simp: row)
  qed
  have pos: "rra_start + ds_cnt (stat_head (u_rrd s)) * int row * 8 =
      header_len (u_file s) + 8 * int (cell_of (u_rrd s) i row 0)"
    by (simp add: start rrd_wfD(1) [OF wf] cell_of_def algebra_simps)
  show "u_rrd (advance_row rra_start (int i) s) = set_ptr_row (u_rrd s) i row"
    "u_file (advance_row rra_start (int i) s) =
      (u_file s)\<lparr>file_pos := header_len (u_file s) + 8 * int (cell_of (u_rrd s) i row 0)\<rparr>"
    unfolding advance_row_def Let_def rra_at_def nat_int nxt pos
    by (simp_all add: set_ptr_row_def rrd_seek_def)
  show "u_summary (advance_row rra_start (int i) s) = u_summary s"
    "u_skip (advance_row rra_start (int i) s) = u_skip s"
    "u_err (advance_row rra_start (int i) s) = u_err s"
    "u_steps (advance_row rra_start (int i) s) = u_steps s"
    by (simp_all add: advance_row_def Let_def)
qed

definition row_written :: "rrd_t \<Rightarrow> nat \<Rightarrow> nat \<Rightarrow> dbl list \<Rightarrow> rrd_file_t \<Rightarrow> rrd_file_t \<Rightarrow> bool" where
  "row_written rrd i row vs f f' \<longleftrightarrow>
     header_len f' = header_len f \<and> length (file_vals f') = length (file_vals f) \<and>
     row_vals rrd f' i row = vs \<and>
     (\<forall>c. (\<forall>d < nds rrd. c \<noteq> cell_of rrd i row d) \<longrightarrow> file_vals f' ! c = file_vals f ! c)"

lemma row_written_block:
  assumes "file_pos f = header_len f + 8 * int (cell_of rrd i row 0)" and "length vs = nds rrd"
    and "cell_of rrd i row 0 + nds rrd \<le> length (file_vals f)"
  shows "row_written rrd i row vs f (snd (rrd_write_block f vs))"
proof -
  define c0 where "c0 = cell_of rrd i row 0"
  have cell: "cell_of rrd i row d = c0 + d" for d by (simp add: c0_def cell_of_def)
  have f': "file_vals (snd (rrd_write_block f vs)) = area.put_row (file_vals f) c0 vs"
    "header_len (snd (rrd_write_block f vs)) = header_len f"
    using rrd_write_block_put_row [OF assms(1)] assms(2,3) by (simp_all add: c0_def)
  have same: "area.put_row (file_vals f) c0 vs ! (c0 + d) = vs ! d" if "d < nds rrd" for d
    using area.put_row_same [of c0 vs "file_vals f" d] that assms(2,3) by (simp add: get_val_def c0_def)
  have other: "area.put_row (file_vals f) c0 vs ! c = file_vals f ! c"
    if "\<forall>d < nds rrd. c \<noteq> c0 + d" for c
  proof -
    have "c < c0 \<or> c0 + length vs \<le> c"
    proof (rule ccontr)
      assume "\<not> (c < c0 \<or> c0 + length vs \<le> c)"
      then have "c - c0 < nds rrd" "c = c0 + (c - c0)" using assms(2) by linarith+
      with that show False by blast
    qed
    then show ?thesis using area.put_row_other [of c c0 vs "file_vals f"] by (simp add: get_val_def)
  qed
  have "row_vals rrd (snd (rrd_write_block f vs)) i row = vs"
    using assms(2) same by (intro nth_equalityI) (simp_all add: row_vals_def f' cell)
  then show ?thesis
    using other by (simp add: row_written_def f' area.cells_put_row cell)
qed

lemma write_one_row:
  assumes wf: "rrd_wf (u_rrd s)" and i: "i < nrra (u_rrd s)" and fits: "file_fits (u_rrd s) (u_file s)"
    and start: "rra_start = header_len (u_file s) + 8 * int (rra_base (u_rrd s) i)"
    and row: "row = (cur_row (u_rrd s) i + 1) mod rows_of (u_rrd s) i"
  shows "\<exists>s'. write_RRA_row (int i) sidx t (advance_row rra_start (int i) s) = (0, s') \<and>
    u_rrd s' = set_ptr_row (u_rrd s) i row \<and> u_skip s' = u_skip s \<and> u_err s' = u_err s \<and>
    u_steps s' = u_steps s \<and>
    row_written (u_rrd s) i row (prepared (u_rrd s) i sidx) (u_file s) (u_file s')"
proof -
  let ?s = "advance_row rra_start (int i) s" and ?rrd = "u_rrd s"
  note adv = advance_row_state [OF wf i start row]
  have rr: "row < rows_of ?rrd i" using wf_rows [OF wf i] by (simp add: row)
  have "(row + 1) * nds ?rrd \<le> rows_of ?rrd i * nds ?rrd" using rr by (intro mult_le_mono1) simp
  then have room: "cell_of ?rrd i row 0 + nds ?rrd \<le> length (file_vals (u_file s))"
    using rra_base_mono [of "Suc i" "nrra ?rrd" ?rrd] i fits
    by (simp add: cell_of_def file_fits_def rra_base_Suc)
  have n: "nat (ds_cnt (stat_head ?rrd)) = nds ?rrd" using rrd_wfD(1) [OF wf] by simp
  obtain sm where w: "write_RRA_row (int i) sidx t ?s =
      (0, ?s\<lparr>u_file := snd (rrd_write_block (u_file ?s) (prepared ?rrd i sidx)), u_summary := sm\<rparr>)"
    using write_row_loop_block [of ?s "cell_of ?rrd i row 0" "nds ?rrd" 0 "int i" sidx t] room
    by (auto simp: write_RRA_row_def adv n prepared_def cdp_at_def cdp_index_def)
  have "row_written ?rrd i row (prepared ?rrd i sidx) (u_file ?s)
      (snd (rrd_write_block (u_file ?s) (prepared ?rrd i sidx)))"
    using room by (intro row_written_block) (simp_all add: adv prepared_def)
  then have "row_written ?rrd i row (prepared ?rrd i sidx) (u_file s)
      (snd (rrd_write_block (u_file ?s) (prepared ?rrd i sidx)))"
    by (simp add: row_written_def adv)
  with w show ?thesis by (intro exI [of _ "snd (write_RRA_row (int i) sidx t ?s)"]) (simp add: adv)
qed

section \<open>Writing the rows of an archive\<close>

text \<open>\<open>k\<close> rows behind row \<open>cur\<close> are written, the first with \<open>ps\<close>, the others with \<open>qs\<close>.\<close>

definition rows_written ::
  "rrd_t \<Rightarrow> nat \<Rightarrow> nat \<Rightarrow> nat \<Rightarrow> dbl list \<Rightarrow> dbl list \<Rightarrow> rrd_file_t \<Rightarrow> rrd_file_t \<Rightarrow> bool" where
  "rows_written rrd i cur k ps qs f f' \<longleftrightarrow>
     header_len f' = header_len f \<and> length (file_vals f') = length (file_vals f) \<and>
     (\<forall>j < k. row_vals rrd f' i ((cur + Suc j) mod rows_of rrd i) = (if j = 0 then ps else qs)) \<and>
     (\<forall>c. (\<forall>j < k. \<forall>d < nds rrd. c \<noteq> cell_of rrd i ((cur + Suc j) mod rows_of rrd i) d) \<longrightarrow>
          file_vals f' ! c = file_vals f ! c)"

lemma ring_distinct:
  assumes "0 < j" and "j < (n :: nat)"
  shows "(a + j) mod n \<noteq> a mod n"
proof
  assume "(a + j) mod n = a mod n"
  then have "n dvd j" by (metis add_diff_cancel_left' mod_eq_dvd_iff_nat le_add1)
  with assms show False by (simp add: nat_dvd_not_less)
qed

lemma rows_written_step:
  assumes w1: "row_written rrd i ((cur + 1) mod rows_of rrd i) ps f f1"
    and w2: "rows_written rrd i (cur + 1) k qs qs f1 f2"
    and k: "Suc k \<le> rows_of rrd i"
  shows "rows_written rrd i cur (Suc k) ps qs f f2"
  unfolding rows_written_def
proof (intro conjI allI impI)
  show "header_len f2 = header_len f" "length (file_vals f2) = length (file_vals f)"
    using w1 w2 by (simp_all add: row_written_def rows_written_def)
  let ?R = "\<lambda>j. (cur + Suc j) mod rows_of rrd i"
  have R0: "?R 0 < rows_of rrd i" using k by simp
  have shift: "(cur + 1 + Suc j) mod rows_of rrd i = ?R (Suc j)" for j by simp
  have first: "row_vals rrd f2 i (?R 0) = row_vals rrd f1 i (?R 0)"
  proof -
    have "file_vals f2 ! cell_of rrd i (?R 0) d = file_vals f1 ! cell_of rrd i (?R 0) d"
      if "d < nds rrd" for d
    proof -
      have "cell_of rrd i (?R 0) d \<noteq> cell_of rrd i ((cur + 1 + Suc j) mod rows_of rrd i) d'"
        if j: "j < k" "d' < nds rrd" for j d'
      proof
        assume "cell_of rrd i (?R 0) d = cell_of rrd i ((cur + 1 + Suc j) mod rows_of rrd i) d'"
        then have "?R 0 = (cur + 1 + Suc j) mod rows_of rrd i"
          using cell_of_inj [of "?R 0" rrd i d "(cur + 1 + Suc j) mod rows_of rrd i" i d']
            R0 \<open>d < nds rrd\<close> j by auto
        with ring_distinct [of "Suc j" "rows_of rrd i" "cur + 1"] j k show False by simp
      qed
      with w2 show ?thesis unfolding rows_written_def by blast
    qed
    then show ?thesis by (simp add: row_vals_def)
  qed
  show "row_vals rrd f2 i (?R j) = (if j = 0 then ps else qs)" if "j < Suc k" for j
  proof (cases j)
    case 0
    with first w1 show ?thesis by (simp add: row_written_def)
  next
    case (Suc j')
    have "\<forall>j < k. row_vals rrd f2 i ((cur + 1 + Suc j) mod rows_of rrd i) = qs"
      using w2 by (simp add: rows_written_def)
    with Suc that show ?thesis by (simp add: shift)
  qed
  fix c
  assume c: "\<forall>j < Suc k. \<forall>d < nds rrd. c \<noteq> cell_of rrd i (?R j) d"
  have "file_vals f2 ! c = file_vals f1 ! c"
    using w2 c unfolding rows_written_def shift by (metis Suc_less_eq)
  also have "\<dots> = file_vals f ! c"
    using w1 c unfolding row_written_def by (metis Suc_eq_plus1 add_0 zero_less_Suc)
  finally show "file_vals f2 ! c = file_vals f ! c" .
qed

lemma rows_written_0: "rows_written rrd i cur 0 ps qs f f"
  by (simp add: rows_written_def)

lemma write_rows_effect:
  assumes wf: "rrd_wf (u_rrd s)" and i: "i < nrra (u_rrd s)" and fits: "file_fits (u_rrd s) (u_file s)"
    and start: "rra_start = header_len (u_file s) + 8 * int (rra_base (u_rrd s) i)"
    and k: "k \<le> rows_of (u_rrd s) i" and noskip: "u_skip s ! i = 0"
  shows "\<exists>s'. write_rows k sidx sub rra_start (int i) t s = (0, s') \<and>
    u_rrd s' = set_ptr_row (u_rrd s) i ((cur_row (u_rrd s) i + k) mod rows_of (u_rrd s) i) \<and>
    u_skip s' = u_skip s \<and> u_err s' = u_err s \<and> (\<forall>j. j \<noteq> i \<longrightarrow> u_steps s' ! j = u_steps s ! j) \<and>
    rows_written (u_rrd s) i (cur_row (u_rrd s) i) k (prepared (u_rrd s) i sidx)
      (prepared (u_rrd s) i CDP_secondary_val) (u_file s) (u_file s')"
  using assms
proof (induction k arbitrary: s sidx sub)
  case 0
  then have "u_rrd s = set_ptr_row (u_rrd s) i (cur_row (u_rrd s) i mod rows_of (u_rrd s) i)"
    using wf_rows [OF "0.prems"(1,2)] by (simp add: set_ptr_row_def)
  then show ?case by (intro exI [of _ s]) (simp add: rows_written_0)
next
  case (Suc k)
  let ?rrd = "u_rrd s" and ?s0 = "s\<lparr>u_steps := (u_steps s)[i := int k]\<rparr>"
  let ?row = "(cur_row ?rrd i + 1) mod rows_of ?rrd i"
  let ?t = "if u_summary s = None then 0 else row_time ?rrd (int i) t (int (Suc k)) sub"
  note r = wf_rows [OF Suc.prems(1,2)]
  obtain s1 where s1: "write_RRA_row (int i) sidx ?t (advance_row rra_start (int i) ?s0) = (0, s1)"
    "u_rrd s1 = set_ptr_row ?rrd i ?row" "u_skip s1 = u_skip s" "u_err s1 = u_err s"
    and st1: "u_steps s1 = (u_steps s)[i := int k]" and w1:
    "row_written ?rrd i ?row (prepared ?rrd i sidx) (u_file s) (u_file s1)"
    using write_one_row [of ?s0 i rra_start ?row sidx ?t] Suc.prems by auto
  have row: "?row < rows_of ?rrd i" using r by simp
  have fl: "header_len (u_file s1) = header_len (u_file s)"
    "length (file_vals (u_file s1)) = length (file_vals (u_file s))"
    using w1 by (simp_all add: row_written_def)
  have cur1: "cur_row (u_rrd s1) i = ?row" using r s1(2) by simp
  obtain s2 where s2: "write_rows k CDP_secondary_val 2 rra_start (int i) t s1 = (0, s2)"
    "u_rrd s2 = set_ptr_row ?rrd i ((?row + k) mod rows_of ?rrd i)"
    "u_skip s2 = u_skip s" "u_err s2 = u_err s" "\<forall>j. j \<noteq> i \<longrightarrow> u_steps s2 ! j = u_steps s1 ! j"
    "rows_written ?rrd i ?row k (prepared ?rrd i CDP_secondary_val)
       (prepared ?rrd i CDP_secondary_val) (u_file s1) (u_file s2)"
    using Suc.IH [of s1 CDP_secondary_val 2] Suc.prems s1 w1 fl set_ptr_row_wf [OF Suc.prems(1,2) row] cur1
    by (auto simp: file_fits_def rows_written_def)
  have eq: "(?row + j) mod rows_of ?rrd i = (cur_row ?rrd i + 1 + j) mod rows_of ?rrd i" for j
    by (simp add: mod_add_left_eq)
  have "rows_written ?rrd i (cur_row ?rrd i) (Suc k) (prepared ?rrd i sidx)
      (prepared ?rrd i CDP_secondary_val) (u_file s) (u_file s2)"
    using rows_written_step [OF w1] s2(6) Suc.prems(5) unfolding rows_written_def eq by blast
  then show ?case
    using s1(1,3) st1 s2 Suc.prems(6) eq [of k] by (intro exI [of _ s2]) (simp add: Let_def)
qed

text \<open>A skipped archive: its row pointer moves on and nothing is written.\<close>

lemma skip_rows_effect:
  assumes wf: "rrd_wf (u_rrd s)" and i: "i < nrra (u_rrd s)"
    and start: "rra_start = header_len (u_file s) + 8 * int (rra_base (u_rrd s) i)"
    and skip: "u_skip s ! i \<noteq> 0"
  shows "\<exists>s'. write_rows k sidx sub rra_start (int i) t s = (0, s') \<and>
    u_rrd s' = set_ptr_row (u_rrd s) i ((cur_row (u_rrd s) i + k) mod rows_of (u_rrd s) i) \<and>
    u_skip s' = u_skip s \<and> u_err s' = u_err s \<and> (\<forall>j. j \<noteq> i \<longrightarrow> u_steps s' ! j = u_steps s ! j) \<and>
    header_len (u_file s') = header_len (u_file s) \<and> file_vals (u_file s') = file_vals (u_file s)"
  using assms
proof (induction k arbitrary: s sidx sub)
  case 0
  then have "u_rrd s = set_ptr_row (u_rrd s) i (cur_row (u_rrd s) i mod rows_of (u_rrd s) i)"
    using wf_rows [OF "0.prems"(1,2)] by (simp add: set_ptr_row_def)
  then show ?case by (intro exI [of _ s]) simp
next
  case (Suc k)
  let ?rrd = "u_rrd s" and ?s0 = "s\<lparr>u_steps := (u_steps s)[i := int k]\<rparr>"
  let ?s1 = "advance_row rra_start (int i) ?s0"
  let ?row = "(cur_row ?rrd i + 1) mod rows_of ?rrd i"
  note r = wf_rows [OF Suc.prems(1,2)]
  have row: "?row < rows_of ?rrd i" using r by simp
  have adv: "u_rrd ?s1 = set_ptr_row ?rrd i ?row" "u_skip ?s1 = u_skip s" "u_err ?s1 = u_err s"
    "u_steps ?s1 = (u_steps s)[i := int k]" "header_len (u_file ?s1) = header_len (u_file s)"
    "file_vals (u_file ?s1) = file_vals (u_file s)"
    using advance_row_state [of ?s0 i rra_start ?row] Suc.prems by simp_all
  have eq: "(?row + k) mod rows_of ?rrd i = (cur_row ?rrd i + Suc k) mod rows_of ?rrd i"
    by (metis add.assoc mod_add_left_eq plus_1_eq_Suc)
  from Suc.IH [of ?s1 CDP_secondary_val 2] show ?case
    using Suc.prems adv set_ptr_row_wf [OF Suc.prems(1,2) row] r eq by (auto simp: Let_def)
qed

section \<open>Writing all archives\<close>

definition rows_due :: "ustate \<Rightarrow> nat \<Rightarrow> nat" where
  "rows_due s i = nat (u_steps s ! i)"

text \<open>The cells of the rows that archive \<open>i\<close> writes.\<close>

definition due_cell :: "ustate \<Rightarrow> nat \<Rightarrow> nat \<Rightarrow> bool" where
  "due_cell s i c \<longleftrightarrow> u_skip s ! i = 0 \<and>
     (\<exists>j < rows_due s i. \<exists>d < nds (u_rrd s).
        c = cell_of (u_rrd s) i ((cur_row (u_rrd s) i + Suc j) mod rows_of (u_rrd s) i) d)"

definition archives_written :: "nat \<Rightarrow> ustate \<Rightarrow> ustate \<Rightarrow> bool" where
  "archives_written m s s' \<longleftrightarrow>
     (\<exists>ptrs. u_rrd s' = (u_rrd s)\<lparr>rra_ptr := ptrs\<rparr> \<and> length ptrs = length (rra_ptr (u_rrd s)) \<and>
        (\<forall>i < nrra (u_rrd s). ptrs ! i = (if i < m then rra_ptr (u_rrd s) ! i
           else int ((cur_row (u_rrd s) i + rows_due s i) mod rows_of (u_rrd s) i)))) \<and>
     u_err s' = u_err s \<and> header_len (u_file s') = header_len (u_file s) \<and>
     length (file_vals (u_file s')) = length (file_vals (u_file s)) \<and>
     (\<forall>i. m \<le> i \<longrightarrow> i < nrra (u_rrd s) \<longrightarrow> u_skip s ! i = 0 \<longrightarrow> (\<forall>j < rows_due s i.
        row_vals (u_rrd s) (u_file s') i ((cur_row (u_rrd s) i + Suc j) mod rows_of (u_rrd s) i) =
          (if j = 0 then prepared (u_rrd s) i CDP_primary_val else prepared (u_rrd s) i CDP_secondary_val))) \<and>
     (\<forall>c. (\<forall>i. m \<le> i \<longrightarrow> i < nrra (u_rrd s) \<longrightarrow> \<not> due_cell s i c) \<longrightarrow>
        file_vals (u_file s') ! c = file_vals (u_file s) ! c)"

lemma write_archive:
  assumes wf: "rrd_wf (u_rrd s)" and m: "m < nrra (u_rrd s)" and fits: "file_fits (u_rrd s) (u_file s)"
    and start: "rra_start = header_len (u_file s) + 8 * int (rra_base (u_rrd s) m)"
    and k: "rows_due s m \<le> rows_of (u_rrd s) m"
  shows "\<exists>s1. write_rows (rows_due s m) CDP_primary_val 1 rra_start (int m) t s = (0, s1) \<and>
    u_rrd s1 = set_ptr_row (u_rrd s) m ((cur_row (u_rrd s) m + rows_due s m) mod rows_of (u_rrd s) m) \<and>
    u_skip s1 = u_skip s \<and> u_err s1 = u_err s \<and> (\<forall>j. j \<noteq> m \<longrightarrow> u_steps s1 ! j = u_steps s ! j) \<and>
    header_len (u_file s1) = header_len (u_file s) \<and>
    length (file_vals (u_file s1)) = length (file_vals (u_file s)) \<and>
    (u_skip s ! m = 0 \<longrightarrow> (\<forall>j < rows_due s m.
       row_vals (u_rrd s) (u_file s1) m ((cur_row (u_rrd s) m + Suc j) mod rows_of (u_rrd s) m) =
         (if j = 0 then prepared (u_rrd s) m CDP_primary_val else prepared (u_rrd s) m CDP_secondary_val))) \<and>
    (\<forall>c. \<not> due_cell s m c \<longrightarrow> file_vals (u_file s1) ! c = file_vals (u_file s) ! c)"
proof (cases "u_skip s ! m = 0")
  case True
  from write_rows_effect [OF wf m fits start k True, of CDP_primary_val 1 t] True show ?thesis
    by (auto simp: rows_written_def due_cell_def)
next
  case False
  from skip_rows_effect [OF wf m start False, of "rows_due s m" CDP_primary_val 1 t] False show ?thesis
    by auto
qed

lemma not_due_other:
  assumes "row < rows_of (u_rrd s) m" and "d < nds (u_rrd s)" and "i \<noteq> m" and "0 < rows_of (u_rrd s) i"
  shows "\<not> due_cell s i (cell_of (u_rrd s) m row d)"
  unfolding due_cell_def
  using cell_of_inj [OF assms(1,2), of "(cur_row (u_rrd s) i + Suc j) mod rows_of (u_rrd s) i" i d' for j d']
    assms(3,4) by (metis mod_less_divisor)

lemma archives_written_step:
  assumes wf: "rrd_wf (u_rrd s)" and m: "m < nrra (u_rrd s)"
    and s1: "u_rrd s1 = set_ptr_row (u_rrd s) m ((cur_row (u_rrd s) m + rows_due s m) mod rows_of (u_rrd s) m)"
      "u_skip s1 = u_skip s" "u_err s1 = u_err s" "\<forall>j. j \<noteq> m \<longrightarrow> u_steps s1 ! j = u_steps s ! j"
      "header_len (u_file s1) = header_len (u_file s)"
      "length (file_vals (u_file s1)) = length (file_vals (u_file s))"
    and rows: "u_skip s ! m = 0 \<longrightarrow> (\<forall>j < rows_due s m.
       row_vals (u_rrd s) (u_file s1) m ((cur_row (u_rrd s) m + Suc j) mod rows_of (u_rrd s) m) =
         (if j = 0 then prepared (u_rrd s) m CDP_primary_val else prepared (u_rrd s) m CDP_secondary_val))"
    and other: "\<forall>c. \<not> due_cell s m c \<longrightarrow> file_vals (u_file s1) ! c = file_vals (u_file s) ! c"
    and rest: "archives_written (Suc m) s1 s'"
  shows "archives_written m s s'"
proof -
  let ?rrd = "u_rrd s"
  have pos: "0 < rows_of ?rrd i" if "i < nrra ?rrd" for i using wf_rows(1) [OF wf that] .
  have due: "rows_due s1 i = rows_due s i" "cur_row (u_rrd s1) i = cur_row ?rrd i"
    "due_cell s1 i c = due_cell s i c" if "m < i" for i c
    using that s1 by (simp_all add: rows_due_def due_cell_def)
  obtain ptrs where ptrs: "u_rrd s' = (u_rrd s1)\<lparr>rra_ptr := ptrs\<rparr>"
    "length ptrs = length (rra_ptr (u_rrd s1))"
    "\<forall>i < nrra ?rrd. ptrs ! i = (if i < Suc m then rra_ptr (u_rrd s1) ! i
       else int ((cur_row (u_rrd s1) i + rows_due s1 i) mod rows_of ?rrd i))"
    using rest s1(1) unfolding archives_written_def by auto
  have late: "row_vals ?rrd (u_file s') i ((cur_row ?rrd i + Suc j) mod rows_of ?rrd i) =
      (if j = 0 then prepared ?rrd i CDP_primary_val else prepared ?rrd i CDP_secondary_val)"
    if "m < i" "i < nrra ?rrd" "u_skip s ! i = 0" "j < rows_due s i" for i j
    using rest that s1(1,2) due [OF that(1)] unfolding archives_written_def by (auto simp: Suc_le_eq)
  have keep: "file_vals (u_file s') ! c = file_vals (u_file s1) ! c"
    if "\<forall>i. m < i \<longrightarrow> i < nrra ?rrd \<longrightarrow> \<not> due_cell s i c" for c
    using rest that s1(1) due(3) unfolding archives_written_def by (auto simp: Suc_le_eq)
  have here: "row_vals ?rrd (u_file s') m row = row_vals ?rrd (u_file s1) m row"
    if "row < rows_of ?rrd m" for row
    using that keep not_due_other [of row s m] pos by (auto simp: row_vals_def)
  have len: "m < length (rra_ptr ?rrd)" using wf_rows(6) [OF wf m] .
  show ?thesis
    unfolding archives_written_def
  proof (intro conjI allI impI)
    show "\<exists>ptrs. u_rrd s' = ?rrd\<lparr>rra_ptr := ptrs\<rparr> \<and> length ptrs = length (rra_ptr ?rrd) \<and>
        (\<forall>i < nrra ?rrd. ptrs ! i = (if i < m then rra_ptr ?rrd ! i
           else int ((cur_row ?rrd i + rows_due s i) mod rows_of ?rrd i)))"
      using ptrs s1(1) len due
      by (intro exI [of _ ptrs]) (auto simp: set_ptr_row_def nth_list_update less_Suc_eq)
    show "u_err s' = u_err s" "header_len (u_file s') = header_len (u_file s)"
      "length (file_vals (u_file s')) = length (file_vals (u_file s))"
      using rest s1 unfolding archives_written_def by auto
    show "row_vals ?rrd (u_file s') i ((cur_row ?rrd i + Suc j) mod rows_of ?rrd i) =
        (if j = 0 then prepared ?rrd i CDP_primary_val else prepared ?rrd i CDP_secondary_val)"
      if "m \<le> i" "i < nrra ?rrd" "u_skip s ! i = 0" "j < rows_due s i" for i j
      using that late here rows pos by (cases "i = m") auto
    show "file_vals (u_file s') ! c = file_vals (u_file s) ! c"
      if "\<forall>i. m \<le> i \<longrightarrow> i < nrra ?rrd \<longrightarrow> \<not> due_cell s i c" for c
      using that keep other m by (metis less_imp_le_nat order_refl)
  qed
qed

lemma archives_written_end: "archives_written (nrra (u_rrd s)) s s"
  unfolding archives_written_def by (auto intro!: exI [of _ "rra_ptr (u_rrd s)"])

lemma write_loop_effect:
  assumes "rrd_wf (u_rrd s)" and "file_fits (u_rrd s) (u_file s)" and "m + n = nrra (u_rrd s)"
    and "rra_start = header_len (u_file s) + 8 * int (rra_base (u_rrd s) m)"
    and "\<forall>i. m \<le> i \<longrightarrow> i < nrra (u_rrd s) \<longrightarrow> rows_due s i \<le> rows_of (u_rrd s) i"
  shows "\<exists>s'. write_loop n rra_start (int m) t s = (0, s') \<and> archives_written m s s'"
  using assms
proof (induction n arbitrary: s m rra_start)
  case 0
  then show ?case using archives_written_end [of s] by simp
next
  case (Suc n)
  let ?rrd = "u_rrd s"
  have m: "m < nrra ?rrd" using Suc.prems(3) by simp
  obtain s1 where w: "write_rows (rows_due s m) CDP_primary_val 1 rra_start (int m) t s = (0, s1)"
    and s1: "u_rrd s1 = set_ptr_row ?rrd m ((cur_row ?rrd m + rows_due s m) mod rows_of ?rrd m)"
      "u_skip s1 = u_skip s" "u_err s1 = u_err s" "\<forall>j. j \<noteq> m \<longrightarrow> u_steps s1 ! j = u_steps s ! j"
      "header_len (u_file s1) = header_len (u_file s)"
      "length (file_vals (u_file s1)) = length (file_vals (u_file s))"
    and rows: "u_skip s ! m = 0 \<longrightarrow> (\<forall>j < rows_due s m.
       row_vals ?rrd (u_file s1) m ((cur_row ?rrd m + Suc j) mod rows_of ?rrd m) =
         (if j = 0 then prepared ?rrd m CDP_primary_val else prepared ?rrd m CDP_secondary_val))"
    and other: "\<forall>c. \<not> due_cell s m c \<longrightarrow> file_vals (u_file s1) ! c = file_vals (u_file s) ! c"
    using write_archive [OF Suc.prems(1) m Suc.prems(2,4), of t] Suc.prems(5) m by blast
  have "(cur_row ?rrd m + rows_due s m) mod rows_of ?rrd m < rows_of ?rrd m"
    using wf_rows [OF Suc.prems(1) m] by simp
  from set_ptr_row_wf [OF Suc.prems(1) m this] have wf1: "rrd_wf (u_rrd s1)" by (simp add: s1)
  have start1: "rra_start + rra_bytes (u_rrd s1) (int m) =
      header_len (u_file s1) + 8 * int (rra_base (u_rrd s1) (Suc m))"
    using Suc.prems(4) rrd_wfD(1) [OF Suc.prems(1)] wf_rows(2) [OF Suc.prems(1) m]
    by (simp add: s1 rra_bytes_def rra_at_def rra_base_Suc algebra_simps)
  have "\<exists>s'. write_loop n (rra_start + rra_bytes (u_rrd s1) (int m)) (int (Suc m)) t s1 = (0, s') \<and>
      archives_written (Suc m) s1 s'"
    using Suc.prems s1 wf1 start1
    by (intro Suc.IH) (auto simp: file_fits_def rows_due_def)
  then obtain s' where "write_loop n (rra_start + rra_bytes (u_rrd s1) (int m)) (int (Suc m)) t s1 = (0, s')"
    "archives_written (Suc m) s1 s'" by auto
  with w archives_written_step [OF Suc.prems(1) m s1 rows other] show ?case
    by (auto simp: rows_due_def add.commute)
qed

text \<open>What is not written stays: the rows behind the written ones.\<close>

lemma archives_written_keeps:
  assumes wf: "rrd_wf (u_rrd s)" and i: "i < nrra (u_rrd s)" and w: "archives_written 0 s s'"
    and j: "rows_due s i \<le> j" "j < rows_of (u_rrd s) i"
    and row: "row = (cur_row (u_rrd s) i + rows_due s i + rows_of (u_rrd s) i - j) mod rows_of (u_rrd s) i"
  shows "row_vals (u_rrd s) (u_file s') i row = row_vals (u_rrd s) (u_file s) i row"
proof -
  let ?rrd = "u_rrd s"
  have r: "row < rows_of ?rrd i" using wf_rows(1) [OF wf i] by (simp add: row)
  have "\<not> due_cell s i' (cell_of ?rrd i row d)" if "d < nds ?rrd" "i' < nrra ?rrd" for i' d
  proof (cases "i' = i")
    case False
    then show ?thesis using not_due_other [OF r that(1) False wf_rows(1) [OF wf that(2)]] by simp
  next
    case True
    have "row \<noteq> (cur_row ?rrd i + Suc j') mod rows_of ?rrd i" if "j' < rows_due s i" for j'
    proof -
      define e where "e = rows_due s i + rows_of ?rrd i - j - Suc j'"
      have "0 < e" "e < rows_of ?rrd i"
        "cur_row ?rrd i + rows_due s i + rows_of ?rrd i - j = cur_row ?rrd i + Suc j' + e"
        using that j by (auto simp: e_def)
      then show ?thesis using ring_distinct [of e "rows_of ?rrd i" "cur_row ?rrd i + Suc j'"]
        by (simp add: row)
    qed
    then show ?thesis
      using cell_of_inj [OF r that(1)] that(1) r True unfolding due_cell_def
      by (metis mod_less_divisor not_less_zero gr0I)
  qed
  then have "\<forall>d < nds ?rrd. file_vals (u_file s') ! cell_of ?rrd i row d = file_vals (u_file s) ! cell_of ?rrd i row d"
    using w unfolding archives_written_def by auto
  then show ?thesis by (simp add: row_vals_def)
qed

lemma row_vals_defs:
  "ds_def a = ds_def b \<Longrightarrow> rra_def a = rra_def b \<Longrightarrow> row_vals a f i row = row_vals b f i row"
  "rra_def a = rra_def b \<Longrightarrow> rows_of a i = rows_of b i"
  by (simp_all add: row_vals_def cell_of_def rra_base_def rows_of_def)

lemma archives_written_wf:
  assumes wf: "rrd_wf (u_rrd s)" and w: "archives_written 0 s s'"
  shows "rrd_wf (u_rrd s')" "same_layout (u_rrd s') (u_rrd s)"
    "i < nrra (u_rrd s) \<Longrightarrow>
       cur_row (u_rrd s') i = (cur_row (u_rrd s) i + rows_due s i) mod rows_of (u_rrd s) i"
proof -
  obtain ptrs where p: "u_rrd s' = (u_rrd s)\<lparr>rra_ptr := ptrs\<rparr>" "length ptrs = length (rra_ptr (u_rrd s))"
    "\<forall>i < nrra (u_rrd s). ptrs ! i = int ((cur_row (u_rrd s) i + rows_due s i) mod rows_of (u_rrd s) i)"
    using w unfolding archives_written_def by auto
  have "(cur_row (u_rrd s) i + rows_due s i) mod rows_of (u_rrd s) i < rows_of (u_rrd s) i"
    if "i < nrra (u_rrd s)" for i
    using wf_rows(1) [OF wf that] by simp
  then show "rrd_wf (u_rrd s')"
    using wf p unfolding rrd_wf_def rra_ok_def by (auto simp: rows_of_def zless_nat_eq_int_zless)
  show "same_layout (u_rrd s') (u_rrd s)" by (simp add: same_layout_def p)
  show "i < nrra (u_rrd s) \<Longrightarrow>
       cur_row (u_rrd s') i = (cur_row (u_rrd s) i + rows_due s i) mod rows_of (u_rrd s) i"
    using p by simp
qed

lemma write_row_loop_times:
  assumes "write_row_loop n d ri sidx t s = (0, s')" and "u_summary s = Some es"
  shows "\<exists>es'. u_summary s' = Some (es @ es') \<and> map se_time es' = replicate n t \<and>
    u_skip s' = u_skip s \<and> same_layout (u_rrd s) (u_rrd s')"
  using assms
proof (induction n arbitrary: d s es)
  case (Suc n)
  from Suc.prems show ?case
    by (fastforce simp: Let_def split: prod.splits bool.splits dest!: Suc.IH)
qed simp

lemma row_time_cong: "same_layout a b \<Longrightarrow> row_time a ri t k sub = row_time b ri t k sub"
  by (simp add: row_time_def same_layout_def rra_at_def)

lemma write_rows_times:
  assumes "write_rows k sidx sub rs ri t s = (0, s')" and "u_summary s = Some es"
    and "nthi (u_skip s) ri = 0" and "nat (ds_cnt (stat_head (u_rrd s))) = n"
  shows "\<exists>es'. u_summary s' = Some (es @ es') \<and>
    map se_time es' = concat (map (\<lambda>j. replicate n (row_time (u_rrd s) ri t (int j) (if j = k then sub else 2)))
      (rev [1..<Suc k]))"
  using assms
proof (induction k arbitrary: sidx sub s es)
  case (Suc k)
  define s1 where "s1 = advance_row rs ri (s\<lparr>u_steps := updi (u_steps s) ri (int k)\<rparr>)"
  have s1: "u_summary s1 = Some es" "u_skip s1 = u_skip s" "same_layout (u_rrd s) (u_rrd s1)"
    using Suc.prems(2) by (simp_all add: s1_def advance_row_def Let_def same_layout_def)
  then have n: "nat (ds_cnt (stat_head (u_rrd s1))) = n" using Suc.prems(4) by (simp add: same_layout_def)
  let ?t = "row_time (u_rrd s) ri t (int (Suc k)) sub"
  obtain s2 where s2: "write_row_loop n 0 ri sidx ?t s1 = (0, s2)"
    and rest: "write_rows k CDP_secondary_val 2 rs ri t s2 = (0, s')"
    using Suc.prems by (auto simp: Let_def s1_def [symmetric] write_RRA_row_def n split: prod.splits if_splits)
  from write_row_loop_times [OF s2 s1(1)] obtain es1 where es1: "u_summary s2 = Some (es @ es1)"
    "map se_time es1 = replicate n ?t" "u_skip s2 = u_skip s1" "same_layout (u_rrd s1) (u_rrd s2)" by blast
  have lay: "same_layout (u_rrd s) (u_rrd s2)" using s1(3) es1(4) by (rule same_layout_trans)
  from Suc.IH [OF rest es1(1)] Suc.prems(3,4) es1(3) s1(2) lay obtain es2 where
    es2: "u_summary s' = Some ((es @ es1) @ es2)" "map se_time es2 =
      concat (map (\<lambda>j. replicate n (row_time (u_rrd s2) ri t (int j) 2)) (rev [1..<Suc k]))"
    by (auto simp: same_layout_def)
  have "map (\<lambda>j. replicate n (row_time (u_rrd s) ri t (int j) (if j = Suc k then sub else 2))) (rev [1..<Suc k]) =
      map (\<lambda>j. replicate n (row_time (u_rrd s2) ri t (int j) 2)) (rev [1..<Suc k])"
    by (intro map_cong) (auto simp: row_time_cong [OF lay])
  then have "concat (map (\<lambda>j. replicate n (row_time (u_rrd s) ri t (int j) (if j = Suc k then sub else 2)))
      (rev [1..<Suc k])) = map se_time es2" by (simp only: es2(2))
  moreover have "rev [1..<Suc (Suc k)] = Suc k # rev [1..<Suc k]" by simp
  ultimately show ?case
    using es1(2) es2(1) by (intro exI [of _ "es1 @ es2"]) (simp del: upt_Suc)
qed simp


text \<open>the times \<open>rrd_update_v\<close> reports for the rows written in one go. Of \<open>k\<close> rows of \<open>w\<close>
  seconds that end at \<open>e\<close>, the \<open>i\<close>-th ends at \<open>e - (k - i) * w\<close>; that is what is reported for the
  first row, but every other row is reported one row later than it is.\<close>

theorem reported_row_times:
  assumes "write_rows k sidx 1 rs ri t s = (0, s')" and "u_summary s = Some es"
    and "nthi (u_skip s) ri = 0" and "nat (ds_cnt (stat_head (u_rrd s))) = n"
    and "w = pdp_cnt (rra_at (u_rrd s) ri) * pdp_step (stat_head (u_rrd s))"
    and "0 < w" and "int k * w < 2 ^ 62" and "0 \<le> t" and "t < 2 ^ 62" and "e = t - t mod w"
  shows "\<exists>es'. u_summary s' = Some (es @ es') \<and>
    map se_time es' = concat (map (\<lambda>i. replicate n
      (e - int (k - i) * w + (if i = 1 then 0 else w))) [1..<Suc k])"
proof -
  from write_rows_times [OF assms(1-4)] obtain es' where es': "u_summary s' = Some (es @ es')"
    "map se_time es' = concat (map (\<lambda>j. replicate n
      (row_time (u_rrd s) ri t (int j) (if j = k then 1 else 2))) (rev [1..<Suc k]))" by blast
  have rt: "row_time (u_rrd s) ri t (int j) (if j = k then 1 else 2) =
      e - int (j - 1) * w + (if j = k then 0 else w)" if "1 \<le> j" "j \<le> k" for j
  proof -
    have "w \<le> int k * w" using assms(6) that by simp
    moreover have "int (j - 1) * w \<le> int k * w" using that assms(6) by (intro mult_right_mono) auto
    moreover have "0 \<le> int (j - 1) * w" using assms(6) by simp
    moreover have "0 \<le> e" "e \<le> t" using assms(6,8,10) by (auto simp: zmod_le_nonneg_dividend)
    moreover have "s64 (e - m + d) = e - m + d"
      if "0 \<le> m" "m \<le> int k * w" "0 \<le> d" "d \<le> int k * w" "0 \<le> e" "e \<le> t" for m d
      using that assms(7,9) by (intro s64_id) simp_all
    ultimately have "s64 (e - int (j - 1) * w + (if j = k then 0 else w)) =
        e - int (j - 1) * w + (if j = k then 0 else w)" using assms(6) by simp
    moreover have "(int j - (if j = k then 1 else 2)) * w = int (j - 1) * w - (if j = k then 0 else w)"
      using that by (simp add: of_nat_diff algebra_simps)
    moreover have "u64 t = t" using assms(8,9) by (simp add: u64_id)
    moreover have "row_time (u_rrd s) ri t (int j) (if j = k then 1 else 2) =
        s64 (e - (int j - (if j = k then 1 else 2)) * w)"
      unfolding row_time_def Let_def assms(5) [symmetric] assms(10) \<open>u64 t = t\<close> ..
    ultimately show ?thesis by (simp only: diff_diff_eq2 diff_add_eq)
  qed
  have "rev [1..<Suc k] = map (\<lambda>i. Suc k - i) [1..<Suc k]"
    by (intro nth_equalityI) (auto simp: rev_nth simp del: upt_Suc)
  moreover have "row_time (u_rrd s) ri t (int (Suc k - i)) (if Suc k - i = k then 1 else 2) =
      e - int (k - i) * w + (if i = 1 then 0 else w)" if "1 \<le> i" "i \<le> k" for i
  proof -
    have "Suc k - i - 1 = k - i" "(Suc k - i = k) = (i = 1)" using that by auto
    with rt [of "Suc k - i"] that show ?thesis by (simp only:)
  qed
  then have "map (\<lambda>i. replicate n (row_time (u_rrd s) ri t (int (Suc k - i)) (if Suc k - i = k then 1 else 2)))
      [1..<Suc k] = map (\<lambda>i. replicate n (e - int (k - i) * w + (if i = 1 then 0 else w))) [1..<Suc k]"
    by (intro map_cong refl arg_cong [of _ _ "replicate n"]) (simp del: upt_Suc)
  ultimately show ?thesis using es' by (simp only: map_map comp_def) blast
qed

end
