(* ===== verification/Rrd_Fetch.thy ===== *)
theory Rrd_Fetch
  imports Rrd_Update_Rows Rrd_Sample
begin

text \<open>
  Reading a time range back: \<open>rrd_fetch_r\<close>, \<open>rrd_fetch_fn\<close> and \<open>rrd_fetch_empty\<close> of
  \<open>rrd_fetch.c\<close>. The model starts with the opened database; file names that select a callback
  or a database interface are left out. The allocated data area is the list of the values
  written so far, with the number of values it can take; a write beyond it is \<open>Undefined\<close>.

  The second half shows which archive is chosen and that the row returned for a time is the row
  of the ring buffer that belongs to it.
\<close>

section \<open>Choice of the archive\<close>

definition basic_cf :: "cf_en option \<Rightarrow> bool" where
  "basic_cf cf \<longleftrightarrow> cf = Some CF_MINIMUM \<or> cf = Some CF_MAXIMUM \<or> cf = Some CF_AVERAGE \<or> cf = Some CF_LAST"

definition rra_matches :: "cf_en \<Rightarrow> rra_def_t \<Rightarrow> bool" where
  "rra_matches cf_idx def \<longleftrightarrow>
     rrd_cf_conv (cf_nam def) = Some cf_idx \<or>
     (pdp_cnt def = 1 \<and> basic_cf (Some cf_idx) \<and> basic_cf (rrd_cf_conv (cf_nam def)))"

record match_state =
  first_full :: bool
  best_full_step_diff :: clong
  best_full_rra :: clong
  first_part :: bool
  best_match :: clong
  best_part_step_diff :: clong
  best_part_rra :: clong

definition no_match :: match_state where
  "no_match = \<lparr>first_full = True, best_full_step_diff = 0, best_full_rra = 0, first_part = True,
               best_match = 0, best_part_step_diff = 0, best_part_rra = 0\<rparr>"

text \<open>The step of an archive in seconds, and the time range \<open>cal_start\<close> to \<open>cal_end\<close> it holds.\<close>

definition rra_step :: "rrd_t \<Rightarrow> rra_def_t \<Rightarrow> ulong" where
  "rra_step rrd def = u64 (pdp_step (stat_head rrd) * pdp_cnt def)"

definition cal_end :: "rrd_t \<Rightarrow> rra_def_t \<Rightarrow> time_t" where
  "cal_end rrd def =
     (let last = last_up (live_head rrd) in s64 (last - u64 last mod rra_step rrd def))"

definition cal_start :: "rrd_t \<Rightarrow> rra_def_t \<Rightarrow> time_t" where
  "cal_start rrd def =
     s64 (cal_end rrd def - u64 (pdp_cnt def * row_cnt def * pdp_step (stat_head rrd)))"

definition step_diff :: "rrd_t \<Rightarrow> ulong \<Rightarrow> rra_def_t \<Rightarrow> clong" where
  "step_diff rrd step def = \<bar>s64 step - s64 (pdp_step (stat_head rrd)) * s64 (pdp_cnt def)\<bar>"

text \<open>How much of the range a partial match covers.\<close>

definition part_match :: "rrd_t \<Rightarrow> time_t \<Rightarrow> time_t \<Rightarrow> rra_def_t \<Rightarrow> clong" where
  "part_match rrd start stop def =
     (let full = stop - start
      in if cal_start rrd def > start then full - (cal_start rrd def - start) else full)"

definition consider_rra ::
  "rrd_t \<Rightarrow> cf_en \<Rightarrow> time_t \<Rightarrow> time_t \<Rightarrow> ulong \<Rightarrow> nat \<Rightarrow> match_state \<Rightarrow> match_state" where
  "consider_rra rrd cf_idx start stop step i m =
     (let def = rra_def rrd ! i; diff = step_diff rrd step def; part = part_match rrd start stop def
      in if \<not> rra_matches cf_idx def then m
         else if cal_start rrd def \<le> start
         then (if first_full m \<or> diff < best_full_step_diff m
               then m\<lparr>first_full := False, best_full_step_diff := diff, best_full_rra := int i\<rparr>
               else m)
         else if first_part m \<or> best_match m < part
                 \<or> best_match m = part \<and> diff < best_part_step_diff m
         then m\<lparr>first_part := False, best_match := part, best_part_step_diff := diff,
                best_part_rra := int i\<rparr>
         else m)"

definition chosen_rra ::
  "rrd_t \<Rightarrow> cf_en \<Rightarrow> time_t \<Rightarrow> time_t \<Rightarrow> ulong \<Rightarrow> rrd_error + nat" where
  "chosen_rra rrd cf_idx start stop step =
     (let m = fold (consider_rra rrd cf_idx start stop step) [0..<nat (rra_cnt (stat_head rrd))] no_match
      in if \<not> first_full m then Inr (nat (best_full_rra m))
         else if \<not> first_part m then Inr (nat (best_part_rra m))
         else Inl No_matching_rra)"

section \<open>Reading the rows\<close>

definition put_data :: "int \<Rightarrow> dbl list \<Rightarrow> dbl list \<Rightarrow> rrd_error + dbl list" where
  "put_data alloc data vs =
     (if int (length data + length vs) \<le> alloc then Inr (data @ vs) else Inl Undefined)"

text \<open>Wrapping the row pointer and reading a row.\<close>

definition read_row ::
  "rrd_t \<Rightarrow> nat \<Rightarrow> clong \<Rightarrow> clong \<Rightarrow> rrd_file_t \<Rightarrow> dbl list option \<times> clong \<times> rrd_file_t" where
  "read_row rrd ch base ptr f =
     (let rows = row_cnt (rra_def rrd ! ch); n = ds_cnt (stat_head rrd);
          ptr1 = (if ptr \<ge> s32 rows then ptr - rows else ptr);
          f1 = (if ptr \<ge> s32 rows then rrd_seek f (base + ptr1 * n * 8) else f)
      in case rrd_read f1 (nat n) of (vs, f2) \<Rightarrow> (vs, ptr1 + 1, f2))"

fun fetch_loop ::
  "rrd_t \<Rightarrow> nat \<Rightarrow> clong \<Rightarrow> int \<Rightarrow> nat \<Rightarrow> clong \<Rightarrow> clong \<Rightarrow> rrd_file_t \<Rightarrow> dbl list
   \<Rightarrow> rrd_error + dbl list" where
  "fetch_loop rrd ch base alloc 0 i ptr f data = Inr data"
| "fetch_loop rrd ch base alloc (Suc n) i ptr f data =
     (if i < 0 \<or> i \<ge> s32 (row_cnt (rra_def rrd ! ch))
      then (case put_data alloc data (replicate (nat (ds_cnt (stat_head rrd))) NaN) of
              Inl e \<Rightarrow> Inl e
            | Inr data' \<Rightarrow> fetch_loop rrd ch base alloc n (i + 1) ptr f data')
      else (case read_row rrd ch base ptr f of
              (None, _) \<Rightarrow> Inl Read_error
            | (Some vs, ptr', f') \<Rightarrow>
                (case put_data alloc data vs of
                   Inl e \<Rightarrow> Inl e
                 | Inr data' \<Rightarrow> fetch_loop rrd ch base alloc n (i + 1) ptr' f' data')))"

record fetch_result =
  f_start :: time_t
  f_end :: time_t
  f_step :: ulong
  f_ds_namv :: "string list"
  f_data :: "dbl list"

text \<open>The wish parameters set to real values.\<close>

definition real_start :: "time_t \<Rightarrow> ulong \<Rightarrow> time_t" where
  "real_start start step = s64 (start - u64 start mod step)"

definition real_end :: "time_t \<Rightarrow> ulong \<Rightarrow> time_t" where
  "real_end stop step = s64 (stop + (step - u64 stop mod step))"

definition fetch_rows :: "time_t \<Rightarrow> time_t \<Rightarrow> ulong \<Rightarrow> ulong" where
  "fetch_rows start stop step = u64 (u64 (stop - start) div step + 1)"

definition rra_start_time :: "rrd_t \<Rightarrow> rra_def_t \<Rightarrow> time_t" where
  "rra_start_time rrd def = s64 (cal_end rrd def - u64 (rra_step rrd def * (row_cnt def - 1)))"

definition fetch_base :: "rrd_t \<Rightarrow> rrd_file_t \<Rightarrow> nat \<Rightarrow> clong" where
  "fetch_base rrd f ch =
     fold (\<lambda>i b. b + ds_cnt (stat_head rrd) * row_cnt (rra_def rrd ! i) * 8) [0..<ch] (header_len f)"

definition first_pointer :: "rrd_t \<Rightarrow> nat \<Rightarrow> clong \<Rightarrow> clong" where
  "first_pointer rrd ch start_off =
     cmod (if start_off \<le> 0 then rra_ptr rrd ! ch + 1 else rra_ptr rrd ! ch + 1 + start_off)
       (s32 (row_cnt (rra_def rrd ! ch)))"

text \<open>Reading the rows from \<open>start\<close> to \<open>stop\<close>, both multiples of \<open>step\<close>, of one archive.\<close>

definition read_range ::
  "rrd_t \<Rightarrow> rrd_file_t \<Rightarrow> nat \<Rightarrow> time_t \<Rightarrow> time_t \<Rightarrow> ulong \<Rightarrow> rrd_error + dbl list" where
  "read_range rrd f ch start stop step =
     (let def = rra_def rrd ! ch;
          alloc = ds_cnt (stat_head rrd) * fetch_rows start stop step;
          base = fetch_base rrd f ch;
          start_off = cdiv (start + s64 step - rra_start_time rrd def) (s64 step);
          end_off = cdiv (cal_end rrd def - stop) (s64 step);
          seek = (start \<le> cal_end rrd def \<and> stop \<ge> rra_start_time rrd def - s64 step);
          ptr = (if seek then first_pointer rrd ch start_off else 0);
          f1 = (if seek then rrd_seek f (base + ptr * ds_cnt (stat_head rrd) * 8) else f)
      in fetch_loop rrd ch base alloc (nat (s32 (row_cnt def) - end_off - start_off)) start_off ptr f1 [])"

definition rrd_fetch_fn ::
  "rrd_t \<Rightarrow> rrd_file_t \<Rightarrow> cf_en \<Rightarrow> time_t \<Rightarrow> time_t \<Rightarrow> ulong \<Rightarrow> rrd_error + fetch_result" where
  "rrd_fetch_fn rrd f cf_idx start stop step =
     (case chosen_rra rrd cf_idx start stop step of
        Inl e \<Rightarrow> Inl e
      | Inr ch \<Rightarrow>
          let step' = rra_step rrd (rra_def rrd ! ch);
              start' = real_start start step'; stop' = real_end stop step'
          in case read_range rrd f ch start' stop' step' of
               Inl e \<Rightarrow> Inl e
             | Inr data \<Rightarrow> Inr \<lparr>f_start = start', f_end = stop', f_step = step',
                             f_ds_namv = map (strlcpy_take 20 \<circ> ds_nam)
                                           (take (nat (ds_cnt (stat_head rrd))) (ds_def rrd)),
                             f_data = data\<rparr>)"

definition rrd_fetch_r ::
  "rrd_t \<Rightarrow> rrd_file_t \<Rightarrow> string \<Rightarrow> time_t \<Rightarrow> time_t \<Rightarrow> ulong \<Rightarrow> rrd_error + fetch_result" where
  "rrd_fetch_r rrd f cf start stop step =
     (case rrd_cf_conv cf of
        None \<Rightarrow> Inl (Unknown_cf cf)
      | Some cf_idx \<Rightarrow> rrd_fetch_fn rrd f cf_idx start stop step)"

text \<open>A step of 0 stands for a hundredth of the range; a range below a hundred seconds then
  divides by zero. The last of the allocated values is not set.\<close>

definition rrd_fetch_empty :: "time_t \<Rightarrow> time_t \<Rightarrow> ulong \<Rightarrow> string \<Rightarrow> rrd_error + fetch_result" where
  "rrd_fetch_empty start stop step nam =
     (let step' = (if step = 0 then u64 (cdiv (stop - start) 100) else step)
      in if step' = 0 then Inl Undefined
         else let start' = real_start start step'; stop' = real_end stop step'
              in Inr \<lparr>f_start = start', f_end = stop', f_step = step', f_ds_namv = [nam],
                      f_data = replicate (nat (fetch_rows start' stop' step' - 1)) NaN\<rparr>)"

section \<open>Which archive is chosen\<close>

text \<open>An archive that covers the whole range, and the best step difference among those.\<close>

definition full_candidate :: "rrd_t \<Rightarrow> cf_en \<Rightarrow> time_t \<Rightarrow> nat \<Rightarrow> bool" where
  "full_candidate rrd cf start i \<longleftrightarrow>
     rra_matches cf (rra_def rrd ! i) \<and> cal_start rrd (rra_def rrd ! i) \<le> start"

definition part_candidate :: "rrd_t \<Rightarrow> cf_en \<Rightarrow> time_t \<Rightarrow> nat \<Rightarrow> bool" where
  "part_candidate rrd cf start i \<longleftrightarrow>
     rra_matches cf (rra_def rrd ! i) \<and> start < cal_start rrd (rra_def rrd ! i)"

text \<open>What the loop knows after the first \<open>n\<close> archives.\<close>

definition match_inv :: "rrd_t \<Rightarrow> cf_en \<Rightarrow> time_t \<Rightarrow> time_t \<Rightarrow> ulong \<Rightarrow> nat \<Rightarrow> match_state \<Rightarrow> bool" where
  "match_inv rrd cf start stop step n m \<longleftrightarrow>
     (if first_full m then \<forall>i < n. \<not> full_candidate rrd cf start i
      else \<exists>b < n. best_full_rra m = int b \<and> full_candidate rrd cf start b \<and>
             best_full_step_diff m = step_diff rrd step (rra_def rrd ! b) \<and>
             (\<forall>i < n. full_candidate rrd cf start i \<longrightarrow>
                best_full_step_diff m \<le> step_diff rrd step (rra_def rrd ! i))) \<and>
     (if first_part m then \<forall>i < n. \<not> part_candidate rrd cf start i
      else \<exists>b < n. best_part_rra m = int b \<and> part_candidate rrd cf start b \<and>
             best_match m = part_match rrd start stop (rra_def rrd ! b) \<and>
             best_part_step_diff m = step_diff rrd step (rra_def rrd ! b) \<and>
             (\<forall>i < n. part_candidate rrd cf start i \<longrightarrow>
                part_match rrd start stop (rra_def rrd ! i) < best_match m \<or>
                part_match rrd start stop (rra_def rrd ! i) = best_match m \<and>
                best_part_step_diff m \<le> step_diff rrd step (rra_def rrd ! i)))"

lemma match_inv_step:
  assumes "match_inv rrd cf start stop step n m"
  shows "match_inv rrd cf start stop step (Suc n) (consider_rra rrd cf start stop step n m)"
proof -
  consider (none) "\<not> rra_matches cf (rra_def rrd ! n)" | (full) "full_candidate rrd cf start n"
    | (part) "part_candidate rrd cf start n"
    by (force simp: full_candidate_def part_candidate_def)
  then show ?thesis
  proof cases
    case none
    then have "\<not> full_candidate rrd cf start n" "\<not> part_candidate rrd cf start n"
      by (simp_all add: full_candidate_def part_candidate_def)
    with none assms show ?thesis
      by (auto simp: match_inv_def consider_rra_def Let_def less_Suc_eq split: if_splits)
  next
    case full
    then have "\<not> part_candidate rrd cf start n"
      by (simp add: full_candidate_def part_candidate_def)
    with full assms show ?thesis
      by (auto simp: match_inv_def consider_rra_def full_candidate_def Let_def less_Suc_eq not_less
          split: if_splits intro: order.trans less_imp_le)
  next
    case part
    then have "\<not> full_candidate rrd cf start n"
      by (simp add: full_candidate_def part_candidate_def)
    with part assms show ?thesis
      by (auto simp: match_inv_def consider_rra_def part_candidate_def Let_def less_Suc_eq not_less
          split: if_splits)
  qed
qed

lemma match_inv_fold:
  "match_inv rrd cf start stop step n (fold (consider_rra rrd cf start stop step) [0..<n] no_match)"
  by (induction n) (simp_all add: match_inv_step, simp add: match_inv_def no_match_def)

section \<open>Rows of the ring buffer\<close>

text \<open>Entry \<open>j\<close> of an archive, the oldest row being entry 0.\<close>

definition ring_row :: "rrd_t \<Rightarrow> rrd_file_t \<Rightarrow> nat \<Rightarrow> int \<Rightarrow> dbl list" where
  "ring_row rrd f ch j =
     (if 0 \<le> j \<and> j < int (rows_of rrd ch)
      then row_vals rrd f ch ((cur_row rrd ch + 1 + nat j) mod rows_of rrd ch)
      else replicate (nds rrd) NaN)"

lemma row_vals_length [simp]: "length (row_vals rrd f i row) = nds rrd"
  by (simp add: row_vals_def)

lemma ring_row_length [simp]: "length (ring_row rrd f ch j) = nds rrd"
  by (simp add: ring_row_def)

lemma row_vals_cong: "file_vals f = file_vals g \<Longrightarrow> row_vals rrd f i row = row_vals rrd g i row"
  by (simp add: row_vals_def)

text \<open>Reading with the row pointer at \<open>ptr\<close>, possibly one behind the last row.\<close>

lemma read_row_at:
  assumes wf: "rrd_wf rrd" and ch: "ch < nrra rrd" and fits: "file_fits rrd f"
    and small: "row_cnt (rra_def rrd ! ch) < 2 ^ 31"
    and base: "base = header_len f + 8 * int (rra_base rrd ch)"
    and ptr: "0 \<le> ptr" "ptr \<le> int (rows_of rrd ch)"
    and pos: "file_pos f = base + ptr * ds_cnt (stat_head rrd) * 8"
  shows "\<exists>f'. read_row rrd ch base ptr f = (Some (row_vals rrd f ch (nat ptr mod rows_of rrd ch)),
      int (nat ptr mod rows_of rrd ch) + 1, f') \<and> file_vals f' = file_vals f \<and>
      header_len f' = header_len f \<and>
      file_pos f' = base + (int (nat ptr mod rows_of rrd ch) + 1) * ds_cnt (stat_head rrd) * 8"
proof -
  note r = wf_rows [OF wf ch]
  define row where "row = nat ptr mod rows_of rrd ch"
  have row: "row < rows_of rrd ch" using r(1) by (simp add: row_def)
  have s32: "s32 (int (rows_of rrd ch)) = int (rows_of rrd ch)"
    using small r(2) by (intro s32_id) simp_all
  have wrap: "(if ptr \<ge> int (rows_of rrd ch) then ptr - int (rows_of rrd ch) else ptr) = int row"
    using ptr by (auto simp: row_def)
  define f1 where "f1 = f\<lparr>file_pos := header_len f + 8 * int (cell_of rrd ch row 0)\<rparr>"
  have cell: "base + int row * ds_cnt (stat_head rrd) * 8 = header_len f + 8 * int (cell_of rrd ch row 0)"
    by (simp add: base cell_of_def rrd_wfD(1) [OF wf] algebra_simps)
  have f1: "(if ptr \<ge> int (rows_of rrd ch) then rrd_seek f (base + int row * ds_cnt (stat_head rrd) * 8)
      else f) = f1"
    using wrap pos cell by (cases f) (auto simp: f1_def rrd_seek_def)
  have bound: "cell_of rrd ch row 0 + nds rrd \<le> length (file_vals f1)"
  proof -
    have "rra_base rrd ch + Suc row * nds rrd \<le> rra_base rrd (Suc ch)"
      using row mult_le_mono1 [of "Suc row" "rows_of rrd ch" "nds rrd"] by (simp add: rra_base_Suc)
    also have "\<dots> \<le> length (file_vals f)"
      using rra_base_mono [of "Suc ch" "nrra rrd" rrd] ch fits by (simp add: file_fits_def)
    finally show ?thesis by (simp add: cell_of_def f1_def)
  qed
  have vals: "map (get_val (file_vals f1)) [cell_of rrd ch row 0..<cell_of rrd ch row 0 + nds rrd] =
      row_vals rrd f ch row"
    by (intro nth_equalityI) (simp_all add: row_vals_def get_val_def f1_def cell_of_def)
  have "rrd_read f1 (nds rrd) = (Some (row_vals rrd f ch row),
      f1\<lparr>file_pos := header_len f1 + 8 * int (cell_of rrd ch row 0 + nds rrd)\<rparr>)"
    using rrd_read_row [OF _ bound] vals by (simp add: f1_def)
  then have "read_row rrd ch base ptr f = (Some (row_vals rrd f ch row), int row + 1,
      f1\<lparr>file_pos := header_len f1 + 8 * int (cell_of rrd ch row 0 + nds rrd)\<rparr>)"
    unfolding read_row_def Let_def r(2)
    unfolding s32
    unfolding wrap
    unfolding f1
    by (simp add: rrd_wfD(1) [OF wf])
  moreover have "header_len f + 8 * int (cell_of rrd ch row 0 + nds rrd) =
      base + (int row + 1) * ds_cnt (stat_head rrd) * 8"
    by (simp add: base cell_of_def rrd_wfD(1) [OF wf] algebra_simps)
  ultimately show ?thesis unfolding row_def [symmetric] by (simp add: f1_def)
qed

text \<open>The row pointer and the file position belong to entry \<open>i\<close>.\<close>

definition at_entry :: "rrd_t \<Rightarrow> nat \<Rightarrow> int \<Rightarrow> int \<Rightarrow> int \<Rightarrow> rrd_file_t \<Rightarrow> bool" where
  "at_entry rrd ch base i ptr f \<longleftrightarrow>
     0 \<le> ptr \<and> ptr \<le> int (rows_of rrd ch) \<and> file_pos f = base + ptr * ds_cnt (stat_head rrd) * 8 \<and>
     nat ptr mod rows_of rrd ch = (cur_row rrd ch + 1 + nat i) mod rows_of rrd ch"

lemma read_row_entry:
  assumes "rrd_wf rrd" and "ch < nrra rrd" and "file_fits rrd f" and "row_cnt (rra_def rrd ! ch) < 2 ^ 31"
    and "base = header_len f + 8 * int (rra_base rrd ch)"
    and "at_entry rrd ch base i ptr f" and "0 \<le> i" and "i < int (rows_of rrd ch)"
  shows "\<exists>ptr' f'. read_row rrd ch base ptr f = (Some (ring_row rrd f ch i), ptr', f') \<and>
    file_vals f' = file_vals f \<and> header_len f' = header_len f \<and> at_entry rrd ch base (i + 1) ptr' f'"
proof -
  define row where "row = nat ptr mod rows_of rrd ch"
  have "0 < rows_of rrd ch" using assms(7,8) by simp
  then have row: "row < rows_of rrd ch" by (simp add: row_def)
  have e: "row = (cur_row rrd ch + 1 + nat i) mod rows_of rrd ch"
    using assms(6) by (simp add: at_entry_def row_def)
  obtain f' where f': "read_row rrd ch base ptr f = (Some (row_vals rrd f ch row), int row + 1, f')"
    "file_vals f' = file_vals f" "header_len f' = header_len f"
    "file_pos f' = base + (int row + 1) * ds_cnt (stat_head rrd) * 8"
    using read_row_at [OF assms(1-5)] assms(6) unfolding at_entry_def row_def by blast
  have "nat (int row + 1) mod rows_of rrd ch = (cur_row rrd ch + 1 + nat (i + 1)) mod rows_of rrd ch"
    unfolding e using assms(7) by (simp add: nat_add_distrib mod_Suc_eq)
  then have "at_entry rrd ch base (i + 1) (int row + 1) f'"
    using row f'(4) by (simp add: at_entry_def)
  then show ?thesis using f' e assms(7,8) by (auto simp: ring_row_def)
qed

lemma fetch_loop_rows:
  assumes wf: "rrd_wf rrd" and ch: "ch < nrra rrd" and fits: "file_fits rrd g"
    and small: "row_cnt (rra_def rrd ! ch) < 2 ^ 31"
    and base: "base = header_len g + 8 * int (rra_base rrd ch)"
  shows "file_vals f = file_vals g \<Longrightarrow> header_len f = header_len g \<Longrightarrow>
    int (length data + n * nds rrd) \<le> alloc \<Longrightarrow>
    i < int (rows_of rrd ch) \<and> 0 < i + int n \<longrightarrow> at_entry rrd ch base i ptr f \<Longrightarrow>
    fetch_loop rrd ch base alloc n i ptr f data =
      Inr (data @ concat (map (\<lambda>k. ring_row rrd g ch (i + int k)) [0..<n]))"
proof (induction n arbitrary: i ptr f data)
  case 0
  then show ?case by simp
next
  case (Suc n)
  have s32: "s32 (row_cnt (rra_def rrd ! ch)) = int (rows_of rrd ch)"
    using small wf_rows(2) [OF wf ch] by (auto intro: s32_id)
  have shift: "concat (map (\<lambda>k. ring_row rrd g ch (i + int k)) [0..<Suc n]) =
      ring_row rrd g ch i @ concat (map (\<lambda>k. ring_row rrd g ch (i + 1 + int k)) [0..<n])"
    by (simp add: map_upt_Suc algebra_simps del: upt_Suc)
  have room: "put_data alloc data vs = Inr (data @ vs)"
    "int (length (data @ vs) + n * nds rrd) \<le> alloc" if "length vs = nds rrd" for vs
  proof -
    have "length data + Suc n * nds rrd = length data + nds rrd + n * nds rrd" by simp
    then have all: "int (length data + nds rrd) + int (n * nds rrd) \<le> alloc"
      using Suc.prems(3) by (metis of_nat_add)
    then have "int (length data + nds rrd) \<le> alloc" by linarith
    with all show "put_data alloc data vs = Inr (data @ vs)" "int (length (data @ vs) + n * nds rrd) \<le> alloc"
      using that by (simp_all add: put_data_def)
  qed
  show ?case
  proof (cases "i < 0 \<or> i \<ge> int (rows_of rrd ch)")
    case True
    have next_entry: "i + 1 < int (rows_of rrd ch) \<and> 0 < i + 1 + int n \<longrightarrow> at_entry rrd ch base (i + 1) ptr f"
      using Suc.prems(4) True by (auto simp: at_entry_def)
    let ?nan = "replicate (nds rrd) NaN"
    have "ring_row rrd g ch i = ?nan" using True by (auto simp: ring_row_def)
    moreover have "fetch_loop rrd ch base alloc n (i + 1) ptr f (data @ ?nan) =
        Inr ((data @ ?nan) @ concat (map (\<lambda>k. ring_row rrd g ch (i + 1 + int k)) [0..<n]))"
      using Suc.prems next_entry room(2) [of ?nan] by (intro Suc.IH) simp_all
    ultimately show ?thesis
      using True room(1) [of ?nan] by (simp add: s32 rrd_wfD(1) [OF wf] shift del: upt_Suc)
  next
    case False
    then have "at_entry rrd ch base i ptr f" using Suc.prems(4) by simp
    moreover have "file_fits rrd f" "base = header_len f + 8 * int (rra_base rrd ch)"
      using fits base Suc.prems by (simp_all add: file_fits_def)
    ultimately obtain ptr' f' where rd: "read_row rrd ch base ptr f = (Some (ring_row rrd f ch i), ptr', f')"
      "file_vals f' = file_vals f" "header_len f' = header_len f" "at_entry rrd ch base (i + 1) ptr' f'"
      using read_row_entry [OF wf ch _ small] False by (meson not_le)
    have same: "ring_row rrd f ch i = ring_row rrd g ch i"
      using row_vals_cong [OF Suc.prems(1)] by (simp add: ring_row_def)
    have "fetch_loop rrd ch base alloc n (i + 1) ptr' f' (data @ ring_row rrd g ch i) =
        Inr ((data @ ring_row rrd g ch i) @ concat (map (\<lambda>k. ring_row rrd g ch (i + 1 + int k)) [0..<n]))"
      using Suc.prems rd room(2) [of "ring_row rrd g ch i"] by (intro Suc.IH) simp_all
    then show ?thesis
      using False rd room(1) [of "ring_row rrd g ch i"] by (simp add: s32 same shift del: upt_Suc)
  qed
qed

section \<open>A range of an archive\<close>

text \<open>Times and sizes in the range in which no product of the code leaves its type.\<close>

definition times_ok :: "rrd_t \<Rightarrow> bool" where
  "times_ok rrd \<longleftrightarrow> 0 \<le> last_up (live_head rrd) \<and> last_up (live_head rrd) < 2 ^ 61 \<and>
     (\<forall>i < nrra rrd. row_cnt (rra_def rrd ! i) < 2 ^ 31 \<and>
        pdp_step (stat_head rrd) * pdp_cnt (rra_def rrd ! i) * row_cnt (rra_def rrd ! i) < 2 ^ 61)"

text \<open>The row that holds the values of the interval ending at \<open>t\<close>.\<close>

definition row_of_time :: "rrd_t \<Rightarrow> rrd_file_t \<Rightarrow> nat \<Rightarrow> time_t \<Rightarrow> dbl list" where
  "row_of_time rrd f ch t =
     ring_row rrd f ch (int (rows_of rrd ch) - 1 -
       (cal_end rrd (rra_def rrd ! ch) - t) div rra_step rrd (rra_def rrd ! ch))"

lemma s64_minus_u64:
  "0 \<le> a \<Longrightarrow> a < 2 ^ 61 \<Longrightarrow> 0 \<le> b \<Longrightarrow> b < 2 ^ 61 \<Longrightarrow> s64 (a - u64 b) = a - b"
  by (simp add: u64_id s64_id)

lemma rra_times:
  assumes wf: "rrd_wf rrd" and ch: "ch < nrra rrd" and ok: "times_ok rrd"
    and S: "S = pdp_step (stat_head rrd) * pdp_cnt (rra_def rrd ! ch)"
    and L: "L = last_up (live_head rrd) div S"
  shows "rra_step rrd (rra_def rrd ! ch) = S" "0 < S" "S < 2 ^ 61"
    "cal_end rrd (rra_def rrd ! ch) = L * S" "0 \<le> L * S" "L * S < 2 ^ 61"
    "rra_start_time rrd (rra_def rrd ! ch) = (L + 1 - int (rows_of rrd ch)) * S"
    "S * int (rows_of rrd ch) < 2 ^ 61"
    "cal_start rrd (rra_def rrd ! ch) = (L - int (rows_of rrd ch)) * S"
proof -
  let ?def = "rra_def rrd ! ch" and ?last = "last_up (live_head rrd)"
  note r = wf_rows [OF wf ch]
  have pos: "0 < pdp_step (stat_head rrd)" "0 < pdp_cnt ?def"
    using rrd_wfD(6) [OF wf] rrd_wf_rra [OF wf ch] by (simp_all add: rra_ok_def)
  have big: "S * int (rows_of rrd ch) < 2 ^ 61" and last: "0 \<le> ?last" "?last < 2 ^ 61"
    using ok ch unfolding times_ok_def S r(2) [symmetric] by blast+
  show S0: "0 < S" using pos by (simp add: S)
  have "S * 1 \<le> S * int (rows_of rrd ch)" using S0 r(1) by (intro mult_left_mono) simp_all
  with big show S1: "S < 2 ^ 61" by simp
  show step: "rra_step rrd ?def = S" using S0 S1 by (simp add: rra_step_def S [symmetric] u64_id)
  have LS: "?last - ?last mod S = L * S" by (simp add: L minus_mod_eq_div_mult)
  show "0 \<le> L * S" using last S0 by (simp add: L pos_imp_zdiv_nonneg_iff)
  moreover show "L * S < 2 ^ 61" using LS last pos_mod_sign [OF S0, of ?last] by linarith
  ultimately show ce: "cal_end rrd ?def = L * S"
    using last by (simp add: cal_end_def Let_def step u64_id LS s64_id)
  have nn: "0 \<le> S * (int (rows_of rrd ch) - 1)" using S0 r(1) by simp
  have sz: "S * (int (rows_of rrd ch) - 1) = S * int (rows_of rrd ch) - S" by (simp add: algebra_simps)
  show "rra_start_time rrd ?def = (L + 1 - int (rows_of rrd ch)) * S"
    unfolding rra_start_time_def ce step r(2)
    using s64_minus_u64 [OF \<open>0 \<le> L * S\<close> \<open>L * S < 2 ^ 61\<close> nn] sz big S0 by (simp add: algebra_simps)
  show "S * int (rows_of rrd ch) < 2 ^ 61" by (rule big)
  have prod: "pdp_cnt ?def * row_cnt ?def * pdp_step (stat_head rrd) = S * int (rows_of rrd ch)"
    by (simp add: S r(2))
  have nn2: "0 \<le> S * int (rows_of rrd ch)" using S0 by simp
  show "cal_start rrd ?def = (L - int (rows_of rrd ch)) * S"
    unfolding cal_start_def ce prod
    using s64_minus_u64 [OF \<open>0 \<le> L * S\<close> \<open>L * S < 2 ^ 61\<close> nn2 big] by (simp add: algebra_simps)
qed

lemma fetch_base_value:
  assumes wf: "rrd_wf rrd" and "ch \<le> nrra rrd"
  shows "fetch_base rrd f ch = header_len f + 8 * int (rra_base rrd ch)"
  using assms(2)
proof (induction ch)
  case 0
  then show ?case by (simp add: fetch_base_def rra_base_def)
next
  case (Suc ch)
  then show ?case using wf_rows(2) [OF wf, of ch] rrd_wfD(1) [OF wf]
    by (simp add: fetch_base_def rra_base_Suc algebra_simps)
qed

lemma fetch_rows_value:
  assumes "0 < S" and "0 \<le> a * S" and "a \<le> b" and "b * S < 2 ^ 62"
  shows "fetch_rows (a * S) (b * S) S = b - a + 1"
proof -
  have d: "b * S - a * S = (b - a) * S" by (simp add: algebra_simps)
  have lo: "0 \<le> (b - a) * S" using assms by simp
  have hi: "(b - a) * S < 2 ^ 62" using assms d by linarith
  have "(b - a) * 1 \<le> (b - a) * S" using assms by (intro mult_left_mono) simp_all
  from le_less_trans [OF this hi] have "b - a < 2 ^ 62" by simp
  then have "u64 (b - a + 1) = b - a + 1" using assms(3) by (simp add: u64_id)
  moreover have "u64 ((b - a) * S) = (b - a) * S" using lo hi by (simp add: u64_id)
  ultimately show ?thesis using assms(1) unfolding fetch_rows_def d by simp
qed

lemma read_range_rows:
  assumes wf: "rrd_wf rrd" and ch: "ch < nrra rrd" and ok: "times_ok rrd" and fits: "file_fits rrd f"
    and S: "S = rra_step rrd (rra_def rrd ! ch)"
    and ab: "0 \<le> a * S" "a < b" "b * S < 2 ^ 62"
  shows "read_range rrd f ch (a * S) (b * S) S =
    Inr (concat (map (\<lambda>k. row_of_time rrd f ch ((a + 1 + int k) * S)) [0..<nat (b - a)]))"
proof -
  let ?def = "rra_def rrd ! ch" and ?n = "int (rows_of rrd ch)"
  define L where "L = last_up (live_head rrd) div S"
  note r = wf_rows [OF wf ch]
  have "S = pdp_step (stat_head rrd) * pdp_cnt ?def" using rra_times(1) [OF wf ch ok refl refl] S by simp
  note t = rra_times [OF wf ch ok this L_def]
  have small: "row_cnt ?def < 2 ^ 31" using ok ch by (simp add: times_ok_def)
  then have s32: "s32 (row_cnt ?def) = ?n" using r(2) by (simp add: s32_id)
  have s64: "s64 S = S" using t(2,3) by (simp add: s64_id)
  have so: "cdiv (a * S + S - (L + 1 - ?n) * S) S = a - L + ?n"
    using cdiv_mult_exact [OF t(2), of "a - L + ?n"] by (simp add: algebra_simps)
  have eo: "cdiv (L * S - b * S) S = L - b"
    using cdiv_mult_exact [OF t(2), of "L - b"] by (simp add: algebra_simps)
  define i0 where "i0 = a - L + ?n"
  have cnt: "nat (?n - (L - b) - i0) = nat (b - a)" by (simp add: i0_def)
  define base where "base = fetch_base rrd f ch"
  define ptr where "ptr = first_pointer rrd ch i0"
  have base: "base = header_len f + 8 * int (rra_base rrd ch)"
    using fetch_base_value [OF wf] ch by (simp add: base_def)
  have ptr: "ptr = int ((cur_row rrd ch + 1 + nat i0) mod rows_of rrd ch)"
    using r(1,3) cmod_nonneg [of "int (cur_row rrd ch + 1 + nat i0)" ?n]
    by (auto simp: ptr_def first_pointer_def s32 zmod_int ac_simps split: if_splits)
  define seek where "seek \<longleftrightarrow> a * S \<le> L * S \<and> b * S \<ge> (L + 1 - ?n) * S - S"
  have at0: "at_entry rrd ch base i0 ptr (rrd_seek f (base + ptr * ds_cnt (stat_head rrd) * 8))"
    using r(1) by (simp add: at_entry_def ptr rrd_seek_def less_imp_le)
  have seek: "seek" if "i0 < ?n" "0 < i0 + int (nat (b - a))"
  proof -
    have "a \<le> L" "b \<ge> L - ?n" using that ab(2) by (simp_all add: i0_def)
    then show ?thesis using t(2) mult_right_mono [of "L - ?n" b S] by (simp add: seek_def algebra_simps)
  qed
  have alloc: "int (length [] + nat (b - a) * nds rrd) \<le> ds_cnt (stat_head rrd) * (b - a + 1)"
    using ab(2) by (simp add: rrd_wfD(1) [OF wf] algebra_simps)
  have "fetch_loop rrd ch base (ds_cnt (stat_head rrd) * (b - a + 1)) (nat (b - a)) i0
      (if seek then ptr else 0) (if seek then rrd_seek f (base + ptr * ds_cnt (stat_head rrd) * 8) else f) [] =
      Inr ([] @ concat (map (\<lambda>k. ring_row rrd f ch (i0 + int k)) [0..<nat (b - a)]))"
    using seek at0 alloc
    by (intro fetch_loop_rows [OF wf ch fits small base]) (auto simp: rrd_seek_def)
  moreover have "row_of_time rrd f ch ((a + 1 + int k) * S) = ring_row rrd f ch (i0 + int k)" for k
  proof -
    have "L * S - (a + 1 + int k) * S = (L - (a + 1 + int k)) * S" by (simp add: algebra_simps)
    then show ?thesis using t(2)
      by (simp add: row_of_time_def t(4) S [symmetric] i0_def algebra_simps)
  qed
  ultimately show ?thesis
    unfolding read_range_def Let_def s64 t(4,7) so eo s32 base_def [symmetric] i0_def [symmetric]
      ptr_def [symmetric] seek_def [symmetric] cnt
    using fetch_rows_value [OF t(2) ab(1) _ ab(3)] ab(2)
    by (simp only: less_imp_le append_Nil cong: if_cong) (simp split: if_splits)
qed

text \<open>A row by its age, counted from the current row.\<close>

lemma row_of_time_age:
  assumes wf: "rrd_wf rrd" and ch: "ch < nrra rrd" and ok: "times_ok rrd"
    and age: "j < rows_of rrd ch"
  shows "row_of_time rrd f ch (cal_end rrd (rra_def rrd ! ch) - int j * rra_step rrd (rra_def rrd ! ch)) =
    row_vals rrd f ch ((cur_row rrd ch + rows_of rrd ch - j) mod rows_of rrd ch)"
proof -
  have "0 < rra_step rrd (rra_def rrd ! ch)" using rra_times(1,2) [OF wf ch ok refl refl] by simp
  moreover have "nat (int (rows_of rrd ch) - 1 - int j) = rows_of rrd ch - 1 - j" using age by simp
  moreover have "cur_row rrd ch + 1 + (rows_of rrd ch - 1 - j) = cur_row rrd ch + rows_of rrd ch - j"
    using age by simp
  ultimately show ?thesis using age by (simp add: row_of_time_def ring_row_def)
qed

lemma real_start_value:
  "0 < S \<Longrightarrow> 0 \<le> t \<Longrightarrow> t < 2 ^ 61 \<Longrightarrow> real_start t S = t div S * S"
proof -
  assume "0 < S" "0 \<le> t" "t < 2 ^ 61"
  moreover have "0 \<le> t div S * S" using calculation by (simp add: pos_imp_zdiv_nonneg_iff)
  moreover have "t div S * S \<le> t"
    using pos_mod_sign [of S t] calculation(1) by (simp add: minus_mod_eq_div_mult [symmetric])
  ultimately show ?thesis
    by (simp add: real_start_def u64_id s64_id minus_mod_eq_div_mult)
qed

lemma next_multiple:
  fixes S t :: int
  assumes "0 < S" and "S < 2 ^ 61" and "0 \<le> t" and "t < 2 ^ 61"
  shows "t + (S - t mod S) = (t div S + 1) * S" "0 \<le> (t div S + 1) * S" "(t div S + 1) * S < 2 ^ 62"
proof -
  show e: "t + (S - t mod S) = (t div S + 1) * S"
    using minus_mod_eq_div_mult [of t S] by (simp add: algebra_simps)
  have "0 \<le> t mod S" "t mod S < S" using assms(1) by simp_all
  then have "0 \<le> t + (S - t mod S) \<and> t + (S - t mod S) < 2 ^ 61 + 2 ^ 61" using assms by linarith
  then show "0 \<le> (t div S + 1) * S" "(t div S + 1) * S < 2 ^ 62" unfolding e by simp_all
qed

lemma real_end_value:
  "0 < S \<Longrightarrow> S < 2 ^ 61 \<Longrightarrow> 0 \<le> t \<Longrightarrow> t < 2 ^ 61 \<Longrightarrow> real_end t S = (t div S + 1) * S"
  using next_multiple [of S t] by (simp add: real_end_def u64_id s64_id)

section \<open>The sample database\<close>

lemma sample_fits: "file_fits sample_rrd sample_file"
  by (simp add: file_fits_def rra_base_def sample_file_def lessThan_Suc numeral_2_eq_2)

lemma sample_times: "times_ok sample_rrd"
  by (simp add: times_ok_def less_Suc_eq numeral_2_eq_2 all_conj_distrib)

lemma sample_chosen: "chosen_rra sample_rrd CF_AVERAGE 1199999000 1199999900 300 = Inr 0"
  by code_simp

lemma sample_chosen_max: "chosen_rra sample_rrd CF_MAXIMUM 1199999000 1199999900 600 = Inr 1"
  by code_simp

section \<open>Properties\<close>

lemma chosen_rra_spec:
  assumes "rrd_wf rrd"
  shows "case chosen_rra rrd cf start stop step of
      Inl e \<Rightarrow> e = No_matching_rra \<and> (\<forall>i < nrra rrd. \<not> rra_matches cf (rra_def rrd ! i))
    | Inr ch \<Rightarrow> ch < nrra rrd \<and>
        ((full_candidate rrd cf start ch \<and>
           (\<forall>i < nrra rrd. full_candidate rrd cf start i \<longrightarrow>
              step_diff rrd step (rra_def rrd ! ch) \<le> step_diff rrd step (rra_def rrd ! i))) \<or>
         ((\<forall>i < nrra rrd. \<not> full_candidate rrd cf start i) \<and> part_candidate rrd cf start ch \<and>
           (\<forall>i < nrra rrd. part_candidate rrd cf start i \<longrightarrow>
              part_match rrd start stop (rra_def rrd ! i) < part_match rrd start stop (rra_def rrd ! ch) \<or>
              part_match rrd start stop (rra_def rrd ! i) = part_match rrd start stop (rra_def rrd ! ch) \<and>
              step_diff rrd step (rra_def rrd ! ch) \<le> step_diff rrd step (rra_def rrd ! i))))"
proof -
  define m where "m = fold (consider_rra rrd cf start stop step) [0..<nrra rrd] no_match"
  have "match_inv rrd cf start stop step (nrra rrd) m" unfolding m_def by (rule match_inv_fold)
  then have inv: "first_full m \<longrightarrow> (\<forall>i < nrra rrd. \<not> full_candidate rrd cf start i)"
    "first_part m \<longrightarrow> (\<forall>i < nrra rrd. \<not> part_candidate rrd cf start i)"
    "\<not> first_full m \<longrightarrow> (\<exists>b < nrra rrd. best_full_rra m = int b \<and> full_candidate rrd cf start b \<and>
       (\<forall>i < nrra rrd. full_candidate rrd cf start i \<longrightarrow>
          step_diff rrd step (rra_def rrd ! b) \<le> step_diff rrd step (rra_def rrd ! i)))"
    "\<not> first_part m \<longrightarrow> (\<exists>b < nrra rrd. best_part_rra m = int b \<and> part_candidate rrd cf start b \<and>
       (\<forall>i < nrra rrd. part_candidate rrd cf start i \<longrightarrow>
          part_match rrd start stop (rra_def rrd ! i) < part_match rrd start stop (rra_def rrd ! b) \<or>
          part_match rrd start stop (rra_def rrd ! i) = part_match rrd start stop (rra_def rrd ! b) \<and>
          step_diff rrd step (rra_def rrd ! b) \<le> step_diff rrd step (rra_def rrd ! i)))"
    unfolding match_inv_def by (simp_all split: if_splits) metis+
  have cases: "chosen_rra rrd cf start stop step =
      (if \<not> first_full m then Inr (nat (best_full_rra m))
       else if \<not> first_part m then Inr (nat (best_part_rra m)) else Inl No_matching_rra)"
    by (simp add: chosen_rra_def Let_def m_def rrd_wfD(2) [OF assms])
  have none: "\<not> rra_matches cf (rra_def rrd ! i)"
    if "\<not> full_candidate rrd cf start i" "\<not> part_candidate rrd cf start i" for i
    using that by (auto simp: full_candidate_def part_candidate_def not_le)
  consider "\<not> first_full m" | "first_full m" "\<not> first_part m" | "first_full m" "first_part m" by blast
  then show ?thesis
    by cases (use inv none in \<open>auto simp: cases\<close>)
qed

lemma chosen_rra_bound: "rrd_wf rrd \<Longrightarrow> chosen_rra rrd cf start stop step = Inr ch \<Longrightarrow> ch < nrra rrd"
  using chosen_rra_spec [of rrd cf start step stop] by simp

text \<open>C8: the archive a fetch reads has the requested function (or holds single steps and both
  functions are among MIN, MAX, AVERAGE and LAST). It covers the start of the range and no such
  archive has a step nearer to the requested one; if none covers it, the chosen one covers most
  of the range, with the nearest step among those that cover as much. There is no answer exactly
  if no archive matches.\<close>

theorem chosen_rra_best:
  assumes "rrd_wf rrd"
  shows "case chosen_rra rrd cf start stop step of
      Inl e \<Rightarrow> e = No_matching_rra \<and> (\<forall>i < nrra rrd. \<not> rra_matches cf (rra_def rrd ! i))
    | Inr ch \<Rightarrow> ch < nrra rrd \<and>
        ((full_candidate rrd cf start ch \<and>
           (\<forall>i < nrra rrd. full_candidate rrd cf start i \<longrightarrow>
              step_diff rrd step (rra_def rrd ! ch) \<le> step_diff rrd step (rra_def rrd ! i))) \<or>
         ((\<forall>i < nrra rrd. \<not> full_candidate rrd cf start i) \<and> part_candidate rrd cf start ch \<and>
           (\<forall>i < nrra rrd. part_candidate rrd cf start i \<longrightarrow>
              part_match rrd start stop (rra_def rrd ! i) < part_match rrd start stop (rra_def rrd ! ch) \<or>
              part_match rrd start stop (rra_def rrd ! i) = part_match rrd start stop (rra_def rrd ! ch) \<and>
              step_diff rrd step (rra_def rrd ! ch) \<le> step_diff rrd step (rra_def rrd ! i))))"
  by (rule chosen_rra_spec [OF assms])

theorem chosen_rra_best_witness:
  "chosen_rra sample_rrd CF_MAXIMUM 1199999000 1199999900 600 = Inr 1 \<and>
   (full_candidate sample_rrd CF_MAXIMUM 1199999000 1 \<or> part_candidate sample_rrd CF_MAXIMUM 1199999000 1)"
  using chosen_rra_best [OF sample_wf, where cf = CF_MAXIMUM and start = 1199999000
      and stop = 1199999900 and step = 600] by (auto simp: sample_chosen_max)

lemma rrd_fetch_fn_ring:
  assumes wf: "rrd_wf rrd" and ok: "times_ok rrd" and fits: "file_fits rrd f"
    and t: "0 \<le> start" "start \<le> stop" "stop < 2 ^ 61"
    and ch: "chosen_rra rrd cf start stop step = Inr ch"
    and S: "S = pdp_step (stat_head rrd) * pdp_cnt (rra_def rrd ! ch)"
  shows "rrd_fetch_fn rrd f cf start stop step = Inr
    \<lparr>f_start = start - start mod S, f_end = stop - stop mod S + S, f_step = S,
     f_ds_namv = map (take 19 \<circ> ds_nam) (ds_def rrd),
     f_data = concat (map (\<lambda>k. row_of_time rrd f ch (start - start mod S + (int k + 1) * S))
                        [0..<nat (stop div S + 1 - start div S)])\<rparr>"
proof -
  note ch = ch chosen_rra_bound [OF wf ch]
  note r = rra_times [OF wf ch(2) ok S refl]
  have t': "0 \<le> stop" "start < 2 ^ 61" using t by simp_all
  define a b where "a = start div S" and "b = stop div S + 1"
  have st: "real_start start S = a * S" "real_end stop S = b * S"
    using real_start_value [OF r(2) t(1) t'(2)] real_end_value [OF r(2,3) t'(1) t(3)]
    by (simp_all add: a_def b_def)
  have ab: "a < b" using zdiv_mono1 [OF t(2) r(2)] by (simp add: a_def b_def)
  have a0: "0 \<le> a * S" using t(1) r(2) by (simp add: a_def pos_imp_zdiv_nonneg_iff)
  have eq: "start - start mod S = a * S" "stop - stop mod S + S = b * S"
    by (simp_all add: a_def b_def minus_mod_eq_div_mult algebra_simps)
  have "b * S < 2 ^ 62" using next_multiple(3) [OF r(2,3) t'(1) t(3)] by (simp add: b_def)
  from read_range_rows [OF wf ch(2) ok fits r(1) [symmetric] a0 ab this]
  have "read_range rrd f ch (a * S) (b * S) S =
      Inr (concat (map (\<lambda>k. row_of_time rrd f ch (a * S + (int k + 1) * S)) [0..<nat (b - a)]))"
    by (simp add: algebra_simps)
  then show ?thesis unfolding eq
    by (simp add: rrd_fetch_fn_def Let_def ch(1) r(1) st a_def [symmetric] b_def [symmetric]
        rrd_wfD(1) [OF wf] strlcpy_take_def comp_def)
qed

text \<open>C4: a fetch that finds an archive succeeds. Start and end are widened to multiples of the
  step of the archive, and the data are, for each step of the range, the row of the ring buffer
  that belongs to the end of that step, unknown where the archive has none; the data fit the
  allocated area.\<close>

theorem rrd_fetch_fn_rows:
  assumes wf: "rrd_wf rrd" and ok: "times_ok rrd" and fits: "file_fits rrd f"
    and t: "0 \<le> start" "start \<le> stop" "stop < 2 ^ 61"
    and ch: "chosen_rra rrd cf start stop step = Inr ch"
    and S: "S = pdp_step (stat_head rrd) * pdp_cnt (rra_def rrd ! ch)"
  shows "rrd_fetch_fn rrd f cf start stop step = Inr
    \<lparr>f_start = start - start mod S, f_end = stop - stop mod S + S, f_step = S,
     f_ds_namv = map (take 19 \<circ> ds_nam) (ds_def rrd),
     f_data = concat (map (\<lambda>k. row_of_time rrd f ch (start - start mod S + (int k + 1) * S))
                        [0..<nat (stop div S + 1 - start div S)])\<rparr>"
  by (rule rrd_fetch_fn_ring [OF assms])

theorem rrd_fetch_fn_rows_witness:
  "rrd_fetch_fn sample_rrd sample_file CF_AVERAGE 1199999000 1199999900 300 = Inr
    \<lparr>f_start = 1199998800, f_end = 1200000000, f_step = 300, f_ds_namv = [''temp'', ''in''],
     f_data = map dint [6, 7, 0, 1, 2, 3, 4, 5]\<rparr>"
proof -
  have "rrd_fetch_fn sample_rrd sample_file CF_AVERAGE 1199999000 1199999900 300 = Inr
    \<lparr>f_start = 1199998800, f_end = 1200000000, f_step = 300, f_ds_namv = [''temp'', ''in''],
     f_data = concat (map (\<lambda>k. row_of_time sample_rrd sample_file 0 (1199998800 + (int k + 1) * 300)) [0..<4])\<rparr>"
    using rrd_fetch_fn_rows [OF sample_wf sample_times sample_fits _ _ _ sample_chosen refl]
    by (simp add: sample_ds_def)
  also have "concat (map (\<lambda>k. row_of_time sample_rrd sample_file 0 (1199998800 + (int k + 1) * 300)) [0..<4]) = 
     map dint [6, 7, 0, 1, 2, 3, 4, 5]"
    by code_simp
  finally show ?thesis .
qed
lemma archives_written_row:
  assumes wf: "rrd_wf (u_rrd s)" and i: "i < nrra (u_rrd s)" and a: "archives_written 0 s s'"
    and j: "j < rows_of (u_rrd s) i" and c: "u_skip s ! i = 0 \<or> rows_due s i \<le> j"
    and row: "row = (cur_row (u_rrd s) i + rows_due s i + rows_of (u_rrd s) i - j) mod rows_of (u_rrd s) i"
  shows "row_vals (u_rrd s) (u_file s') i row =
    (if Suc j < rows_due s i then prepared (u_rrd s) i CDP_secondary_val
     else if Suc j = rows_due s i then prepared (u_rrd s) i CDP_primary_val else row_vals (u_rrd s) (u_file s) i row)"
proof (cases "rows_due s i \<le> j")
  case True
  then show ?thesis using archives_written_keeps [OF wf i a _ _ row] j by simp
next
  case False
  let ?k = "rows_due s i"
  have "cur_row (u_rrd s) i + ?k + rows_of (u_rrd s) i - j = cur_row (u_rrd s) i + Suc (?k - Suc j) + rows_of (u_rrd s) i"
    using False by simp
  then have "row = (cur_row (u_rrd s) i + Suc (?k - Suc j)) mod rows_of (u_rrd s) i" unfolding row by (simp only: mod_add_self2)
  moreover have "u_skip s ! i = 0" using c False by simp
  ultimately have "row_vals (u_rrd s) (u_file s') i row =
      (if ?k - Suc j = 0 then prepared (u_rrd s) i CDP_primary_val else prepared (u_rrd s) i CDP_secondary_val)"
    using a i False unfolding archives_written_def
    by (metis diff_Suc_less gr0I less_nat_zero_code linorder_not_le zero_le)
  then show ?thesis using False by auto
qed

text \<open>C3: what an update writes is what a fetch finds. After \<open>write_to_rras\<close> and the new time of
  the last update, an archive in which \<open>k\<close> rows were due holds, by time, the value prepared for
  the first of them at the oldest of the \<open>k\<close> newest times, the value prepared for the others at
  the later ones, and for the times before, the rows it had; so exactly the \<open>k\<close> oldest rows are
  gone. Archives whose rows are skipped keep everything else too.\<close>

theorem written_rows_fetched:
  assumes wf: "rrd_wf (u_rrd s)" and fits: "file_fits (u_rrd s) (u_file s)"
    and due: "\<forall>i < nrra (u_rrd s). rows_due s i \<le> rows_of (u_rrd s) i"
    and ok: "times_ok (set_last_up t usec ver (u_rrd s))"
  shows "\<exists>s'. write_to_rras (header_len (u_file s)) t' s = (0, s') \<and>
    (\<forall>i < nrra (u_rrd s). \<forall>j < rows_of (u_rrd s) i.
       u_skip s ! i = 0 \<or> rows_due s i \<le> j \<longrightarrow>
       row_of_time (set_last_up t usec ver (u_rrd s')) (u_file s') i
         (cal_end (set_last_up t usec ver (u_rrd s)) (rra_def (u_rrd s) ! i)
            - int j * rra_step (u_rrd s) (rra_def (u_rrd s) ! i)) =
       (if Suc j < rows_due s i then prepared (u_rrd s) i CDP_secondary_val
        else if Suc j = rows_due s i then prepared (u_rrd s) i CDP_primary_val
        else row_vals (u_rrd s) (u_file s) i
               ((cur_row (u_rrd s) i + rows_due s i + rows_of (u_rrd s) i - j) mod rows_of (u_rrd s) i)))"
proof -
  let ?rrd = "u_rrd s" and ?new = "\<lambda>s'. set_last_up t usec ver (u_rrd s')"
  obtain s' where w: "write_to_rras (header_len (u_file s)) t' s = (0, s')" and a: "archives_written 0 s s'"
    using write_loop_effect [OF wf fits, of 0 "nrra ?rrd" "header_len (u_file s)" t'] due
    by (auto simp: write_to_rras_def rrd_wfD(2) [OF wf] rra_base_def)
  note a' = archives_written_wf [OF wf a]
  have lay: "stat_head (u_rrd s') = stat_head ?rrd" "ds_def (u_rrd s') = ds_def ?rrd"
    "rra_def (u_rrd s') = rra_def ?rrd" using a'(2) by (simp_all add: same_layout_def)
  have wf': "rrd_wf (?new s')" using a'(1) by (simp add: rrd_wf_def rra_ok_def)
  have ok': "times_ok (?new s')" using ok by (simp add: times_ok_def lay)
  have ce: "cal_end (?new s') d = cal_end (?new s) d" "rra_step (?new s') d = rra_step ?rrd d" for d
    by (simp_all add: cal_end_def rra_step_def lay)
  have "row_of_time (?new s') (u_file s') i
      (cal_end (?new s) (rra_def ?rrd ! i) - int j * rra_step ?rrd (rra_def ?rrd ! i)) =
       (if Suc j < rows_due s i then prepared ?rrd i CDP_secondary_val
        else if Suc j = rows_due s i then prepared ?rrd i CDP_primary_val
        else row_vals ?rrd (u_file s) i
               ((cur_row ?rrd i + rows_due s i + rows_of ?rrd i - j) mod rows_of ?rrd i))"
    if i: "i < nrra ?rrd" and j: "j < rows_of ?rrd i" and c: "u_skip s ! i = 0 \<or> rows_due s i \<le> j" for i j
  proof -
    define n k where "n = rows_of ?rrd i" and "k = rows_due s i"
    define row where "row = (cur_row ?rrd i + k + n - j) mod n"
    have "((cur_row ?rrd i + k) mod n + n - j) mod n = row"
      using j unfolding row_def n_def by (metis Nat.add_diff_assoc less_imp_le mod_add_left_eq)
    then have "row_of_time (?new s') (u_file s') i
        (cal_end (?new s) (rra_def ?rrd ! i) - int j * rra_step ?rrd (rra_def ?rrd ! i)) =
        row_vals ?rrd (u_file s') i row"
      using row_of_time_age [OF wf' _ ok', of i j "u_file s'"] i j a'(3) [OF i] row_vals_defs [of "?new s'" ?rrd]
      by (simp add: lay ce n_def k_def)
    also have "\<dots> = (if Suc j < k then prepared ?rrd i CDP_secondary_val
        else if Suc j = k then prepared ?rrd i CDP_primary_val else row_vals ?rrd (u_file s) i row)"
      unfolding k_def by (rule archives_written_row [OF wf i a j c]) (simp add: row_def n_def k_def)
    finally show ?thesis by (simp add: row_def n_def k_def)
  qed
  with w show ?thesis by blast
qed

definition sample_state :: ustate where
  "sample_state = (initial_state sample_rrd sample_file None)\<lparr>u_steps := [2, 1]\<rparr>"

lemma sample_state_simps [simp]:
  "u_rrd sample_state = sample_rrd" "u_file sample_state = sample_file" "u_skip sample_state = [0, 0]"
  "u_steps sample_state = [2, 1]"
  by (simp_all add: sample_state_def initial_state_def numeral_2_eq_2)

theorem written_rows_fetched_witness:
  "\<exists>s'. write_to_rras 1280 1200000600 sample_state = (0, s') \<and>
     row_of_time (set_last_up 1200000600 0 3 (u_rrd s')) (u_file s') 0 1200000300 =
       prepared sample_rrd 0 CDP_primary_val"
proof -
  have ok: "times_ok (set_last_up 1200000600 0 3 (u_rrd sample_state))"
    by (simp add: times_ok_def less_Suc_eq numeral_2_eq_2 all_conj_distrib)
  have ce: "cal_end (set_last_up 1200000600 0 3 sample_rrd) (sample_rra ''AVERAGE'' 4 1) = 1200000600"
    "rra_step sample_rrd (sample_rra ''AVERAGE'' 4 1) = 300"
    by (simp_all add: cal_end_def rra_step_def u64_def s64_def Let_def)
  have due: "\<forall>i < nrra (u_rrd sample_state). rows_due sample_state i \<le> rows_of (u_rrd sample_state) i"
    by (simp add: rows_due_def rows_of_def less_Suc_eq numeral_2_eq_2 all_conj_distrib)
  have side: "rrd_wf (u_rrd sample_state)" "file_fits (u_rrd sample_state) (u_file sample_state)"
    using sample_wf sample_fits by simp_all
  obtain s' where w: "write_to_rras (header_len (u_file sample_state)) 1200000600 sample_state = (0, s')"
    and rows: "\<forall>i < nrra (u_rrd sample_state). \<forall>j < rows_of (u_rrd sample_state) i.
       u_skip sample_state ! i = 0 \<or> rows_due sample_state i \<le> j \<longrightarrow>
       row_of_time (set_last_up 1200000600 0 3 (u_rrd s')) (u_file s') i
         (cal_end (set_last_up 1200000600 0 3 (u_rrd sample_state)) (rra_def (u_rrd sample_state) ! i)
            - int j * rra_step (u_rrd sample_state) (rra_def (u_rrd sample_state) ! i)) =
       (if Suc j < rows_due sample_state i then prepared (u_rrd sample_state) i CDP_secondary_val
        else if Suc j = rows_due sample_state i then prepared (u_rrd sample_state) i CDP_primary_val
        else row_vals (u_rrd sample_state) (u_file sample_state) i
               ((cur_row (u_rrd sample_state) i + rows_due sample_state i +
                 rows_of (u_rrd sample_state) i - j) mod rows_of (u_rrd sample_state) i))"
    using written_rows_fetched [OF side due ok, of 1200000600] by blast
  have "0 < nrra (u_rrd sample_state)" "1 < rows_of (u_rrd sample_state) 0" "rows_due sample_state 0 = 2"
    by (simp_all add: rows_of_def rows_due_def)
  with rows [rule_format, of 0 1] w ce show ?thesis
    by (intro exI [of _ s']) simp
qed

theorem reported_row_times_witness:
  "\<exists>es s'. write_rows 2 CDP_primary_val 1 1280 0 1200000600 (initial_state sample_rrd sample_file (Some [])) =
      (0, s') \<and> u_summary s' = Some es \<and> map se_time es = [1200000300, 1200000300, 1200000900, 1200000900]"
proof -
  define s where "s = initial_state sample_rrd sample_file (Some [])"
  have s: "u_summary s = Some []" "nthi (u_skip s) 0 = 0" "u_rrd s = sample_rrd" "u_file s = sample_file"
    by (simp_all add: s_def initial_state_def)
  obtain s' where w: "write_rows 2 CDP_primary_val 1 1280 0 1200000600 s = (0, s')"
    using write_rows_effect [of s 0 1280 2 CDP_primary_val 1 1200000600] s sample_wf sample_fits
    by (auto simp: rra_base_def rows_of_def)
  have "\<exists>es'. u_summary s' = Some ([] @ es') \<and> map se_time es' = concat (map (\<lambda>i. replicate 2
      (1200000600 - int (2 - i) * 300 + (if i = 1 then 0 else 300))) [1..<Suc 2])"
    by (rule reported_row_times [OF w s(1,2)]) (simp_all add: s rra_at_def)
  then have "\<exists>es'. u_summary s' = Some es' \<and> map se_time es' = [1200000300, 1200000300, 1200000900, 1200000900]"
    by (simp add: upt_rec numeral_2_eq_2)
  with w show ?thesis unfolding s_def by metis
qed

end
