(* ===== verification/Rrd_Update_Keeps.thy ===== *)
theory Rrd_Update_Keeps
  imports Rrd_Update_Rows
begin

text \<open>
  What an update keeps, also one that fails half way: the definitions, the sizes of all areas and
  row pointers inside their archives. So a well-formed database stays well-formed, whatever the
  arguments are.
\<close>

section \<open>The relations\<close>

definition ptr_ok :: "rrd_t \<Rightarrow> nat \<Rightarrow> bool" where
  "ptr_ok rrd i \<longleftrightarrow> 0 \<le> rra_ptr rrd ! i \<and> rra_ptr rrd ! i < row_cnt (rra_def rrd ! i)"

definition sized :: "rrd_t \<Rightarrow> rrd_t \<Rightarrow> bool" where
  "sized a b \<longleftrightarrow> same_layout a b \<and> length (pdp_prep b) = length (pdp_prep a) \<and>
     length (cdp_prep b) = length (cdp_prep a) \<and> length (rra_ptr b) = length (rra_ptr a) \<and>
     (\<forall>i. ptr_ok a i \<longrightarrow> ptr_ok b i)"

text \<open>Before the update is complete the time of the last one stays too.\<close>

definition keeps :: "rrd_t \<Rightarrow> rrd_t \<Rightarrow> bool" where
  "keeps a b \<longleftrightarrow> sized a b \<and> live_head b = live_head a"

definition file_keeps :: "rrd_file_t \<Rightarrow> rrd_file_t \<Rightarrow> bool" where
  "file_keeps f g \<longleftrightarrow> header_len g = header_len f \<and> length (file_vals g) = length (file_vals f)"

definition state_keeps :: "ustate \<Rightarrow> ustate \<Rightarrow> bool" where
  "state_keeps s s' \<longleftrightarrow> keeps (u_rrd s) (u_rrd s') \<and> file_keeps (u_file s) (u_file s') \<and>
     length (u_temp s') = length (u_temp s)"

definition state_sized :: "ustate \<Rightarrow> ustate \<Rightarrow> bool" where
  "state_sized s s' \<longleftrightarrow> sized (u_rrd s) (u_rrd s') \<and> file_keeps (u_file s) (u_file s')"

lemma sized_refl [simp]: "sized a a"
  by (simp add: sized_def)

lemma sized_trans: "sized a b \<Longrightarrow> sized b c \<Longrightarrow> sized a c"
  by (auto simp: sized_def intro: same_layout_trans)

lemma keeps_refl [simp]: "keeps a a"
  by (simp add: keeps_def)

lemma keeps_trans: "keeps a b \<Longrightarrow> keeps b c \<Longrightarrow> keeps a c"
  using sized_trans by (auto simp: keeps_def)

lemma file_keeps_refl [simp]: "file_keeps f f"
  by (simp add: file_keeps_def)

lemma file_keeps_trans: "file_keeps f g \<Longrightarrow> file_keeps g h \<Longrightarrow> file_keeps f h"
  by (simp add: file_keeps_def)

lemma state_keeps_refl [simp]: "state_keeps s s"
  by (simp add: state_keeps_def)

lemma state_keeps_trans: "state_keeps s t \<Longrightarrow> state_keeps t u \<Longrightarrow> state_keeps s u"
  using keeps_trans file_keeps_trans by (auto simp: state_keeps_def)

lemma state_keeps_sized: "state_keeps s t \<Longrightarrow> state_sized s t"
  by (simp add: state_keeps_def keeps_def state_sized_def)

lemma state_sized_trans: "state_sized s t \<Longrightarrow> state_sized t u \<Longrightarrow> state_sized s u"
  using sized_trans file_keeps_trans by (auto simp: state_sized_def)

lemma sized_wf: "rrd_wf a \<Longrightarrow> sized a b \<Longrightarrow> rrd_wf b"
  by (auto simp: sized_def same_layout_def rrd_wf_def rra_ok_def ptr_ok_def)

lemma keeps_wf: "rrd_wf a \<Longrightarrow> keeps a b \<Longrightarrow> rrd_wf b"
  using sized_wf by (auto simp: keeps_def)

lemma keeps_layout:
  assumes "keeps a b"
  shows "stat_head b = stat_head a" "ds_def b = ds_def a" "rra_def b = rra_def a"
  using assms by (simp_all add: keeps_def sized_def same_layout_def)

lemma cdp_only_keeps: "cdp_only a b \<Longrightarrow> keeps a b"
  using cdp_only_fields [of a b] by (auto simp: keeps_def sized_def same_layout_def ptr_ok_def)

lemma keeps_simps [simp]:
  "length ps = length (pdp_prep b) \<Longrightarrow> keeps a (b\<lparr>pdp_prep := ps\<rparr>) = keeps a b"
  by (auto simp: keeps_def sized_def same_layout_def ptr_ok_def)

lemma file_keeps_simps [simp]:
  "file_keeps f (g\<lparr>file_pos := p\<rparr>) = file_keeps f g" "file_keeps f (rrd_seek g p) = file_keeps f g"
  "file_keeps (rrd_seek g p) f = file_keeps g f"
  by (simp_all add: file_keeps_def rrd_seek_def)

lemma file_keeps_read: "rrd_read f k = (vs, f') \<Longrightarrow> file_keeps f f'"
  by (auto simp: rrd_read_def file_keeps_def split: if_splits)

lemma file_keeps_write: "rrd_write f v = (ok, f') \<Longrightarrow> file_keeps f f'"
  by (auto simp: rrd_write_def file_keeps_def split: if_splits)

lemma file_keeps_block: "file_keeps f (snd (rrd_write_block f vs))"
  using rrd_write_block_keeps [of f vs] by (cases "rrd_write_block f vs") (simp add: file_keeps_def)

section \<open>Primary data points\<close>

lemma update_pdp_loop_length:
  assumes "update_pdp_loop err dss preps upds iv = (fail, err', preps', news)"
  shows "length preps' = length preps"
    and "\<not> fail \<Longrightarrow> length dss = length preps \<Longrightarrow> length upds = length preps \<Longrightarrow> length news = length preps"
  using assms
  by (induction err dss preps upds iv arbitrary: fail err' preps' news rule: update_pdp_loop.induct)
    (auto split: prod.splits bool.splits)

lemma update_pdp_prep_keeps:
  assumes "update_pdp_prep err rrd upds iv = (fail, err', rrd', news)"
  shows "keeps rrd rrd'"
    and "\<not> fail \<Longrightarrow> rrd_wf rrd \<Longrightarrow> length upds = nds rrd \<Longrightarrow> length news = nds rrd"
  using assms update_pdp_loop_length [of err "ds_def rrd" "pdp_prep rrd" upds iv]
  by (auto simp: update_pdp_prep_def rrd_wf_def split: prod.splits)

lemma simple_update_keeps: "length news = length (pdp_prep rrd) \<Longrightarrow> keeps rrd (simple_update rrd iv news)"
  by (simp add: simple_update_def)

lemma process_pdp_st_keeps:
  assumes "process_pdp_st env rrd i iv pre post diff news temp = (e, rrd', temp')"
  shows "keeps rrd rrd'"
  using assms by (auto simp: process_pdp_st_def Let_def split: if_splits sum.splits)

lemma rpn_calc_output: "rpn_calc env rpnp st cl = Inr (r, s, out) \<Longrightarrow> length out = length (rpn_output cl)"
  by (auto simp: rpn_calc_def ebind_def split: sum.splits if_splits prod.splits)

lemma process_pdp_st_temp:
  assumes "process_pdp_st env rrd i iv pre post diff news temp = (e, rrd', temp')"
  shows "length temp' = length temp"
proof -
  have "length out = length t" if "compute_ds env rrd i t = Inr out" for t out
    using that by (auto simp: compute_ds_def ebind_def split: option.splits sum.splits prod.splits
        dest!: rpn_calc_output)
  with assms show ?thesis
    by (auto simp: process_pdp_st_def Let_def split: if_splits sum.splits)
qed

lemma pdp_st_loop_keeps:
  assumes "pdp_st_loop env n i iv pre post diff news err rrd temp = (fail, err', rrd', temp')"
  shows "keeps rrd rrd' \<and> length temp' = length temp"
  using assms
proof (induction n arbitrary: i err rrd temp)
  case (Suc n)
  obtain e r t where st: "process_pdp_st env rrd i iv pre post diff news temp = (e, r, t)"
    by (metis prod_cases3)
  note k = process_pdp_st_keeps [OF st] process_pdp_st_temp [OF st]
  show ?case
    using Suc.prems k keeps_trans [OF k(1)] Suc.IH [of "Suc i" "if e = None then err else e" r t]
    by (auto simp: st split: if_splits)
qed simp

section \<open>Consolidation\<close>

lemma cdp_only_fold:
  assumes "\<And>x rrd. cdp_only rrd (g x rrd)"
  shows "cdp_only rrd (fold g xs rrd)"
  by (induction xs arbitrary: rrd) (auto intro: cdp_only_trans assms)

lemma update_cdp_prep_keeps: "keeps rrd (update_cdp_prep rrd e st k ri temp ls sc cf)"
  unfolding update_cdp_prep_def
  by (intro cdp_only_keeps cdp_only_fold) (simp add: cdp_prep_ds_def Let_def)

lemma do_schedule_smooth_keeps: "do_schedule_smooth rrd ri e = (b, rrd') \<Longrightarrow> keeps rrd rrd'"
  by (auto simp: do_schedule_smooth_def Let_def cdp_only_keeps split: if_splits)

lemma lookup_seasonal_keeps: "lookup_seasonal rrd ri rs f off c = (e, f', c') \<Longrightarrow> file_keeps f f'"
  by (auto simp: lookup_seasonal_def Let_def dest!: file_keeps_read split: prod.splits option.splits)

lemma prep_seasonal_keeps: "state_keeps s (prep_seasonal e rs ri s)"
  by (auto simp: prep_seasonal_def Let_def state_keeps_def
      dest!: do_schedule_smooth_keeps lookup_seasonal_keeps split: prod.splits
      intro: file_keeps_trans)

lemma state_keeps_cdp:
  "state_keeps s t \<Longrightarrow> state_keeps s (t\<lparr>u_rrd := update_cdp_prep (u_rrd t) e st k ri temp ls sc cf\<rparr>)"
  using keeps_trans [OF _ update_cdp_prep_keeps] by (simp add: state_keeps_def)

lemma prep_rra_keeps: "prep_rra e proc rs ri s = (ret, s') \<Longrightarrow> state_keeps s s'"
proof -
  assume r: "prep_rra e proc rs ri s = (ret, s')"
  define d where "d = rra_at (u_rrd s) ri"
  define s1 where "s1 = s\<lparr>u_skip := updi (u_skip s) ri 0, u_steps := updi (u_steps s) ri
      (step_count e (start_offset (pdp_cnt d) proc) (pdp_cnt d) (row_cnt d))\<rparr>"
  have k1: "state_keeps s s1" by (simp add: s1_def state_keeps_def)
  show ?thesis
  proof (cases "rrd_cf_conv (cf_nam d)")
    case None
    with r k1 show ?thesis
      by (auto simp: prep_rra_def Let_def d_def [symmetric] s1_def [symmetric] state_keeps_def)
  next
    case (Some cf)
    define s2 where "s2 = (if cf = CF_SEASONAL \<or> cf = CF_DEVSEASONAL then prep_seasonal e rs ri s1 else s1)"
    have "state_keeps s s2" using k1 state_keeps_trans [OF k1 prep_seasonal_keeps] by (simp add: s2_def)
    with r Some show ?thesis
      unfolding prep_rra_def Let_def d_def [symmetric] s1_def [symmetric]
      by (auto simp: s2_def [symmetric] split: if_splits intro: state_keeps_cdp)
  qed
qed

lemma prep_loop_keeps: "prep_loop n e proc rs ri s = (ret, s') \<Longrightarrow> state_keeps s s'"
  by (induction n arbitrary: rs ri s)
    (auto split: prod.splits if_splits dest!: prep_rra_keeps intro: state_keeps_trans)

lemma aberrant_ds_keeps: "state_keeps s (aberrant_ds sidx cf ri d s)"
  using update_aberrant_CF_cdp_only [THEN cdp_only_keeps]
  by (auto simp: aberrant_ds_def state_keeps_def split: prod.splits) (metis snd_conv)

lemma state_keeps_fold:
  assumes "\<And>x s. state_keeps s (g x s)"
  shows "state_keeps s (fold g xs s)"
  by (induction xs arbitrary: s) (auto intro: state_keeps_trans assms)

lemma aberrant_rra_keeps: "aberrant_rra sidx e rs ri s = (ret, s') \<Longrightarrow> state_keeps s s'"
proof -
  assume r: "aberrant_rra sidx e rs ri s = (ret, s')"
  define s1 where "s1 cf = (if cf = CF_SEASONAL \<or> cf = CF_DEVSEASONAL
      then (case lookup_seasonal (u_rrd s) ri rs (u_file s)
              (e + (if sidx = CDP_primary_val then 1 else 2)) (u_seasonal s) of
              (er, f', sc) \<Rightarrow> s\<lparr>u_file := f', u_seasonal := sc, u_err := (if er \<noteq> None then er else u_err s)\<rparr>)
      else s)" for cf
  have "state_keeps s (s1 cf)" for cf
    by (auto simp: s1_def state_keeps_def split: prod.splits dest!: lookup_seasonal_keeps)
  note k = this state_keeps_trans [OF this state_keeps_fold [OF aberrant_ds_keeps]]
  have err: "state_keeps s (s\<lparr>u_err := er\<rparr>)" for er by (simp add: state_keeps_def)
  from r show ?thesis
    unfolding aberrant_rra_def Let_def s1_def [symmetric]
    by (auto simp: k err split: option.splits if_splits)
qed

lemma aberrant_loop_keeps: "aberrant_loop n sidx e rs ri s = (ret, s') \<Longrightarrow> state_keeps s s'"
  by (induction n arbitrary: rs ri s)
    (auto split: prod.splits if_splits dest!: aberrant_rra_keeps intro: state_keeps_trans)

lemma update_aberrant_cdps_keeps: "update_aberrant_cdps rb e s = (ret, s') \<Longrightarrow> state_keeps s s'"
  by (auto simp: update_aberrant_cdps_def Let_def split: if_splits prod.splits
      dest!: aberrant_loop_keeps intro: state_keeps_trans)

section \<open>Writing and smoothing\<close>

lemma write_row_loop_keeps: "write_row_loop n d ri sidx t s = (ret, s') \<Longrightarrow> state_keeps s s'"
proof (induction n arbitrary: d s)
  case (Suc n)
  then show ?case
    by (fastforce simp: Let_def state_keeps_def dest!: file_keeps_write split: prod.splits bool.splits
        intro: keeps_trans file_keeps_trans)
qed simp

lemma advance_row_keeps: "state_keeps s (advance_row rs ri s)"
proof -
  define row where "row = u64 (nthi (rra_ptr (u_rrd s)) ri + 1)"
  define new where "new = (if row \<ge> row_cnt (rra_at (u_rrd s) ri) then 0 else row)"
  have "0 \<le> new \<and> new < row_cnt (rra_def (u_rrd s) ! nat ri)" if "ptr_ok (u_rrd s) (nat ri)"
    using that u64_range(1) [of "nthi (rra_ptr (u_rrd s)) ri + 1"]
    by (auto simp: ptr_ok_def new_def row_def rra_at_def)
  then have "keeps (u_rrd s) ((u_rrd s)\<lparr>rra_ptr := updi (rra_ptr (u_rrd s)) ri new\<rparr>)"
    by (auto simp: keeps_def sized_def same_layout_def ptr_ok_def nth_list_update)
      (metis list_update_beyond not_le nth_list_update nth_list_update_neq)+
  then show ?thesis
    unfolding advance_row_def Let_def row_def [symmetric] new_def [symmetric]
    by (simp add: state_keeps_def)
qed

lemma write_rows_keeps: "write_rows k sidx sub rs ri t s = (ret, s') \<Longrightarrow> state_keeps s s'"
proof (induction k arbitrary: sidx sub s)
  case (Suc k)
  define s1 where "s1 = advance_row rs ri (s\<lparr>u_steps := updi (u_steps s) ri (int k)\<rparr>)"
  have "state_keeps s (s\<lparr>u_steps := updi (u_steps s) ri (int k)\<rparr>)" by (simp add: state_keeps_def)
  from state_keeps_trans [OF this advance_row_keeps] have k1: "state_keeps s s1" by (simp add: s1_def)
  from Suc.prems show ?case
    unfolding write_rows.simps Let_def s1_def [symmetric]
    by (auto simp: write_RRA_row_def split: if_splits prod.splits dest!: Suc.IH write_row_loop_keeps
        intro: state_keeps_trans [OF k1] state_keeps_trans)
qed simp

lemma write_loop_keeps: "write_loop n rs ri t s = (ret, s') \<Longrightarrow> state_keeps s s'"
  by (induction n arbitrary: rs ri s)
    (auto split: prod.splits if_splits dest!: write_rows_keeps intro: state_keeps_trans)

lemma smoother_read_keeps: "smoother_read n f vs = Inr (r, f') \<Longrightarrow> file_keeps f f'"
  by (induction n arbitrary: f vs)
    (auto split: prod.splits option.splits if_splits list.splits dest!: file_keeps_read intro: file_keeps_trans)

lemma smoother_write_keeps:
  "smoother_write rrd rs f vs = (e, rrd', f') \<Longrightarrow> rrd' = rrd \<and> file_keeps f f'"
  using file_keeps_block [of "rrd_seek f rs" vs]
  by (auto simp: smoother_write_def Let_def split: if_splits)

lemma add_baseline_keeps: "keeps rrd (add_baseline rrd dep base)"
  unfolding add_baseline_def by (intro cdp_only_keeps cdp_only_fold) simp

lemma apply_smoother_keeps:
  assumes "apply_smoother mem rrd ri rs f = (e, rrd', f')"
  shows "keeps rrd rrd' \<and> file_keeps f f'"
  using assms unfolding apply_smoother_def Let_def
  by (auto split: if_splits sum.splits prod.splits option.splits cf_en.splits
      dest!: smoother_read_keeps smoother_write_keeps intro: file_keeps_trans add_baseline_keeps)

lemma smooth_loop_keeps: "state_keeps s (smooth_loop mem n rs ri s)"
proof (induction n arbitrary: rs ri s)
  case (Suc n)
  define seasonal where "seasonal \<longleftrightarrow> rrd_cf_conv (cf_nam (rra_at (u_rrd s) ri)) = Some CF_DEVSEASONAL
    \<or> rrd_cf_conv (cf_nam (rra_at (u_rrd s) ri)) = Some CF_SEASONAL"
  define s1 where "s1 = (if seasonal then (case apply_smoother mem (u_rrd s) ri rs (u_file s) of
      (e, rrd', f') \<Rightarrow> s\<lparr>u_rrd := rrd', u_file := f', u_err := (if e \<noteq> None then e else u_err s)\<rparr>) else s)"
  have k: "state_keeps s s1"
    by (auto simp: s1_def state_keeps_def split: prod.splits dest!: apply_smoother_keeps)
  show ?case unfolding smooth_loop.simps Let_def seasonal_def [symmetric] s1_def [symmetric]
    by (simp add: k state_keeps_trans [OF k Suc.IH])
qed simp

section \<open>The whole update\<close>

lemma process_steps_keeps:
  assumes "process_steps env rb iv pre post el proc t news s = (ret, s')"
  shows "state_keeps s s'"
proof -
  obtain fail err rrd temp where p: "process_all_pdp_st env (u_err s) (u_rrd s) iv pre post el news (u_temp s) =
      (fail, err, rrd, temp)" by (metis prod_cases4)
  have k1: "state_keeps s (s\<lparr>u_err := err, u_rrd := rrd, u_temp := temp\<rparr>)"
    using pdp_st_loop_keeps p by (simp add: state_keeps_def process_all_pdp_st_def)
  from assms show ?thesis
    unfolding process_steps_def p Let_def
    by (auto simp: update_all_cdp_prep_def write_to_rras_def k1 split: if_splits prod.splits
        dest!: prep_loop_keeps update_aberrant_cdps_keeps write_loop_keeps
        intro: state_keeps_trans [OF k1] state_keeps_trans)
qed

lemma passed_step_keeps: "passed_step env rb t iv steps news s = (ret, s') \<Longrightarrow> state_keeps s s'"
  by (auto simp: passed_step_def Let_def split: prod.splits if_splits dest!: process_steps_keeps
      intro: state_keeps_trans)

lemma set_last_up_sized: "sized rrd (set_last_up t usec ver rrd)"
  by (simp add: set_last_up_def Let_def sized_def same_layout_def ptr_ok_def)

lemma process_reading_keeps:
  assumes wf: "rrd_wf (u_rrd s)" and len: "length updvals = Suc (nds (u_rrd s))"
    and "process_reading env rb ver updvals t usec s = (ret, s')"
  shows "\<exists>s2. state_keeps s s2 \<and>
    s' = (if ret = 0 then s2\<lparr>u_rrd := set_last_up t usec ver (u_rrd s2)\<rparr> else s2)"
proof -
  obtain fail err rrd news where p: "update_pdp_prep (u_err s) (u_rrd s) (tl updvals)
      (reading_interval (u_rrd s) t usec) = (fail, err, rrd, news)" by (metis prod_cases4)
  note k = update_pdp_prep_keeps [OF p]
  define s1 where "s1 = s\<lparr>u_err := err, u_rrd := rrd, u_last_seasonal := None, u_seasonal := None\<rparr>"
  have k1: "state_keeps s s1" using k(1) by (simp add: s1_def state_keeps_def)
  have simple: "state_keeps s (s1\<lparr>u_rrd := simple_update rrd iv news\<rparr>)" if "\<not> fail" for iv
    using k wf that len k1 keeps_trans [OF k(1) simple_update_keeps] rrd_wfD(3) [OF keeps_wf [OF wf k(1)]]
    by (simp add: state_keeps_def s1_def keeps_layout(2) [OF k(1)])
  define steps where "steps = calculate_elapsed_steps rrd t usec (reading_interval (u_rrd s) t usec)"
  obtain ret2 s2 where s2: "(if fst steps = 0
      then (0, s1\<lparr>u_rrd := simple_update rrd (reading_interval (u_rrd s) t usec) news\<rparr>)
      else passed_step env rb t (reading_interval (u_rrd s) t usec) steps news s1) = (ret2, s2)"
    by (metis surj_pair)
  have k2: "state_keeps s s2" if "\<not> fail"
    using s2 simple [OF that] state_keeps_trans [OF k1 passed_step_keeps]
    by (auto split: if_splits)
  have "(ret, s') = (if fail then (- 1, s1) else if ret2 \<noteq> 0 then (ret2, s2)
      else (0, s2\<lparr>u_rrd := set_last_up t usec ver (u_rrd s2)\<rparr>))"
    using assms(3) unfolding process_reading_def Let_def p prod.case s1_def [symmetric] steps_def [symmetric] s2
    by simp
  then show ?thesis using k1 k2 by (auto split: if_splits)
qed

lemma assign_values_length: "assign_values tmpl i vs upd = Inr (upd', k) \<Longrightarrow> length upd' = length upd"
  by (induction tmpl i vs upd rule: assign_values.induct) (auto split: if_splits)

lemma parse_ds_length:
  "parse_ds te rrd tmpl arg ver = Reading updvals t usec \<Longrightarrow> length updvals = Suc (nat (ds_cnt (stat_head rrd)))"
  by (auto simp: parse_ds_def get_time_from_reading_def Let_def split: if_splits sum.splits prod.splits
      dest!: assign_values_length)

text \<open>An argument either changes nothing but the preparation for the coming values, or is complete
  and sets the time; that time is later than the one before.\<close>

lemma process_arg_keeps:
  assumes wf: "rrd_wf (u_rrd s)" and r: "process_arg env te rb ver tmpl arg s = (ret, s')"
  shows "\<exists>s2 t usec. state_keeps s s2 \<and>
    s' = (if ret = 0 then s2\<lparr>u_rrd := set_last_up t usec ver (u_rrd s2)\<rparr> else s2) \<and>
    (ret = 0 \<longrightarrow> last_up (live_head (u_rrd s)) < t \<or>
       last_up (live_head (u_rrd s)) = t \<and> s64 (last_up_usec (live_head (u_rrd s))) < s64 usec)"
proof (cases "parse_ds te (u_rrd s) tmpl arg ver")
  case (Reading updvals t usec)
  have later: "last_up (live_head (u_rrd s)) < t \<or>
      last_up (live_head (u_rrd s)) = t \<and> s64 (last_up_usec (live_head (u_rrd s))) < s64 usec"
    using Reading by (auto simp: parse_ds_def get_time_from_reading_def Let_def
        split: if_splits sum.splits prod.splits)
  have "length updvals = Suc (nds (u_rrd s))"
    using parse_ds_length [OF Reading] rrd_wfD(1) [OF wf] by simp
  moreover have "process_reading env rb ver updvals t usec s = (ret, s')"
    using r Reading by (simp add: process_arg_def)
  ultimately show ?thesis using process_reading_keeps [OF wf] later by blast
qed (use r in \<open>auto simp: process_arg_def state_keeps_def\<close>)

lemma process_arg_sized:
  assumes "rrd_wf (u_rrd s)" and "process_arg env te rb ver tmpl arg s = (ret, s')"
  shows "state_sized s s'"
proof -
  obtain s2 t usec where k: "state_keeps s s2"
    and s': "s' = (if ret = 0 then s2\<lparr>u_rrd := set_last_up t usec ver (u_rrd s2)\<rparr> else s2)"
    using process_arg_keeps [OF assms] by blast
  have "state_sized s2 s'" by (simp add: s' state_sized_def set_last_up_sized)
  with state_keeps_sized [OF k] show ?thesis by (rule state_sized_trans)
qed

lemma arg_loop_sized:
  assumes "rrd_wf (u_rrd s)"
  shows "state_sized s (arg_loop env te rb ver skip tmpl args s)"
  using assms
proof (induction args arbitrary: s)
  case (Cons a args)
  obtain ret s1 where a: "process_arg env te rb ver tmpl a s = (ret, s1)" by (metis surj_pair)
  note k = process_arg_sized [OF Cons.prems a]
  have "rrd_wf (u_rrd s1)" using sized_wf [OF Cons.prems] k by (simp add: state_sized_def)
  moreover have "state_sized s (s1\<lparr>u_err := e\<rparr>)" for e using k by (simp add: state_sized_def)
  ultimately show ?case
    using k state_sized_trans [OF _ Cons.IH] by (simp add: a)
qed (simp add: state_sized_def)

lemma rrd_updatex_sized:
  assumes "rrd_wf rrd" and "rrd_updatex env te mem rrd f tmplt skip args summary = (ret, s')"
  shows "sized rrd (u_rrd s') \<and> file_keeps f (u_file s')"
proof -
  define s0 where "s0 = initial_state rrd f summary"
  have s0: "u_rrd s0 = rrd" "u_file s0 = f" by (simp_all add: s0_def initial_state_def)
  have "rrd_wf (u_rrd s0)" using assms(1) by (simp add: s0)
  note k = arg_loop_sized [OF this]
    state_sized_trans [OF arg_loop_sized [OF this] state_keeps_sized [OF smooth_loop_keeps]]
  have err: "state_sized s0 (s0\<lparr>u_err := e\<rparr>)" for e by (simp add: state_sized_def)
  have "state_sized s0 s'"
    using assms(2) k err unfolding rrd_updatex_def Let_def s0_def [symmetric] smooth_all_rras_def
    by (auto split: if_splits sum.splits option.splits)
  then show ?thesis by (simp add: state_sized_def s0)
qed

text \<open>C14: an update, whether it succeeds or fails, keeps the database well-formed: the header and
  the definitions, the number of preparation areas, the bounds of the row pointers and the size of
  the file do not change.\<close>

theorem update_keeps_wf:
  assumes "rrd_wf rrd" and "rrd_updatex env te mem rrd f tmplt skip args summary = (ret, s')"
  shows "rrd_wf (u_rrd s') \<and> same_layout rrd (u_rrd s') \<and> header_len (u_file s') = header_len f \<and>
    length (file_vals (u_file s')) = length (file_vals f)"
  using rrd_updatex_sized [OF assms] sized_wf [OF assms(1)] by (auto simp: sized_def file_keeps_def)

theorem update_keeps_wf_witness:
  "rrd_wf (u_rrd (snd (rrd_updatex sample_env sample_time [] sample_rrd sample_file None False
     [''1200000900:5:U'', ''N:5:7''] (Some []))))"
proof -
  obtain ret s' where r: "rrd_updatex sample_env sample_time [] sample_rrd sample_file None False
     [''1200000900:5:U'', ''N:5:7''] (Some []) = (ret, s')" by (metis surj_pair)
  with update_keeps_wf [OF sample_wf r] show ?thesis by simp
qed

text \<open>C15: one argument. If it succeeds, the time of the last update becomes later; if it fails,
  the time stays; either way the database stays well-formed.\<close>

theorem argument_advances_time:
  assumes "rrd_wf (u_rrd s)" and "process_arg env te rb ver tmpl arg s = (ret, s')"
  shows "rrd_wf (u_rrd s') \<and>
    (if ret = 0
     then last_up (live_head (u_rrd s)) < last_up (live_head (u_rrd s')) \<or>
       last_up (live_head (u_rrd s)) = last_up (live_head (u_rrd s')) \<and>
       s64 (last_up_usec (live_head (u_rrd s))) < s64 (last_up_usec (live_head (u_rrd s')))
     else live_head (u_rrd s') = live_head (u_rrd s))"
proof -
  have "last_up_usec (live_head (set_last_up t usec ver rrd)) = usec" for t usec rrd
    by (simp add: set_last_up_def Let_def)
  then show ?thesis
    using process_arg_keeps [OF assms] process_arg_sized [OF assms] sized_wf [OF assms(1)]
    by (auto simp: state_keeps_def keeps_def state_sized_def)
qed

theorem argument_advances_time_witness:
  "case process_arg sample_env sample_time 1280 3 [0, 1, 2] ''1200000000:5:7''
     (initial_state sample_rrd sample_file None) of
   (ret, s') \<Rightarrow> ret = - 2 \<and> live_head (u_rrd s') = live_head sample_rrd"
proof -
  obtain ret s' where r: "process_arg sample_env sample_time 1280 3 [0, 1, 2] ''1200000000:5:7''
     (initial_state sample_rrd sample_file None) = (ret, s')" by (metis surj_pair)
  have "reading_time sample_time colon ''1200000000'' = Inr (1200000000, 0)"
    using reading_time_digits [of "''1200000000''"] by (simp add: is_digit_def digit_val_def)
  then have "parse_ds sample_time sample_rrd [0, 1, 2] ''1200000000:5:7'' 3 = Too_old 1200000000 0"
    by (simp add: parse_ds_def get_time_from_reading_def numeral_2_eq_2)
  with r have "ret = - 2" by (auto simp: process_arg_def initial_state_def)
  moreover have u: "u_rrd (initial_state sample_rrd sample_file None) = sample_rrd"
    by (simp add: initial_state_def)
  ultimately show ?thesis using argument_advances_time [OF _ r] sample_wf unfolding r u by simp
qed

end
