(* ===== verification/Rrd_Resize.thy ===== *)
theory Rrd_Resize
  imports Rrd_Fetch
begin

text \<open>
  \<open>rrd_resize.c\<close>: rows are added to or removed from one archive, next to its current row, while the file is
  copied from its start to its end; and the queries of \<open>rrd_first.c\<close>, \<open>rrd_last.c\<close> and \<open>rrd_lastupdate.c\<close>.
  The theory shows that after \<open>GROW\<close> every time has the values it had, and after \<open>SHRINK\<close> every time
  that is still covered.
\<close>

section \<open>Definitions\<close>

datatype resize_error =
    Reserved_name
  | Wrong_number_of_parameters
  | Not_grow_or_shrink
  | Less_than_one_row
  | No_such_rra
  | Not_that_big
  | Unknown_version

text \<open>\<open>strtol\<close> with base 0.\<close>

definition base_digit :: "char \<Rightarrow> int" where
  "base_digit c = (let n = of_char c :: int in
     if is_digit c then n - 48 else if 97 \<le> n \<and> n \<le> 122 then n - 87 else if 65 \<le> n \<and> n \<le> 90 then n - 55 else 99)"

definition strtol0 :: "string \<Rightarrow> clong" where
  "strtol0 s =
     (let t = dropWhile is_space s; neg = (take 1 t = ''-'');
          u = (if neg \<or> take 1 t = ''+'' then tl t else t);
          hex = (take 1 u = ''0'' \<and> (take 1 (tl u) = ''x'' \<or> take 1 (tl u) = ''X'') \<and> drop 2 u \<noteq> [] \<and> base_digit (u ! 2) < 16);
          base = (if hex then 16 else if take 1 u = ''0'' then 8 else 10);
          ds = takeWhile (\<lambda>c. base_digit c < base) (if hex then drop 2 u else u);
          v = fold (\<lambda>c a. a * base + base_digit c) ds 0
      in max (- (2 ^ 63)) (min (2 ^ 63 - 1) (if neg then - v else v)))"

text \<open>The copy: what is still to be read, what has been written, and the values of the archive that change on the
  way. The file holds all archives, since \<open>rrd_open\<close> has checked its size.\<close>

record resize_state =
  rs_in :: "dbl list"
  rs_out :: "dbl list"
  rs_cur :: ulong
  rs_rows :: ulong
  rs_modify :: clong

definition copy_vals :: "nat \<Rightarrow> resize_state \<Rightarrow> resize_state" where
  "copy_vals k s = s\<lparr>rs_in := drop k (rs_in s), rs_out := rs_out s @ take k (rs_in s)\<rparr>"

definition skip_row :: "nat \<Rightarrow> resize_state \<Rightarrow> resize_state" where
  "skip_row n s = s\<lparr>rs_in := drop n (rs_in s), rs_rows := u64 (rs_rows s - 1), rs_modify := rs_modify s + 1\<rparr>"

text \<open>Rows at the start of the archive are removed first if the removal goes round its end.\<close>

primrec drop_first :: "nat \<Rightarrow> nat \<Rightarrow> resize_state \<Rightarrow> resize_state" where
  "drop_first 0 n s = s"
| "drop_first (Suc k) n s = drop_first k n (skip_row n (s\<lparr>rs_cur := u64 (rs_cur s - 1)\<rparr>))"

primrec drop_rest :: "nat \<Rightarrow> nat \<Rightarrow> resize_state \<Rightarrow> resize_state" where
  "drop_rest 0 n s = s"
| "drop_rest (Suc k) n s = drop_rest k n (skip_row n s)"

definition grow_rra :: "nat \<Rightarrow> resize_state \<Rightarrow> resize_state" where
  "grow_rra n s =
     (let s1 = copy_vals (n * nat (rs_cur s + 1)) s
      in s1\<lparr>rs_out := rs_out s1 @ replicate (n * nat (rs_modify s1)) NaN\<rparr>)"

definition shrink_rra :: "nat \<Rightarrow> resize_state \<Rightarrow> resize_state" where
  "shrink_rra n s =
     (let remove_end = s64 (u64 (rs_cur s - rs_modify s) mod rs_rows s);
          s1 = (if remove_end \<le> rs_cur s then drop_first (nat (remove_end + 1)) n s else s);
          s2 = copy_vals (n * nat (rs_cur s1 + 1)) s1
      in drop_rest (nat (- rs_modify s2)) n s2)"

text \<open>The whole copy; \<open>before\<close> is the number of values of the archives before, \<open>total_vals\<close> the number of values for which there is
  room behind the header of the new file, which is created with zeros.\<close>

definition resize_copy :: "nat \<Rightarrow> nat \<Rightarrow> nat \<Rightarrow> resize_state \<Rightarrow> resize_state" where
  "resize_copy n before total_vals s =
     (let s1 = copy_vals before s;
          s2 = (if 0 < rs_modify s1 then grow_rra n s1 else shrink_rra n s1);
          s3 = s2\<lparr>rs_out := take total_vals (rs_out s2 @ rs_in s2 @ replicate total_vals 0)\<rparr>
      in s3\<lparr>rs_rows := u64 (rs_rows s3 + rs_modify s3)\<rparr>)"

definition new_version :: "string \<Rightarrow> string option" where
  "new_version v = (if atoi v = 4 \<or> atoi v = 3 then Some v else if atoi v = 1 then Some (v[3 := CHR ''3'']) else None)"

text \<open>The size of the new file is computed while the new header still has the old version. The header that is written may
  be longer, and the values that do not fit any more are ignored.\<close>

definition room_for_values :: "rrd_t \<Rightarrow> string \<Rightarrow> nat \<Rightarrow> nat" where
  "room_for_values rrd v total_vals =
     nat ((rrd_get_header_size rrd + 8 * int total_vals - rrd_get_header_size (rrd\<lparr>stat_head := (stat_head rrd)\<lparr>version := v\<rparr>\<rparr>)) div 8)"

definition resize_db :: "ulong \<Rightarrow> clong \<Rightarrow> rrd_t \<Rightarrow> rrd_file_t \<Rightarrow> resize_error + rrd_t \<times> rrd_file_t" where
  "resize_db target modify rrd f =
     (if rra_cnt (stat_head rrd) \<le> target then Inl No_such_rra
      else let t = nat target; def = rra_def rrd ! t
           in if modify < 0 \<and> row_cnt def \<le> - modify then Inl Not_that_big
              else (case new_version (version (stat_head rrd)) of
                      None \<Rightarrow> Inl Unknown_version
                    | Some v \<Rightarrow>
                        let n = nat (ds_cnt (stat_head rrd));
                            before = n * sum_list (map (nat \<circ> row_cnt) (take t (rra_def rrd)));
                            rows = u64 (row_cnt def + modify);
                            total_vals = n * sum_list (map (nat \<circ> row_cnt) ((rra_def rrd)[t := def\<lparr>row_cnt := rows\<rparr>]));
                            s = resize_copy n before (room_for_values rrd v total_vals)
                              \<lparr>rs_in = file_vals f, rs_out = [], rs_cur = rra_ptr rrd ! t, rs_rows = row_cnt def, rs_modify = modify\<rparr>;
                            rrd' = rrd\<lparr>stat_head := (stat_head rrd)\<lparr>version := v\<rparr>,
                                     rra_def := (rra_def rrd)[t := def\<lparr>row_cnt := rs_rows s\<rparr>],
                                     rra_ptr := (rra_ptr rrd)[t := rs_cur s]\<rparr>
                        in Inr (rrd', f\<lparr>header_len := rrd_get_header_size rrd', file_vals := rs_out s\<rparr>)))"

definition rrd_resize :: "string list \<Rightarrow> rrd_t \<Rightarrow> rrd_file_t \<Rightarrow> resize_error + rrd_t \<times> rrd_file_t" where
  "rrd_resize argv rrd f =
     (if argv ! 1 = ''resize.rrd'' then Inl Reserved_name
      else if length argv \<noteq> 5 then Inl Wrong_number_of_parameters
      else if argv ! 3 \<noteq> ''GROW'' \<and> argv ! 3 \<noteq> ''SHRINK'' then Inl Not_grow_or_shrink
      else let modify = strtol0 (argv ! 4)
           in if modify < 1 then Inl Less_than_one_row
              else resize_db (u64 (strtol0 (argv ! 2))) (if argv ! 3 = ''SHRINK'' then - modify else modify) rrd f)"

text \<open>The queries.\<close>

definition rrd_first_r :: "rrd_t \<Rightarrow> cint \<Rightarrow> time_t option" where
  "rrd_first_r rrd rraindex =
     (if rraindex < 0 \<or> s32 (rra_cnt (stat_head rrd)) \<le> rraindex then None
      else let def = rra_def rrd ! nat rraindex; timer = - s64 (row_cnt def - 1); lu = last_up (live_head rrd)
           in Some (s64 (lu - u64 lu mod u64 (pdp_cnt def * pdp_step (stat_head rrd)) +
                timer * s64 (pdp_cnt def) * s64 (pdp_step (stat_head rrd)))))"

definition rrd_last_r :: "rrd_t \<Rightarrow> time_t" where
  "rrd_last_r rrd = last_up (live_head rrd)"

definition rrd_lastupdate_r :: "rrd_t \<Rightarrow> time_t \<times> ulong \<times> string list \<times> string list" where
  "rrd_lastupdate_r rrd = (last_up (live_head rrd), ds_cnt (stat_head rrd), map ds_nam (ds_def rrd), map last_ds (pdp_prep rrd))"

section \<open>The copy\<close>

lemma skip_row_simps:
  "rs_in (skip_row n s) = drop n (rs_in s)" "rs_out (skip_row n s) = rs_out s" "rs_cur (skip_row n s) = rs_cur s"
  "rs_rows (skip_row n s) = u64 (rs_rows s - 1)" "rs_modify (skip_row n s) = rs_modify s + 1"
  by (simp_all add: skip_row_def)

lemma drop_rest_val:
  "int k \<le> rs_rows s \<Longrightarrow> rs_rows s < 2 ^ 63 \<Longrightarrow> drop_rest k n s =
     s\<lparr>rs_in := drop (k * n) (rs_in s), rs_rows := rs_rows s - int k, rs_modify := rs_modify s + int k\<rparr>"
proof (induction k arbitrary: s)
  case (Suc k)
  have "u64 (rs_rows s - 1) = rs_rows s - 1" using Suc.prems by (simp add: u64_id)
  then show ?case using Suc.IH [of "skip_row n s"] Suc.prems by (simp add: skip_row_def algebra_simps)
qed simp

lemma drop_first_val:
  "int k \<le> rs_rows s \<Longrightarrow> int k \<le> rs_cur s \<Longrightarrow> rs_rows s < 2 ^ 63 \<Longrightarrow> rs_cur s < 2 ^ 63 \<Longrightarrow> drop_first k n s =
     s\<lparr>rs_in := drop (k * n) (rs_in s), rs_cur := rs_cur s - int k, rs_rows := rs_rows s - int k, rs_modify := rs_modify s + int k\<rparr>"
proof (induction k arbitrary: s)
  case (Suc k)
  have "u64 (rs_rows s - 1) = rs_rows s - 1" "u64 (rs_cur s - 1) = rs_cur s - 1" using Suc.prems by (simp_all add: u64_id)
  then show ?case using Suc.IH [of "skip_row n (s\<lparr>rs_cur := u64 (rs_cur s - 1)\<rparr>)"] Suc.prems
    by (simp add: skip_row_def algebra_simps)
qed simp

text \<open>The new data area as a list: with \<open>m\<close> rows more behind row \<open>cur\<close> of the archive that starts at \<open>B\<close>, or with \<open>m\<close> rows
  less, of which \<open>k\<close> are at its start.\<close>

definition grown :: "nat \<Rightarrow> nat \<Rightarrow> nat \<Rightarrow> nat \<Rightarrow> dbl list \<Rightarrow> dbl list" where
  "grown n B cur m V = take (B + n * Suc cur) V @ replicate (n * m) NaN @ drop (B + n * Suc cur) V"

definition shrunk :: "nat \<Rightarrow> nat \<Rightarrow> nat \<Rightarrow> nat \<Rightarrow> nat \<Rightarrow> dbl list \<Rightarrow> dbl list" where
  "shrunk n B cur m k V =
     take B V @ take (n * (Suc cur - k)) (drop (B + n * k) V) @ drop (B + n * (Suc cur - k) + n * m) V"

lemma resize_copy_end:
  assumes "s2 = (if 0 < rs_modify s then grow_rra n (copy_vals B s) else shrink_rra n (copy_vals B s))"
    and "length (rs_out s2 @ rs_in s2) = T"
  shows "resize_copy n B T s = s2\<lparr>rs_out := rs_out s2 @ rs_in s2, rs_rows := u64 (rs_rows s2 + rs_modify s2)\<rparr>"
proof -
  have "rs_modify (copy_vals B s) = rs_modify s" by (simp add: copy_vals_def)
  then have "resize_copy n B T s = s2\<lparr>rs_out := take T ((rs_out s2 @ rs_in s2) @ replicate T 0), rs_rows := u64 (rs_rows s2 + rs_modify s2)\<rparr>"
    using assms(1) by (simp add: resize_copy_def Let_def)
  then show ?thesis unfolding take_append [of T "rs_out s2 @ rs_in s2"] by (simp only: assms(2) [symmetric]) simp
qed

lemma resize_copy_grow:
  assumes "0 < m" "B + n * Suc cur \<le> length V" "T = length V + n * m" "int R + int m < 2 ^ 63"
  shows "resize_copy n B T \<lparr>rs_in = V, rs_out = [], rs_cur = int cur, rs_rows = int R, rs_modify = int m\<rparr> =
    \<lparr>rs_in = drop (B + n * Suc cur) V, rs_out = grown n B cur m V, rs_cur = int cur, rs_rows = int (R + m), rs_modify = int m\<rparr>"
proof -
  let ?s = "\<lparr>rs_in = V, rs_out = [], rs_cur = int cur, rs_rows = int R, rs_modify = int m\<rparr>"
  let ?s2 = "\<lparr>rs_in = drop (B + n * Suc cur) V, rs_out = take (B + n * Suc cur) V @ replicate (n * m) NaN,
    rs_cur = int cur, rs_rows = int R, rs_modify = int m\<rparr>"
  have c: "nat (1 + int cur) = Suc cur" by simp
  have "grow_rra n (copy_vals B ?s) = ?s2"
    unfolding grow_rra_def copy_vals_def Let_def by (simp add: c take_add add.commute del: mult_Suc_right)
  then have e: "?s2 = (if 0 < rs_modify ?s then grow_rra n (copy_vals B ?s) else shrink_rra n (copy_vals B ?s))"
    using assms(1) by simp
  have "length (rs_out ?s2 @ rs_in ?s2) = T" using assms(2,3) by simp
  from resize_copy_end [OF e this] show ?thesis using assms(4) by (simp add: grown_def u64_id)
qed

lemma resize_copy_shrink:
  assumes "0 < m" "m < R" "cur < R" "int R < 2 ^ 62" "B + n * R \<le> length V" "T = length V - n * m"
    and k: "k = (if R \<le> cur + m then cur + m + 1 - R else 0)"
  shows "\<exists>rest. resize_copy n B T \<lparr>rs_in = V, rs_out = [], rs_cur = int cur, rs_rows = int R, rs_modify = - int m\<rparr> =
    \<lparr>rs_in = rest, rs_out = shrunk n B cur m k V, rs_cur = int (cur - k), rs_rows = int (R - m), rs_modify = 0\<rparr>"
proof -
  let ?s = "\<lparr>rs_in = drop B V, rs_out = take B V, rs_cur = int cur, rs_rows = int R, rs_modify = - int m\<rparr>"
  define re where "re = s64 (u64 (int cur + int m) mod int R)"
  have re: "re = int ((cur + m) mod R)"
  proof -
    have "u64 (int cur + int m) = int (cur + m)" using assms(2-4) by (simp add: u64_id)
    moreover have "int ((cur + m) mod R) < 2 ^ 62" using assms(2,4) by (metis less_trans mod_less_divisor not_less_zero of_nat_less_iff gr0I)
    moreover have "0 \<le> int ((cur + m) mod R)" by simp
    ultimately show ?thesis unfolding re_def by (simp only: zmod_int [symmetric]) (simp add: s64_id)
  qed
  have md: "(cur + m) mod R = (if R \<le> cur + m then cur + m - R else cur + m)" using assms(2,3) by (simp add: mod_if)
  have kk: "k \<le> cur" "k \<le> m" "k \<le> R" using assms(2,3) by (auto simp: k)
  have f: "(if re \<le> int cur then drop_first (nat (re + 1)) n ?s else ?s) =
      ?s\<lparr>rs_in := drop (k * n) (drop B V), rs_cur := int cur - int k, rs_rows := int R - int k, rs_modify := - int m + int k\<rparr>"
  proof (cases "R \<le> cur + m")
    case True
    then have e: "re = int (cur + m - R)" "nat (re + 1) = k" using re md by (simp_all add: k nat_add_distrib)
    then have "re \<le> int cur" using assms(2) True by simp
    then show ?thesis using drop_first_val [of k ?s n] kk assms(2-4) e(2) by simp
  next
    case False
    then have "\<not> re \<le> int cur" "k = 0" using re md assms(1) by (simp_all add: k)
    then show ?thesis by simp
  qed
  let ?s1 = "?s\<lparr>rs_in := drop (k * n) (drop B V), rs_cur := int cur - int k, rs_rows := int R - int k, rs_modify := - int m + int k\<rparr>"
  have c: "nat (int cur - int k + 1) = Suc cur - k" using kk(1) by simp
  have sh: "shrink_rra n ?s = drop_rest (m - k) n (copy_vals (n * (Suc cur - k)) ?s1)"
    using f kk(2) by (simp add: shrink_rra_def re_def [symmetric] Let_def c copy_vals_def nat_diff_distrib')
  have dr: "drop_rest (m - k) n (copy_vals (n * (Suc cur - k)) ?s1) =
      \<lparr>rs_in = drop (B + n * (Suc cur - k) + n * m) V, rs_out = take B V @ take (n * (Suc cur - k)) (drop (B + n * k) V),
       rs_cur = int (cur - k), rs_rows = int (R - m), rs_modify = 0\<rparr>"
  proof -
    have "n * (m - k) + (B + k * n + n * (Suc cur - k)) = m * n + (B + n * (Suc cur - k))"
      using add_mult_distrib [of "m - k" k n] kk(2) by (simp add: mult.commute)
    note idx = this
    have r: "int (m - k) \<le> int R - int k" "int R - int k < 2 ^ 63" using assms(2,4) kk by simp_all
    show ?thesis using drop_rest_val [of "m - k" "copy_vals (n * (Suc cur - k)) ?s1" n] kk assms(2) r
      by (simp add: copy_vals_def mult.commute add.commute idx)
  qed
  have "n * (Suc cur - k) + n * m \<le> n * R"
    using kk assms(2,3) by (auto simp: k add_mult_distrib2 [symmetric] intro!: mult_le_mono2 split: if_splits)
  moreover have "n * k + n * (Suc cur - k) \<le> n * R"
    using kk(1) mult_le_mono2 [of "Suc cur" R n] assms(3) by (simp add: add_mult_distrib2 [symmetric])
  ultimately have l: "length (shrunk n B cur m k V) = T" using assms(5,6) by (simp add: shrunk_def)
  let ?start = "\<lparr>rs_in = V, rs_out = [], rs_cur = int cur, rs_rows = int R, rs_modify = - int m\<rparr>"
  have "copy_vals B ?start = ?s" by (simp add: copy_vals_def)
  then have e: "drop_rest (m - k) n (copy_vals (n * (Suc cur - k)) ?s1) =
      (if 0 < rs_modify ?start then grow_rra n (copy_vals B ?start) else shrink_rra n (copy_vals B ?start))"
    using sh by simp
  have u: "u64 (int (R - m)) = int (R - m)" using assms(4) by (simp add: u64_id)
  show ?thesis using resize_copy_end [OF e, of T] l unfolding dr by (simp add: shrunk_def u)
qed

lemma grown_nth:
  assumes "B + n * Suc cur \<le> length V"
  shows "x < B + n * Suc cur \<Longrightarrow> grown n B cur m V ! x = V ! x"
    "B + n * Suc cur \<le> x \<Longrightarrow> x < B + n * Suc cur + n * m \<Longrightarrow> grown n B cur m V ! x = NaN"
    "B + n * Suc cur + n * m \<le> x \<Longrightarrow> x < length V + n * m \<Longrightarrow> grown n B cur m V ! x = V ! (x - n * m)"
  using assms by (auto simp: grown_def nth_append simp del: mult_Suc_right)

lemma shrunk_nth:
  assumes "B + n * k + n * (Suc cur - k) \<le> length V"
  shows "x < B \<Longrightarrow> shrunk n B cur m k V ! x = V ! x"
    "B \<le> x \<Longrightarrow> x < B + n * (Suc cur - k) \<Longrightarrow> shrunk n B cur m k V ! x = V ! (x + n * k)"
    "B + n * (Suc cur - k) \<le> x \<Longrightarrow> x + n * m < length V \<Longrightarrow> shrunk n B cur m k V ! x = V ! (x + n * m)"
proof -
  have l: "min (length V) B = B" "min (length V - (B + n * k)) (n * (Suc cur - k)) = n * (Suc cur - k)" using assms by simp_all
  show "x < B \<Longrightarrow> shrunk n B cur m k V ! x = V ! x" using assms by (simp add: shrunk_def nth_append)
  show "shrunk n B cur m k V ! x = V ! (x + n * k)" if x: "B \<le> x" "x < B + n * (Suc cur - k)"
  proof -
    have "x - B < n * (Suc cur - k)" "B + n * k + (x - B) = x + n * k" using x by linarith+
    then show ?thesis unfolding shrunk_def nth_append length_append length_take length_drop l using assms x(1) by (simp add: add.commute)
  qed
  show "shrunk n B cur m k V ! x = V ! (x + n * m)" if x: "B + n * (Suc cur - k) \<le> x" "x + n * m < length V"
  proof -
    have "\<not> x - B < n * (Suc cur - k)" "\<not> x < B + n * (Suc cur - k)" "\<not> x < B"
      "B + n * (Suc cur - k) + n * m + (x - (B + n * (Suc cur - k))) = x + n * m" using x by linarith+
    then show ?thesis unfolding shrunk_def nth_append length_append length_take length_drop l using x by (simp add: add.commute)
  qed
qed

text \<open>The places of the archives when one of them has another number of rows.\<close>

lemma rra_base_update:
  assumes "ds_def rrd' = ds_def rrd" "rra_def rrd' = (rra_def rrd)[t := (rra_def rrd ! t)\<lparr>row_cnt := int R\<rparr>]" "t < nrra rrd"
  shows "i \<le> t \<Longrightarrow> rra_base rrd' i = rra_base rrd i"
    "t < i \<Longrightarrow> rra_base rrd' i + rows_of rrd t * nds rrd = rra_base rrd i + R * nds rrd"
    "rows_of rrd' i = (if i = t then R else rows_of rrd i)"
proof -
  show r: "rows_of rrd' i = (if i = t then R else rows_of rrd i)" for i using assms(2,3) by (simp add: rows_of_def)
  show le: "i \<le> t \<Longrightarrow> rra_base rrd' i = rra_base rrd i" for i
    by (induction i) (simp_all add: rra_base_Suc r assms(1), simp add: rra_base_def)
  show "t < i \<Longrightarrow> rra_base rrd' i + rows_of rrd t * nds rrd = rra_base rrd i + R * nds rrd"
  proof (induction i)
    case (Suc i)
    show ?case
    proof (cases "i = t")
      case True
      then show ?thesis using le [of t] by (simp add: rra_base_Suc r assms(1))
    next
      case False
      then show ?thesis using Suc by (simp add: rra_base_Suc r assms(1))
    qed
  qed simp
qed

lemma rra_base_sum: "i \<le> nrra rrd \<Longrightarrow> nds rrd * sum_list (map (nat \<circ> row_cnt) (take i (rra_def rrd))) = rra_base rrd i"
  by (simp add: rra_base_def sum_list_sum_nth atLeast0LessThan sum_distrib_left mult.commute)

text \<open>What \<open>resize_db\<close> returns.\<close>

definition new_cur :: "bool \<Rightarrow> nat \<Rightarrow> nat \<Rightarrow> nat \<Rightarrow> nat" where
  "new_cur shrink R cur m = (if shrink \<and> R \<le> cur + m then R - m - 1 else cur)"

definition new_vals :: "bool \<Rightarrow> nat \<Rightarrow> nat \<Rightarrow> nat \<Rightarrow> nat \<Rightarrow> nat \<Rightarrow> dbl list \<Rightarrow> dbl list" where
  "new_vals shrink n B R cur m V =
     (if shrink then shrunk n B cur m (if R \<le> cur + m then cur + m + 1 - R else 0) V else grown n B cur m V)"

lemma resize_db_result:
  assumes wf: "rrd_wf rrd" and fits: "file_fits rrd f" and t: "t < nrra rrd" and m: "0 < m"
    and lim: "row_cnt (rra_def rrd ! t) + int m < 2 ^ 62"
    and r: "resize_db (int t) (if shrink then - int m else int m) rrd f = Inr (rrd', f')"
    and ver: "3 \<le> version_num rrd"
  defines "R \<equiv> rows_of rrd t"
  shows "shrink \<Longrightarrow> m < R"
    "rra_def rrd' = (rra_def rrd)[t := (rra_def rrd ! t)\<lparr>row_cnt := int (if shrink then R - m else R + m)\<rparr>]"
    "rra_ptr rrd' = (rra_ptr rrd)[t := int (new_cur shrink R (cur_row rrd t) m)]"
    "ds_def rrd' = ds_def rrd" "live_head rrd' = live_head rrd" "pdp_prep rrd' = pdp_prep rrd" "cdp_prep rrd' = cdp_prep rrd"
    "stat_head rrd' = stat_head rrd"
    "file_vals f' = new_vals shrink (nds rrd) (rra_base rrd t) R (cur_row rrd t) m (file_vals f)"
    "header_len f' = rrd_get_header_size rrd'"
proof -
  have ok: "rra_ok rrd t" by (rule rrd_wf_rra [OF wf t])
  obtain cur where cur: "cur = cur_row rrd t" by blast
  then have RR: "row_cnt (rra_def rrd ! t) = int R" "rra_ptr rrd ! t = int cur" "cur < R" "0 < R"
    using ok by (auto simp: rra_ok_def R_def rows_of_def)
  show mR: "shrink \<Longrightarrow> m < R" using r m RR(1) t rrd_wfD(2) [OF wf] by (auto simp: resize_db_def Let_def split: if_splits)
  let ?n = "nds rrd" and ?B = "rra_base rrd t" and ?V = "file_vals f"
  define R' where "R' = (if shrink then R - m else R + m)"
  have u: "u64 (int R + (if shrink then - int m else int m)) = int R'"
    using mR lim RR by (auto simp: R'_def u64_id)
  define rrd1 where "rrd1 = rrd\<lparr>rra_def := (rra_def rrd)[t := (rra_def rrd ! t)\<lparr>row_cnt := int R'\<rparr>]\<rparr>"
  have l1: "ds_def rrd1 = ds_def rrd" "rra_def rrd1 = (rra_def rrd)[t := (rra_def rrd ! t)\<lparr>row_cnt := int R'\<rparr>]" by (simp_all add: rrd1_def)
  note b = rra_base_update [OF l1 t, folded R_def]
  have T: "?n * sum_list (map (nat \<circ> row_cnt) ((rra_def rrd)[t := (rra_def rrd ! t)\<lparr>row_cnt := int R'\<rparr>])) = rra_base rrd1 (nrra rrd)"
    using rra_base_sum [of "nrra rrd1" rrd1] by (simp add: rrd1_def)
  have Bs: "?n * sum_list (map (nat \<circ> row_cnt) (take t (rra_def rrd))) = ?B" using rra_base_sum t by simp
  have V: "length ?V = rra_base rrd (nrra rrd)" using fits by (simp add: file_fits_def)
  have top: "?B + R * ?n \<le> rra_base rrd (nrra rrd)" using rra_base_mono [of "Suc t" "nrra rrd" rrd] t by (simp add: rra_base_Suc R_def)
  have Tl: "rra_base rrd1 (nrra rrd) + R * ?n = length ?V + R' * ?n" using b(2) [of "nrra rrd"] t V by simp
  let ?s = "resize_copy ?n ?B (rra_base rrd1 (nrra rrd))
    \<lparr>rs_in = ?V, rs_out = [], rs_cur = int cur, rs_rows = int R, rs_modify = (if shrink then - int m else int m)\<rparr>"
  have s: "rs_out ?s = new_vals shrink ?n ?B R cur m ?V \<and> rs_rows ?s = int R' \<and> rs_cur ?s = int (new_cur shrink R cur m)"
  proof (cases shrink)
    case True
    note mR = mR [OF True]
    have "rra_base rrd1 (nrra rrd) = length ?V - ?n * m"
    proof -
      have "R * ?n = (R - m) * ?n + m * ?n" using mR by (simp add: add_mult_distrib [symmetric])
      then show ?thesis using Tl True by (simp add: R'_def mult.commute)
    qed
    from resize_copy_shrink [OF m mR RR(3) _ _ this refl, of ?B] obtain rest where
      "?s = \<lparr>rs_in = rest, rs_out = shrunk ?n ?B cur m (if R \<le> cur + m then cur + m + 1 - R else 0) ?V,
        rs_cur = int (cur - (if R \<le> cur + m then cur + m + 1 - R else 0)), rs_rows = int (R - m), rs_modify = 0\<rparr>"
      using lim RR(1) top V True by (auto simp: mult.commute)
    moreover have "cur - (if R \<le> cur + m then cur + m + 1 - R else 0) = new_cur True R cur m"
      using mR RR(3) by (auto simp: new_cur_def)
    ultimately show ?thesis using True by (simp add: new_vals_def R'_def)
  next
    case False
    have "rra_base rrd1 (nrra rrd) = length ?V + ?n * m" using Tl False by (simp add: R'_def add_mult_distrib mult.commute)
    moreover have "?B + ?n * Suc cur \<le> length ?V" using top V mult_le_mono2 [of "Suc cur" R ?n] RR(3) by (simp add: mult.commute)
    ultimately show ?thesis using resize_copy_grow [OF m, of ?B ?n cur ?V "rra_base rrd1 (nrra rrd)" R] lim RR(1) False
      by (simp add: new_vals_def new_cur_def R'_def)
  qed
  have c: "nat (ds_cnt (stat_head rrd)) = ?n" "\<not> rra_cnt (stat_head rrd) \<le> int t" using rrd_wfD(1,2) [OF wf] t by simp_all
  obtain v where v: "new_version (version (stat_head rrd)) = Some v"
    using r c(2) by (auto simp: resize_db_def Let_def split: if_splits option.splits)
  have v': "v = version (stat_head rrd)" using v ver by (simp add: new_version_def version_num_def split: if_splits)
  have room: "room_for_values rrd (version (stat_head rrd)) k = k" for k by (simp add: room_for_values_def)
  have e: "rrd' = rrd\<lparr>rra_def := (rra_def rrd)[t := (rra_def rrd ! t)\<lparr>row_cnt := rs_rows ?s\<rparr>], rra_ptr := (rra_ptr rrd)[t := rs_cur ?s]\<rparr>"
    "f' = f\<lparr>header_len := rrd_get_header_size rrd', file_vals := rs_out ?s\<rparr>"
    using r unfolding resize_db_def Let_def v c(1) nat_int u T Bs RR(1,2) option.case v' room by (auto simp: c(2) split: if_splits)
  show "stat_head rrd' = stat_head rrd" by (simp add: e(1))
  show "rra_def rrd' = (rra_def rrd)[t := (rra_def rrd ! t)\<lparr>row_cnt := int (if shrink then R - m else R + m)\<rparr>]"
    "rra_ptr rrd' = (rra_ptr rrd)[t := int (new_cur shrink R (cur_row rrd t) m)]"
    "ds_def rrd' = ds_def rrd" "live_head rrd' = live_head rrd" "pdp_prep rrd' = pdp_prep rrd" "cdp_prep rrd' = cdp_prep rrd"
    "file_vals f' = new_vals shrink ?n ?B R (cur_row rrd t) m ?V" "header_len f' = rrd_get_header_size rrd'"
    using s unfolding cur [symmetric] by (simp_all add: e R'_def)
qed

section \<open>Rows and times\<close>

text \<open>The facts about a resized database the proofs below start from.\<close>

definition resized :: "rrd_t \<Rightarrow> rrd_file_t \<Rightarrow> nat \<Rightarrow> bool \<Rightarrow> nat \<Rightarrow> rrd_t \<Rightarrow> rrd_file_t \<Rightarrow> bool" where
  "resized rrd f t shrink m rrd' f' \<longleftrightarrow>
     rrd_wf rrd \<and> file_fits rrd f \<and> t < nrra rrd \<and> 0 < m \<and> row_cnt (rra_def rrd ! t) + int m < 2 ^ 62 \<and>
     resize_db (int t) (if shrink then - int m else int m) rrd f = Inr (rrd', f') \<and> 3 \<le> version_num rrd"

lemma resized_facts:
  assumes "resized rrd f t shrink m rrd' f'"
  defines "R \<equiv> rows_of rrd t" and "R' \<equiv> (if shrink then rows_of rrd t - m else rows_of rrd t + m)"
  shows "shrink \<Longrightarrow> m < R" "cur_row rrd t < R" "rra_base rrd t + nds rrd * R \<le> length (file_vals f)"
    "nds rrd' = nds rrd" "nrra rrd' = nrra rrd"
    "i < nrra rrd \<Longrightarrow> rows_of rrd' i = (if i = t then R' else rows_of rrd i)"
    "i < nrra rrd \<Longrightarrow> cur_row rrd' i = (if i = t then new_cur shrink R (cur_row rrd t) m else cur_row rrd i)"
    "i \<le> t \<Longrightarrow> rra_base rrd' i = rra_base rrd i"
    "t < i \<Longrightarrow> rra_base rrd' i + R * nds rrd = rra_base rrd i + R' * nds rrd"
    "file_vals f' = new_vals shrink (nds rrd) (rra_base rrd t) R (cur_row rrd t) m (file_vals f)"
proof -
  have a: "rrd_wf rrd" "file_fits rrd f" "t < nrra rrd" "0 < m" "row_cnt (rra_def rrd ! t) + int m < 2 ^ 62"
    "resize_db (int t) (if shrink then - int m else int m) rrd f = Inr (rrd', f')" "3 \<le> version_num rrd" using assms(1) by (simp_all add: resized_def)
  note r = resize_db_result [OF a, folded R_def]
  show "shrink \<Longrightarrow> m < R" by (rule r(1))
  show "cur_row rrd t < R" using rrd_wf_rra [OF a(1,3)] by (auto simp: rra_ok_def R_def rows_of_def)
  show "rra_base rrd t + nds rrd * R \<le> length (file_vals f)"
    using rra_base_mono [of "Suc t" "nrra rrd" rrd] a(2,3) by (simp add: rra_base_Suc R_def file_fits_def mult.commute)
  show "nds rrd' = nds rrd" "nrra rrd' = nrra rrd" using r(2,4) by simp_all
  have R': "int R' = int (if shrink then R - m else R + m)" by (simp add: R'_def R_def)
  note b = rra_base_update [OF r(4) r(2) [folded R'] a(3), folded R_def]
  show "i < nrra rrd \<Longrightarrow> rows_of rrd' i = (if i = t then R' else rows_of rrd i)"
    "i \<le> t \<Longrightarrow> rra_base rrd' i = rra_base rrd i" "t < i \<Longrightarrow> rra_base rrd' i + R * nds rrd = rra_base rrd i + R' * nds rrd"
    using b by simp_all
  show "i < nrra rrd \<Longrightarrow> cur_row rrd' i = (if i = t then new_cur shrink R (cur_row rrd t) m else cur_row rrd i)"
    using r(3) rrd_wfD(4) [OF a(1)] by simp
  show "file_vals f' = new_vals shrink (nds rrd) (rra_base rrd t) R (cur_row rrd t) m (file_vals f)" by (rule r(9))
qed

lemma resized_cur:
  assumes "resized rrd f t shrink m rrd' f'"
  shows "rra_base rrd t + nds rrd * Suc (cur_row rrd t) \<le> length (file_vals f)"
proof -
  have "nds rrd * Suc (cur_row rrd t) \<le> nds rrd * rows_of rrd t"
    by (rule mult_le_mono2) (use resized_facts(2) [OF assms] in simp)
  then show ?thesis using resized_facts(3) [OF assms] by linarith
qed

lemma row_cell_bounds:
  fixes n :: nat
  assumes "d < n"
  shows "p < q \<Longrightarrow> p * n + d < n * q" "q \<le> p \<Longrightarrow> n * q \<le> p * n + d"
proof -
  show "p < q \<Longrightarrow> p * n + d < n * q" using row_index_less [of p q d n] assms by (simp add: mult.commute)
  show "q \<le> p \<Longrightarrow> n * q \<le> p * n + d" by (metis mult_le_mono2 mult.commute trans_le_add1)
qed

lemma row_vals_eqI:
  assumes "nds rrd' = nds rrd" "\<And>d. d < nds rrd \<Longrightarrow> file_vals f' ! cell_of rrd' i p' d = file_vals f ! cell_of rrd i p d"
  shows "row_vals rrd' f' i p' = row_vals rrd f i p"
  using assms by (simp add: row_vals_def)

text \<open>The other archives.\<close>

lemma resized_other_row:
  assumes res: "resized rrd f t shrink m rrd' f'" and i: "i < nrra rrd" "i \<noteq> t" "p < rows_of rrd i"
  shows "row_vals rrd' f' i p = row_vals rrd f i p"
proof (rule row_vals_eqI)
  note r = resized_facts [OF res]
  show "nds rrd' = nds rrd" by (rule r(4))
  fix d
  assume d: "d < nds rrd"
  let ?n = "nds rrd" and ?B = "rra_base rrd t" and ?V = "file_vals f" and ?R = "rows_of rrd t" and ?cur = "cur_row rrd t"
  have cin: "cell_of rrd i p d < length ?V"
    by (rule cell_in_file [OF _ i(1,3) d]) (use res in \<open>simp add: resized_def\<close>)
  note cur = resized_cur [OF res]
  show "file_vals f' ! cell_of rrd' i p d = ?V ! cell_of rrd i p d"
  proof (cases "i < t")
    case True
    have c: "cell_of rrd' i p d = cell_of rrd i p d" using r(8) [of i] True by (simp add: cell_of_def r(4))
    have "cell_of rrd i p d < ?B" using cell_in_rra(2) [OF i(3) d] rra_base_mono [of "Suc i" t rrd] True by simp
    then show ?thesis unfolding c r(10) new_vals_def
      using grown_nth(1) [OF cur] shrunk_nth(1) r(2,3) by (auto simp: shrunk_def nth_append)
  next
    case False
    then have ti: "t < i" using i(2) by simp
    note b = r(9) [OF ti]
    have ge: "?B + ?n * ?R \<le> cell_of rrd i p d" using cell_in_rra(1) [OF i(3) d] rra_base_mono [of "Suc t" i rrd] ti
      by (simp add: rra_base_Suc mult.commute)
    show ?thesis
    proof (cases shrink)
      case True
      have "?R = ?R - m + m" using r(1) [OF True] by simp
      then have nm: "?R * ?n = (?R - m) * ?n + m * ?n" by (metis add_mult_distrib)
      have c: "cell_of rrd i p d = cell_of rrd' i p d + ?n * m" using b True nm by (simp add: cell_of_def r(4) mult.commute)
      let ?k = "if ?R \<le> ?cur + m then ?cur + m + 1 - ?R else 0"
      have k: "Suc ?cur - ?k \<le> ?R - m" "?k \<le> Suc ?cur" using r(1) [OF True] r(2) by auto
      have "?n * (Suc ?cur - ?k) + ?n * m \<le> ?n * ?R" using mult_le_mono2 [OF k(1), of ?n] nm by (simp add: mult.commute)
      then have "?B + ?n * (Suc ?cur - ?k) \<le> cell_of rrd' i p d" using ge c by linarith
      moreover have "?B + ?n * ?k + ?n * (Suc ?cur - ?k) \<le> length ?V"
        using cur k(2) by (simp add: add.assoc add_mult_distrib2 [symmetric] del: mult_Suc_right)
      ultimately show ?thesis using shrunk_nth(3) cin True by (simp add: r(10) new_vals_def c)
    next
      case False
      have c: "cell_of rrd' i p d = cell_of rrd i p d + ?n * m" 
        using b False add_mult_distrib [of ?R m ?n] by (simp add: cell_of_def r(4) mult.commute [of m])
      have "?n * Suc ?cur \<le> ?n * ?R" using r(2) by (simp add: mult_le_mono2 del: mult_Suc_right)
      then have "?B + ?n * Suc ?cur + ?n * m \<le> cell_of rrd' i p d" using ge c by linarith
      then show ?thesis using grown_nth(3) [OF cur] cin c False by (simp add: r(10) new_vals_def)
    qed
  qed
qed

text \<open>The rows of the archive itself.\<close>

lemma grown_row:
  assumes res: "resized rrd f t False m rrd' f'" and p: "p < rows_of rrd t + m"
  shows "row_vals rrd' f' t p =
    (if p \<le> cur_row rrd t then row_vals rrd f t p
     else if p \<le> cur_row rrd t + m then replicate (nds rrd) NaN else row_vals rrd f t (p - m))"
proof -
  note r = resized_facts [OF res]
  let ?n = "nds rrd" and ?B = "rra_base rrd t" and ?V = "file_vals f" and ?R = "rows_of rrd t" and ?cur = "cur_row rrd t"
  note cur = resized_cur [OF res]
  have c: "cell_of rrd' t q d = ?B + (q * ?n + d)" "cell_of rrd t q d = ?B + (q * ?n + d)" for q d
    using r(8) [of t] by (simp_all add: cell_of_def r(4))
  have v: "file_vals f' = grown ?n ?B ?cur m ?V" using r(10) by (simp add: new_vals_def)
  consider "p \<le> ?cur" | "?cur < p" "p \<le> ?cur + m" | "?cur + m < p" by linarith
  then show ?thesis
  proof cases
    case 1
    have "row_vals rrd' f' t p = row_vals rrd f t p"
      by (rule row_vals_eqI [OF r(4)])
        (use 1 row_cell_bounds(1) [of _ ?n p "Suc ?cur"] in \<open>auto simp: c v grown_nth(1) [OF cur] simp del: mult_Suc_right\<close>)
    then show ?thesis using 1 by simp
  next
    case 2
    have "grown ?n ?B ?cur m ?V ! (?B + (p * ?n + d)) = NaN" if "d < ?n" for d
      by (rule grown_nth(2) [OF cur]) (use 2 row_cell_bounds(2) [OF that, of "Suc ?cur" p] row_cell_bounds(1) [OF that, of p "Suc ?cur + m"]
          in \<open>simp_all add: add_mult_distrib2 [symmetric] add.assoc del: mult_Suc_right\<close>)
    then have "row_vals rrd' f' t p = map (\<lambda>d. NaN) [0..<?n]" by (simp add: row_vals_def c v r(4))
    then show ?thesis using 2 by (simp add: map_replicate_const)
  next
    case 3
    have "row_vals rrd' f' t p = row_vals rrd f t (p - m)"
    proof (rule row_vals_eqI [OF r(4)])
      fix d
      assume d: "d < ?n"
      have "p = p - m + m" using 3 by simp
      then have "p * ?n = (p - m) * ?n + ?n * m" by (metis add_mult_distrib mult.commute)
      moreover have "?n * Suc ?cur \<le> (p - m) * ?n + d" by (rule row_cell_bounds(2) [OF d]) (use 3 in simp)
      moreover have "(p - m) * ?n + d < ?n * ?R" by (rule row_cell_bounds(1) [OF d]) (use p 3 in simp)
      ultimately show "file_vals f' ! cell_of rrd' t p d = ?V ! cell_of rrd t (p - m) d"
        using grown_nth(3) [OF cur, of m "?B + (p * ?n + d)"] r(3) by (simp add: c v del: mult_Suc_right)
    qed
    then show ?thesis using 3 by simp
  qed
qed

lemma shrunk_row:
  assumes res: "resized rrd f t True m rrd' f'" and p: "p < rows_of rrd t - m"
    and k: "k = (if rows_of rrd t \<le> cur_row rrd t + m then cur_row rrd t + m + 1 - rows_of rrd t else 0)"
  shows "row_vals rrd' f' t p = row_vals rrd f t (if p < Suc (cur_row rrd t) - k then p + k else p + m)"
proof (rule row_vals_eqI)
  note r = resized_facts [OF res]
  show "nds rrd' = nds rrd" by (rule r(4))
  fix d
  let ?n = "nds rrd" and ?B = "rra_base rrd t" and ?V = "file_vals f" and ?R = "rows_of rrd t" and ?cur = "cur_row rrd t"
  assume d: "d < ?n"
  have kc: "k \<le> Suc ?cur" using r(1,2) by (auto simp: k)
  have cur: "?B + ?n * k + ?n * (Suc ?cur - k) \<le> length ?V"
    using resized_cur [OF res] kc by (simp add: add.assoc add_mult_distrib2 [symmetric] del: mult_Suc_right)
  have c: "cell_of rrd' t q d = ?B + (q * ?n + d)" "cell_of rrd t q d = ?B + (q * ?n + d)" for q
    using r(8) [of t] by (simp_all add: cell_of_def r(4))
  have v: "file_vals f' = shrunk ?n ?B ?cur m k ?V" using r(10) by (simp add: new_vals_def k)
  show "file_vals f' ! cell_of rrd' t p d = ?V ! cell_of rrd t (if p < Suc ?cur - k then p + k else p + m) d"
  proof (cases "p < Suc ?cur - k")
    case True
    then show ?thesis using shrunk_nth(2) [OF cur, of "?B + (p * ?n + d)" m] row_cell_bounds(1) [OF d True]
      by (simp add: c v algebra_simps)
  next
    case False
    have "(p + m) * ?n + d < ?n * ?R" by (rule row_cell_bounds(1) [OF d]) (use p in simp)
    then show ?thesis using False shrunk_nth(3) [OF cur, of "?B + (p * ?n + d)" m] row_cell_bounds(2) [OF d, of "Suc ?cur - k" p] r(3)
      by (simp add: c v algebra_simps)
  qed
qed

lemma wrap_once: "a < 2 * R \<Longrightarrow> a mod R = (if a < R then a else a - R)" for a R :: nat
  by (simp add: mod_if le_mod_geq)

lemma resized_other_ring:
  assumes res: "resized rrd f t shrink m rrd' f'" and i: "i < nrra rrd" "i \<noteq> t"
  shows "ring_row rrd' f' i j = ring_row rrd f i j"
proof -
  note r = resized_facts [OF res]
  have e: "rows_of rrd' i = rows_of rrd i" "cur_row rrd' i = cur_row rrd i" using r(6,7) [OF i(1)] i(2) by simp_all
  have "row_vals rrd' f' i ((cur_row rrd i + 1 + nat j) mod rows_of rrd i) = row_vals rrd f i ((cur_row rrd i + 1 + nat j) mod rows_of rrd i)"
    if "0 \<le> j" "j < int (rows_of rrd i)" by (rule resized_other_row [OF res i]) (use that in simp)
  then show ?thesis unfolding ring_row_def e r(4) by simp
qed

lemma grown_ring:
  assumes res: "resized rrd f t False m rrd' f'"
  shows "ring_row rrd' f' t j = ring_row rrd f t (j - int m)"
proof (cases "0 \<le> j \<and> j < int (rows_of rrd t + m)")
  case True
  note r = resized_facts [OF res]
  let ?R = "rows_of rrd t" and ?cur = "cur_row rrd t"
  have t: "t < nrra rrd" using res by (simp add: resized_def)
  have e: "rows_of rrd' t = ?R + m" "cur_row rrd' t = ?cur" using r(6,7) [OF t] by (simp_all add: new_cur_def)
  obtain jn where j: "j = int jn" "jn < ?R + m" using True by (metis nonneg_int_cases of_nat_less_iff)
  define p where "p = (?cur + 1 + jn) mod (?R + m)"
  have pw: "p = (if ?cur + 1 + jn < ?R + m then ?cur + 1 + jn else ?cur + 1 + jn - (?R + m))"
    unfolding p_def by (rule wrap_once) (use j(2) r(2) in simp)
  have p: "p < ?R + m" unfolding p_def by (rule mod_less_divisor) (use j(2) in linarith)
  have l: "ring_row rrd' f' t j = row_vals rrd' f' t p" using True by (simp add: ring_row_def e j(1) p_def)
  show ?thesis
  proof (cases "jn < m")
    case True
    then have "?cur < p" "p \<le> ?cur + m" using r(2) pw by auto
    then have "row_vals rrd' f' t p = replicate (nds rrd) NaN" using grown_row [OF res p] by simp
    then show ?thesis using True l by (simp add: ring_row_def j(1))
  next
    case False
    define q where "q = (?cur + 1 + (jn - m)) mod ?R"
    have qw: "q = (if ?cur + 1 + (jn - m) < ?R then ?cur + 1 + (jn - m) else ?cur + 1 + (jn - m) - ?R)"
      unfolding q_def by (rule wrap_once) (use j(2) r(2) False in simp)
    have "ring_row rrd f t (j - int m) = row_vals rrd f t q" using False j by (simp add: ring_row_def q_def nat_diff_distrib')
    moreover have "row_vals rrd' f' t p = row_vals rrd f t q"
    proof (cases "?cur + 1 + jn < ?R + m")
      case True
      have "?cur + 1 + (jn - m) < ?R" using True False by linarith
      then have "q = ?cur + 1 + (jn - m)" using qw by (simp only: if_True)
      moreover have "p = ?cur + 1 + jn" using pw True by (simp only: if_True)
      ultimately have "p - m = q" "?cur + m < p" using False by linarith+
      then show ?thesis using grown_row [OF res p] by simp
    next
      case wrapped: False
      then have "p = ?cur + 1 + jn - (?R + m)" using pw by (simp only: if_False)
      moreover have "\<not> ?cur + 1 + (jn - m) < ?R" using wrapped False by linarith
      then have "q = ?cur + 1 + (jn - m) - ?R" using qw by (simp only: if_False)
      ultimately have "p = q" "p \<le> ?cur" using False wrapped j(2) by linarith+
      then show ?thesis using grown_row [OF res p] by simp
    qed
    ultimately show ?thesis using l by simp
  qed
next
  case False
  note r = resized_facts [OF res]
  have t: "t < nrra rrd" using res by (simp add: resized_def)
  have "rows_of rrd' t = rows_of rrd t + m" using r(6) [OF t] by simp
  then show ?thesis using False by (auto simp: ring_row_def r(4))
qed

lemma shrunk_ring:
  assumes res: "resized rrd f t True m rrd' f'" and j0: "0 \<le> j"
  shows "ring_row rrd' f' t j = ring_row rrd f t (j + int m)"
proof -
  note r = resized_facts [OF res]
  let ?R = "rows_of rrd t" and ?cur = "cur_row rrd t"
  have t: "t < nrra rrd" using res by (simp add: resized_def)
  have mR: "m < ?R" by (rule r(1)) simp
  have e: "rows_of rrd' t = ?R - m" "cur_row rrd' t = new_cur True ?R ?cur m" using r(6,7) [OF t] by simp_all
  obtain jn where j: "j = int jn" using j0 by (metis nonneg_int_cases)
  show ?thesis
  proof (cases "jn < ?R - m")
    case True
    define k where "k = (if ?R \<le> ?cur + m then ?cur + m + 1 - ?R else 0)"
    define p where "p = (new_cur True ?R ?cur m + 1 + jn) mod (?R - m)"
    have p: "p < ?R - m" using True by (simp add: p_def)
    define q where "q = (?cur + 1 + (jn + m)) mod ?R"
    have qw: "q = (if ?cur + 1 + (jn + m) < ?R then ?cur + 1 + (jn + m) else ?cur + 1 + (jn + m) - ?R)"
      unfolding q_def by (rule wrap_once) (use True r(2) in simp)
    have "new_cur True ?R ?cur m < ?R - m" using mR r(2) by (auto simp: new_cur_def)
    then have pw: "p = (if new_cur True ?R ?cur m + 1 + jn < ?R - m then new_cur True ?R ?cur m + 1 + jn
        else new_cur True ?R ?cur m + 1 + jn - (?R - m))"
      unfolding p_def by (intro wrap_once) (use True in simp)
    have "(if p < Suc ?cur - k then p + k else p + m) = q"
    proof (cases "?R \<le> ?cur + m")
      case wrapped: True
      have nc: "new_cur True ?R ?cur m + 1 + jn = ?R - m + jn" using wrapped mR by (simp add: new_cur_def)
      have "p = jn" using pw unfolding nc by (simp only: not_add_less1 if_False add_diff_cancel_left')
      moreover have "k = ?cur + m + 1 - ?R" "q = ?cur + 1 + (jn + m) - ?R" using qw wrapped by (simp_all add: k_def)
      ultimately
      show ?thesis using wrapped True mR r(2) by (simp add: add.left_commute)
    next
      case False
      then have k: "k = 0" and p: "p = (if ?cur + 1 + jn < ?R - m then ?cur + 1 + jn else ?cur + 1 + jn - (?R - m))"
        using pw by (simp_all add: k_def new_cur_def)
      show ?thesis
      proof (cases "?cur + 1 + jn < ?R - m")
        case c: True
        then have "?cur + 1 + (jn + m) < ?R" by linarith
        then have "q = ?cur + 1 + (jn + m)" using qw by (simp only: if_True)
        moreover have "p = ?cur + 1 + jn" using p c by (simp only: if_True)
        ultimately show ?thesis using k by simp
      next
        case c: False
        then have "\<not> ?cur + 1 + (jn + m) < ?R" by linarith
        then have "q = ?cur + 1 + (jn + m) - ?R" using qw by (simp only: if_False)
        moreover have "p = ?cur + 1 + jn - (?R - m)" using p c by (simp only: if_False)
        moreover from this have "p < Suc ?cur" using True by linarith
        ultimately show ?thesis using k c mR by (simp only: if_True diff_zero) linarith
      qed
    qed
    then have "row_vals rrd' f' t p = row_vals rrd f t q" using shrunk_row [OF res p k_def] by simp
    then show ?thesis using True j by (simp add: ring_row_def e p_def q_def nat_add_distrib r(4))
  next
    case False
    then have "\<not> int jn < int (?R - m)" "\<not> int jn + int m < int ?R" using mR by linarith+
    then show ?thesis unfolding ring_row_def e j r(4) by (simp only: if_False simp_thms)
  qed
qed

lemma resized_time:
  assumes "resized rrd f t shrink m rrd' f'" "ch < nrra rrd"
  shows "cal_end rrd' (rra_def rrd' ! ch) = cal_end rrd (rra_def rrd ! ch)"
    "rra_step rrd' (rra_def rrd' ! ch) = rra_step rrd (rra_def rrd ! ch)"
proof -
  have a: "rrd_wf rrd" "file_fits rrd f" "t < nrra rrd" "0 < m" "row_cnt (rra_def rrd ! t) + int m < 2 ^ 62"
    "resize_db (int t) (if shrink then - int m else int m) rrd f = Inr (rrd', f')" "3 \<le> version_num rrd" using assms(1) by (simp_all add: resized_def)
  note r = resize_db_result [OF a]
  have d: "pdp_cnt (rra_def rrd' ! ch) = pdp_cnt (rra_def rrd ! ch)" using r(2) assms(2) by (cases "ch = t") simp_all
  have h: "pdp_step (stat_head rrd') = pdp_step (stat_head rrd)" using r(8) by auto
  show st: "rra_step rrd' (rra_def rrd' ! ch) = rra_step rrd (rra_def rrd ! ch)" by (simp add: rra_step_def d h)
  show "cal_end rrd' (rra_def rrd' ! ch) = cal_end rrd (rra_def rrd ! ch)" by (simp add: cal_end_def st r(5))
qed

lemma resized_ok:
  assumes "resized rrd f t shrink m rrd' f'"
  shows "rrd_wf rrd'" "file_fits rrd' f'" "header_len f' = rrd_get_header_size rrd'" "ds_def rrd' = ds_def rrd" "stat_head rrd' = stat_head rrd"
proof -
  have a: "rrd_wf rrd" "file_fits rrd f" "t < nrra rrd" "0 < m" "row_cnt (rra_def rrd ! t) + int m < 2 ^ 62"
    "resize_db (int t) (if shrink then - int m else int m) rrd f = Inr (rrd', f')" "3 \<le> version_num rrd" using assms(1) by (simp_all add: resized_def)
  note r = resize_db_result [OF a] and q = resized_facts [OF assms]
  have v: "ds_cnt (stat_head rrd') = ds_cnt (stat_head rrd)" "rra_cnt (stat_head rrd') = rra_cnt (stat_head rrd)"
    "pdp_step (stat_head rrd') = pdp_step (stat_head rrd)" using r(8) by simp_all
  have "rra_ok rrd' i" if i: "i < nrra rrd" for i
  proof (cases "i = t")
    case True
    have ok: "rra_ok rrd t" by (rule rrd_wf_rra [OF a(1,3)])
    have "new_cur shrink (rows_of rrd t) (cur_row rrd t) m < (if shrink then rows_of rrd t - m else rows_of rrd t + m)"
      using q(1,2) by (auto simp: new_cur_def)
    moreover have "t < length (rra_ptr rrd)" using rrd_wfD(4) [OF a(1)] a(3) by simp
    ultimately show ?thesis using ok a(5) q(1) True a(3) r(2,3) by (auto simp: rra_ok_def rows_of_def)
  next
    case False
    then show ?thesis using rrd_wf_rra [OF a(1) i] r(2,3) by (simp add: rra_ok_def)
  qed
  then show "rrd_wf rrd'" using a(1) r(2-7) v by (simp add: rrd_wf_def)
  show "header_len f' = rrd_get_header_size rrd'" "ds_def rrd' = ds_def rrd" "stat_head rrd' = stat_head rrd" by (rule r(10), rule r(4), rule r(8))
  have b: "rra_base rrd' (nrra rrd) + rows_of rrd t * nds rrd =
      rra_base rrd (nrra rrd) + (if shrink then rows_of rrd t - m else rows_of rrd t + m) * nds rrd" by (rule q(9) [OF a(3)])
  have V: "length (file_vals f) = rra_base rrd (nrra rrd)" using a(2) by (simp add: file_fits_def)
  have "length (file_vals f') + rows_of rrd t * nds rrd =
      length (file_vals f) + (if shrink then rows_of rrd t - m else rows_of rrd t + m) * nds rrd"
  proof (cases shrink)
    case True
    define k where "k = (if rows_of rrd t \<le> cur_row rrd t + m then cur_row rrd t + m + 1 - rows_of rrd t else 0)"
    have mR: "m < rows_of rrd t" by (rule q(1) [OF True])
    have k: "Suc (cur_row rrd t) - k \<le> rows_of rrd t - m" "k \<le> Suc (cur_row rrd t)" using mR q(2) by (auto simp: k_def)
    have "rows_of rrd t = rows_of rrd t - m + m" using mR by simp
    then have nm: "rows_of rrd t * nds rrd = (rows_of rrd t - m) * nds rrd + m * nds rrd" by (metis add_mult_distrib)
    have "nds rrd * (Suc (cur_row rrd t) - k) \<le> (rows_of rrd t - m) * nds rrd" using mult_le_mono2 [OF k(1), of "nds rrd"] by (simp add: mult.commute)
    then have le: "rra_base rrd t + nds rrd * (Suc (cur_row rrd t) - k) + nds rrd * m \<le> length (file_vals f)"
      using q(3) nm mult.commute [of m "nds rrd"] mult.commute [of "nds rrd" "rows_of rrd t"] by linarith
    have "rra_base rrd t + nds rrd * k + nds rrd * (Suc (cur_row rrd t) - k) \<le> length (file_vals f)"
      using resized_cur [OF assms] k(2) by (simp add: add.assoc add_mult_distrib2 [symmetric] del: mult_Suc_right)
    then have mn: "min (length (file_vals f)) (rra_base rrd t) = rra_base rrd t"
      "min (length (file_vals f) - (rra_base rrd t + nds rrd * k)) (nds rrd * (Suc (cur_row rrd t) - k)) = nds rrd * (Suc (cur_row rrd t) - k)"
      by linarith+
    have v: "file_vals f' = shrunk (nds rrd) (rra_base rrd t) (cur_row rrd t) m k (file_vals f)" using q(10) True by (simp add: new_vals_def k_def)
    have "length (file_vals f') + nds rrd * m = length (file_vals f)"
      using le unfolding v shrunk_def length_append length_take length_drop mn by linarith
    then show ?thesis using True nm mult.commute [of m "nds rrd"] by simp
  next
    case False
    then show ?thesis using q(10) resized_cur [OF assms] add_mult_distrib [of "rows_of rrd t" m "nds rrd"]
      by (simp add: new_vals_def grown_def mult.commute [of m] del: mult_Suc_right)
  qed
  then show "file_fits rrd' f'" using b V q(5) by (simp add: file_fits_def)
qed

text \<open>C10: Resizing an archive of a database of version 3 or later keeps what the database says about every time. After \<open>GROW\<close> every archive has for every
  time the row it had; after \<open>SHRINK\<close> this holds for the other archives and for the latest rows of the
  one that has been shrunk, and older times are unknown. The new database is well-formed and its file fits.\<close>

theorem resize_keeps_times:
  assumes "rrd_wf rrd" "file_fits rrd f" "t < nrra rrd" "0 < m" "row_cnt (rra_def rrd ! t) + int m < 2 ^ 62"
    and "resize_db (int t) (if shrink then - int m else int m) rrd f = Inr (rrd', f')" "ch < nrra rrd" "3 \<le> version_num rrd"
  shows "rrd_wf rrd' \<and> file_fits rrd' f' \<and> row_of_time rrd' f' ch u =
    (if shrink \<and> ch = t \<and> int (rows_of rrd t) - int m \<le> (cal_end rrd (rra_def rrd ! t) - u) div rra_step rrd (rra_def rrd ! t)
     then replicate (nds rrd) NaN else row_of_time rrd f ch u)"
proof -
  have res: "resized rrd f t shrink m rrd' f'" using assms(1-6,8) by (simp add: resized_def)
  note q = resized_facts [OF res]
  define x where "x = (cal_end rrd (rra_def rrd ! ch) - u) div rra_step rrd (rra_def rrd ! ch)"
  have l: "row_of_time rrd' f' ch u = ring_row rrd' f' ch (int (rows_of rrd' ch) - 1 - x)"
    "row_of_time rrd f ch u = ring_row rrd f ch (int (rows_of rrd ch) - 1 - x)"
    by (simp_all add: row_of_time_def resized_time [OF res assms(7)] x_def)
  consider "ch \<noteq> t" | "ch = t" "\<not> shrink" | "ch = t" shrink "int (rows_of rrd t) - int m \<le> x" | "ch = t" shrink "x < int (rows_of rrd t) - int m"
    by linarith
  then have "row_of_time rrd' f' ch u = (if shrink \<and> ch = t \<and> int (rows_of rrd t) - int m \<le> x then replicate (nds rrd) NaN else row_of_time rrd f ch u)"
  proof cases
    case 1
    then show ?thesis using resized_other_ring [OF res assms(7)] q(6) [OF assms(7)] by (simp add: l)
  next
    case 2
    have g: "resized rrd f t False m rrd' f'" and R: "rows_of rrd' ch = rows_of rrd ch + m" using res q(6) [OF assms(7)] 2 by simp_all
    have "row_of_time rrd' f' ch u = ring_row rrd f t (int (rows_of rrd ch + m) - 1 - x - int m)"
      unfolding l(1) R unfolding 2(1) by (rule grown_ring [OF g])
    moreover have "row_of_time rrd f ch u = ring_row rrd f t (int (rows_of rrd ch) - 1 - x)" unfolding l(2) unfolding 2(1) ..
    ultimately show ?thesis using 2 by (simp add: algebra_simps)
  next
    case 3
    have "rows_of rrd' t = rows_of rrd t - m" "m < rows_of rrd t" using q(6) [OF assms(7)] q(1) 3 by simp_all
    then have "int (rows_of rrd' t) - 1 - x < 0" using 3 by simp
    then have "row_of_time rrd' f' ch u = replicate (nds rrd) NaN" unfolding l(1) unfolding 3(1) ring_row_def q(4) by simp
    then show ?thesis using 3 by simp
  next
    case 4
    have R: "rows_of rrd' t = rows_of rrd t - m" "m < rows_of rrd t" using q(6) [OF assms(7)] q(1) 4 by simp_all
    have "row_of_time rrd' f' ch u = ring_row rrd f t (int (rows_of rrd t - m) - 1 - x + int m)"
      unfolding l(1) unfolding 4(1) R(1) by (rule shrunk_ring) (use res 4 R(2) in simp_all)
    moreover have e: "int (rows_of rrd t - m) - 1 - x + int m = int (rows_of rrd t) - 1 - x" using R(2) by simp
    moreover have "row_of_time rrd f ch u = ring_row rrd f t (int (rows_of rrd t) - 1 - x)" unfolding l(2) unfolding 4(1) ..
    ultimately have "row_of_time rrd' f' ch u = row_of_time rrd f ch u" by (simp only: e)
    then show ?thesis using 4 by simp
  qed
  then show ?thesis using resized_ok(1,2) [OF res] by (auto simp: x_def)
qed

theorem resize_keeps_times_witness:
  "\<exists>rrd' f'. resize_db 0 (- 2) sample_rrd sample_file = Inr (rrd', f') \<and> rrd_wf rrd' \<and>
    row_of_time rrd' f' 0 1200000000 = row_of_time sample_rrd sample_file 0 1200000000"
proof -
  have fits: "file_fits sample_rrd sample_file"
    by (simp add: file_fits_def rra_base_def sample_file_def numeral_2_eq_2 sample_ds_def)
  have "case resize_db 0 (- 2) sample_rrd sample_file of Inl e \<Rightarrow> False | Inr x \<Rightarrow> True" by code_simp
  then obtain rrd' f' where r: "resize_db 0 (- 2) sample_rrd sample_file = Inr (rrd', f')"
    by (cases "resize_db 0 (- 2) sample_rrd sample_file") auto
  have v: "3 \<le> version_num sample_rrd" by code_simp
  have n: "\<not> int (rows_of sample_rrd 0) - int 2 \<le> (cal_end sample_rrd (rra_def sample_rrd ! 0) - 1200000000) div rra_step sample_rrd (rra_def sample_rrd ! 0)"
    by code_simp
  have "rrd_wf rrd' \<and> file_fits rrd' f' \<and> row_of_time rrd' f' 0 1200000000 = row_of_time sample_rrd sample_file 0 1200000000"
    using resize_keeps_times [OF sample_wf fits, of 0 2 True rrd' f' 0 1200000000] r n v by simp
  with r show ?thesis by blast
qed

text \<open>A database of version 1 loses the last value of its last archive, so that its file is shorter than its header says.\<close>

lemma version_1_room:
  assumes "version_num rrd < 3" "3 \<le> atoi v"
  shows "room_for_values rrd v n = n - 1"
  using assms by (simp add: room_for_values_def rrd_get_header_size_def version_num_def Let_def)

lemma version_1_truncated:
  "case resize_db 0 1 (sample_rrd\<lparr>stat_head := (stat_head sample_rrd)\<lparr>version := ''0001''\<rparr>\<rparr>) sample_file of
     Inl e \<Rightarrow> False
   | Inr (rrd', f') \<Rightarrow> version (stat_head rrd') = ''0003'' \<and> length (file_vals f') = rra_base rrd' (nrra rrd') - 1"
  by code_simp

text \<open>A database of version 5 (\<open>DCOUNTER\<close>, \<open>DDERIVE\<close>) cannot be resized.\<close>

lemma version_5_refused: "new_version ''0005'' = None"
  by code_simp

section \<open>The first time of an archive\<close>

lemma first_is_oldest:
  assumes wf: "rrd_wf rrd" and ok: "times_ok rrd" and i: "i < nrra rrd" "nrra rrd < 2 ^ 31"
  shows "\<exists>T. rrd_first_r rrd (int i) = Some T \<and> row_of_time rrd f i T = ring_row rrd f i 0 \<and>
    T = cal_end rrd (rra_def rrd ! i) - (row_cnt (rra_def rrd ! i) - 1) * rra_step rrd (rra_def rrd ! i)"
proof -
  define S where "S = pdp_step (stat_head rrd) * pdp_cnt (rra_def rrd ! i)"
  let ?R = "row_cnt (rra_def rrd ! i)" and ?lu = "last_up (live_head rrd)"
  have r: "rra_ok rrd i" by (rule rrd_wf_rra [OF wf i(1)])
  then have p: "0 < pdp_cnt (rra_def rrd ! i)" "pdp_cnt (rra_def rrd ! i) < 2 ^ 31" "0 < ?R" by (simp_all add: rra_ok_def)
  have st: "0 < pdp_step (stat_head rrd)" "pdp_step (stat_head rrd) < 2 ^ 31" using wf by (simp_all add: rrd_wf_def)
  have t: "0 \<le> ?lu" "?lu < 2 ^ 61" "?R < 2 ^ 31" "S * ?R < 2 ^ 61" using ok i(1) by (simp_all add: times_ok_def S_def)
  have S: "0 < S" using p(1) st(1) by (simp add: S_def)
  have "S * 1 \<le> S * ?R" using S p(3) by (intro mult_left_mono) simp_all
  then have S61: "S < 2 ^ 61" using t(4) by simp
  have u: "u64 S = S" "u64 ?lu = ?lu" using S S61 t by (simp_all add: u64_id)
  have m: "0 \<le> ?lu mod S" "?lu mod S \<le> ?lu" using S t(1) by (simp_all add: zmod_le_nonneg_dividend)
  have ce: "cal_end rrd (rra_def rrd ! i) = ?lu - ?lu mod S" and rs: "rra_step rrd (rra_def rrd ! i) = S"
    using u m t by (simp_all add: cal_end_def rra_step_def S_def [symmetric] Let_def s64_id)
  define T where "T = ?lu - ?lu mod S - (?R - 1) * S"
  have RS: "0 \<le> (?R - 1) * S" "(?R - 1) * S < 2 ^ 61" using p(3) S t(4) by (simp_all add: algebra_simps)
  have "s64 (?lu - ?lu mod S - pdp_step (stat_head rrd) * (pdp_cnt (rra_def rrd ! i) * (?R - 1))) = T"
  proof -
    have e: "pdp_step (stat_head rrd) * (pdp_cnt (rra_def rrd ! i) * (?R - 1)) = (?R - 1) * S" by (simp add: S_def)
    show ?thesis unfolding e T_def by (rule s64_id) (use RS m t in simp_all)
  qed
  moreover have "s64 (?R - 1) = ?R - 1" "s64 (pdp_cnt (rra_def rrd ! i)) = pdp_cnt (rra_def rrd ! i)"
    "s64 (pdp_step (stat_head rrd)) = pdp_step (stat_head rrd)" using t p st by (simp_all add: s64_id)
  moreover have "s32 (rra_cnt (stat_head rrd)) = int (nrra rrd)" using i(2) rrd_wfD(2) [OF wf] by (simp add: s32_id)
  ultimately have f: "rrd_first_r rrd (int i) = Some T"
    using i(1) u by (simp add: rrd_first_r_def Let_def S_def mult.commute)
  have "(?lu - ?lu mod S - T) div S = ?R - 1" using S by (simp add: T_def)
  then have "row_of_time rrd f i T = ring_row rrd f i 0" using p(3) by (simp add: row_of_time_def ce rs rows_of_def)
  then show ?thesis using f by (simp add: ce rs T_def)
qed

end
