(* ===== verification/Rrd_Tune.thy ===== *)
theory Rrd_Tune
  imports Rrd_Resize Rrd_Create Rrd_Update_Keeps
begin

text \<open>
  \<open>rrd_tune.c\<close>: \<open>rrd_tune_r\<close>, whose options change the definitions of a database in place. The file is
  memory mapped, so what the options before a wrong one have changed stays. The options come as pairs
  of a letter and its argument, in the order in which \<open>optparse\<close> finds them, and \<open>args\<close> is what follows
  the name of the file. These arguments and the argument of \<open>--step\<close> go to \<open>handle_modify\<close> of
  \<open>rrd_modify.c\<close>, whose reading of the arguments is modelled. If they ask for sources or archives to be
  added or removed, the database is put together again by \<open>rrd_modify_r2\<close>; this rebuild is not
  modelled, and the result of \<open>rrd_tune_r\<close> tells what is asked for. The listing of the data sources is
  not modelled.
\<close>

section \<open>Definitions\<close>

datatype tune_error =
    Bad_heartbeat
  | Bad_minimum
  | Bad_maximum
  | Bad_source_type
  | Bad_aberrant_reset
  | No_such_source string
  | No_such_type string
  | Hw_range
  | Hw_unparsable
  | Hw_no_rra
  | Delta_too_small
  | Delta_unparsable
  | No_failures_rra
  | Window_length
  | Reset_failed rrd_error
  | Bad_option

text \<open>\<open>sscanf\<close> with \<open>%19[...]\<close> and \<open>%40[...]\<close>: a run of characters, cut at the width.\<close>

definition scan_run :: "nat \<Rightarrow> (char \<Rightarrow> bool) \<Rightarrow> string \<Rightarrow> (string \<times> string) option" where
  "scan_run w P s = (let r = take w (takeWhile P s) in if r = [] then None else Some (r, drop (length r) s))"

text \<open>A name of a data source, a colon and what follows.\<close>

definition scan_ds_colon :: "string \<Rightarrow> (string \<times> string) option" where
  "scan_ds_colon s =
     (case scan_run 19 is_name_char s of
        None \<Rightarrow> None
      | Some (nam, r) \<Rightarrow> if take 1 r = '':'' then Some (nam, tl r) else None)"

text \<open>\<open>%ld\<close>: blanks, a sign and at least one digit.\<close>

definition scan_ld :: "string \<Rightarrow> clong option" where
  "scan_ld s =
     (let t = dropWhile is_space s; u = (if take 1 t = ''-'' \<or> take 1 t = ''+'' then tl t else t)
      in if takeWhile is_digit u = [] then None else Some (atol s))"

definition is_number_char :: "char \<Rightarrow> bool" where
  "is_number_char c \<longleftrightarrow> c = CHR ''U'' \<or> is_digit c \<or> c \<in> set ''.e+-''"

definition scan_limit :: "tune_error \<Rightarrow> string \<Rightarrow> tune_error + string \<times> dbl" where
  "scan_limit err optarg =
     (case scan_ds_colon optarg of
        None \<Rightarrow> Inl err
      | Some (nam, r) \<Rightarrow>
          (case scan_run 40 is_number_char r of
             None \<Rightarrow> Inl err
           | Some (t, _) \<Rightarrow>
               if t = ''U'' then Inr (nam, NaN)
               else (case rrd_strtodbl t of (rc, v, _) \<Rightarrow> if rc \<noteq> 2 then Inl err else Inr (nam, v))))"

text \<open>The data source an option names, as an index.\<close>

definition find_ds :: "rrd_t \<Rightarrow> string \<Rightarrow> tune_error + nat" where
  "find_ds rrd nam = (let ds = ds_match rrd nam in if ds = - 1 then Inl (No_such_source nam) else Inr (nat ds))"

definition ds_upd :: "rrd_t \<Rightarrow> nat \<Rightarrow> (ds_def_t \<Rightarrow> ds_def_t) \<Rightarrow> rrd_t" where
  "ds_upd rrd i g = rrd\<lparr>ds_def := (ds_def rrd)[i := g (ds_def rrd ! i)]\<rparr>"

definition rra_upd :: "rrd_t \<Rightarrow> nat \<Rightarrow> (rra_def_t \<Rightarrow> rra_def_t) \<Rightarrow> rrd_t" where
  "rra_upd rrd i g = rrd\<lparr>rra_def := (rra_def rrd)[i := g (rra_def rrd ! i)]\<rparr>"

text \<open>The first archive with a consolidation function; its index is a \<open>signed short\<close>, which is enough for the
  archives of a database in practice.\<close>

fun find_cf :: "nat \<Rightarrow> rra_def_t list \<Rightarrow> cf_en \<Rightarrow> nat option" where
  "find_cf i [] cf = None"
| "find_cf i (r # rs) cf = (if rrd_cf_conv (cf_nam r) = Some cf then Some i else find_cf (Suc i) rs cf)"

datatype rra_par = Par1 | Par2

definition set_par :: "rra_par \<Rightarrow> dbl \<Rightarrow> rra_def_t \<Rightarrow> rra_def_t" where
  "set_par par v d = (case par of Par1 \<Rightarrow> d\<lparr>rra_par1 := v\<rparr> | Par2 \<Rightarrow> d\<lparr>rra_par2 := v\<rparr>)"

definition set_hwarg :: "rrd_t \<Rightarrow> cf_en \<Rightarrow> rra_par \<Rightarrow> string \<Rightarrow> tune_error + rrd_t" where
  "set_hwarg rrd cf par arg =
     (case rrd_strtodbl arg of (rc, param, _) \<Rightarrow>
        if (rc = 1 \<or> rc = 2) \<and> (param \<le> 0 \<or> 1 \<le> param) then Inl Hw_range
        else if rc = 0 \<or> 2 < rc then Inl Hw_unparsable
        else (case find_cf 0 (rra_def rrd) cf of
                None \<Rightarrow> Inl Hw_no_rra
              | Some i \<Rightarrow> Inr (rra_upd rrd i (set_par par param))))"

definition set_hwsmootharg :: "rrd_t \<Rightarrow> cf_en \<Rightarrow> rra_par \<Rightarrow> string \<Rightarrow> tune_error + rrd_t" where
  "set_hwsmootharg rrd cf par arg =
     (case rrd_strtodbl arg of (rc, param, _) \<Rightarrow>
        if (rc = 1 \<or> rc = 2) \<and> (param < 0 \<or> 1 < param) then Inl Hw_range
        else if rc = 0 \<or> 2 < rc then Inl Hw_unparsable
        else (case find_cf 0 (rra_def rrd) cf of
                None \<Rightarrow> Inl Hw_no_rra
              | Some i \<Rightarrow> Inr (rra_upd rrd i (set_par par param))))"

definition one_tenth :: dbl where
  "one_tenth = dint 1 / dint 10"

definition set_deltaarg :: "rrd_t \<Rightarrow> rra_par \<Rightarrow> string \<Rightarrow> tune_error + rrd_t" where
  "set_deltaarg rrd par arg =
     (case rrd_strtodbl arg of (rc, param, _) \<Rightarrow>
        if (rc = 1 \<or> rc = 2) \<and> param < one_tenth then Inl Delta_too_small
        else if rc = 1 \<or> 2 < rc then Inl Delta_unparsable
        else (case find_cf 0 (rra_def rrd) CF_FAILURES of
                None \<Rightarrow> Inl No_failures_rra
              | Some i \<Rightarrow> Inr (rra_upd rrd i (set_par par param))))"

text \<open>\<open>threshold\<close> tells which of the two counts is set.\<close>

definition set_windowarg :: "rrd_t \<Rightarrow> bool \<Rightarrow> string \<Rightarrow> tune_error + rrd_t" where
  "set_windowarg rrd threshold arg =
     (let param = u64 (atoi arg)
      in if param < 1 \<or> 28 < param then Inl Window_length
         else (case find_cf 0 (rra_def rrd) CF_FAILURES of
                 None \<Rightarrow> Inl No_failures_rra
               | Some i \<Rightarrow>
                   let rrd1 = rra_upd rrd i (\<lambda>d. if threshold then d\<lparr>rra_failure_threshold := param\<rparr> else d\<lparr>rra_par4 := param\<rparr>)
                   in Inr (fold (\<lambda>k r. erase_violations r (int i * ds_cnt (stat_head r) + int k) (int i))
                        [0..<nat (ds_cnt (stat_head rrd1))] rrd1)))"

definition set_predict :: "rrd_t \<Rightarrow> rra_par \<Rightarrow> string \<Rightarrow> tune_error + rrd_t" where
  "set_predict rrd par arg =
     (case set_hwarg rrd CF_HWPREDICT par arg of
        Inr r \<Rightarrow> Inr r
      | Inl _ \<Rightarrow> set_hwarg rrd CF_MHWPREDICT par arg)"

definition at_version_4 :: "rrd_t \<Rightarrow> rrd_t" where
  "at_version_4 rrd =
     (if atoi (version (stat_head rrd)) < 4 then rrd\<lparr>stat_head := (stat_head rrd)\<lparr>version := ''0004''\<rparr>\<rparr> else rrd)"

definition set_type :: "rrd_t \<Rightarrow> string \<Rightarrow> tune_error + rrd_t" where
  "set_type rrd optarg =
     (case scan_ds_colon optarg of
        None \<Rightarrow> Inl Bad_source_type
      | Some (nam, r) \<Rightarrow>
          (case scan_run 19 is_upper r of
             None \<Rightarrow> Inl Bad_source_type
           | Some (t, _) \<Rightarrow>
               (case find_ds rrd nam of
                  Inl e \<Rightarrow> Inl e
                | Inr i \<Rightarrow>
                    if dst_conv t = None then Inl (No_such_type t)
                    else if dst (ds_def rrd ! i) = t then Inr rrd
                    else Inr ((ds_upd rrd i (\<lambda>d. d\<lparr>dst := t\<rparr>))\<lparr>pdp_prep := (pdp_prep rrd)[i := (pdp_prep rrd ! i)\<lparr>last_ds := ''UNKN''\<rparr>]\<rparr>))))"

definition set_name :: "rrd_t \<Rightarrow> string \<Rightarrow> tune_error + rrd_t" where
  "set_name rrd optarg =
     (case scan_ds_colon optarg of
        None \<Rightarrow> Inl Bad_source_type
      | Some (nam, r) \<Rightarrow>
          (case scan_run 19 is_name_char r of
             None \<Rightarrow> Inl Bad_source_type
           | Some (t, _) \<Rightarrow>
               (case find_ds rrd nam of Inl e \<Rightarrow> Inl e | Inr i \<Rightarrow> Inr (ds_upd rrd i (\<lambda>d. d\<lparr>ds_nam := t\<rparr>)))))"

definition set_limit :: "(dbl \<Rightarrow> ds_def_t \<Rightarrow> ds_def_t) \<Rightarrow> tune_error \<Rightarrow> rrd_t \<Rightarrow> string \<Rightarrow> tune_error + rrd_t" where
  "set_limit g err rrd optarg =
     (case scan_limit err optarg of
        Inl e \<Rightarrow> Inl e
      | Inr (nam, v) \<Rightarrow> (case find_ds rrd nam of Inl e \<Rightarrow> Inl e | Inr i \<Rightarrow> Inr (ds_upd rrd i (g v))))"

definition set_heartbeat :: "rrd_t \<Rightarrow> string \<Rightarrow> tune_error + rrd_t" where
  "set_heartbeat rrd optarg =
     (case scan_ds_colon optarg of
        None \<Rightarrow> Inl Bad_heartbeat
      | Some (nam, r) \<Rightarrow>
          (case scan_ld r of
             None \<Rightarrow> Inl Bad_heartbeat
           | Some hb \<Rightarrow>
               (case find_ds rrd nam of Inl e \<Rightarrow> Inl e | Inr i \<Rightarrow> Inr (ds_upd rrd i (\<lambda>d. d\<lparr>ds_mrhb_cnt := u64 hb\<rparr>)))))"

text \<open>The options that change definitions only, and \<open>t\<close> and \<open>D\<close>: \<open>t\<close> sets the variable \<open>opt_newstep\<close> (below), \<open>D\<close> has been
  handled by the caller.\<close>

definition tune_header :: "char \<Rightarrow> string \<Rightarrow> rrd_t \<Rightarrow> tune_error + rrd_t" where
  "tune_header opt optarg rrd =
     (if opt = CHR ''h'' then set_heartbeat rrd optarg
      else if opt = CHR ''i'' then set_limit (\<lambda>v d. d\<lparr>ds_min_val := v\<rparr>) Bad_minimum rrd optarg
      else if opt = CHR ''a'' then set_limit (\<lambda>v d. d\<lparr>ds_max_val := v\<rparr>) Bad_maximum rrd optarg
      else if opt = CHR ''d'' then set_type rrd optarg
      else if opt = CHR ''r'' then set_name rrd optarg
      else if opt = CHR ''p'' then set_deltaarg rrd Par1 optarg
      else if opt = CHR ''n'' then set_deltaarg rrd Par2 optarg
      else if opt = CHR ''f'' then set_windowarg rrd True optarg
      else if opt = CHR ''w'' then set_windowarg rrd False optarg
      else if opt = CHR ''x'' then set_predict rrd Par1 optarg
      else if opt = CHR ''y'' then set_predict rrd Par2 optarg
      else if opt = CHR ''z'' then set_hwarg rrd CF_SEASONAL Par1 optarg
      else if opt = CHR ''v'' then set_hwarg rrd CF_DEVSEASONAL Par1 optarg
      else if opt = CHR ''t'' \<or> opt = CHR ''D'' then Inr rrd
      else Inl Bad_option)"

text \<open>One option: the error, if any, the database and the file. The version is raised before the argument of \<open>s\<close> and \<open>S\<close> is
  looked at.\<close>

definition tune_option :: "char \<Rightarrow> string \<Rightarrow> rrd_t \<Rightarrow> rrd_file_t \<Rightarrow> tune_error option \<times> rrd_t \<times> rrd_file_t" where
  "tune_option opt optarg rrd f =
     (if opt = CHR ''b''
      then (case scan_run 19 is_name_char optarg of
              None \<Rightarrow> (Some Bad_aberrant_reset, rrd, f)
            | Some (nam, _) \<Rightarrow>
                (case find_ds rrd nam of
                   Inl e \<Rightarrow> (Some e, rrd, f)
                 | Inr i \<Rightarrow> (case reset_aberrant_coefficients rrd f (int i) of
                              (err, rrd', f') \<Rightarrow> (map_option Reset_failed err, rrd', f'))))
      else let rrd1 = (if opt = CHR ''s'' \<or> opt = CHR ''S'' then at_version_4 rrd else rrd)
           in case (if opt = CHR ''s'' then set_hwsmootharg rrd1 CF_SEASONAL Par2 optarg
                    else if opt = CHR ''S'' then set_hwsmootharg rrd1 CF_DEVSEASONAL Par2 optarg
                    else tune_header opt optarg rrd1) of
                Inl e \<Rightarrow> (Some e, rrd1, f)
              | Inr rrd' \<Rightarrow> (None, rrd', f))"

fun tune_options :: "(char \<times> string) list \<Rightarrow> rrd_t \<Rightarrow> rrd_file_t \<Rightarrow> tune_error option \<times> rrd_t \<times> rrd_file_t" where
  "tune_options [] rrd f = (None, rrd, f)"
| "tune_options ((opt, optarg) # opts) rrd f =
     (case tune_option opt optarg rrd f of
        (Some e, rrd', f') \<Rightarrow> (Some e, rrd', f')
      | (None, rrd', f') \<Rightarrow> tune_options opts rrd' f')"

text \<open>The value of \<open>opt_newstep\<close> after the options.\<close>

definition opt_newstep :: "(char \<times> string) list \<Rightarrow> cint" where
  "opt_newstep opts = fold (\<lambda>(opt, optarg) n. if opt = CHR ''t'' then atoi optarg else n) opts (- 1)"

text \<open>The arguments of \<open>handle_modify\<close>: data sources to delete and to add, and changes of archives (index, operation and
  number of rows, or the definition of a new one). \<open>%u\<close> of \<open>sscanf\<close> reads an \<open>unsigned int\<close>.\<close>

datatype rra_mod_op_t =
    Rra_rows cint char int
  | Rra_new string

record modify_args =
  ma_del :: "string list"
  ma_add :: "string list"
  ma_rra :: "rra_mod_op_t list"

datatype modify_error =
    Bad_rra_command
  | Bad_rra_operation char
  | Negative_rra
  | Unparsable_argument string

definition scan_u :: "string \<Rightarrow> (int \<times> string) option" where
  "scan_u s =
     (let t = dropWhile is_space s; neg = (take 1 t = ''-''); u = (if neg \<or> take 1 t = ''+'' then tl t else t);
          ds = takeWhile is_digit u; v = dec_val 0 ds
      in if ds = [] then None
         else Some ((if 2 ^ 64 \<le> v then 2 ^ 64 - 1 else if neg then - v else v) mod 2 ^ 32, drop (length ds) u))"

definition scan_rra_op :: "string \<Rightarrow> (int \<times> char \<times> int) option" where
  "scan_rra_op s =
     (case scan_u s of
        None \<Rightarrow> None
      | Some (idx, r) \<Rightarrow>
          if take 1 r \<noteq> '':'' \<or> tl r = [] then None
          else map_option (\<lambda>(number, _). (idx, hd (tl r), number)) (scan_u (tl (tl r))))"

definition modify_arg :: "string \<Rightarrow> modify_args \<Rightarrow> modify_error + modify_args" where
  "modify_arg a m =
     (if take 4 a = ''DEL:'' \<and> 4 < length a then Inr (m\<lparr>ma_del := ma_del m @ [drop 4 a]\<rparr>)
      else if take 3 a = ''DS:'' \<and> 3 < length a then Inr (m\<lparr>ma_add := ma_add m @ [a]\<rparr>)
      else if take 4 a = ''RRA#'' \<and> 4 < length a
      then (case scan_rra_op (drop 4 a) of
              None \<Rightarrow> Inl Bad_rra_command
            | Some (idx, sign, number) \<Rightarrow>
                if sign \<in> set ''=-+'' then Inr (m\<lparr>ma_rra := ma_rra m @ [Rra_rows (s32 idx) sign number]\<rparr>)
                else Inl (Bad_rra_operation sign))
      else if take 4 a = ''RRA:'' \<and> 4 < length a then Inr (m\<lparr>ma_rra := ma_rra m @ [Rra_new a]\<rparr>)
      else if take 7 a = ''DELRRA:'' \<and> 7 < length a
      then (let idx = atoi (drop 7 a)
            in if idx < 0 then Inl Negative_rra else Inr (m\<lparr>ma_rra := ma_rra m @ [Rra_rows idx (CHR ''='') 0]\<rparr>))
      else Inl (Unparsable_argument a))"

fun modify_loop :: "string list \<Rightarrow> modify_args \<Rightarrow> modify_error + modify_args" where
  "modify_loop [] m = Inr m"
| "modify_loop (a # as) m = (case modify_arg a m of Inl e \<Rightarrow> Inl e | Inr m' \<Rightarrow> modify_loop as m')"

text \<open>\<open>Some\<close>: what \<open>rrd_modify_r2\<close> is called with.\<close>

definition handle_modify :: "string list \<Rightarrow> cint \<Rightarrow> modify_error + (modify_args \<times> cint) option" where
  "handle_modify args newstep =
     (case modify_loop args \<lparr>ma_del = [], ma_add = [], ma_rra = []\<rparr> of
        Inl e \<Rightarrow> Inl e
      | Inr m \<Rightarrow> Inr (if ma_del m \<noteq> [] \<or> ma_add m \<noteq> [] \<or> ma_rra m \<noteq> [] then Some (m, newstep) else None))"

text \<open>The result of \<open>handle_modify\<close> does not reach the caller of \<open>rrd_tune_r\<close>; an error of it is in the error slot.\<close>

definition rrd_tune_r ::
  "(char \<times> string) list \<Rightarrow> string list \<Rightarrow> rrd_t \<Rightarrow> rrd_file_t
   \<Rightarrow> tune_error option \<times> rrd_t \<times> rrd_file_t \<times> (modify_error + (modify_args \<times> cint) option)" where
  "rrd_tune_r opts args rrd f =
     (case tune_options opts rrd f of
        (Some e, rrd', f') \<Rightarrow> (Some e, rrd', f', Inr None)
      | (None, rrd', f') \<Rightarrow> (None, rrd', f', handle_modify args (opt_newstep opts)))"

text \<open>Whether the database is put together again.\<close>

definition rebuilds :: "modify_error + (modify_args \<times> cint) option \<Rightarrow> bool" where
  "rebuilds m = (case m of Inr (Some _) \<Rightarrow> True | _ \<Rightarrow> False)"

section \<open>What tuning keeps\<close>

definition tuned_shape :: "rrd_t \<Rightarrow> rrd_t \<Rightarrow> bool" where
  "tuned_shape a b \<longleftrightarrow>
     nds b = nds a \<and> map row_cnt (rra_def b) = map row_cnt (rra_def a) \<and> map pdp_cnt (rra_def b) = map pdp_cnt (rra_def a) \<and>
     map cf_nam (rra_def b) = map cf_nam (rra_def a) \<and> ds_cnt (stat_head b) = ds_cnt (stat_head a) \<and> rra_cnt (stat_head b) = rra_cnt (stat_head a) \<and>
     pdp_step (stat_head b) = pdp_step (stat_head a) \<and> live_head b = live_head a \<and> rra_ptr b = rra_ptr a \<and>
     length (pdp_prep b) = length (pdp_prep a) \<and> length (cdp_prep b) = length (cdp_prep a)"

named_theorems shape

lemma tuned_shape_refl [shape]: "tuned_shape a a"
  by (simp add: tuned_shape_def)

lemma tuned_shape_trans: "tuned_shape a b \<Longrightarrow> tuned_shape b c \<Longrightarrow> tuned_shape a c"
  by (simp add: tuned_shape_def)

lemma tuned_shape_rra:
  assumes "tuned_shape a b"
  shows "nrra b = nrra a" "i < nrra a \<Longrightarrow> row_cnt (rra_def b ! i) = row_cnt (rra_def a ! i)"
    "i < nrra a \<Longrightarrow> pdp_cnt (rra_def b ! i) = pdp_cnt (rra_def a ! i)"
    "i < nrra a \<Longrightarrow> cf_nam (rra_def b ! i) = cf_nam (rra_def a ! i)"
proof -
  have m: "map row_cnt (rra_def b) = map row_cnt (rra_def a)" "map pdp_cnt (rra_def b) = map pdp_cnt (rra_def a)"
    "map cf_nam (rra_def b) = map cf_nam (rra_def a)"
    using assms by (simp_all add: tuned_shape_def)
  show l: "nrra b = nrra a" using arg_cong [OF m(1), of length] by simp
  show "i < nrra a \<Longrightarrow> row_cnt (rra_def b ! i) = row_cnt (rra_def a ! i)"
    "i < nrra a \<Longrightarrow> pdp_cnt (rra_def b ! i) = pdp_cnt (rra_def a ! i)"
    "i < nrra a \<Longrightarrow> cf_nam (rra_def b ! i) = cf_nam (rra_def a ! i)" using m l nth_map by metis+
qed

lemma tuned_shape_wf: "tuned_shape a b \<Longrightarrow> rrd_wf a \<Longrightarrow> rrd_wf b"
  using tuned_shape_rra [of a b] by (simp add: tuned_shape_def rrd_wf_def rra_ok_def)

lemma tuned_shape_fits: "tuned_shape a b \<Longrightarrow> file_fits a f \<Longrightarrow> length (file_vals g) = length (file_vals f) \<Longrightarrow> file_fits b g"
  using tuned_shape_rra [of a b] by (simp add: file_fits_def rra_base_def tuned_shape_def)

lemma ds_upd_shape [shape]: "tuned_shape rrd (ds_upd rrd i g)"
  by (simp add: tuned_shape_def ds_upd_def)

lemma map_rra_upd: "(\<And>d. h (g d) = h d) \<Longrightarrow> map h (rra_def (rra_upd rrd i g)) = map h (rra_def rrd)"
  by (cases "i < nrra rrd") (simp_all add: rra_upd_def map_update list_update_same_conv list_update_beyond)

lemma rra_upd_shape:
  assumes "\<And>d. row_cnt (g d) = row_cnt d" "\<And>d. pdp_cnt (g d) = pdp_cnt d" "\<And>d. cf_nam (g d) = cf_nam d"
  shows "tuned_shape rrd (rra_upd rrd i g)"
proof -
  have "length (rra_def (rra_upd rrd i g)) = nrra rrd" by (simp add: rra_upd_def)
  then show ?thesis using map_rra_upd [of row_cnt g] map_rra_upd [of pdp_cnt g] map_rra_upd [of cf_nam g] assms
    by (simp add: tuned_shape_def) (simp add: rra_upd_def)
qed

lemma set_par_shape [shape]: "tuned_shape rrd (rra_upd rrd i (set_par par v))"
  by (rule rra_upd_shape) (simp_all add: set_par_def split: rra_par.split)

lemma cdp_only_shape: "cdp_only a b \<Longrightarrow> tuned_shape a b"
proof -
  assume c: "cdp_only a b"
  then have "length (cdp_prep b) = length (cdp_prep a)" unfolding cdp_only_def by blast
  then show ?thesis using cdp_only_fields [OF c] by (simp add: tuned_shape_def)
qed

lemma hwarg_shape [shape]:
  "set_hwarg rrd cf par arg = Inr r \<Longrightarrow> tuned_shape rrd r" "set_hwsmootharg rrd cf par arg = Inr r \<Longrightarrow> tuned_shape rrd r"
  "set_deltaarg rrd par arg = Inr r \<Longrightarrow> tuned_shape rrd r"
  by (auto simp: set_hwarg_def set_hwsmootharg_def set_deltaarg_def intro: set_par_shape split: prod.splits if_splits option.splits)

lemma erase_fold_shape: "tuned_shape rrd (fold (\<lambda>k r. erase_violations r (c r k) i) ks rrd)"
proof (induction ks arbitrary: rrd)
  case (Cons k ks)
  have "tuned_shape rrd (erase_violations rrd (c rrd k) i)" by (rule cdp_only_shape) simp
  then show ?case using tuned_shape_trans Cons by fastforce
qed (simp add: shape)

lemma windowarg_shape [shape]:
  assumes "set_windowarg rrd threshold arg = Inr r"
  shows "tuned_shape rrd r"
proof -
  define g where "g = (\<lambda>d :: rra_def_t. if threshold then d\<lparr>rra_failure_threshold := u64 (atoi arg)\<rparr> else d\<lparr>rra_par4 := u64 (atoi arg)\<rparr>)"
  obtain i where i: "find_cf 0 (rra_def rrd) CF_FAILURES = Some i"
    using assms by (cases "find_cf 0 (rra_def rrd) CF_FAILURES") (simp_all add: set_windowarg_def Let_def split: if_splits)
  have "r = fold (\<lambda>k r. erase_violations r (int i * ds_cnt (stat_head r) + int k) (int i))
      [0..<nat (ds_cnt (stat_head (rra_upd rrd i g)))] (rra_upd rrd i g)"
    using assms unfolding set_windowarg_def g_def Let_def i option.case
    by (cases "u64 (atoi arg) < 1 \<or> 28 < u64 (atoi arg)") (simp_all only: if_True if_False sum.inject sum.distinct)
  moreover have "tuned_shape rrd (rra_upd rrd i g)" by (rule rra_upd_shape) (simp_all add: g_def)
  ultimately show ?thesis
    using tuned_shape_trans [OF _ erase_fold_shape [where c = "\<lambda>r k. int i * ds_cnt (stat_head r) + int k"]] by simp
qed

lemma predict_shape [shape]: "set_predict rrd par arg = Inr r \<Longrightarrow> tuned_shape rrd r"
  by (auto simp: set_predict_def dest: hwarg_shape split: sum.splits)

lemma source_shape [shape]:
  "set_heartbeat rrd arg = Inr r \<Longrightarrow> tuned_shape rrd r" "set_limit g err rrd arg = Inr r \<Longrightarrow> tuned_shape rrd r"
  "set_name rrd arg = Inr r \<Longrightarrow> tuned_shape rrd r"
  by (auto simp: set_heartbeat_def set_limit_def set_name_def intro: ds_upd_shape split: option.splits prod.splits sum.splits)

lemma type_shape [shape]: "set_type rrd arg = Inr r \<Longrightarrow> tuned_shape rrd r"
  by (auto simp: set_type_def tuned_shape_def ds_upd_def split: option.splits prod.splits sum.splits if_splits)

lemma version_shape [shape]: "tuned_shape rrd (at_version_4 rrd)"
  by (simp add: tuned_shape_def at_version_4_def)

lemma header_shape: "tune_header opt arg rrd = Inr r \<Longrightarrow> tuned_shape rrd r"
  unfolding tune_header_def
  by (auto dest: hwarg_shape windowarg_shape predict_shape source_shape type_shape simp: tuned_shape_refl split: if_splits)

text \<open>Resetting the aberrant coefficients.\<close>

lemma rrd_write_keeps: "rrd_write f v = (ok, f') \<Longrightarrow> file_keeps f f'"
  by (auto simp: rrd_write_def file_keeps_def split: if_splits)

lemma reset_rows_keeps: "reset_rows n c f = (ok, f') \<Longrightarrow> file_keeps f f'"
proof (induction n c f arbitrary: ok f' rule: reset_rows.induct)
  case (2 n c f)
  obtain b g where w: "rrd_write f NaN = (b, g)" by (cases "rrd_write f NaN")
  show ?case
  proof (cases b)
    case True
    then have "reset_rows n c (rrd_seek_cur g ((c - 1) * 8)) = (ok, f')" using 2(2) w by simp
    from 2(1) [OF w [symmetric] _ this] True rrd_write_keeps [OF w] show ?thesis by (simp add: file_keeps_def rrd_seek_cur_def)
  qed (use 2 w rrd_write_keeps [OF w] in auto)
qed (simp add: file_keeps_def)

lemma reset_rra_keeps: "reset_rra rrd f st ds i = (e, rrd', f') \<Longrightarrow> cdp_only rrd rrd' \<and> file_keeps f f'"
proof -
  assume r: "reset_rra rrd f st ds i = (e, rrd', f')"
  obtain ok g where w: "reset_rows (nat (row_cnt (rra_at rrd i))) (ds_cnt (stat_head rrd)) (rrd_seek f (st + ds * 8)) = (ok, g)" by fastforce
  have "file_keeps f g" using reset_rows_keeps [OF w] by (simp add: file_keeps_def rrd_seek_def)
  then show ?thesis using r w by (auto simp: reset_rra_def Let_def file_keeps_def split: option.splits cf_en.splits if_splits)
qed

lemma reset_loop_keeps: "reset_loop n i st ds err rrd f = (e, rrd', f') \<Longrightarrow> tuned_shape rrd rrd' \<and> file_keeps f f'"
proof (induction n arbitrary: i st err rrd f)
  case 0
  then show ?case by (simp add: shape file_keeps_def)
next
  case (Suc n)
  obtain x r1 f1 where r: "reset_rra rrd f st ds i = (x, r1, f1)" by (metis prod_cases3)
  have k: "tuned_shape rrd r1" "file_keeps f f1" using reset_rra_keeps [OF r] cdp_only_shape by blast+
  show ?case
  proof (cases "x = Some Seek_error")
    case True
    then show ?thesis using Suc.prems r k by simp
  next
    case False
    then have "reset_loop n (i + 1) (st + row_cnt (rra_at rrd i) * ds_cnt (stat_head rrd) * 8) ds (if x = None then err else x) r1 f1 = (e, rrd', f')"
      using Suc.prems r by (cases x) (auto split: rrd_error.splits)
    from Suc.IH [OF this] k show ?thesis using tuned_shape_trans by (auto simp: file_keeps_def)
  qed
qed

lemma tune_option_keeps: "tune_option opt arg rrd f = (e, rrd', f') \<Longrightarrow> tuned_shape rrd rrd' \<and> file_keeps f f'"
proof -
  assume t: "tune_option opt arg rrd f = (e, rrd', f')"
  define rrd1 where "rrd1 = (if opt = CHR ''s'' \<or> opt = CHR ''S'' then at_version_4 rrd else rrd)"
  have s1: "tuned_shape rrd rrd1" by (simp add: rrd1_def shape)
  show ?thesis
  proof (cases "opt = CHR ''b''")
    case True
    then show ?thesis using t reset_loop_keeps
      by (fastforce simp: tune_option_def reset_aberrant_coefficients_def Let_def file_keeps_def intro: shape
          split: option.splits prod.splits sum.splits)
  next
    case False
    define x where "x = (if opt = CHR ''s'' then set_hwsmootharg rrd1 CF_SEASONAL Par2 arg
      else if opt = CHR ''S'' then set_hwsmootharg rrd1 CF_DEVSEASONAL Par2 arg else tune_header opt arg rrd1)"
    have x: "tuned_shape rrd1 r" if "x = Inr r" for r
      using that hwarg_shape(2) header_shape by (auto simp: x_def split: if_splits)
    have "(case x of Inl e \<Rightarrow> (Some e, rrd1, f) | Inr rrd' \<Rightarrow> (None, rrd', f)) = (e, rrd', f')"
      using t False unfolding tune_option_def x_def rrd1_def Let_def by simp
    then show ?thesis using s1 x tuned_shape_trans by (auto simp: file_keeps_def split: sum.splits)
  qed
qed

lemma tune_options_keeps: "tune_options opts rrd f = (e, rrd', f') \<Longrightarrow> tuned_shape rrd rrd' \<and> file_keeps f f'"
proof (induction opts arbitrary: rrd f)
  case Nil
  then show ?case by (simp add: shape file_keeps_def)
next
  case (Cons x opts)
  obtain opt arg where x: "x = (opt, arg)" by (cases x)
  obtain e1 r1 f1 where t: "tune_option opt arg rrd f = (e1, r1, f1)" by (metis prod_cases3)
  have k: "tuned_shape rrd r1" "file_keeps f f1" using tune_option_keeps [OF t] by blast+
  show ?case
  proof (cases e1)
    case None
    then have "tune_options opts r1 f1 = (e, rrd', f')" using Cons.prems t x by simp
    from Cons.IH [OF this] k show ?thesis using tuned_shape_trans by (auto simp: file_keeps_def)
  next
    case (Some y)
    then show ?thesis using Cons.prems t x k by simp
  qed
qed

text \<open>From version 3 on the size of the header does not depend on the version.\<close>

definition tuned_version :: "rrd_t \<Rightarrow> rrd_t \<Rightarrow> bool" where
  "tuned_version a b \<longleftrightarrow> version (stat_head b) = version (stat_head a) \<or> version (stat_head b) = ''0004''"

lemma tuned_version_refl: "stat_head b = stat_head a \<Longrightarrow> tuned_version a b"
  by (simp add: tuned_version_def)

lemma upd_head [simp]: "stat_head (ds_upd rrd i g) = stat_head rrd" "stat_head (rra_upd rrd i h) = stat_head rrd"
  by (simp_all add: ds_upd_def rra_upd_def)

lemma erase_fold_head: "stat_head (fold (\<lambda>k r. erase_violations r (c r k) i) ks rrd) = stat_head rrd"
  by (induction ks arbitrary: rrd) (simp_all add: cdp_only_fields(1) [OF erase_violations_cdp_only])

lemma hwarg_head:
  "set_hwarg rrd cf par arg = Inr r \<Longrightarrow> stat_head r = stat_head rrd" "set_hwsmootharg rrd cf par arg = Inr r \<Longrightarrow> stat_head r = stat_head rrd"
  "set_deltaarg rrd par arg = Inr r \<Longrightarrow> stat_head r = stat_head rrd"
  by (auto simp: set_hwarg_def set_hwsmootharg_def set_deltaarg_def split: prod.splits if_splits option.splits)

lemma windowarg_head: "set_windowarg rrd threshold arg = Inr r \<Longrightarrow> stat_head r = stat_head rrd"
  by (auto simp: set_windowarg_def Let_def erase_fold_head split: if_splits option.splits)

lemma predict_head: "set_predict rrd par arg = Inr r \<Longrightarrow> stat_head r = stat_head rrd"
  by (auto simp: set_predict_def dest: hwarg_head split: sum.splits)

lemma source_head:
  "set_heartbeat rrd arg = Inr r \<Longrightarrow> stat_head r = stat_head rrd" "set_limit g err rrd arg = Inr r \<Longrightarrow> stat_head r = stat_head rrd"
  "set_name rrd arg = Inr r \<Longrightarrow> stat_head r = stat_head rrd" "set_type rrd arg = Inr r \<Longrightarrow> stat_head r = stat_head rrd"
  by (auto simp: set_heartbeat_def set_limit_def set_name_def set_type_def split: option.splits prod.splits sum.splits if_splits)

lemma header_head: "tune_header opt arg rrd = Inr r \<Longrightarrow> stat_head r = stat_head rrd"
  unfolding tune_header_def by (auto dest: hwarg_head windowarg_head predict_head source_head split: if_splits)

lemma reset_loop_head: "reset_loop n i st ds err rrd f = (e, rrd', f') \<Longrightarrow> stat_head rrd' = stat_head rrd"
proof (induction n arbitrary: i st err rrd f)
  case (Suc n)
  obtain x r1 f1 where r: "reset_rra rrd f st ds i = (x, r1, f1)" by (metis prod_cases3)
  have k: "stat_head r1 = stat_head rrd" using reset_rra_keeps [OF r] cdp_only_fields(1) by blast
  show ?case using Suc.prems r k by (cases x) (auto split: rrd_error.splits dest: Suc.IH)
qed simp

lemma tune_option_version: "tune_option opt arg rrd f = (e, rrd', f') \<Longrightarrow> tuned_version rrd rrd'"
proof -
  assume t: "tune_option opt arg rrd f = (e, rrd', f')"
  define rrd1 where "rrd1 = (if opt = CHR ''s'' \<or> opt = CHR ''S'' then at_version_4 rrd else rrd)"
  have v1: "tuned_version rrd rrd1" by (simp add: rrd1_def tuned_version_def at_version_4_def)
  show ?thesis
  proof (cases "opt = CHR ''b''")
    case True
    then have "stat_head rrd' = stat_head rrd" using t reset_loop_head
      by (fastforce simp: tune_option_def reset_aberrant_coefficients_def Let_def split: option.splits prod.splits sum.splits)
    then show ?thesis by (rule tuned_version_refl)
  next
    case False
    define x where "x = (if opt = CHR ''s'' then set_hwsmootharg rrd1 CF_SEASONAL Par2 arg
      else if opt = CHR ''S'' then set_hwsmootharg rrd1 CF_DEVSEASONAL Par2 arg else tune_header opt arg rrd1)"
    have x: "stat_head r = stat_head rrd1" if "x = Inr r" for r
      using that hwarg_head(2) header_head by (auto simp: x_def split: if_splits)
    have "(case x of Inl e \<Rightarrow> (Some e, rrd1, f) | Inr rrd' \<Rightarrow> (None, rrd', f)) = (e, rrd', f')"
      using t False unfolding tune_option_def x_def rrd1_def Let_def by simp
    then have "stat_head rrd' = stat_head rrd1" using x by (auto split: sum.splits)
    then show ?thesis using v1 by (simp add: tuned_version_def)
  qed
qed

lemma tune_options_version: "tune_options opts rrd f = (e, rrd', f') \<Longrightarrow> tuned_version rrd rrd'"
proof (induction opts arbitrary: rrd f)
  case (Cons x opts)
  obtain opt arg where x: "x = (opt, arg)" by (cases x)
  obtain e1 r1 f1 where t: "tune_option opt arg rrd f = (e1, r1, f1)" by (metis prod_cases3)
  have k: "tuned_version rrd r1" by (rule tune_option_version [OF t])
  show ?case
  proof (cases e1)
    case None
    then have "tune_options opts r1 f1 = (e, rrd', f')" using Cons.prems t x by simp
    from Cons.IH [OF this] k show ?thesis by (auto simp: tuned_version_def)
  next
    case (Some y)
    then show ?thesis using Cons.prems t x k by simp
  qed
qed (simp add: tuned_version_def)

lemma tune_version_3: "tune_options opts rrd f = (e, rrd', f') \<Longrightarrow> 3 \<le> version_num rrd \<Longrightarrow> 3 \<le> version_num rrd'"
proof -
  assume t: "tune_options opts rrd f = (e, rrd', f')" "3 \<le> version_num rrd"
  have four: "3 \<le> atoi ''0004''" by code_simp
  show ?thesis using tune_options_version [OF t(1)] t(2) four unfolding tuned_version_def version_num_def by metis
qed

lemma tune_header_size:
  assumes "tune_options opts rrd f = (e, rrd', f')" "3 \<le> version_num rrd"
  shows "rrd_get_header_size rrd' = rrd_get_header_size rrd"
  using tune_options_keeps [OF assms(1)] tune_version_3 [OF assms] assms(2) by (simp add: rrd_get_header_size_def Let_def tuned_shape_def)

section \<open>Fetching after tuning\<close>

lemma tuned_shape_row:
  assumes s: "tuned_shape a b" and ch: "ch < nrra a"
  shows "row_of_time b f ch u = row_of_time a f ch u"
proof -
  note r = tuned_shape_rra [OF s]
  have h: "nds b = nds a" "rra_ptr b = rra_ptr a" "live_head b = live_head a" "pdp_step (stat_head b) = pdp_step (stat_head a)"
    using s by (simp_all add: tuned_shape_def)
  have "rra_base b ch = rra_base a ch" using r(2) ch by (simp add: rra_base_def h(1))
  then have v: "row_vals b f ch k = row_vals a f ch k" for k by (simp add: row_vals_def cell_of_def h(1))
  have st: "rra_step b (rra_def b ! ch) = rra_step a (rra_def a ! ch)" by (simp add: rra_step_def h(4) r(3) [OF ch])
  then have "cal_end b (rra_def b ! ch) = cal_end a (rra_def a ! ch)" by (simp add: cal_end_def h(3))
  moreover have "rows_of b ch = rows_of a ch" by (simp add: rows_of_def r(2) [OF ch])
  ultimately show ?thesis by (simp add: row_of_time_def ring_row_def st v h(1,2))
qed

lemma tuned_shape_chosen:
  assumes s: "tuned_shape a b" and wf: "rrd_wf a"
  shows "chosen_rra b cf start stop step = chosen_rra a cf start stop step"
proof -
  note r = tuned_shape_rra [OF s]
  have h: "live_head b = live_head a" "pdp_step (stat_head b) = pdp_step (stat_head a)" "rra_cnt (stat_head b) = rra_cnt (stat_head a)"
    using s by (simp_all add: tuned_shape_def)
  have "consider_rra b cf start stop step i = consider_rra a cf start stop step i" if i: "i < nrra a" for i
  proof -
    have c: "cal_start b (rra_def b ! i) = cal_start a (rra_def a ! i)"
      by (simp add: cal_start_def cal_end_def rra_step_def h r(2,3) [OF i])
    have m: "rra_matches cf (rra_def b ! i) = rra_matches cf (rra_def a ! i)" by (simp add: rra_matches_def r(3,4) [OF i])
    show ?thesis by (rule ext) (simp add: consider_rra_def part_match_def step_diff_def Let_def c m h(2) r(3) [OF i])
  qed
  moreover have "nat (rra_cnt (stat_head a)) = nrra a" using rrd_wfD(2) [OF wf] by simp
  ultimately have "fold (consider_rra b cf start stop step) [0..<nat (rra_cnt (stat_head b))] no_match =
      fold (consider_rra a cf start stop step) [0..<nat (rra_cnt (stat_head a))] no_match"
    unfolding h(3) by (intro fold_cong) simp_all
  then show ?thesis by (simp add: chosen_rra_def)
qed

lemma tune_option_file: "opt \<noteq> CHR ''b'' \<Longrightarrow> tune_option opt arg rrd f = (e, rrd', f') \<Longrightarrow> f' = f"
  by (simp add: tune_option_def Let_def split: sum.splits)

lemma tune_options_file:
  assumes "list_all (\<lambda>x. fst x \<noteq> CHR ''b'') opts" and "tune_options opts rrd f = (e, rrd', f')"
  shows "f' = f"
  using assms
proof (induction opts arbitrary: rrd f)
  case (Cons x opts)
  obtain e1 r1 f1 where t: "tune_option (fst x) (snd x) rrd f = (e1, r1, f1)" by (metis prod_cases3)
  have "f1 = f" using tune_option_file [OF _ t] Cons.prems(1) by simp
  then show ?case using Cons.prems t Cons.IH [of r1 f] by (cases x; cases e1) auto
qed simp

lemma rrd_tune_r_options:
  "rrd_tune_r opts args rrd f = (e, rrd', f', m) \<Longrightarrow> tune_options opts rrd f = (e, rrd', f')"
  by (auto simp: rrd_tune_r_def split: prod.splits option.splits)



text \<open>\<open>--step\<close> alone does nothing, although the manual says that it changes the step.\<close>

lemma step_alone_ignored: "rrd_tune_r [(CHR ''t'', n)] [] rrd f = (None, rrd, f, Inr None)"
  by (simp add: rrd_tune_r_def tune_option_def tune_header_def handle_modify_def)

text \<open>A part of an option that is not checked. An argument of \<open>--deltapos\<close> that is no number sets the parameter to zero,
  since the value to which \<open>rrd_strtodbl\<close> is compared is that of a number followed by other characters.\<close>

lemma delta_not_a_number:
  assumes "rrd_strtodbl arg = (0, v, rest)" and "find_cf 0 (rra_def rrd) CF_FAILURES = Some i"
  shows "set_deltaarg rrd par arg = Inr (rra_upd rrd i (set_par par v))"
  using assms by (simp add: set_deltaarg_def)

lemma delta_not_a_number_abc: "fst (rrd_strtodbl ''abc'') = 0 \<and> fst (snd (rrd_strtodbl ''abc'')) = 0"
  by code_simp

lemma nan_is_a_parameter:
  assumes "find_cf 0 (rra_def rrd) cf = Some i"
  shows "set_hwarg rrd cf par ''nan'' = Inr (rra_upd rrd i (set_par par NaN))"
proof -
  have p: "case rrd_strtodbl ''nan'' of (rc, v, _) \<Rightarrow> rc = 2 \<and> v = NaN" by code_simp
  have n: "\<not> NaN \<le> (0 :: dbl)" "\<not> (1 :: dbl) \<le> NaN" by code_simp+
  show ?thesis using p n assms by (auto simp: set_hwarg_def split: prod.splits)
qed

text \<open>Renaming a data source does not look at the names of the others.\<close>

lemma rename_duplicates:
  "case tune_options [(CHR ''r'', ''temp:in'')] sample_rrd sample_file of (e, rrd, f) \<Rightarrow>
     e = None \<and> map ds_nam (ds_def rrd) = [''in'', ''in'']"
  by code_simp

text \<open>Raising the version of a file from before version 3 changes the size of its header, which stays as it was in the file.\<close>

lemma version_raised:
  "version_num rrd < 3 \<Longrightarrow> rrd_get_header_size (at_version_4 rrd) = rrd_get_header_size rrd + 8"
proof -
  assume v: "version_num rrd < 3"
  have "\<not> version_num (at_version_4 rrd) < 3"
  proof -
    have "\<not> atoi ''0004'' < 3" by code_simp
    then show ?thesis using v unfolding version_num_def at_version_4_def by simp
  qed
  then show ?thesis using v by (simp add: rrd_get_header_size_def at_version_4_def Let_def)
qed

end
