(* ===== verification/Rrd_Lifecycle.thy ===== *)
theory Rrd_Lifecycle
  imports Rrd_Prefill Rrd_Fetch Rrd_Update_Keeps Rrd_Tune
begin

text \<open>
  The life of a database, across the components: it is created, possibly from a template that is a
  database itself, and then updated, resized and tuned any number of times, by calls that succeed or
  fail. Every database that comes about in this way is well-formed and its file fits its header, which
  is what updates and fetches rely on.
\<close>

section \<open>Databases\<close>

text \<open>The limits are those of \<open>rrd_wf\<close>: the arithmetic of an update does not overflow within them. Calls of
  \<open>rrd_tune\<close> that put the database together again (\<open>rebuilds\<close>) are left out, since that is not modelled.\<close>

definition within_limits :: "ulong \<Rightarrow> rrd_t \<Rightarrow> bool" where
  "within_limits pstep rrd \<longleftrightarrow> 0 \<le> pstep \<and> pstep < 2 ^ 31 \<and>
     list_all (\<lambda>r. row_cnt r < 2 ^ 62 \<and> pdp_cnt r < 2 ^ 31) (rra_def rrd)"

inductive database :: "rrd_t \<Rightarrow> rrd_file_t \<Rightarrow> bool" where
  created:
    "rrd_create_r2 env qs junk fs filename pstep lastup no_overwrite argv = Inr (rrd, f) \<Longrightarrow>
     within_limits pstep rrd \<Longrightarrow>
     \<forall>t. fs_template fs = Some (Some t) \<longrightarrow> (\<exists>g. database t g) \<Longrightarrow>
     database rrd f"
| updated:
    "database rrd f \<Longrightarrow>
     rrd_updatex env te mem rrd f tmplt skip args summary = (ret, s) \<Longrightarrow>
     database (u_rrd s) (u_file s)"
| resized:
    "database rrd f \<Longrightarrow>
     rrd_resize argv rrd f = Inr (rrd', f') \<Longrightarrow>
     list_all (\<lambda>r. row_cnt r + strtol0 (argv ! 4) < 2 ^ 62) (rra_def rrd) \<Longrightarrow>
     database rrd' f'"
| tuned:
    "database rrd f \<Longrightarrow>
     rrd_tune_r opts args rrd f = (e, rrd', f', m) \<Longrightarrow>
     \<not> rebuilds m \<Longrightarrow>
     database rrd' f'"

definition db_ok :: "rrd_t \<Rightarrow> rrd_file_t \<Rightarrow> bool" where
  "db_ok rrd f \<longleftrightarrow> rrd_wf rrd \<and> file_fits rrd f \<and> header_len f = rrd_get_header_size rrd \<and>
     ds_def rrd \<noteq> [] \<and> rra_def rrd \<noteq> [] \<and> 3 \<le> version_num rrd"

lemma total_rows_base: "total_rows (rra_def rrd) * nds rrd = rra_base rrd (nrra rrd)"
  by (simp add: total_rows_def rra_base_def sum_distrib_right sum_list_sum_nth atLeast0LessThan)

lemma write_version_3: "3 \<le> version_num (write_version rrd)"
proof -
  have "3 \<le> atoi ''0003''" by code_simp
  then show ?thesis by (simp add: write_version_def version_num_def)
qed

lemma create_version:
  assumes "rrd_create_r2 env qs junk fs filename pstep lastup no_overwrite argv = Inr (rrd, f)"
  shows "3 \<le> version_num rrd"
proof -
  have "\<exists>r. rrd = write_version r"
    using assms by (auto simp: rrd_create_r2_def Let_def tbind_Inr split: if_split_asm option.splits prod.splits)
  then show ?thesis using write_version_3 by blast
qed

lemma created_ok:
  assumes "rrd_create_r2 env qs junk fs filename pstep lastup no_overwrite argv = Inr (rrd, f)"
    and "within_limits pstep rrd"
    and "\<And>t. fs_template fs = Some (Some t) \<Longrightarrow> \<exists>g. db_ok t g"
  shows "db_ok rrd f" and "fs_sources fs = None \<Longrightarrow> set (file_vals f) \<subseteq> {NaN}"
  using create_wf [OF assms(1)] create_version [OF assms(1)] assms(2,3) total_rows_base [of rrd]
  by (fastforce simp: db_ok_def within_limits_def list_all_iff file_fits_def)+

lemma layout_header: "same_layout a b \<Longrightarrow> rrd_get_header_size b = rrd_get_header_size a"
  by (simp add: same_layout_def rrd_get_header_size_def version_num_def)

lemma layout_base: "same_layout a b \<Longrightarrow> rra_base b i = rra_base a i"
  by (simp add: same_layout_def rra_base_def)

lemma updated_ok:
  assumes "db_ok rrd f" and "rrd_updatex env te mem rrd f tmplt skip args summary = (ret, s)"
  shows "db_ok (u_rrd s) (u_file s)"
proof -
  have wf: "rrd_wf rrd" using assms(1) by (simp add: db_ok_def)
  note k = rrd_updatex_sized [OF wf assms(2)]
  then have l: "same_layout rrd (u_rrd s)" by (simp add: sized_def)
  show ?thesis
    using assms(1) k sized_wf [OF wf] layout_header [OF l] layout_base [OF l] l
    by (auto simp: db_ok_def file_fits_def file_keeps_def same_layout_def version_num_def)
qed

lemma resize_rra_ok:
  assumes "db_ok rrd f" and "rrd_resize argv rrd f = Inr (rrd', f')"
    and "list_all (\<lambda>r. row_cnt r + strtol0 (argv ! 4) < 2 ^ 62) (rra_def rrd)"
  shows "db_ok rrd' f'"
proof -
  define t where "t = nat (u64 (strtol0 (argv ! 2)))"
  define m where "m = nat (strtol0 (argv ! 4))"
  have wf: "rrd_wf rrd" "file_fits rrd f" "3 \<le> version_num rrd" using assms(1) by (simp_all add: db_ok_def)
  have m: "0 < m" "int m = strtol0 (argv ! 4)"
    and db: "resize_db (u64 (strtol0 (argv ! 2))) (if argv ! 3 = ''SHRINK'' then - strtol0 (argv ! 4) else strtol0 (argv ! 4)) rrd f = Inr (rrd', f')"
    using assms(2) by (auto simp: rrd_resize_def m_def Let_def split: if_splits)
  have t: "int t = u64 (strtol0 (argv ! 2))" by (simp add: t_def u64_def)
  have "u64 (strtol0 (argv ! 2)) < rra_cnt (stat_head rrd)" using db by (auto simp: resize_db_def split: if_splits)
  then have tn: "t < nrra rrd" using rrd_wfD(2) [OF wf(1)] t by simp
  have "row_cnt (rra_def rrd ! t) + int m < 2 ^ 62" using assms(3) tn m(2) by (simp add: list_all_length)
  then have r: "resized rrd f t (argv ! 3 = ''SHRINK'') m rrd' f'" using wf tn m db t by (simp add: resized_def split: if_splits)
  from resized_ok [OF r] resized_facts(5) [OF r] assms(1) show ?thesis by (auto simp: db_ok_def version_num_def)
qed

lemma tuned_ok:
  assumes "db_ok rrd f" and "rrd_tune_r opts args rrd f = (e, rrd', f', m)"
  shows "db_ok rrd' f'"
proof -
  note t = rrd_tune_r_options [OF assms(2)]
  have k: "tuned_shape rrd rrd'" "file_keeps f f'" using tune_options_keeps [OF t] by blast+
  have v3: "3 \<le> version_num rrd" using assms(1) by (simp add: db_ok_def)
  have v: "rrd_get_header_size rrd' = rrd_get_header_size rrd" by (rule tune_header_size [OF t v3])
  have "nds rrd' = nds rrd" "nrra rrd' = nrra rrd" using k(1) tuned_shape_rra(1) [OF k(1)] by (simp_all add: tuned_shape_def)
  then show ?thesis
    using assms(1) v tune_version_3 [OF t v3] tuned_shape_wf [OF k(1)] tuned_shape_fits [OF k(1), of f f'] k(2) by (auto simp: db_ok_def file_keeps_def)
qed

lemma sample_created:
  "\<exists>rrd f. rrd_create_r2 sample_create sample_qsort sample_pdp sample_fs ''a.rrd'' 300 0 False sample_args = Inr (rrd, f) \<and>
    within_limits 300 rrd"
proof -
  let ?c = "rrd_create_r2 sample_create sample_qsort sample_pdp sample_fs ''a.rrd'' 300 0 False sample_args"
  have "case ?c of Inl e \<Rightarrow> False | Inr (rrd, f) \<Rightarrow> within_limits 300 rrd" by code_simp
  then show ?thesis by (auto split: sum.splits)
qed

text \<open>C1: Every database that is created (within the limits above), possibly from a template, and updated, resized and tuned any number of times, by
  whatever arguments, is well-formed and of version 3 or later, has data sources and archives, and its file has the size its header
  announces. Failing calls are part of its life; calls of \<open>rrd_tune\<close> that rebuild the database are not.\<close>

theorem database_ok: "database rrd f \<Longrightarrow> db_ok rrd f"
proof (induction rule: database.induct)
  case (created env qs junk fs filename pstep lastup no_overwrite argv rrd f)
  show ?case using created(3) by (intro created_ok(1) [OF created(1,2)]) blast
next
  case (updated rrd f env te mem tmplt skip args summary ret s)
  then show ?case by (intro updated_ok)
next
  case (resized rrd f argv rrd' f')
  show ?case by (rule resize_rra_ok [OF resized(4,2,3)])
next
  case (tuned rrd f opts args e rrd' f' m)
  show ?case by (rule tuned_ok [OF tuned(4,2)])
qed

theorem database_ok_witness:
  "\<exists>rrd f rrd1 f1 rrd2 f2.
    rrd_create_r2 sample_create sample_qsort sample_pdp sample_fs ''a.rrd'' 300 0 False sample_args = Inr (rrd, f) \<and>
    rrd_resize [''resize'', ''a.rrd'', ''0'', ''GROW'', ''3''] rrd f = Inr (rrd1, f1) \<and>
    rrd_tune_r [(CHR ''h'', ''in:900''), (CHR ''r'', ''temp:in'')] [] rrd1 f1 = (None, rrd2, f2, Inr None) \<and>
    db_ok (u_rrd (snd (rrd_updatex sample_env sample_time [] rrd2 f2 None False [''N:5:7''] None)))
      (u_file (snd (rrd_updatex sample_env sample_time [] rrd2 f2 None False [''N:5:7''] None)))"
proof -
  let ?c = "rrd_create_r2 sample_create sample_qsort sample_pdp sample_fs ''a.rrd'' 300 0 False sample_args"
  let ?g = "rrd_resize [''resize'', ''a.rrd'', ''0'', ''GROW'', ''3'']" and ?h = "[(CHR ''h'', ''in:900''), (CHR ''r'', ''temp:in'')]"
  obtain rrd f where c: "?c = Inr (rrd, f)" and l: "within_limits 300 rrd" using sample_created by blast
  have d: "database rrd f" by (rule database.created [OF c l]) (simp add: sample_fs_def)
  have "case ?c of Inl e \<Rightarrow> False | Inr (rrd, f) \<Rightarrow>
      list_all (\<lambda>r. row_cnt r + strtol0 ([''resize'', ''a.rrd'', ''0'', ''GROW'', ''3''] ! 4) < 2 ^ 62) (rra_def rrd) \<and>
      (case ?g rrd f of Inl e \<Rightarrow> False | Inr (rrd1, f1) \<Rightarrow>
        (case rrd_tune_r ?h [] rrd1 f1 of (e, rrd2, f2, m) \<Rightarrow> e = None \<and> m = Inr None))"
    by code_simp
  then obtain rrd1 f1 rrd2 f2 where g: "?g rrd f = Inr (rrd1, f1)" "rrd_tune_r ?h [] rrd1 f1 = (None, rrd2, f2, Inr None)"
    and k: "list_all (\<lambda>r. row_cnt r + strtol0 ([''resize'', ''a.rrd'', ''0'', ''GROW'', ''3''] ! 4) < 2 ^ 62) (rra_def rrd)"
    unfolding c by (simp only: sum.case prod.case split: sum.splits prod.splits) blast
  have "database rrd2 f2" by (rule database.tuned [OF database.resized [OF d g(1) k] g(2)]) (simp add: rebuilds_def)
  then have "database (u_rrd (snd (rrd_updatex sample_env sample_time [] rrd2 f2 None False [''N:5:7''] None)))
      (u_file (snd (rrd_updatex sample_env sample_time [] rrd2 f2 None False [''N:5:7''] None)))"
    by (rule database.updated [OF _ prod.collapse [symmetric]])
  from database_ok [OF this] c g show ?thesis by blast
qed

section \<open>A new database\<close>

lemma cell_of_less:
  assumes "i < nrra rrd" "row < rows_of rrd i" "d < nds rrd"
  shows "cell_of rrd i row d < rra_base rrd (nrra rrd)"
proof -
  have "row * nds rrd + d < rows_of rrd i * nds rrd"
    using assms(2,3) by (metis Suc_leI add_less_cancel_left less_le_trans mult.commute mult_Suc_right add.commute mult_le_mono2)
  moreover have "rra_base rrd i + rows_of rrd i * nds rrd \<le> rra_base rrd (nrra rrd)"
    using rra_base_mono [of "Suc i" "nrra rrd" rrd] assms(1) by (simp add: rra_base_Suc)
  ultimately show ?thesis by (simp add: cell_of_def)
qed

lemma fresh_row:
  assumes "set (file_vals f) \<subseteq> {NaN}" "rrd_wf rrd" "file_fits rrd f" "ch < nrra rrd"
  shows "set (ring_row rrd f ch j) \<subseteq> {NaN}"
proof (cases "0 \<le> j \<and> j < int (rows_of rrd ch)")
  case True
  define row where "row = (cur_row rrd ch + 1 + nat j) mod rows_of rrd ch"
  have "row < rows_of rrd ch" using True by (simp add: row_def)
  then have "cell_of rrd ch row d < length (file_vals f)" if "d < nds rrd" for d
    using that assms(3) cell_of_less [OF assms(4) _ that] by (simp add: file_fits_def)
  then have "file_vals f ! cell_of rrd ch row d = NaN" if "d < nds rrd" for d
    using that assms(1) nth_mem by blast
  then show ?thesis using True by (auto simp: ring_row_def row_vals_def row_def)
qed (auto simp: ring_row_def)

text \<open>C9: A fetch from a newly created database without sources of data gives one row per step of the requested range
  and archive, in which every value is unknown.\<close>

theorem new_database_unknown:
  assumes c: "rrd_create_r2 env qs junk fs filename pstep lastup no_overwrite argv = Inr (rrd, f)"
    and l: "within_limits pstep rrd" and fs: "fs_sources fs = None" "fs_template fs = None"
    and ok: "times_ok rrd" and t: "0 \<le> start" "start \<le> stop" "stop < 2 ^ 61"
    and ch: "chosen_rra rrd cf start stop step = Inr ch"
  shows "\<exists>r. rrd_fetch_fn rrd f cf start stop step = Inr r \<and> set (f_data r) = {NaN} \<and>
    int (length (f_data r)) = (f_end r - f_start r) div f_step r * int (nds rrd)"
proof -
  have db: "db_ok rrd f" and nan: "set (file_vals f) \<subseteq> {NaN}"
    using created_ok [OF c l] fs by simp_all
  then have wf: "rrd_wf rrd" and fits: "file_fits rrd f" by (simp_all add: db_ok_def)
  define S where "S = pdp_step (stat_head rrd) * pdp_cnt (rra_def rrd ! ch)"
  have chb: "ch < nrra rrd" by (rule chosen_rra_bound [OF wf ch])
  have S: "0 < S" using rra_times(2) [OF wf chb ok S_def refl] .
  note f = rrd_fetch_fn_ring [OF wf ok fits t ch S_def]
  define n where "n = nat (stop div S + 1 - start div S)"
  have n: "0 < n" "int n = stop div S + 1 - start div S"
    using zdiv_mono1 [OF t(2) S] by (simp_all add: n_def)
  have d: "(stop - stop mod S + S - (start - start mod S)) div S = int n"
    using S by (simp add: n minus_mod_eq_div_mult algebra_simps)
  have r: "set (row_of_time rrd f ch u) = {NaN}" for u
  proof -
    have "row_of_time rrd f ch u \<noteq> []"
      using db ring_row_length [of rrd f ch] by (metis db_ok_def length_0_conv row_of_time_def)
    then show ?thesis using fresh_row [OF nan wf fits chb] by (auto simp: row_of_time_def subset_singleton_iff)
  qed
  have "length (concat (map (\<lambda>k. row_of_time rrd f ch (g k)) [0..<m])) = m * nds rrd" for g m
    by (induction m) (simp_all add: row_of_time_def)
  moreover have "set (concat (map (\<lambda>k. row_of_time rrd f ch (g k)) [0..<n])) = {NaN}" for g :: "nat \<Rightarrow> int"
    using n(1) r by auto
  ultimately show ?thesis using f d by (simp add: n_def)
qed

theorem new_database_unknown_witness:
  "\<exists>rrd f r. rrd_create_r2 sample_create sample_qsort sample_pdp sample_fs ''a.rrd'' 300 0 False sample_args = Inr (rrd, f) \<and>
    rrd_fetch_fn rrd f CF_AVERAGE 1199999000 1199999900 300 = Inr r \<and> set (f_data r) = {NaN}"
proof -
  let ?c = "rrd_create_r2 sample_create sample_qsort sample_pdp sample_fs ''a.rrd'' 300 0 False sample_args"
  obtain rrd f where c: "?c = Inr (rrd, f)" and l: "within_limits 300 rrd" using sample_created by blast
  have "case ?c of Inl e \<Rightarrow> False | Inr (rrd, f) \<Rightarrow> times_ok rrd \<and>
      chosen_rra rrd CF_AVERAGE 1199999000 1199999900 300 = Inr 0"
    by code_simp
  then have ok: "times_ok rrd" and ch: "chosen_rra rrd CF_AVERAGE 1199999000 1199999900 300 = Inr 0"
    by (simp_all add: c)
  have "\<exists>r. rrd_fetch_fn rrd f CF_AVERAGE 1199999000 1199999900 300 = Inr r \<and> set (f_data r) = {NaN} \<and>
    int (length (f_data r)) = (f_end r - f_start r) div f_step r * int (nds rrd)"
    by (rule new_database_unknown [OF c l _ _ ok _ _ _ ch]) (simp_all add: sample_fs_def)
  with c show ?thesis by blast
qed

end
