(* ===== verification/Rrd_Cache.thy ===== *)
theory Rrd_Cache
  imports Rrd_Double "HOL-Library.Word"
begin

text \<open>
  The cache of \<open>rrd_daemon.c\<close>: items in memory with the values to be written, the tree that finds the
  item of a file, and the queue of items that are due, a doubly linked list through the items. The
  theory models the operations on the queue on an explicit store of items and shows that they
  implement a queue without duplicates (the locale \<open>work_queue\<close>).
\<close>

section \<open>The store\<close>

text \<open>Pointers are 64 bit words, 0 is \<open>NULL\<close>.\<close>

type_synonym addr = "64 word"
type_synonym conn = nat

text \<open>\<open>cache_item_t\<close>. \<open>values\<close>, \<open>values_num\<close> and \<open>values_alloc\<close> are a list, the bits of \<open>flags\<close> are
  three fields, and \<open>flushed\<close> is the condition variable, the connections that wait for it.\<close>

record cache_item_t =
  ci_file :: string
  ci_values :: "string list"
  last_flush_time :: time_t
  last_update_stamp :: dbl
  in_tree :: bool
  in_queue :: bool
  suspended :: bool
  flushed :: "conn list"
  ci_prev :: addr
  ci_next :: addr

datatype queue_side_t = HEAD | TAIL

datatype daemon_state = RUNNING | FLUSHING | SHUTDOWN

text \<open>The variables of the cache. \<open>items\<close> is the memory that holds items; \<open>aborted\<close> tells that an
  assertion has failed; \<open>awake\<close> collects the connections that a broadcast has woken.\<close>

record cache =
  items :: "addr \<Rightarrow> cache_item_t option"
  cache_tree :: "string \<Rightarrow> addr option"
  cache_queue_head :: addr
  cache_queue_tail :: addr
  state :: daemon_state
  stats_queue_length :: ulong
  aborted :: bool
  awake :: "conn list"

definition zero_item :: cache_item_t where
  "zero_item = \<lparr>ci_file = [], ci_values = [], last_flush_time = 0, last_update_stamp = 0, in_tree = False,
     in_queue = False, suspended = False, flushed = [], ci_prev = 0, ci_next = 0\<rparr>"

definition item :: "cache \<Rightarrow> addr \<Rightarrow> cache_item_t" where
  "item c a = (case items c a of Some i \<Rightarrow> i | None \<Rightarrow> zero_item)"

definition upd :: "addr \<Rightarrow> (cache_item_t \<Rightarrow> cache_item_t) \<Rightarrow> cache \<Rightarrow> cache" where
  "upd a f c = c\<lparr>items := (items c)(a := map_option f (items c a))\<rparr>"

definition assert :: "bool \<Rightarrow> cache \<Rightarrow> cache" where
  "assert b c = (if b then c else c\<lparr>aborted := True\<rparr>)"

definition broadcast :: "addr \<Rightarrow> cache \<Rightarrow> cache" where
  "broadcast a c = upd a (flushed_update (\<lambda>_. [])) (c\<lparr>awake := awake c @ flushed (item c a)\<rparr>)"

section \<open>Operations\<close>

text \<open>\<open>r\<close> is what \<open>rrd_random\<close> yields.\<close>

definition wipe_ci_values :: "cint \<Rightarrow> int \<Rightarrow> addr \<Rightarrow> time_t \<Rightarrow> cache \<Rightarrow> cache" where
  "wipe_ci_values jitter r a when c =
     upd a (\<lambda>ci. ci\<lparr>ci_values := [], last_flush_time := (if 0 < jitter then when + cmod r jitter else when)\<rparr>) c"

definition remove_from_queue :: "addr \<Rightarrow> cache \<Rightarrow> cache" where
  "remove_from_queue a c =
     (if a = 0 \<or> \<not> in_queue (item c a) then c
      else let p = ci_prev (item c a); n = ci_next (item c a);
               c1 = (if p = 0 then c\<lparr>cache_queue_head := n\<rparr> else upd p (ci_next_update (\<lambda>_. n)) c);
               c2 = (if n = 0 then c1\<lparr>cache_queue_tail := p\<rparr> else upd n (ci_prev_update (\<lambda>_. p)) c1);
               c3 = upd a (\<lambda>ci. ci\<lparr>ci_next := 0, ci_prev := 0, in_queue := False\<rparr>) c2;
               c4 = assert (0 < stats_queue_length c3) c3
           in c4\<lparr>stats_queue_length := u64 (stats_queue_length c4 - 1)\<rparr>)"

definition free_cache_item :: "addr \<Rightarrow> cache \<Rightarrow> cache" where
  "free_cache_item a c =
     (if a = 0 then c
      else let c1 = broadcast a (remove_from_queue a c) in c1\<lparr>items := (items c1)(a := None)\<rparr>)"

definition enqueue_cache_item :: "addr \<Rightarrow> queue_side_t \<Rightarrow> cache \<Rightarrow> int \<times> cache" where
  "enqueue_cache_item a side c =
     (let queued = (\<lambda>c. c\<lparr>stats_queue_length := u64 (stats_queue_length c + 1)\<rparr>) \<circ>
            upd a (in_queue_update (\<lambda>_. True))
      in if a = 0 then (- 1, c)
         else if ci_values (item c a) = [] then (0, c)
         else case side of
           HEAD \<Rightarrow>
             if cache_queue_head c = a then (0, c)
             else let c1 = remove_from_queue a c; h = cache_queue_head c1;
                      c2 = upd a (\<lambda>ci. ci\<lparr>ci_prev := 0, ci_next := h\<rparr>) c1;
                      c3 = (if h \<noteq> 0 then upd h (ci_prev_update (\<lambda>_. a)) c2 else c2);
                      c4 = c3\<lparr>cache_queue_head := a\<rparr>;
                      c5 = (if cache_queue_tail c4 = 0 then c4\<lparr>cache_queue_tail := a\<rparr> else c4)
                  in (0, queued c5)
         | TAIL \<Rightarrow>
             if in_queue (item c a) then (0, c)
             else let t = cache_queue_tail c;
                      c1 = assert (ci_prev (item c a) = 0) (assert (ci_next (item c a) = 0) c);
                      c2 = upd a (ci_prev_update (\<lambda>_. t)) c1;
                      c3 = (if t = 0 then c2\<lparr>cache_queue_head := a\<rparr> else upd t (ci_next_update (\<lambda>_. a)) c2)
                  in (0, queued (c3\<lparr>cache_queue_tail := a\<rparr>)))"

text \<open>The tree of GLib as the map it stands for; the values are destroyed by \<open>free_cache_item\<close>.\<close>

definition g_tree_lookup :: "cache \<Rightarrow> string \<Rightarrow> addr" where
  "g_tree_lookup c file = (case cache_tree c file of Some a \<Rightarrow> a | None \<Rightarrow> 0)"

definition g_tree_remove :: "string \<Rightarrow> cache \<Rightarrow> bool \<times> cache" where
  "g_tree_remove file c =
     (case cache_tree c file of
        None \<Rightarrow> (False, c)
      | Some a \<Rightarrow> (True, free_cache_item a (c\<lparr>cache_tree := (cache_tree c)(file := None)\<rparr>)))"

text \<open>\<open>tree_callback_flush\<close> on the item at \<open>a\<close>; the keys it collects come last. \<open>flush_interval\<close> is the
  configured value. The assertion of the code compares pointers: the key of an entry is the string
  \<open>file\<close> of its item. Strings have no addresses here, and the assertion compares what they hold.\<close>

definition tree_callback_flush ::
  "cint \<Rightarrow> time_t \<Rightarrow> time_t \<Rightarrow> string \<times> addr \<Rightarrow> cache \<times> string list \<Rightarrow> cache \<times> string list" where
  "tree_callback_flush flush_interval now abs_timeout entry acc =
     (case entry of (key, a) \<Rightarrow> case acc of (c, keys) \<Rightarrow>
        let ci = item c a
        in if in_queue ci then (c, keys)
           else if ci_values ci \<noteq> [] \<and> (last_flush_time ci \<le> abs_timeout \<or> state c \<noteq> RUNNING) \<and> \<not> suspended ci
           then (snd (enqueue_cache_item a TAIL c), keys)
           else if flush_interval \<le> now - last_flush_time ci \<and> ci_values ci = []
           then (assert (key = ci_file ci) c, keys @ [key])
           else (c, keys))"

text \<open>\<open>foreach\<close> is the order in which \<open>g_tree_foreach\<close> visits the entries.\<close>

definition remove_key :: "string \<Rightarrow> cache \<Rightarrow> cache" where
  "remove_key key c = (case g_tree_remove key c of (found, c') \<Rightarrow> assert found c')"

definition flush_old_values ::
  "cint \<Rightarrow> cint \<Rightarrow> ((string \<Rightarrow> addr option) \<Rightarrow> (string \<times> addr) list) \<Rightarrow> time_t \<Rightarrow> cint \<Rightarrow> cache \<Rightarrow> cache" where
  "flush_old_values flush_interval jitter foreach now max_age c =
     (let abs_timeout = (if 0 < max_age then now - max_age else now + 2 * jitter + 1);
          (c1, keys) = fold (tree_callback_flush flush_interval now abs_timeout) (foreach (cache_tree c)) (c, [])
      in fold remove_key keys c1)"

section \<open>The linked list\<close>

text \<open>\<open>linked h p xs n\<close>: the items \<open>xs\<close> are linked in both directions, the first one has \<open>p\<close> before it, the last
  one \<open>n\<close> behind it.\<close>

fun linked :: "(addr \<Rightarrow> cache_item_t option) \<Rightarrow> addr \<Rightarrow> addr list \<Rightarrow> addr \<Rightarrow> bool" where
  "linked h p [] n \<longleftrightarrow> True"
| "linked h p (a # as) n \<longleftrightarrow>
     (case h a of None \<Rightarrow> False
      | Some i \<Rightarrow> ci_prev i = p \<and> ci_next i = (if as = [] then n else hd as) \<and> linked h a as n)"

definition first_of :: "addr list \<Rightarrow> addr \<Rightarrow> addr" where
  "first_of xs n = (if xs = [] then n else hd xs)"

definition last_of :: "addr list \<Rightarrow> addr \<Rightarrow> addr" where
  "last_of xs p = (if xs = [] then p else last xs)"

lemma first_of_simps [simp]: "first_of [] n = n" "first_of (a # as) n = a"
  by (simp_all add: first_of_def)

lemma last_of_simps [simp]: "last_of [] p = p" "last_of (a # as) p = last_of as a" "last_of (as @ [b]) p = b"
  by (simp_all add: last_of_def)

lemma first_of_append [simp]: "first_of (us @ vs) n = first_of us (first_of vs n)"
  by (simp add: first_of_def)

lemma last_of_append [simp]: "last_of (us @ vs) p = last_of vs (last_of us p)"
  by (simp add: last_of_def)

lemma linked_Cons:
  "linked h p (a # as) n \<longleftrightarrow>
   (\<exists>i. h a = Some i \<and> ci_prev i = p \<and> ci_next i = first_of as n \<and> linked h a as n)"
  by (auto simp: first_of_def split: option.splits)

lemma linked_append:
  "linked h p (us @ vs) n \<longleftrightarrow> linked h p us (first_of vs n) \<and> linked h (last_of us p) vs n"
  by (induction us arbitrary: p) (auto simp: linked_Cons simp del: linked.simps(2))

lemma linked_other: "a \<notin> set xs \<Longrightarrow> linked (h(a := x)) p xs n = linked h p xs n"
  by (induction xs arbitrary: p) (auto simp: linked_Cons simp del: linked.simps(2))

lemma linked_dom: "linked h p xs n \<Longrightarrow> a \<in> set xs \<Longrightarrow> h a \<noteq> None"
  by (induction xs arbitrary: p) (auto simp: linked_Cons simp del: linked.simps(2))

section \<open>The queue\<close>

text \<open>The links of the store represent the list \<open>xs\<close>.\<close>

definition queue_rep :: "cache \<Rightarrow> addr list \<Rightarrow> bool" where
  "queue_rep c xs \<longleftrightarrow>
     items c 0 = None \<and> distinct xs \<and> linked (items c) 0 xs 0 \<and>
     cache_queue_head c = first_of xs 0 \<and> cache_queue_tail c = last_of xs 0 \<and>
     (\<forall>a i. items c a = Some i \<longrightarrow>
        (in_queue i \<longleftrightarrow> a \<in> set xs) \<and> (a \<notin> set xs \<longrightarrow> ci_prev i = 0 \<and> ci_next i = 0)) \<and>
     stats_queue_length c = int (length xs) \<and> \<not> aborted c"

lemma queue_repD:
  assumes "queue_rep c xs"
  shows "items c 0 = None" "distinct xs" "linked (items c) 0 xs 0" "0 \<notin> set xs"
    "items c a = Some i \<Longrightarrow> in_queue i \<longleftrightarrow> a \<in> set xs"
  using assms linked_dom by (fastforce simp: queue_rep_def)+

lemma distinct_length_word: "distinct xs \<Longrightarrow> (0 :: addr) \<notin> set xs \<Longrightarrow> int (length xs) < 2 ^ 64"
proof -
  assume "distinct xs" "(0 :: addr) \<notin> set xs"
  then have "length xs = card (set xs)" "set xs \<subset> (UNIV :: addr set)" by (auto simp: distinct_card)
  then have "length xs < card (UNIV :: addr set)" by (simp add: psubset_card_mono)
  then show ?thesis by (simp add: card_word)
qed

lemma upd_simps [simp]:
  "cache_tree (upd a f c) = cache_tree c" "cache_queue_head (upd a f c) = cache_queue_head c"
  "cache_queue_tail (upd a f c) = cache_queue_tail c" "state (upd a f c) = state c"
  "stats_queue_length (upd a f c) = stats_queue_length c" "aborted (upd a f c) = aborted c"
  "awake (upd a f c) = awake c" "items (upd a f c) = (items c)(a := map_option f (items c a))"
  by (simp_all add: upd_def)

lemma item_Some [simp]: "items c a = Some i \<Longrightarrow> item c a = i"
  by (simp add: item_def)

text \<open>What the operations on the queue leave alone: everything but the links and the mark.\<close>

definition bare :: "cache_item_t \<Rightarrow> cache_item_t" where
  "bare i = i\<lparr>in_queue := False, ci_prev := 0, ci_next := 0\<rparr>"

definition same_content :: "cache \<Rightarrow> cache \<Rightarrow> bool" where
  "same_content c c' \<longleftrightarrow> cache_tree c' = cache_tree c \<and> state c' = state c \<and> awake c' = awake c \<and>
     (\<forall>b. map_option bare (items c' b) = map_option bare (items c b))"

lemma same_content_refl [simp]: "same_content c c"
  by (simp add: same_content_def)

lemma same_content_trans: "same_content a b \<Longrightarrow> same_content b c \<Longrightarrow> same_content a c"
  by (simp add: same_content_def)

lemma bare_simps [simp]:
  "bare (i\<lparr>ci_prev := p\<rparr>) = bare i" "bare (i\<lparr>ci_next := p\<rparr>) = bare i" "bare (i\<lparr>in_queue := b\<rparr>) = bare i"
  by (simp_all add: bare_def)

lemma map_option_bare [simp]:
  "map_option bare (map_option (ci_prev_update f) x) = map_option bare x"
  "map_option bare (map_option (ci_next_update f) x) = map_option bare x"
  "map_option bare (map_option (in_queue_update g) x) = map_option bare x"
  by (cases x; simp add: bare_def)+

text \<open>Assignments to the neighbours.\<close>

definition set_next :: "addr \<Rightarrow> addr \<Rightarrow> (addr \<Rightarrow> cache_item_t option) \<Rightarrow> addr \<Rightarrow> cache_item_t option" where
  "set_next b n h = (if b = 0 then h else h(b := map_option (ci_next_update (\<lambda>_. n)) (h b)))"

definition set_prev :: "addr \<Rightarrow> addr \<Rightarrow> (addr \<Rightarrow> cache_item_t option) \<Rightarrow> addr \<Rightarrow> cache_item_t option" where
  "set_prev b n h = (if b = 0 then h else h(b := map_option (ci_prev_update (\<lambda>_. n)) (h b)))"

lemma set_link_other:
  "b \<notin> set xs \<Longrightarrow> linked (set_next b n h) p xs m = linked h p xs m"
  "b \<notin> set xs \<Longrightarrow> linked (set_prev b n h) p xs m = linked h p xs m"
  by (simp_all add: set_next_def set_prev_def linked_other)

lemma set_link_at [simp]:
  "a \<noteq> b \<Longrightarrow> set_next b n h a = h a" "a \<noteq> b \<Longrightarrow> set_prev b n h a = h a"
  "h 0 = None \<Longrightarrow> set_next b n h 0 = None" "h 0 = None \<Longrightarrow> set_prev b n h 0 = None"
  by (auto simp: set_next_def set_prev_def)

lemma set_link_bare [simp]:
  "map_option bare (set_next b n h a) = map_option bare (h a)"
  "map_option bare (set_prev b n h a) = map_option bare (h a)"
  by (simp_all add: set_next_def set_prev_def)

lemma set_link_queued:
  "set_next b n h a = Some i \<Longrightarrow> \<exists>j. h a = Some j \<and> in_queue i = in_queue j \<and> (a \<noteq> b \<longrightarrow> i = j)"
  "set_prev b n h a = Some i \<Longrightarrow> \<exists>j. h a = Some j \<and> in_queue i = in_queue j \<and> (a \<noteq> b \<longrightarrow> i = j)"
  by (auto simp: set_next_def set_prev_def split: if_splits)

lemma linked_set_next:
  assumes "linked h p us m" "distinct us" "0 \<notin> set us"
  shows "linked (set_next (last_of us 0) n h) p us n"
  using assms
  by (cases us rule: rev_cases)
    (auto simp: set_next_def linked_append linked_Cons linked_other simp del: linked.simps(2))

lemma linked_set_prev:
  assumes "linked h p vs m" "distinct vs" "0 \<notin> set vs"
  shows "linked (set_prev (first_of vs 0) q h) q vs m"
  using assms
  by (cases vs) (auto simp: set_prev_def linked_Cons linked_other simp del: linked.simps(2))

lemma last_of_in: "last_of us 0 \<noteq> 0 \<Longrightarrow> last_of us 0 \<in> set us"
  by (auto simp: last_of_def split: if_splits)

lemma first_of_in: "first_of us 0 \<noteq> 0 \<Longrightarrow> first_of us 0 \<in> set us"
  by (auto simp: first_of_def split: if_splits)

lemma end_is_0:
  "0 \<notin> set us \<Longrightarrow> first_of us 0 = 0 \<longleftrightarrow> us = []" "0 \<notin> set us \<Longrightarrow> last_of us 0 = 0 \<longleftrightarrow> us = []"
  by (metis first_of_def hd_in_set) (metis last_in_set last_of_def)

lemma remove_from_queue_items:
  assumes "items c a = Some i" "in_queue i" "a \<noteq> 0"
  shows "items (remove_from_queue a c) =
    (set_prev (ci_next i) (ci_prev i) (set_next (ci_prev i) (ci_next i) (items c)))
      (a := map_option (\<lambda>ci. ci\<lparr>ci_next := 0, ci_prev := 0, in_queue := False\<rparr>)
              (set_prev (ci_next i) (ci_prev i) (set_next (ci_prev i) (ci_next i) (items c)) a))"
  using assms by (simp add: remove_from_queue_def Let_def assert_def set_next_def set_prev_def)

lemma remove_from_queue_fields:
  assumes "items c a = Some i" "in_queue i" "a \<noteq> 0"
  shows "cache_queue_head (remove_from_queue a c) = (if ci_prev i = 0 then ci_next i else cache_queue_head c)"
    "cache_queue_tail (remove_from_queue a c) = (if ci_next i = 0 then ci_prev i else cache_queue_tail c)"
    "stats_queue_length (remove_from_queue a c) = u64 (stats_queue_length c - 1)"
    "aborted (remove_from_queue a c) = (aborted c \<or> stats_queue_length c \<le> 0)"
    "cache_tree (remove_from_queue a c) = cache_tree c" "state (remove_from_queue a c) = state c"
    "awake (remove_from_queue a c) = awake c"
  using assms by (auto simp: remove_from_queue_def Let_def assert_def)

lemma remove_from_queue_same: "same_content c (remove_from_queue a c)"
proof (cases "a = 0 \<or> \<not> in_queue (item c a)")
  case False
  then obtain i where i: "items c a = Some i" "in_queue i" "a \<noteq> 0"
    by (cases "items c a") (auto simp: item_def zero_item_def)
  show ?thesis
    by (simp add: same_content_def remove_from_queue_items [OF i] remove_from_queue_fields [OF i] option.map_comp comp_def)
qed (auto simp: remove_from_queue_def)

lemma remove_from_queue_rep:
  assumes rep: "queue_rep c xs"
  shows "queue_rep (remove_from_queue a c) (removeAll a xs)"
proof (cases "a \<in> set xs")
  case False
  then have "remove_from_queue a c = c"
    using queue_repD(5) [OF rep, of a]
    by (cases "items c a") (auto simp: remove_from_queue_def item_def zero_item_def)
  then show ?thesis using rep False by simp
next
  case True
  then obtain us vs where xs: "xs = us @ a # vs" by (meson split_list)
  note d = queue_repD [OF rep]
  obtain i where i: "items c a = Some i" "ci_prev i = last_of us 0" "ci_next i = first_of vs 0"
    using d(3) by (auto simp: xs linked_append linked_Cons simp del: linked.simps(2))
  have a: "a \<noteq> 0" "in_queue i" "a \<notin> set us" "a \<notin> set vs" "set us \<inter> set vs = {}" "0 \<notin> set us" "0 \<notin> set vs" "distinct us" "distinct vs"
    using d(2,4) d(5) [OF i(1)] by (auto simp: xs)
  have rm: "removeAll a xs = us @ vs" using a by (simp add: xs)
  let ?p = "last_of us 0" and ?n = "first_of vs 0"
  let ?h = "set_prev ?n ?p (set_next ?p ?n (items c))"
  have l: "linked (items c) 0 us a" "linked (items c) a vs 0"
    using d(3) by (auto simp: xs linked_append linked_Cons simp del: linked.simps(2))
  have np: "?n \<notin> set us" "?p \<notin> set vs" using a first_of_in [of vs] last_of_in [of us] by (cases vs; cases us rule: rev_cases; auto)+
  have "linked ?h 0 us ?n" using linked_set_next [OF l(1) a(8,6)] np by (simp add: set_link_other)
  moreover have "linked ?h ?p vs 0" by (rule linked_set_prev [OF _ a(9,7)]) (use l(2) np in \<open>simp add: set_link_other\<close>)
  ultimately have lnk: "linked (items (remove_from_queue a c)) 0 (us @ vs) 0"
    using a by (simp add: remove_from_queue_items [OF i(1) a(2,1)] i linked_append linked_other)
  have mem: "(in_queue j \<longleftrightarrow> b \<in> set (us @ vs)) \<and> (b \<notin> set (us @ vs) \<longrightarrow> ci_prev j = 0 \<and> ci_next j = 0)"
    if j: "items (remove_from_queue a c) b = Some j" for b j
  proof (cases "b = a")
    case True
    then show ?thesis using j a i by (auto simp: remove_from_queue_items [OF i(1) a(2,1)])
  next
    case False
    then have "?h b = Some j" using j by (simp add: remove_from_queue_items [OF i(1) a(2,1)] i)
    then obtain k where k: "items c b = Some k" "in_queue j = in_queue k" "b \<noteq> ?p \<and> b \<noteq> ?n \<longrightarrow> j = k"
      using set_link_queued by metis
    have "b \<noteq> 0" using k(1) d(1) by auto
    then have "b \<notin> set (us @ vs) \<Longrightarrow> b \<noteq> ?p \<and> b \<noteq> ?n" using first_of_in [of vs] last_of_in [of us] by auto
    then show ?thesis using rep k False by (auto simp: queue_rep_def xs)
  qed
  have "items (remove_from_queue a c) 0 = None"
    using d(1) a by (simp add: remove_from_queue_items [OF i(1) a(2,1)])
  moreover have "cache_queue_head (remove_from_queue a c) = first_of (us @ vs) 0"
    "cache_queue_tail (remove_from_queue a c) = last_of (us @ vs) 0"
    using rep end_is_0 [OF a(6)] end_is_0 [OF a(7)]
    by (auto simp: remove_from_queue_fields [OF i(1) a(2,1)] i queue_rep_def xs first_of_def last_of_def split: if_splits)
  moreover have "int (length xs) < 2 ^ 64" by (rule distinct_length_word [OF d(2,4)])
  then have "stats_queue_length (remove_from_queue a c) = int (length (us @ vs))" "\<not> aborted (remove_from_queue a c)"
    using rep by (simp_all add: remove_from_queue_fields [OF i(1) a(2,1)] queue_rep_def xs u64_def)
  ultimately show ?thesis using lnk mem d(2) by (auto simp: rm queue_rep_def xs)
qed

lemma push_front_rep:
  assumes rep: "queue_rep c xs" and a: "a \<notin> set xs" "items c a = Some i"
    and c': "items c' = (set_prev (first_of xs 0) a (items c))(a := Some (i\<lparr>ci_prev := 0, ci_next := first_of xs 0, in_queue := True\<rparr>))"
      "cache_queue_head c' = a" "cache_queue_tail c' = last_of xs a"
      "stats_queue_length c' = u64 (stats_queue_length c + 1)" "aborted c' = aborted c"
  shows "queue_rep c' (a # xs)"
proof -
  note d = queue_repD [OF rep]
  have a0: "a \<noteq> 0" using a(2) d(1) by auto
  have lnk: "linked (items c') 0 (a # xs) 0"
    using linked_set_prev [OF d(3,2,4), of a] a by (simp add: c' linked_Cons linked_other del: linked.simps(2))
  have mem: "(in_queue j \<longleftrightarrow> b \<in> set (a # xs)) \<and> (b \<notin> set (a # xs) \<longrightarrow> ci_prev j = 0 \<and> ci_next j = 0)"
    if j: "items c' b = Some j" for b j
  proof (cases "b = a")
    case False
    then have "set_prev (first_of xs 0) a (items c) b = Some j" using j by (simp add: c')
    then obtain k where k: "items c b = Some k" "in_queue j = in_queue k" "b \<noteq> first_of xs 0 \<longrightarrow> j = k"
      using set_link_queued(2) by metis
    have "b \<noteq> 0" using k(1) d(1) by auto
    then have "b \<notin> set xs \<Longrightarrow> b \<noteq> first_of xs 0" using first_of_in [of xs] by auto
    then show ?thesis using rep k False by (auto simp: queue_rep_def)
  qed (use j in \<open>auto simp: c'\<close>)
  have "int (length (a # xs)) < 2 ^ 64" by (rule distinct_length_word) (use d a a0 in auto)
  then have "stats_queue_length c' = int (length (a # xs))" "\<not> aborted c'"
    using rep by (simp_all add: c' queue_rep_def u64_def)
  moreover have "items c' 0 = None" using d(1) a0 by (simp add: c')
  ultimately show ?thesis using lnk mem d(2) a c' by (auto simp: queue_rep_def)
qed

lemma push_back_rep:
  assumes rep: "queue_rep c xs" and a: "a \<notin> set xs" "items c a = Some i"
    and c': "items c' = (set_next (last_of xs 0) a (items c))(a := Some (i\<lparr>ci_prev := last_of xs 0, in_queue := True\<rparr>))"
      "cache_queue_head c' = first_of xs a" "cache_queue_tail c' = a"
      "stats_queue_length c' = u64 (stats_queue_length c + 1)" "aborted c' = aborted c"
  shows "queue_rep c' (xs @ [a])"
proof -
  note d = queue_repD [OF rep]
  have a0: "a \<noteq> 0" using a(2) d(1) by auto
  have i: "ci_next i = 0" using rep a by (auto simp: queue_rep_def)
  have lnk: "linked (items c') 0 (xs @ [a]) 0"
    using linked_set_next [OF d(3,2,4), of a] a i by (simp add: c' linked_append linked_Cons linked_other del: linked.simps(2))
  have mem: "(in_queue j \<longleftrightarrow> b \<in> set (xs @ [a])) \<and> (b \<notin> set (xs @ [a]) \<longrightarrow> ci_prev j = 0 \<and> ci_next j = 0)"
    if j: "items c' b = Some j" for b j
  proof (cases "b = a")
    case False
    then have "set_next (last_of xs 0) a (items c) b = Some j" using j by (simp add: c')
    then obtain k where k: "items c b = Some k" "in_queue j = in_queue k" "b \<noteq> last_of xs 0 \<longrightarrow> j = k"
      using set_link_queued(1) by metis
    have "b \<noteq> 0" using k(1) d(1) by auto
    then have "b \<notin> set xs \<Longrightarrow> b \<noteq> last_of xs 0" using last_of_in [of xs] by auto
    then show ?thesis using rep k False by (auto simp: queue_rep_def)
  qed (use j in \<open>auto simp: c'\<close>)
  have "int (length (a # xs)) < 2 ^ 64" by (rule distinct_length_word) (use d a a0 in auto)
  then have "stats_queue_length c' = int (length (xs @ [a]))" "\<not> aborted c'"
    using rep by (simp_all add: c' queue_rep_def u64_def)
  moreover have "items c' 0 = None" using d(1) a0 by (simp add: c')
  moreover have "first_of xs a = first_of (xs @ [a]) 0" by (simp add: first_of_def)
  ultimately show ?thesis using lnk mem d(2) a c' by (auto simp: queue_rep_def)
qed

lemma enqueue_tail_rep:
  assumes rep: "queue_rep c xs" and i: "items c a = Some i"
  shows "queue_rep (snd (enqueue_cache_item a TAIL c)) (if ci_values i = [] \<or> a \<in> set xs then xs else xs @ [a])"
proof (cases "ci_values i = [] \<or> a \<in> set xs")
  case True
  have "a \<noteq> 0" using queue_repD(1) [OF rep] i by auto
  moreover have "in_queue i \<longleftrightarrow> a \<in> set xs" using queue_repD(5) [OF rep i] .
  ultimately show ?thesis using True rep i by (auto simp: enqueue_cache_item_def Let_def)
next
  case False
  note d = queue_repD [OF rep]
  have a: "a \<notin> set xs" "a \<noteq> 0" "\<not> in_queue i" "ci_prev i = 0" "ci_next i = 0"
    using False d(1) d(5) [OF i] i rep by (auto simp: queue_rep_def)
  have t: "cache_queue_tail c = last_of xs 0" "cache_queue_head c = first_of xs 0" using rep by (simp_all add: queue_rep_def)
  have ta: "last_of xs 0 \<noteq> a" using a last_of_in [of xs] by auto
  have "queue_rep (snd (enqueue_cache_item a TAIL c)) (xs @ [a])"
  proof (rule push_back_rep [OF rep a(1) i])
    show "items (snd (enqueue_cache_item a TAIL c)) =
        (set_next (last_of xs 0) a (items c))(a := Some (i\<lparr>ci_prev := last_of xs 0, in_queue := True\<rparr>))"
      using ta False a i by (simp add: enqueue_cache_item_def Let_def assert_def set_next_def t fun_upd_twist)
  qed (use False a i in \<open>simp_all add: enqueue_cache_item_def Let_def assert_def t end_is_0 [OF d(4)] first_of_def\<close>)
  then show ?thesis using False by simp
qed

lemma enqueue_head_rep:
  assumes rep: "queue_rep c xs" and i: "items c a = Some i"
  shows "queue_rep (snd (enqueue_cache_item a HEAD c)) (if ci_values i = [] then xs else a # removeAll a xs)"
proof (cases "ci_values i = [] \<or> cache_queue_head c = a")
  case True
  have a0: "a \<noteq> 0" using queue_repD(1) [OF rep] i by auto
  have "cache_queue_head c = a \<Longrightarrow> a # removeAll a xs = xs"
    using rep a0 by (cases xs) (auto simp: queue_rep_def)
  then show ?thesis using True rep i a0 by (auto simp: enqueue_cache_item_def Let_def)
next
  case False
  define c1 where "c1 = remove_from_queue a c"
  define ys where "ys = removeAll a xs"
  have rep1: "queue_rep c1 ys" unfolding c1_def ys_def by (rule remove_from_queue_rep [OF rep])
  note d = queue_repD [OF rep1]
  have a0: "a \<noteq> 0" using queue_repD(1) [OF rep] i by auto
  have "map_option bare (items c1 a) = Some (bare i)"
    using remove_from_queue_same [of c a] i by (simp add: same_content_def c1_def)
  then obtain j where j: "items c1 a = Some j" by (cases "items c1 a") auto
  have t: "cache_queue_tail c1 = last_of ys 0" "cache_queue_head c1 = first_of ys 0" using rep1 by (simp_all add: queue_rep_def)
  have ta: "first_of ys 0 \<noteq> a" using a0 first_of_in [of ys] by (auto simp: ys_def)
  have "queue_rep (snd (enqueue_cache_item a HEAD c)) (a # ys)"
  proof (rule push_front_rep [OF rep1 _ j])
    show "items (snd (enqueue_cache_item a HEAD c)) = (set_prev (first_of ys 0) a (items c1))
        (a := Some (j\<lparr>ci_prev := 0, ci_next := first_of ys 0, in_queue := True\<rparr>))"
      using ta False a0 i j by (simp add: enqueue_cache_item_def Let_def set_prev_def t c1_def [symmetric] fun_upd_twist)
    show "cache_queue_tail (snd (enqueue_cache_item a HEAD c)) = last_of ys a"
      using False a0 i by (simp add: enqueue_cache_item_def Let_def t c1_def [symmetric] end_is_0 [OF d(4)]) (simp add: last_of_def)
  qed (use False a0 i in \<open>simp_all add: enqueue_cache_item_def Let_def t c1_def [symmetric]\<close>, simp add: ys_def)
  then show ?thesis using False by (simp add: ys_def)
qed

lemma same_content_upd [simp]:
  "same_content c (upd a (in_queue_update f) d) = same_content c d"
  "same_content c (upd a (ci_prev_update g) d) = same_content c d"
  "same_content c (upd a (ci_next_update g) d) = same_content c d"
  "same_content c (d\<lparr>stats_queue_length := n\<rparr>) = same_content c d"
  "same_content c (d\<lparr>cache_queue_head := p\<rparr>) = same_content c d"
  "same_content c (d\<lparr>cache_queue_tail := p\<rparr>) = same_content c d"
  by (auto simp: same_content_def)

lemma same_content_assert [simp]: "same_content c (assert b d) = same_content c d"
  by (simp add: same_content_def assert_def)

lemma same_content_links [simp]:
  "same_content c (upd a (\<lambda>ci. ci\<lparr>ci_prev := p, ci_next := q\<rparr>) d) = same_content c d"
  by (auto simp: same_content_def option.map_comp comp_def)

lemma enqueue_same: "same_content c (snd (enqueue_cache_item a side c))"
  by (simp add: enqueue_cache_item_def Let_def remove_from_queue_same split: queue_side_t.split)

section \<open>The interface of the queue\<close>

text \<open>A queue of work without duplicates: an element that is ready can be put in front of all others or, if it is not
  queued yet, behind them, and it can be taken out. A sequence of such operations acts as on a list.\<close>

datatype 'a queue_op = Put_first 'a | Put_last 'a | Take_out 'a

fun queue_op_elem :: "'a queue_op \<Rightarrow> 'a" where
  "queue_op_elem (Put_first a) = a"
| "queue_op_elem (Put_last a) = a"
| "queue_op_elem (Take_out a) = a"

fun spec_op :: "('a \<Rightarrow> bool) \<Rightarrow> 'a queue_op \<Rightarrow> 'a list \<Rightarrow> 'a list" where
  "spec_op ready (Put_first a) xs = (if ready a then a # removeAll a xs else xs)"
| "spec_op ready (Put_last a) xs = (if ready a \<and> a \<notin> set xs then xs @ [a] else xs)"
| "spec_op ready (Take_out a) xs = removeAll a xs"

fun run_op :: "('a \<Rightarrow> 's \<Rightarrow> 's) \<Rightarrow> ('a \<Rightarrow> 's \<Rightarrow> 's) \<Rightarrow> ('a \<Rightarrow> 's \<Rightarrow> 's) \<Rightarrow> 'a queue_op \<Rightarrow> 's \<Rightarrow> 's" where
  "run_op fst_op lst_op out (Put_first a) = fst_op a"
| "run_op fst_op lst_op out (Put_last a) = lst_op a"
| "run_op fst_op lst_op out (Take_out a) = out a"

locale work_queue =
  fixes put_first put_last take_out :: "'a \<Rightarrow> 's \<Rightarrow> 's"
    and rep :: "'s \<Rightarrow> 'a list \<Rightarrow> bool" and valid ready :: "'s \<Rightarrow> 'a \<Rightarrow> bool"
  assumes put_first: "rep s xs \<Longrightarrow> valid s a \<Longrightarrow> rep (put_first a s) (spec_op (ready s) (Put_first a) xs)"
    and put_last: "rep s xs \<Longrightarrow> valid s a \<Longrightarrow> rep (put_last a s) (spec_op (ready s) (Put_last a) xs)"
    and take_out: "rep s xs \<Longrightarrow> rep (take_out a s) (spec_op (ready s) (Take_out a) xs)"
    and keeps: "valid (put_first a s) = valid s" "valid (put_last a s) = valid s" "valid (take_out a s) = valid s"
      "ready (put_first a s) = ready s" "ready (put_last a s) = ready s" "ready (take_out a s) = ready s"
    and no_duplicates: "rep s xs \<Longrightarrow> distinct xs"
begin

abbreviation "run \<equiv> run_op put_first put_last take_out"

lemma run_op_rep:
  "rep s xs \<Longrightarrow> valid s (queue_op_elem op) \<Longrightarrow>
   rep (run op s) (spec_op (ready s) op xs) \<and> valid (run op s) = valid s \<and> ready (run op s) = ready s"
  using put_first put_last take_out by (cases op) (simp_all add: keeps)

lemma run_ops_rep:
  assumes "rep s xs" "\<forall>op \<in> set ops. valid s (queue_op_elem op)"
  shows "rep (fold run ops s) (fold (spec_op (ready s)) ops xs)"
  using assms
proof (induction ops arbitrary: s xs)
  case (Cons op ops)
  then have "rep (run op s) (spec_op (ready s) op xs)" "valid (run op s) = valid s" "ready (run op s) = ready s"
    using run_op_rep by simp_all
  with Cons.IH [OF this(1)] Cons.prems show ?case by simp
qed simp

lemma first_is_put:
  assumes "rep s xs" "valid s a" "ready s a" "rep (put_first a s) ys"
    and unique: "\<And>t us vs. rep t us \<Longrightarrow> rep t vs \<Longrightarrow> us = vs"
  shows "ys = a # removeAll a xs"
  using put_first [OF assms(1,2)] assms(3,4) unique by fastforce

end

definition has_item :: "cache \<Rightarrow> addr \<Rightarrow> bool" where
  "has_item c a \<longleftrightarrow> items c a \<noteq> None"

definition has_values :: "cache \<Rightarrow> addr \<Rightarrow> bool" where
  "has_values c a \<longleftrightarrow> ci_values (item c a) \<noteq> []"

lemma same_content_item: "same_content c c' \<Longrightarrow> bare (item c' a) = bare (item c a)"
  by (cases "items c a"; cases "items c' a") (auto simp: same_content_def item_def dest!: spec [of _ a])

lemma same_content_has: "same_content c c' \<Longrightarrow> has_item c' = has_item c \<and> has_values c' = has_values c"
proof -
  assume s: "same_content c c'"
  have "has_item c' a = has_item c a" for a
    using s by (cases "items c a"; cases "items c' a") (auto simp: has_item_def same_content_def dest!: spec [of _ a])
  moreover have "ci_values (bare i) = ci_values i" for i by (simp add: bare_def)
  then have "has_values c' a = has_values c a" for a
    using same_content_item [OF s, of a] by (metis has_values_def)
  ultimately show ?thesis by auto
qed

definition put_first :: "addr \<Rightarrow> cache \<Rightarrow> cache" where
  "put_first a c = snd (enqueue_cache_item a HEAD c)"

definition put_last :: "addr \<Rightarrow> cache \<Rightarrow> cache" where
  "put_last a c = snd (enqueue_cache_item a TAIL c)"

interpretation cq: work_queue put_first put_last remove_from_queue queue_rep has_item has_values
proof
  fix s xs a
  show "queue_rep s xs \<Longrightarrow> has_item s a \<Longrightarrow> queue_rep (put_first a s) (spec_op (has_values s) (Put_first a) xs)"
    using enqueue_head_rep [of s xs a] by (auto simp: has_item_def has_values_def put_first_def split: if_splits)
  show "queue_rep s xs \<Longrightarrow> has_item s a \<Longrightarrow> queue_rep (put_last a s) (spec_op (has_values s) (Put_last a) xs)"
    using enqueue_tail_rep [of s xs a] by (auto simp: has_item_def has_values_def put_last_def split: if_splits)
  show "queue_rep s xs \<Longrightarrow> queue_rep (remove_from_queue a s) (spec_op (has_values s) (Take_out a) xs)"
    by (simp add: remove_from_queue_rep)
  show "queue_rep s xs \<Longrightarrow> distinct xs" by (simp add: queue_rep_def)
qed (simp_all add: put_first_def put_last_def same_content_has [OF enqueue_same] same_content_has [OF remove_from_queue_same])

text \<open>C12: The queue of the daemon, a doubly linked list through the items with a head, a tail and a counter, implements
  a list without duplicates: any sequence of enqueuing at the head, enqueuing at the tail and
  removal of items leaves the links, the marks of the items and the counter of a list on which these
  operations act directly. In particular no assertion of the code fails.\<close>

theorem queue_refines_list:
  assumes "queue_rep c xs" and "\<forall>op \<in> set ops. has_item c (queue_op_elem op)"
  shows "queue_rep (fold (run_op put_first put_last remove_from_queue) ops c) (fold (spec_op (has_values c)) ops xs)"
  using assms by (rule cq.run_ops_rep)

text \<open>Three items, the last two of them queued.\<close>

definition sample_item :: "string \<Rightarrow> bool \<Rightarrow> addr \<Rightarrow> addr \<Rightarrow> cache_item_t" where
  "sample_item f q p n = zero_item\<lparr>ci_file := f, ci_values := [''1:2''], in_tree := True, in_queue := q, ci_prev := p, ci_next := n\<rparr>"

definition sample_cache :: cache where
  "sample_cache = \<lparr>items = [1 \<mapsto> sample_item ''a'' False 0 0, 2 \<mapsto> sample_item ''b'' True 0 3, 3 \<mapsto> sample_item ''c'' True 2 0],
     cache_tree = [''a'' \<mapsto> 1, ''b'' \<mapsto> 2, ''c'' \<mapsto> 3], cache_queue_head = 2, cache_queue_tail = 3, state = RUNNING,
     stats_queue_length = 2, aborted = False, awake = []\<rparr>"

lemma sample_queue: "queue_rep sample_cache [2, 3]"
  by (auto simp: queue_rep_def sample_cache_def sample_item_def zero_item_def first_of_def last_of_def)

theorem queue_refines_list_witness:
  "queue_rep (fold (run_op put_first put_last remove_from_queue) [Put_last 1, Put_first 3, Take_out 2] sample_cache) [3, 1]"
proof -
  have "\<forall>op \<in> set [Put_last 1, Put_first 3, Take_out 2]. has_item sample_cache (queue_op_elem op)"
    by (simp add: has_item_def sample_cache_def)
  from queue_refines_list [OF sample_queue this]
  show ?thesis by (simp add: has_values_def sample_cache_def item_def sample_item_def)
qed

section \<open>The invariant of the cache\<close>

text \<open>\<open>xs\<close> are the queued items. Every item of the tree carries the name it is found by; what is queued is in the tree
  and has values.\<close>

definition tree_ok :: "cache \<Rightarrow> bool" where
  "tree_ok c \<longleftrightarrow> finite (dom (cache_tree c)) \<and>
     (\<forall>f a. cache_tree c f = Some a \<longrightarrow> (\<exists>i. items c a = Some i \<and> ci_file i = f \<and> in_tree i))"

definition cache_inv :: "cache \<Rightarrow> addr list \<Rightarrow> bool" where
  "cache_inv c xs \<longleftrightarrow> queue_rep c xs \<and> tree_ok c \<and>
     (\<forall>a \<in> set xs. has_values c a \<and> cache_tree c (ci_file (item c a)) = Some a)"

lemma tree_okD: "tree_ok c \<Longrightarrow> cache_tree c f = Some a \<Longrightarrow> \<exists>i. items c a = Some i \<and> ci_file i = f \<and> in_tree i"
  by (simp add: tree_ok_def)

lemma cache_invD:
  assumes "cache_inv c xs"
  shows "queue_rep c xs" "tree_ok c"
    "a \<in> set xs \<Longrightarrow> has_values c a" "a \<in> set xs \<Longrightarrow> cache_tree c (ci_file (item c a)) = Some a"
  using assms by (auto simp: cache_inv_def)

lemma bare_fields:
  assumes "bare i = bare j"
  shows "ci_file i = ci_file j" "ci_values i = ci_values j" "in_tree i = in_tree j" "suspended i = suspended j"
    "last_flush_time i = last_flush_time j" "last_update_stamp i = last_update_stamp j" "flushed i = flushed j"
  using assms by (cases i; cases j; simp add: bare_def)+

lemma same_content_fields:
  assumes "same_content c c'"
  shows "ci_file (item c' a) = ci_file (item c a)" "ci_values (item c' a) = ci_values (item c a)"
    "in_tree (item c' a) = in_tree (item c a)" "suspended (item c' a) = suspended (item c a)"
  using bare_fields [OF same_content_item [OF assms]] by blast+

lemma has_item_item: "has_item c a \<Longrightarrow> items c a = Some (item c a)"
  by (auto simp: has_item_def)

lemma same_content_tree: "tree_ok c \<Longrightarrow> same_content c c' \<Longrightarrow> tree_ok c'"
proof -
  assume tree: "tree_ok c" and same: "same_content c c'"
  have t: "cache_tree c' = cache_tree c" using same by (simp add: same_content_def)
  have "\<exists>i. items c' a = Some i \<and> ci_file i = f \<and> in_tree i" if fa: "cache_tree c f = Some a" for f a
  proof -
    obtain i where i: "items c a = Some i" "ci_file i = f" "in_tree i" using tree_okD [OF tree fa] by blast
    have "has_item c a" using i(1) by (simp add: has_item_def)
    then have "has_item c' a" by (simp only: same_content_has [OF same])
    then have "items c' a = Some (item c' a)" by (rule has_item_item)
    moreover have "ci_file (item c' a) = f" "in_tree (item c' a)"
      using i by (simp_all add: same_content_fields [OF same])
    ultimately show ?thesis by blast
  qed
  then show ?thesis using tree by (simp add: tree_ok_def t)
qed

lemma same_content_inv:
  assumes "tree_ok c" "same_content c c'" "queue_rep c' ys"
    and "\<And>a. a \<in> set ys \<Longrightarrow> has_values c a \<and> cache_tree c (ci_file (item c a)) = Some a"
  shows "cache_inv c' ys"
proof -
  have t: "cache_tree c' = cache_tree c" using assms(2) by (simp add: same_content_def)
  show ?thesis unfolding cache_inv_def t using assms(3,4) same_content_tree [OF assms(1,2)]
    by (simp add: same_content_has [OF assms(2)] same_content_fields(1) [OF assms(2)])
qed

lemma remove_from_queue_inv:
  assumes "cache_inv c xs"
  shows "cache_inv (remove_from_queue a c) (removeAll a xs)"
  by (rule same_content_inv [OF cache_invD(2) [OF assms] remove_from_queue_same remove_from_queue_rep])
    (use assms in \<open>auto simp: cache_inv_def\<close>)

lemma enqueue_inv:
  assumes "cache_inv c xs" "cache_tree c (ci_file (item c a)) = Some a"
  shows "\<exists>ys. cache_inv (snd (enqueue_cache_item a side c)) ys \<and> set ys = (if has_values c a then insert a (set xs) else set xs)"
proof -
  obtain i where i: "items c a = Some i" using tree_okD [OF cache_invD(2) [OF assms(1)] assms(2)] by auto
  have v: "has_values c a \<longleftrightarrow> ci_values i \<noteq> []" by (simp add: has_values_def i)
  define ys where "ys = (case side of HEAD \<Rightarrow> (if ci_values i = [] then xs else a # removeAll a xs)
    | TAIL \<Rightarrow> (if ci_values i = [] \<or> a \<in> set xs then xs else xs @ [a]))"
  have "queue_rep (snd (enqueue_cache_item a side c)) ys"
    using enqueue_head_rep [OF cache_invD(1) i] enqueue_tail_rep [OF cache_invD(1) i] assms(1)
    by (cases side) (simp_all add: ys_def)
  then have "cache_inv (snd (enqueue_cache_item a side c)) ys"
    by (rule same_content_inv [OF cache_invD(2) [OF assms(1)] enqueue_same])
      (use assms v cache_invD(3,4) [OF assms(1)] in \<open>auto simp: ys_def split: queue_side_t.splits if_splits\<close>)
  then show ?thesis using v by (auto simp: ys_def split: queue_side_t.splits if_splits)
qed

lemma upd_rep:
  assumes "queue_rep c xs" "\<And>i. ci_prev (f i) = ci_prev i" "\<And>i. ci_next (f i) = ci_next i" "\<And>i. in_queue (f i) = in_queue i"
  shows "queue_rep (upd a f c) xs"
proof -
  have "linked (h(a := map_option f (h a))) p ys n = linked h p ys n" for h p ys n
    using assms(2,3) by (induction ys arbitrary: p) (auto simp: linked_Cons simp del: linked.simps(2))
  then show ?thesis using assms by (auto simp: queue_rep_def split: if_splits)
qed

section \<open>The values that are cached\<close>

definition cached :: "cache \<Rightarrow> string \<Rightarrow> string list" where
  "cached c f = (case cache_tree c f of None \<Rightarrow> [] | Some a \<Rightarrow> ci_values (item c a))"

lemma same_content_cached: "same_content c c' \<Longrightarrow> cached c' = cached c"
proof
  fix f
  assume s: "same_content c c'"
  then have t: "cache_tree c' = cache_tree c" by (simp add: same_content_def)
  show "cached c' f = cached c f"
    by (simp add: cached_def t same_content_fields(2) [OF s] split: option.split)
qed

lemma wipe_simps [simp]:
  "items (wipe_ci_values j r a when c) b = (if b = a then map_option (\<lambda>ci. ci\<lparr>ci_values := [],
      last_flush_time := (if 0 < j then when + cmod r j else when)\<rparr>) (items c a) else items c b)"
  "cache_tree (wipe_ci_values j r a when c) = cache_tree c"
  by (simp_all add: wipe_ci_values_def)

text \<open>A queue thread, and the replay of a journal, wipe the values of an item and take it out of the queue.\<close>

lemma take_inv:
  assumes inv: "cache_inv c xs" and a: "items c a = Some i" "cache_tree c (ci_file i) = Some a"
  shows "cache_inv (remove_from_queue a (wipe_ci_values j r a when c)) (removeAll a xs)"
    and "cached (remove_from_queue a (wipe_ci_values j r a when c)) = (cached c)(ci_file i := [])"
proof -
  let ?c = "wipe_ci_values j r a when c"
  have rep: "queue_rep ?c xs" unfolding wipe_ci_values_def by (rule upd_rep [OF cache_invD(1) [OF inv]]) simp_all
  have tree: "tree_ok ?c" using cache_invD(2) [OF inv] by (fastforce simp: tree_ok_def)
  have it: "b \<noteq> a \<Longrightarrow> item ?c b = item c b" for b by (simp add: item_def)
  show "cache_inv (remove_from_queue a ?c) (removeAll a xs)"
    by (rule same_content_inv [OF tree remove_from_queue_same remove_from_queue_rep [OF rep]])
      (use cache_invD(3,4) [OF inv] it in \<open>auto simp: has_values_def\<close>)
  have "cached ?c f = ((cached c)(ci_file i := [])) f" for f
  proof (cases "cache_tree c f")
    case (Some b)
    then obtain k where "items c b = Some k" "ci_file k = f" using tree_okD [OF cache_invD(2) [OF inv]] by blast
    then show ?thesis using Some a by (cases "b = a") (auto simp: cached_def it item_def)
  qed (use a in \<open>auto simp: cached_def\<close>)
  then show "cached (remove_from_queue a ?c) = (cached c)(ci_file i := [])"
    by (auto simp: same_content_cached [OF remove_from_queue_same])
qed

text \<open>An item that is not in the tree, or whose entry has just been removed, can be freed.\<close>

lemma free_cache_item_rep:
  assumes rep: "queue_rep c xs" and a: "a \<noteq> 0"
  shows "queue_rep (free_cache_item a c) (removeAll a xs)"
proof -
  define c1 where "c1 = broadcast a (remove_from_queue a c)"
  have "queue_rep (remove_from_queue a c) (removeAll a xs)" by (rule remove_from_queue_rep [OF rep])
  then have "queue_rep ((remove_from_queue a c)\<lparr>awake := w\<rparr>) (removeAll a xs)" for w by (simp add: queue_rep_def)
  then have "queue_rep c1 (removeAll a xs)" unfolding c1_def broadcast_def by (rule upd_rep) simp_all
  then have "queue_rep (c1\<lparr>items := (items c1)(a := None)\<rparr>) (removeAll a xs)" by (simp add: queue_rep_def linked_other)
  then show ?thesis using a by (simp add: free_cache_item_def c1_def Let_def)
qed

lemma free_cache_item_at:
  assumes "a \<noteq> 0"
  shows "items (free_cache_item a c) a = None" "cache_tree (free_cache_item a c) = cache_tree c"
    "b \<noteq> a \<Longrightarrow> map_option bare (items (free_cache_item a c) b) = map_option bare (items c b)"
    "state (free_cache_item a c) = state c"
  using assms remove_from_queue_same [of c a]
  by (simp_all add: free_cache_item_def Let_def broadcast_def same_content_def)

lemma bare_item_fields:
  assumes "map_option bare (items c' b) = map_option bare (items c b)"
  shows "ci_file (item c' b) = ci_file (item c b)" "ci_values (item c' b) = ci_values (item c b)"
    "in_tree (item c' b) = in_tree (item c b)" "suspended (item c' b) = suspended (item c b)"
    "items c' b = None \<longleftrightarrow> items c b = None" "last_flush_time (item c' b) = last_flush_time (item c b)"
proof -
  have "bare (item c' b) = bare (item c b)" using assms by (cases "items c b"; cases "items c' b") (auto simp: item_def)
  from bare_fields [OF this] show "ci_file (item c' b) = ci_file (item c b)" "ci_values (item c' b) = ci_values (item c b)"
    "in_tree (item c' b) = in_tree (item c b)" "suspended (item c' b) = suspended (item c b)"
    "last_flush_time (item c' b) = last_flush_time (item c b)" by blast+
  show "items c' b = None \<longleftrightarrow> items c b = None" using assms by (metis option.map_disc_iff)
qed

lemma tree_item:
  assumes "tree_ok c" "cache_tree c f = Some a"
  shows "items c a = Some (item c a)" "ci_file (item c a) = f" "in_tree (item c a)"
  using tree_okD [OF assms] by auto

lemma tree_inj: "tree_ok c \<Longrightarrow> cache_tree c f = Some a \<Longrightarrow> cache_tree c g = Some a \<Longrightarrow> f = g"
  using tree_item(2) by metis

lemma g_tree_remove_inv:
  assumes inv: "cache_inv c xs" and f: "cache_tree c f = Some a"
  shows "g_tree_remove f c = (True, snd (g_tree_remove f c))" "cache_inv (snd (g_tree_remove f c)) (removeAll a xs)"
    "cached (snd (g_tree_remove f c)) = (cached c)(f := [])"
    "cache_tree (snd (g_tree_remove f c)) = (cache_tree c)(f := None)"
    "b \<noteq> a \<Longrightarrow> ci_values (item (snd (g_tree_remove f c)) b) = ci_values (item c b)"
proof -
  note t = cache_invD(2) [OF inv]
  define c0 where "c0 = c\<lparr>cache_tree := (cache_tree c)(f := None)\<rparr>"
  have c': "snd (g_tree_remove f c) = free_cache_item a c0" by (simp add: g_tree_remove_def f c0_def)
  have a0: "a \<noteq> 0" using tree_item(1) [OF t f] queue_repD(1) [OF cache_invD(1) [OF inv]] by auto
  have rep: "queue_rep c0 xs" using cache_invD(1) [OF inv] by (simp add: queue_rep_def c0_def)
  have it: "item c0 = item c" by (simp add: c0_def item_def fun_eq_iff)
  note fr = free_cache_item_at [OF a0, where c = c0]
  have ct: "cache_tree (free_cache_item a c0) = (cache_tree c)(f := None)" unfolding fr(2) by (simp add: c0_def)
  have b: "ci_file (item (free_cache_item a c0) b) = ci_file (item c b)"
    "ci_values (item (free_cache_item a c0) b) = ci_values (item c b)"
    "in_tree (item (free_cache_item a c0) b) = in_tree (item c b)"
    "items (free_cache_item a c0) b = None \<longleftrightarrow> items c b = None" if "b \<noteq> a" for b
    using bare_item_fields [OF fr(3) [OF that]] by (simp_all add: it) (simp add: c0_def)
  have other: "b \<noteq> a" if "cache_tree c g = Some b" "g \<noteq> f" for g b using tree_inj [OF t f] that by blast
  have "tree_ok (free_cache_item a c0)"
  proof -
    have "\<exists>i. items (free_cache_item a c0) b = Some i \<and> ci_file i = g \<and> in_tree i"
      if g: "((cache_tree c)(f := None)) g = Some b" for g b
    proof -
      from g have gb: "cache_tree c g = Some b" "g \<noteq> f" by (auto split: if_splits)
      note bb = b [OF other [OF gb]] and ti = tree_item [OF t gb(1)]
      obtain i where i: "items (free_cache_item a c0) b = Some i" using bb(4) ti(1) by fastforce
      then have "ci_file i = g" "in_tree i" using bb(1,3) ti(2,3) by simp_all
      with i show ?thesis by blast
    qed
    then show ?thesis using t by (simp add: tree_ok_def ct)
  qed
  moreover have "has_values (free_cache_item a c0) b \<and>
      cache_tree (free_cache_item a c0) (ci_file (item (free_cache_item a c0) b)) = Some b" if "b \<in> set (removeAll a xs)" for b
  proof -
    have "b \<in> set xs" "b \<noteq> a" using that by auto
    then show ?thesis
      using cache_invD(3,4) [OF inv, of b] b [of b] f by (auto simp: has_values_def ct)
  qed
  ultimately show "cache_inv (snd (g_tree_remove f c)) (removeAll a xs)"
    unfolding c' by (simp add: cache_inv_def free_cache_item_rep [OF rep a0])
  show "cache_tree (snd (g_tree_remove f c)) = (cache_tree c)(f := None)" unfolding c' by (simp add: ct)
  show "b \<noteq> a \<Longrightarrow> ci_values (item (snd (g_tree_remove f c)) b) = ci_values (item c b)" unfolding c' by (rule b(2))
  show "cached (snd (g_tree_remove f c)) = (cached c)(f := [])"
    unfolding c' using b(2) other by (auto simp: cached_def fun_eq_iff ct split: option.split)
qed (simp add: g_tree_remove_def f)

section \<open>Flushing what is old\<close>

definition foreach_ok :: "((string \<Rightarrow> addr option) \<Rightarrow> (string \<times> addr) list) \<Rightarrow> bool" where
  "foreach_ok foreach \<longleftrightarrow>
     (\<forall>m. finite (dom m) \<longrightarrow> distinct (map fst (foreach m)) \<and> set (foreach m) = {(k, a). m k = Some a})"

text \<open>Removing keys whose items have no values.\<close>

lemma remove_keys_inv:
  assumes "cache_inv c xs" "distinct keys" "\<forall>k \<in> set keys. \<exists>a. cache_tree c k = Some a \<and> ci_values (item c a) = []"
  shows "cache_inv (fold remove_key keys c) xs \<and> cached (fold remove_key keys c) = cached c"
  using assms
proof (induction keys arbitrary: c)
  case (Cons k keys)
  then obtain a where a: "cache_tree c k = Some a" "ci_values (item c a) = []" by auto
  note g = g_tree_remove_inv [OF Cons.prems(1) a(1)]
  define c' where "c' = snd (g_tree_remove k c)"
  have k: "remove_key k c = c'" using g(1) by (auto simp: remove_key_def c'_def assert_def split: prod.splits)
  have "a \<notin> set xs" using cache_invD(3) [OF Cons.prems(1)] a(2) by (auto simp: has_values_def)
  then have "cache_inv c' xs" using g(2) by (simp add: c'_def)
  moreover have "\<exists>b. cache_tree c' l = Some b \<and> ci_values (item c' b) = []" if l: "l \<in> set keys" for l
  proof -
    obtain b where b: "cache_tree c l = Some b" "ci_values (item c b) = []" using Cons.prems(3) l by auto
    have "l \<noteq> k" using Cons.prems(2) l by auto
    then have "b \<noteq> a" using tree_inj [OF cache_invD(2) [OF Cons.prems(1)]] a b by blast
    then show ?thesis using g(4,5) b \<open>l \<noteq> k\<close> by (auto simp: c'_def)
  qed
  moreover have "cached c' = cached c" using g(3) a by (auto simp: c'_def cached_def fun_eq_iff)
  ultimately show ?case using Cons.IH [of c'] Cons.prems(2) by (simp add: k)
qed simp

definition flush_due :: "cache \<Rightarrow> time_t \<Rightarrow> addr \<Rightarrow> bool" where
  "flush_due c abs_timeout a \<longleftrightarrow> has_values c a \<and> (last_flush_time (item c a) \<le> abs_timeout \<or> state c \<noteq> RUNNING) \<and>
     \<not> suspended (item c a)"

lemma flush_fold:
  assumes inv: "cache_inv c xs" and "set es \<subseteq> {(k, a). cache_tree c k = Some a}" "distinct (map fst es)"
  shows "\<exists>c' ys keys. fold (tree_callback_flush fi now abs_timeout) es (c, []) = (c', keys) \<and> cache_inv c' ys \<and>
    same_content c c' \<and> set ys = set xs \<union> {a. \<exists>k. (k, a) \<in> set es \<and> flush_due c abs_timeout a} \<and>
    distinct keys \<and> (\<forall>k \<in> set keys. \<exists>a. (k, a) \<in> set es \<and> ci_values (item c a) = [])"
  using assms(2,3)
proof (induction es rule: rev_induct)
  case Nil
  then show ?case using inv by (intro exI [of _ c] exI [of _ xs] exI [of _ "[]"]) simp
next
  case (snoc e es)
  obtain k a where e: "e = (k, a)" by (cases e)
  obtain c' ys keys where ih: "fold (tree_callback_flush fi now abs_timeout) es (c, []) = (c', keys)" "cache_inv c' ys"
    "same_content c c'" "set ys = set xs \<union> {a. \<exists>k. (k, a) \<in> set es \<and> flush_due c abs_timeout a}"
    "distinct keys" "\<forall>k \<in> set keys. \<exists>a. (k, a) \<in> set es \<and> ci_values (item c a) = []"
    using snoc by auto
  have "map_option bare (items c' a) = map_option bare (items c a)" using ih(3) by (simp add: same_content_def)
  note bf = bare_item_fields [OF this]
  have tree: "cache_tree c' = cache_tree c" "state c' = state c" using ih(3) by (simp_all add: same_content_def)
  have ka: "cache_tree c k = Some a" using snoc.prems(1) e by auto
  have ka': "cache_tree c' k = Some a" using ka tree by simp
  note it = tree_item(1) [OF cache_invD(2) [OF ih(2)] ka'] and nam = tree_item(2) [OF cache_invD(2) [OF ih(2)] ka']
  have q: "in_queue (item c' a) \<longleftrightarrow> a \<in> set ys" by (rule queue_repD(5) [OF cache_invD(1) [OF ih(2)] it])
  have due: "flush_due c abs_timeout a \<longleftrightarrow> ci_values (item c' a) \<noteq> [] \<and>
      (last_flush_time (item c' a) \<le> abs_timeout \<or> state c' \<noteq> RUNNING) \<and> \<not> suspended (item c' a)"
    by (simp add: flush_due_def has_values_def bf tree)
  have new: "k \<notin> fst ` set es" using snoc.prems(2) e by simp
  have kn: "k \<notin> set keys" using ih(6) new by (force simp: image_iff)
  have fold: "fold (tree_callback_flush fi now abs_timeout) (es @ [e]) (c, []) =
      tree_callback_flush fi now abs_timeout (k, a) (c', keys)" by (simp add: ih(1) e)
  consider "a \<in> set ys" | "a \<notin> set ys" "flush_due c abs_timeout a" | "a \<notin> set ys" "\<not> flush_due c abs_timeout a" by blast
  then show ?case
  proof cases
    case 1
    then have "tree_callback_flush fi now abs_timeout (k, a) (c', keys) = (c', keys)"
      by (simp add: tree_callback_flush_def q Let_def)
    moreover have "set ys = set xs \<union> {b. \<exists>l. (l, b) \<in> set (es @ [e]) \<and> flush_due c abs_timeout b}"
      using 1 ih(4) e by auto
    ultimately show ?thesis using fold ih(2,3,5,6)
      by (intro exI [of _ c'] exI [of _ ys] exI [of _ keys]) (auto simp: e)
  next
    case 2
    then have cb: "tree_callback_flush fi now abs_timeout (k, a) (c', keys) = (snd (enqueue_cache_item a TAIL c'), keys)"
      using due by (simp add: tree_callback_flush_def q Let_def)
    have hv: "has_values c' a" using 2(2) due by (simp add: has_values_def)
    obtain zs where zs: "cache_inv (snd (enqueue_cache_item a TAIL c')) zs" "set zs = insert a (set ys)"
      using enqueue_inv [OF ih(2), of a TAIL] nam ka tree hv by auto
    have "same_content c (snd (enqueue_cache_item a TAIL c'))" using ih(3) enqueue_same same_content_trans by blast
    moreover have "set zs = set xs \<union> {b. \<exists>l. (l, b) \<in> set (es @ [e]) \<and> flush_due c abs_timeout b}"
      using 2 zs(2) ih(4) e by auto
    ultimately show ?thesis using fold cb zs(1) ih(5,6)
      by (intro exI [of _ "snd (enqueue_cache_item a TAIL c')"] exI [of _ zs] exI [of _ keys]) (auto simp: e)
  next
    case 3
    define keys' where "keys' = (if fi \<le> now - last_flush_time (item c' a) \<and> ci_values (item c' a) = [] then keys @ [k] else keys)"
    have "\<not> (ci_values (item c' a) \<noteq> [] \<and>
      (last_flush_time (item c' a) \<le> abs_timeout \<or> state c' \<noteq> RUNNING) \<and> \<not> suspended (item c' a))" using 3(2) due by blast
    then have cb: "tree_callback_flush fi now abs_timeout (k, a) (c', keys) = (c', keys')"
      unfolding tree_callback_flush_def Let_def prod.case q if_not_P [OF 3(1)]
      by (simp only: if_False nam assert_def keys'_def if_True simp_thms split: if_split) blast
    have kk: "keys' = keys \<or> keys' = keys @ [k] \<and> ci_values (item c a) = []" using bf(2) by (simp add: keys'_def)
    have "set ys = set xs \<union> {b. \<exists>l. (l, b) \<in> set (es @ [e]) \<and> flush_due c abs_timeout b}"
      using 3 ih(4) e by auto
    moreover have "distinct keys'" using kk ih(5) kn by auto
    moreover have "\<forall>l \<in> set keys'. \<exists>b. (l, b) \<in> set (es @ [e]) \<and> ci_values (item c b) = []"
    proof
      fix l assume "l \<in> set keys'"
      then have "l = k \<and> ci_values (item c a) = [] \<or> l \<in> set keys" using kk by auto
      then show "\<exists>b. (l, b) \<in> set (es @ [e]) \<and> ci_values (item c b) = []" using ih(6) e by auto
    qed
    ultimately show ?thesis using fold cb ih(2,3) by (intro exI [of _ c'] exI [of _ ys] exI [of _ keys']) simp
  qed
qed

lemma flush_old_values_inv:
  assumes inv: "cache_inv c xs" and ok: "foreach_ok foreach"
  shows "\<exists>ys. cache_inv (flush_old_values fi j foreach now max_age c) ys \<and>
    cached (flush_old_values fi j foreach now max_age c) = cached c \<and>
    set ys = set xs \<union> {a. \<exists>k. cache_tree c k = Some a \<and>
      flush_due c (if 0 < max_age then now - max_age else now + 2 * j + 1) a}"
proof -
  define abs_timeout where "abs_timeout = (if 0 < max_age then now - max_age else now + 2 * j + 1)"
  have t: "distinct (map fst (foreach (cache_tree c)))" "set (foreach (cache_tree c)) = {(k, a). cache_tree c k = Some a}"
    using ok cache_invD(2) [OF inv] by (auto simp: foreach_ok_def tree_ok_def)
  obtain c' ys keys where f: "fold (tree_callback_flush fi now abs_timeout) (foreach (cache_tree c)) (c, []) = (c', keys)"
    "cache_inv c' ys" "same_content c c'" "set ys = set xs \<union> {a. \<exists>k. cache_tree c k = Some a \<and> flush_due c abs_timeout a}"
    "distinct keys" "\<forall>k \<in> set keys. \<exists>a. cache_tree c k = Some a \<and> ci_values (item c a) = []"
    using flush_fold [OF inv _ t(1), of fi now abs_timeout] t(2) by auto
  have "\<forall>k \<in> set keys. \<exists>a. cache_tree c' k = Some a \<and> ci_values (item c' a) = []"
    using f(3,6) same_content_fields(2) [OF f(3)] by (simp add: same_content_def)
  from remove_keys_inv [OF f(2,5) this] f(4) show ?thesis
    by (simp add: flush_old_values_def Let_def f(1) abs_timeout_def [symmetric] same_content_cached [OF f(3)]) blast
qed

section \<open>Preservation of the invariant\<close>

definition cache_ok :: "cache \<Rightarrow> bool" where
  "cache_ok c \<longleftrightarrow> (\<exists>xs. cache_inv c xs)"

lemma cache_okI: "cache_inv c xs \<Longrightarrow> cache_ok c"
  by (auto simp: cache_ok_def)

lemma cache_ok_tree: "cache_ok c \<Longrightarrow> tree_ok c"
  by (auto simp: cache_ok_def cache_inv_def)

lemma cache_ok_null: "cache_ok c \<Longrightarrow> items c 0 = None"
  by (auto simp: cache_ok_def cache_inv_def queue_rep_def)

lemma cache_ok_aborted: "cache_ok c \<Longrightarrow> \<not> aborted c"
  by (auto simp: cache_ok_def cache_inv_def queue_rep_def)

lemma tree_not_null: "cache_ok c \<Longrightarrow> cache_tree c f = Some a \<Longrightarrow> a \<noteq> 0"
  by (metis cache_ok_null cache_ok_tree option.distinct(1) tree_okD)

lemma lookup_found: "cache_ok c \<Longrightarrow> g_tree_lookup c f = 0 \<longleftrightarrow> cache_tree c f = None"
  using tree_not_null by (auto simp: g_tree_lookup_def split: option.splits)

lemma lookup_Some: "g_tree_lookup c f \<noteq> 0 \<Longrightarrow> cache_tree c f = Some (g_tree_lookup c f)"
  by (auto simp: g_tree_lookup_def split: option.splits)

lemma enqueue_ok:
  assumes "cache_ok c" "cache_tree c f = Some a"
  shows "cache_ok (snd (enqueue_cache_item a side c))"
  using enqueue_inv [of c _ a side] tree_item(2) [OF cache_ok_tree [OF assms(1)] assms(2)] assms
  unfolding cache_ok_def by fastforce

lemma g_tree_remove_ok:
  assumes "cache_ok c"
  shows "cache_ok (snd (g_tree_remove f c))" "cached (snd (g_tree_remove f c)) = (cached c)(f := [])"
proof -
  obtain xs where inv: "cache_inv c xs" using assms by (auto simp: cache_ok_def)
  show "cache_ok (snd (g_tree_remove f c))"
  proof (cases "cache_tree c f")
    case (Some a)
    then show ?thesis using g_tree_remove_inv(2) [OF inv Some] by (auto simp: cache_ok_def)
  qed (use assms in \<open>simp add: g_tree_remove_def\<close>)
  show "cached (snd (g_tree_remove f c)) = (cached c)(f := [])"
  proof (cases "cache_tree c f")
    case (Some a)
    then show ?thesis using g_tree_remove_inv(3) [OF inv Some] by simp
  qed (auto simp: g_tree_remove_def cached_def fun_eq_iff)
qed

lemma take_ok:
  assumes "cache_ok c" "cache_tree c f = Some a"
  shows "cache_ok (remove_from_queue a (wipe_ci_values j r a when c))"
    "cached (remove_from_queue a (wipe_ci_values j r a when c)) = (cached c)(f := [])"
proof -
  obtain xs where inv: "cache_inv c xs" using assms by (auto simp: cache_ok_def)
  obtain i where i: "items c a = Some i" "ci_file i = f" using tree_okD [OF cache_ok_tree [OF assms(1)] assms(2)] by blast
  have t: "cache_tree c (ci_file i) = Some a" using i(2) assms(2) by simp
  show "cache_ok (remove_from_queue a (wipe_ci_values j r a when c))"
    by (rule cache_okI) (rule take_inv(1) [OF inv i(1) t])
  show "cached (remove_from_queue a (wipe_ci_values j r a when c)) = (cached c)(f := [])"
    using take_inv(2) [OF inv i(1) t] i(2) by simp
qed

lemma flush_old_values_ok:
  assumes "cache_ok c" "foreach_ok foreach"
  shows "cache_ok (flush_old_values fi j foreach now max_age c)"
    "cached (flush_old_values fi j foreach now max_age c) = cached c"
  using flush_old_values_inv [OF _ assms(2)] assms(1) unfolding cache_ok_def by blast+

text \<open>Changes of an item that keep its name, its links and whether it has values.\<close>

lemma upd_ok:
  assumes "cache_ok c" "\<And>i. ci_prev (g i) = ci_prev i" "\<And>i. ci_next (g i) = ci_next i" "\<And>i. in_queue (g i) = in_queue i"
    "\<And>i. ci_file (g i) = ci_file i" "\<And>i. in_tree (g i) = in_tree i" "\<And>i. ci_values i \<noteq> [] \<Longrightarrow> ci_values (g i) \<noteq> []"
  shows "cache_ok (upd a g c)"
proof -
  obtain xs where inv: "cache_inv c xs" using assms(1) by (auto simp: cache_ok_def)
  have rep: "queue_rep (upd a g c) xs" by (rule upd_rep [OF cache_invD(1) [OF inv] assms(2-4)])
  have tree: "tree_ok (upd a g c)" using cache_invD(2) [OF inv] assms(5,6) by (fastforce simp: tree_ok_def)
  have it: "item (upd a g c) b = (if b = a \<and> items c a \<noteq> None then g (item c a) else item c b)" for b
    by (auto simp: item_def split: option.splits)
  have "has_values (upd a g c) b \<and> cache_tree c (ci_file (item (upd a g c) b)) = Some b" if "b \<in> set xs" for b
    using cache_invD(3,4) [OF inv that] assms(5,7) by (auto simp: has_values_def it)
  then show ?thesis using rep tree unfolding cache_ok_def cache_inv_def by auto
qed

lemma upd_cached:
  assumes "tree_ok c" "cache_tree c f = Some a"
  shows "cached (upd a g c) = (cached c)(f := ci_values (g (item c a)))"
proof
  fix h
  obtain i where i: "items c a = Some i" using tree_okD [OF assms] by blast
  have it: "item (upd a g c) b = (if b = a then g (item c a) else item c b)" for b
    by (cases "b = a") (simp_all add: item_def i)
  show "cached (upd a g c) h = ((cached c)(f := ci_values (g (item c a)))) h"
  proof (cases "h = f")
    case True
    then show ?thesis using assms(2) by (simp add: cached_def it)
  next
    case False
    then have "cache_tree c h \<noteq> Some a" using tree_inj [OF assms] by blast
    then show ?thesis using False by (auto simp: cached_def it split: option.split)
  qed
qed

text \<open>A new item enters the tree, or is given up.\<close>

lemma new_item_rep:
  assumes "queue_rep c xs" "items c a = None" "a \<noteq> 0" "\<not> in_queue i" "ci_prev i = 0" "ci_next i = 0"
  shows "queue_rep (c\<lparr>items := (items c)(a \<mapsto> i)\<rparr>) xs"
proof -
  have "a \<notin> set xs" using linked_dom [OF queue_repD(3) [OF assms(1)]] assms(2) by blast
  then show ?thesis using assms by (auto simp: queue_rep_def linked_other)
qed

lemma new_item_other: "b \<noteq> a \<Longrightarrow> item (c\<lparr>items := (items c)(a \<mapsto> i), cache_tree := t\<rparr>) b = item c b"
  by (simp add: item_def)

lemma insert_ok:
  assumes "cache_ok c" "items c a = None" "a \<noteq> 0" "\<not> in_queue i" "ci_prev i = 0" "ci_next i = 0"
    and "in_tree i" "ci_file i = f" "ci_values i = []" "cache_tree c f = None"
  defines "c' \<equiv> c\<lparr>items := (items c)(a \<mapsto> i), cache_tree := (cache_tree c)(f \<mapsto> a)\<rparr>"
  shows "cache_ok c'" "cached c' = cached c" "item c' a = i"
proof -
  obtain xs where inv: "cache_inv c xs" using assms(1) by (auto simp: cache_ok_def)
  have t: "b \<noteq> a" if "cache_tree c g = Some b" for g b using tree_okD [OF cache_invD(2) [OF inv] that] assms(2) by auto
  have x: "b \<noteq> a" if "b \<in> set xs" for b using t cache_invD(4) [OF inv that] by blast
  have "queue_rep c' xs" using new_item_rep [OF cache_invD(1) [OF inv] assms(2-6)] by (simp add: c'_def queue_rep_def)
  moreover have "tree_ok c'" using cache_invD(2) [OF inv] t assms(7,8) by (auto simp: tree_ok_def c'_def)
  moreover have "has_values c' b \<and> cache_tree c' (ci_file (item c' b)) = Some b" if "b \<in> set xs" for b
    using cache_invD(3,4) [OF inv that] x [OF that] assms(10)
    by (auto simp: has_values_def c'_def new_item_other)
  ultimately show "cache_ok c'" by (auto simp: cache_ok_def cache_inv_def)
  show i: "item c' a = i" by (simp add: c'_def)
  show "cached c' = cached c"
  proof
    fix g
    show "cached c' g = cached c g"
      using t assms(9,10) i new_item_other unfolding cached_def by (auto simp: c'_def split: option.split)
  qed
qed

lemma give_up_ok:
  assumes "cache_ok c" "items c a = None" "a \<noteq> 0" "\<not> in_queue i" "ci_prev i = 0" "ci_next i = 0"
  defines "c' \<equiv> free_cache_item a (c\<lparr>items := (items c)(a \<mapsto> i)\<rparr>)"
  shows "cache_ok c'" "cached c' = cached c" "cache_tree c' = cache_tree c" "state c' = state c"
proof -
  obtain xs where inv: "cache_inv c xs" using assms(1) by (auto simp: cache_ok_def)
  let ?c = "c\<lparr>items := (items c)(a \<mapsto> i)\<rparr>"
  note fr = free_cache_item_at [OF assms(3), where c = ?c]
  have t: "b \<noteq> a" if "cache_tree c g = Some b" for g b using tree_okD [OF cache_invD(2) [OF inv] that] assms(2) by auto
  have x: "b \<noteq> a" if "b \<in> set xs" for b using t cache_invD(4) [OF inv that] by blast
  have it: "item ?c b = item c b" "items ?c b = items c b" if "b \<noteq> a" for b using that by (simp_all add: item_def)
  have bf: "ci_file (item c' b) = ci_file (item c b)" "ci_values (item c' b) = ci_values (item c b)"
    "in_tree (item c' b) = in_tree (item c b)" "items c' b = None \<longleftrightarrow> items c b = None" if "b \<noteq> a" for b
    using bare_item_fields [OF fr(3) [OF that]] it [OF that] by (simp_all add: c'_def)
  show ct: "cache_tree c' = cache_tree c" "state c' = state c" unfolding c'_def fr(2,4) by simp_all
  have "removeAll a xs = xs" using x by (metis removeAll_id)
  then have "queue_rep c' xs"
    using free_cache_item_rep [OF new_item_rep [OF cache_invD(1) [OF inv] assms(2-6)] assms(3)] by (simp add: c'_def)
  moreover have "tree_ok c'"
  proof -
    have "\<exists>k. items c' b = Some k \<and> ci_file k = g \<and> in_tree k" if g: "cache_tree c g = Some b" for g b
      using bf [OF t [OF g]] tree_item [OF cache_invD(2) [OF inv] g] by (metis item_Some not_None_eq)
    then show ?thesis using cache_invD(2) [OF inv] by (simp add: tree_ok_def ct)
  qed
  moreover have "has_values c' b \<and> cache_tree c' (ci_file (item c' b)) = Some b" if "b \<in> set xs" for b
    using cache_invD(3,4) [OF inv that] bf [OF x [OF that]] by (simp add: has_values_def ct)
  ultimately show "cache_ok c'" by (auto simp: cache_ok_def cache_inv_def)
  show "cached c' = cached c" using t bf(2) by (auto simp: cached_def ct fun_eq_iff split: option.split)
qed

end
