(* ===== verification/Rrd_Protocol.thy ===== *)
theory Rrd_Protocol
  imports Rrd_Prelude "HOL-Library.Sublist"
begin

text \<open>
  The line protocol between \<open>rrd_client.c\<close> and \<open>rrd_daemon.c\<close>: how the client writes the fields of a
  request into a buffer of \<open>RRD_CMD_MAX\<close> bytes, how the daemon takes lines out of its read buffer
  and fields out of a line, and the rules for file names. A request comes back as the fields it
  was made of.
\<close>

section \<open>The client\<close>

abbreviation "NUL \<equiv> CHR 0x00"
abbreviation "NL \<equiv> CHR 0x0A"
abbreviation "CR \<equiv> CHR 0x0D"
abbreviation "backslash \<equiv> CHR 0x5C"
abbreviation "blank \<equiv> CHR '' ''"

definition RRD_CMD_MAX :: nat where
  "RRD_CMD_MAX = 4096"

text \<open>\<open>buffer_add_string\<close> with \<open>n\<close> bytes left: the bytes written and what is left of the buffer.\<close>

fun buffer_add_string :: "string \<Rightarrow> nat \<Rightarrow> (string \<times> nat) option" where
  "buffer_add_string str 0 = None"
| "buffer_add_string [] (Suc n) = Some ([blank], n)"
| "buffer_add_string (c # str) (Suc n) =
     (if c = blank \<or> c = backslash
      then (case n of 0 \<Rightarrow> None
            | Suc m \<Rightarrow> map_option (\<lambda>(b, k). (backslash # c # b, k)) (buffer_add_string str m))
      else map_option (\<lambda>(b, k). (c # b, k)) (buffer_add_string str n))"

text \<open>\<open>temp\<close> of \<open>buffer_add_value\<close>: the time in place of \<open>N\<close>, cut to the size of the array.\<close>

definition stamped :: "ulong \<Rightarrow> string \<Rightarrow> string" where
  "stamped now val =
     take (RRD_CMD_MAX - 1) (if prefix ''N:'' val then int_string now @ '':'' @ drop 2 val else val)"

definition buffer_add_value :: "ulong \<Rightarrow> string \<Rightarrow> nat \<Rightarrow> (string \<times> nat) option" where
  "buffer_add_value now val n = buffer_add_string (stamped now val) n"

fun buffer_add_values :: "ulong \<Rightarrow> string list \<Rightarrow> nat \<Rightarrow> (string \<times> nat) option" where
  "buffer_add_values now [] n = Some ([], n)"
| "buffer_add_values now (v # vs) n =
     (case buffer_add_value now v n of
        None \<Rightarrow> None
      | Some (b, k) \<Rightarrow> map_option (\<lambda>(b', m). (b @ b', m)) (buffer_add_values now vs k))"

text \<open>The line \<open>rrd_client_update\<close> sends for the path \<open>get_path\<close> has found, \<open>None\<close> for \<open>ENOBUFS\<close>; the last blank
  becomes the end of the line.\<close>

definition update_request :: "ulong \<Rightarrow> string \<Rightarrow> string list \<Rightarrow> string option" where
  "update_request now file_path vals =
     (case buffer_add_string ''update'' RRD_CMD_MAX of
        None \<Rightarrow> None
      | Some (b1, n1) \<Rightarrow>
          (case buffer_add_string file_path n1 of
             None \<Rightarrow> None
           | Some (b2, n2) \<Rightarrow>
               (case buffer_add_values now vals n2 of
                  None \<Rightarrow> None
                | Some (b3, n3) \<Rightarrow> Some (butlast (b1 @ b2 @ b3) @ [NL]))))"

text \<open>\<open>filebased_command\<close> for \<open>flush\<close> and \<open>forget\<close>.\<close>

definition filebased_command :: "string \<Rightarrow> string \<Rightarrow> string option" where
  "filebased_command command file_path =
     (case buffer_add_string command RRD_CMD_MAX of
        None \<Rightarrow> None
      | Some (b1, n1) \<Rightarrow>
          map_option (\<lambda>(b2, n2). butlast (b1 @ b2) @ [NL]) (buffer_add_string file_path n1))"

section \<open>The daemon\<close>

text \<open>\<open>next_cmd\<close> on the bytes between \<open>next_cmd\<close> and \<open>next_read\<close>: the command without the end of the line, and
  what is left of the buffer.\<close>

definition chop_cr :: "string \<Rightarrow> string" where
  "chop_cr cmd = (if cmd \<noteq> [] \<and> last cmd = CR then butlast cmd else cmd)"

definition next_cmd :: "string \<Rightarrow> string option \<times> string" where
  "next_cmd rbuf =
     (if NL \<in> set rbuf
      then (Some (chop_cr (takeWhile (\<lambda>c. c \<noteq> NL) rbuf)), tl (dropWhile (\<lambda>c. c \<noteq> NL) rbuf))
      else (None, rbuf))"

text \<open>\<open>buffer_get_field\<close> on the bytes of a buffer that ends with NUL: the field, cut where the C string ends, and the
  rest of the buffer.\<close>

fun get_field :: "string \<Rightarrow> (string \<times> string) option" where
  "get_field [] = None"
| "get_field (c # cs) =
     (if c = blank \<or> c = NUL then Some ([], cs)
      else if c = backslash
      then (case cs of [] \<Rightarrow> None | d # ds \<Rightarrow> map_option (\<lambda>(f, r). (d # f, r)) (get_field ds))
      else map_option (\<lambda>(f, r). (c # f, r)) (get_field cs))"

definition cstr :: "string \<Rightarrow> string" where
  "cstr s = takeWhile (\<lambda>c. c \<noteq> NUL) s"

definition buffer_get_field :: "string \<Rightarrow> (string \<times> string) option" where
  "buffer_get_field buffer = map_option (\<lambda>(f, r). (cstr f, r)) (get_field buffer)"

lemma get_field_shorter: "get_field b = Some (f, r) \<Longrightarrow> length r < length b"
  by (induction b arbitrary: f r rule: get_field.induct) (fastforce split: if_splits list.splits)+

lemma buffer_get_field_shorter: "buffer_get_field b = Some (f, r) \<Longrightarrow> length r < length b"
  using get_field_shorter by (auto simp: buffer_get_field_def)

text \<open>All the fields, as the handlers take them one by one.\<close>

function all_fields :: "string \<Rightarrow> string list" where
  "all_fields b = (case buffer_get_field b of None \<Rightarrow> [] | Some (f, r) \<Rightarrow> f # all_fields r)"
  by pat_completeness auto
termination by (relation "measure length") (auto dest: buffer_get_field_shorter)

declare all_fields.simps [simp del]

section \<open>What is written is read\<close>

fun escaped :: "string \<Rightarrow> string" where
  "escaped [] = []"
| "escaped (c # s) = (if c = blank \<or> c = backslash then [backslash, c] else [c]) @ escaped s"

lemma buffer_add_string_val:
  "buffer_add_string s n =
   (if length (escaped s) < n then Some (escaped s @ [blank], n - length (escaped s) - 1) else None)"
  by (induction s n rule: buffer_add_string.induct) (auto split: nat.splits)

lemma get_field_escaped:
  "NUL \<notin> set s \<Longrightarrow> e = blank \<or> e = NUL \<Longrightarrow> get_field (escaped s @ e # r) = Some (s, r)"
  by (induction s) auto

lemma buffer_get_field_escaped:
  assumes "NUL \<notin> set s" "e = blank \<or> e = NUL"
  shows "buffer_get_field (escaped s @ e # r) = Some (s, r)"
  using get_field_escaped [OF assms] assms(1) by (auto simp: buffer_get_field_def cstr_def takeWhile_eq_all_conv)

definition request_text :: "string list \<Rightarrow> string" where
  "request_text fs = concat (map (\<lambda>s. escaped s @ [blank]) fs)"

lemma all_fields_request:
  assumes "fs \<noteq> []" "\<forall>s \<in> set fs. NUL \<notin> set s"
  shows "all_fields (butlast (request_text fs) @ [NUL]) = fs"
  using assms
proof (induction fs rule: list_nonempty_induct)
  case (single s)
  then show ?case
    using buffer_get_field_escaped [of s NUL "[]"]
    by (subst all_fields.simps) (simp add: request_text_def, subst all_fields.simps, simp add: buffer_get_field_def)
next
  case (cons s fs)
  have "request_text fs \<noteq> []" using cons by (cases fs) (simp_all add: request_text_def)
  then have "butlast (request_text (s # fs)) = escaped s @ blank # butlast (request_text fs)"
    by (simp add: request_text_def butlast_append)
  then show ?case using cons buffer_get_field_escaped [of s blank]
    by (subst all_fields.simps) simp
qed

lemma request_text_Cons: "request_text (s # fs) = escaped s @ blank # request_text fs" "request_text [] = []"
  by (simp_all add: request_text_def)

lemma buffer_add_values_val:
  "buffer_add_values now vs n =
   (let t = request_text (map (stamped now) vs) in if length t \<le> n then Some (t, n - length t) else None)"
  by (induction vs n rule: buffer_add_values.induct)
    (auto simp: request_text_Cons buffer_add_value_def buffer_add_string_val Let_def)

lemma update_request_val:
  "update_request now file_path vals =
   (let t = request_text (''update'' # file_path # map (stamped now) vals)
    in if length t \<le> RRD_CMD_MAX then Some (butlast t @ [NL]) else None)"
  by (auto simp: update_request_def buffer_add_string_val buffer_add_values_val request_text_Cons Let_def)

lemma set_escaped: "set (escaped s) \<subseteq> insert backslash (set s)"
  by (induction s) auto

lemma request_text_plain:
  "\<forall>s \<in> set fs. c \<notin> set s \<Longrightarrow> c \<noteq> blank \<Longrightarrow> c \<noteq> backslash \<Longrightarrow> c \<notin> set (request_text fs)"
proof (induction fs)
  case (Cons s fs)
  then show ?case using set_escaped [of s] by (auto simp: request_text_Cons)
qed (simp add: request_text_Cons)

lemma next_cmd_line:
  assumes "NL \<notin> set cmd"
  shows "next_cmd (cmd @ NL # rest) = (Some (chop_cr cmd), rest)"
proof -
  have "takeWhile (\<lambda>c. c \<noteq> NL) (cmd @ NL # rest) = cmd" "dropWhile (\<lambda>c. c \<noteq> NL) (cmd @ NL # rest) = NL # rest"
    using assms by (auto simp: takeWhile_append dropWhile_append)
  then show ?thesis by (simp add: next_cmd_def)
qed

lemma digit_plain: "c \<in> set (int_string k) \<Longrightarrow> c \<noteq> NUL \<and> c \<noteq> NL \<and> c \<noteq> CR"
proof -
  assume "c \<in> set (int_string k)"
  then have "c = CHR ''-'' \<or> is_digit c"
    using dec_string_digits [of "nat k"] dec_string_digits [of "nat (- k)"]
    by (auto simp: int_string_def list_all_iff split: if_splits)
  then show ?thesis by (auto simp: is_digit_def)
qed

lemma request_text_last:
  assumes "fs \<noteq> []" "CR \<notin> set (last fs)" "butlast (request_text fs) \<noteq> []"
  shows "last (butlast (request_text fs)) \<noteq> CR"
proof -
  obtain gs g where "fs = gs @ [g]" using assms(1) by (cases fs rule: rev_cases) auto
  then have "request_text fs = request_text (butlast fs) @ escaped (last fs) @ [blank]"
    by (simp add: request_text_def)
  then have b: "butlast (request_text fs) = request_text (butlast fs) @ escaped (last fs)" by (simp add: butlast_append)
  have rl: "last (request_text gs) = blank" if "gs \<noteq> []" for gs
    using that by (induction gs rule: rev_induct) (simp_all add: request_text_def)
  show ?thesis
  proof (cases "escaped (last fs) = []")
    case True
    then have "butlast fs \<noteq> []" using assms(3) b by (auto simp: request_text_def)
    then show ?thesis using True b rl by simp
  next
    case False
    then have "last (butlast (request_text fs)) \<in> set (escaped (last fs))" using b by simp
    then show ?thesis using set_escaped [of "last fs"] assms(2) by auto
  qed
qed

lemma stamped_plain:
  assumes "c = NUL \<or> c = NL \<or> c = CR" "c \<notin> set v"
  shows "c \<notin> set (stamped now v)"
  using assms digit_plain [of c now] by (auto simp: stamped_def dest!: in_set_takeD in_set_dropD split: if_splits)

text \<open>C20: An update request of the client arrives at the daemon as the fields it was made of: the first line of the read
  buffer is the command, whatever follows it stays, and the fields taken one by one are the word
  \<open>update\<close>, the path and the values with \<open>N\<close> replaced by the time, blanks and backslashes included. The client refuses
  a request exactly if it does not fit its buffer. The strings must not contain NUL or an
  end of line, which the protocol cannot express, and the last one must not end with a carriage return.\<close>

theorem update_request_parsed:
  assumes "\<forall>s \<in> set (file_path # vals). NUL \<notin> set s \<and> NL \<notin> set s"
    and "CR \<notin> set (last (file_path # vals))"
  shows "case update_request now file_path vals of
      None \<Rightarrow> RRD_CMD_MAX < length (request_text (''update'' # file_path # map (stamped now) vals))
    | Some line \<Rightarrow> \<exists>cmd. next_cmd (line @ rest) = (Some cmd, rest) \<and>
        all_fields (cmd @ [NUL]) = ''update'' # file_path # map (stamped now) vals"
proof -
  let ?fs = "''update'' # file_path # map (stamped now) vals"
  have plain: "NUL \<notin> set s \<and> NL \<notin> set s" if "s \<in> set ?fs" for s
    using that assms(1) stamped_plain by auto
  show ?thesis
  proof (cases "update_request now file_path vals")
    case (Some line)
    define cmd where "cmd = butlast (request_text ?fs)"
    have line: "line = cmd @ [NL]" using Some by (simp add: update_request_val Let_def cmd_def split: if_splits)
    have "NL \<notin> set (request_text ?fs)" by (rule request_text_plain) (use plain in auto)
    then have nl: "NL \<notin> set cmd" by (auto simp: cmd_def dest!: in_set_butlastD)
    have "CR \<notin> set (last ?fs)" using assms(2) stamped_plain [of CR] by (cases vals rule: rev_cases) auto
    then have "cmd \<noteq> [] \<Longrightarrow> last cmd \<noteq> CR" unfolding cmd_def by (intro request_text_last) simp_all
    then have "chop_cr cmd = cmd" by (auto simp: chop_cr_def)
    then show ?thesis using next_cmd_line [OF nl, of rest] all_fields_request [of ?fs] plain Some line by (simp add: cmd_def)
  qed (simp add: update_request_val Let_def split: if_splits)
qed

theorem update_request_parsed_witness:
  "\<exists>line cmd. update_request 1200000000 ''my file.rrd'' [''N:1:U'', ''1200000300:2:3''] = Some line \<and>
    next_cmd (line @ ''flush'') = (Some cmd, ''flush'') \<and>
    all_fields (cmd @ [NUL]) = [''update'', ''my file.rrd'', ''1200000000:1:U'', ''1200000300:2:3'']"
proof -
  have st: "map (stamped 1200000000) [''N:1:U'', ''1200000300:2:3''] = [''1200000000:1:U'', ''1200000300:2:3'']"
    by (simp add: stamped_def RRD_CMD_MAX_def int_string_def) (simp add: dec_string.simps digit_char_def, code_simp)
  have "update_request 1200000000 ''my file.rrd'' [''N:1:U'', ''1200000300:2:3''] \<noteq> None"
    unfolding update_request_val st by (simp add: request_text_def RRD_CMD_MAX_def)
  then show ?thesis
    using st update_request_parsed [of "''my file.rrd''" "[''N:1:U'', ''1200000300:2:3'']" 1200000000 "''flush''"]
    by (auto split: option.splits)
qed

end
