(* ===== verification/Rrd_Daemon.thy ===== *)
theory Rrd_Daemon
  imports Rrd_Cache Rrd_Protocol Rrd_Strtod
begin

text \<open>
  The requests of the caching daemon (\<open>rrd_daemon.c\<close>): its configuration, the response buffer of a
  connection, the journal, the handlers that work on the cache, the table of commands and the
  dispatcher. A handler is a function from the socket, the time, the rest of the request and the daemon to a
  result; the socket is \<open>None\<close> while a journal is replayed. A handler that waits until an item is
  written returns \<open>Waits\<close> with what it will return afterwards.

  The handlers that only pass a request on to other parts of the library (\<open>TUNE\<close>, \<open>DUMP\<close>, \<open>FETCH\<close>,
  \<open>FETCHBIN\<close>, \<open>INFO\<close>, \<open>FIRST\<close>, \<open>LAST\<close>, \<open>CREATE\<close>, \<open>LIST\<close>) are one parameter. \<open>malloc\<close> of other memory
  than cache items, \<open>write\<close> to the socket and \<open>fprintf\<close> to the journal succeed.
\<close>

section \<open>State\<close>

record config =
  config_write_interval :: cint
  config_write_jitter :: cint
  config_flush_interval :: cint
  config_base_dir :: "string option"
  config_write_base_only :: bool
  config_has_journal :: bool

text \<open>The journal files in use, as the lines they hold: those before the last rotation, those since; whether the
  last one is open.\<close>

record journal =
  journal_old :: "string list list"
  journal_cur :: "string list list"
  journal_fh :: bool
  journal_size :: clong

record daemon =
  d_cache :: cache
  d_journal :: journal
  config_flush_at_shutdown :: bool
  stats_updates_received :: ulong
  stats_flush_received :: ulong
  stats_updates_written :: ulong
  stats_data_sets_written :: ulong
  stats_journal_bytes :: ulong
  stats_journal_rotate :: ulong

text \<open>A connection: \<open>out\<close> is what has been written to it, \<open>overrun\<close> that bytes behind the end of an array were
  used.\<close>

record listen_socket =
  sock_id :: conn
  batch_start :: time_t
  batch_cmd :: cint
  wbuf_data :: "string option"
  wbuf_capacity :: nat
  permissions :: "32 word"
  out :: string
  overrun :: bool

text \<open>What the daemon finds about a file it does not know yet: the result of \<open>stat\<close>, \<open>access\<close> and \<open>rrd_open\<close>.\<close>

datatype file_found =
    Stat_failed int
  | Not_regular
  | Not_accessible string
  | Not_readable string
  | Last_update time_t

record 'r daemon_env =
  conf :: config
  time_now :: time_t
  random :: int
  malloc :: "(addr \<Rightarrow> cache_item_t option) \<Rightarrow> addr"
  foreach :: "(string \<Rightarrow> addr option) \<Rightarrow> (string \<times> addr) list"
  find_file :: "string \<Rightarrow> file_found"
  regular_file :: "string \<Rightarrow> bool"
  strerror :: "int \<Rightarrow> string"
  show_lf :: "dbl \<Rightarrow> string"
  tree_height :: "(string \<Rightarrow> addr option) \<Rightarrow> nat"
  can_open_journal :: bool
  other_handler :: "string \<Rightarrow> listen_socket option \<Rightarrow> time_t \<Rightarrow> string \<Rightarrow> daemon \<Rightarrow> 'r"

datatype response =
    Replied int "listen_socket option" daemon
  | Waits addr int "listen_socket option" daemon

type_synonym env = "response daemon_env"

section \<open>Responses\<close>

datatype response_code = RESP_ERR | RESP_OK | RESP_OK_BIN

fun code_val :: "response_code \<Rightarrow> int" where
  "code_val RESP_ERR = - 1"
| "code_val RESP_OK = 0"
| "code_val RESP_OK_BIN = 1"

function grow_capacity :: "nat \<Rightarrow> nat \<Rightarrow> nat" where
  "grow_capacity cap need = (if 0 < cap \<and> cap \<le> need then grow_capacity (cap * 2) need else cap)"
  by pat_completeness auto
termination by (relation "measure (\<lambda>(cap, need). Suc need - cap)") auto

declare grow_capacity.simps [simp del]

definition wbuf_text :: "listen_socket \<Rightarrow> string" where
  "wbuf_text sock = (case wbuf_data sock of None \<Rightarrow> [] | Some t \<Rightarrow> t)"

definition wbuf_append :: "listen_socket \<Rightarrow> string \<Rightarrow> int \<times> listen_socket" where
  "wbuf_append sock str =
     (let cap = grow_capacity (if wbuf_capacity sock = 0 then 4096 else wbuf_capacity sock)
                  (length (wbuf_text sock) + length str)
      in (0, sock\<lparr>wbuf_capacity := cap, wbuf_data := Some (wbuf_text sock @ str)\<rparr>))"

text \<open>A formatted text that does not fit the array is cut there and gets a NUL, but its full length is used: what follows
  the array is not modelled.\<close>

definition in_buffer :: "string \<Rightarrow> listen_socket \<Rightarrow> string \<times> listen_socket" where
  "in_buffer text sock =
     (if length text < RRD_CMD_MAX then (text, sock)
      else (take (RRD_CMD_MAX - 1) text @ [NUL],
            if length text = RRD_CMD_MAX then sock else sock\<lparr>overrun := True\<rparr>))"

definition add_response_info :: "listen_socket option \<Rightarrow> string \<Rightarrow> int \<times> listen_socket option" where
  "add_response_info s text =
     (case s of
        None \<Rightarrow> (0, None)
      | Some sock \<Rightarrow>
          if batch_start sock \<noteq> 0 then (0, Some sock)
          else let (b, sock1) = in_buffer text sock; (rc, sock2) = wbuf_append sock1 b in (rc, Some sock2))"

definition count_lines :: "string option \<Rightarrow> cint" where
  "count_lines str = (case str of None \<Rightarrow> 0 | Some t \<Rightarrow> int (count_list (cstr t) NL))"

definition send_response :: "listen_socket option \<Rightarrow> response_code \<Rightarrow> string \<Rightarrow> int \<times> listen_socket option" where
  "send_response s rc text =
     (case s of
        None \<Rightarrow> (code_val rc, None)
      | Some sock \<Rightarrow>
          if batch_start sock \<noteq> 0 \<and> rc = RESP_OK then (0, Some sock)
          else let n = (if batch_start sock \<noteq> 0 then batch_cmd sock
                        else if rc = RESP_OK then count_lines (wbuf_data sock)
                        else if rc = RESP_OK_BIN then 1 else - 1);
                   (b, sock1) = in_buffer ((if rc = RESP_OK_BIN then [] else int_string n @ [blank]) @ text) sock
               in if batch_start sock \<noteq> 0
                  then let (r, sock2) = wbuf_append sock1 b in (r, Some sock2)
                  else (0, Some (sock1\<lparr>out := out sock1 @ b @ (if rc = RESP_ERR then [] else wbuf_text sock1),
                                       wbuf_data := None, wbuf_capacity := 0\<rparr>)))"

definition reply :: "listen_socket option \<Rightarrow> response_code \<Rightarrow> string \<Rightarrow> daemon \<Rightarrow> response" where
  "reply s rc text d = (case send_response s rc text of (r, s') \<Rightarrow> Replied r s' d)"

definition syntax_error :: "listen_socket option \<Rightarrow> string option \<Rightarrow> daemon \<Rightarrow> response" where
  "syntax_error s syntax d =
     reply s RESP_ERR (''Usage: '' @ (case syntax of None \<Rightarrow> ''Syntax error.'' @ [NL] | Some t \<Rightarrow> t)) d"

section \<open>File names\<close>

fun has_substring :: "string \<Rightarrow> string \<Rightarrow> bool" where
  "has_substring pat [] = (pat = [])"
| "has_substring pat (c # cs) = (prefix pat (c # cs) \<or> has_substring pat cs)"

definition check_file_access :: "config \<Rightarrow> string \<Rightarrow> listen_socket option \<Rightarrow> bool" where
  "check_file_access cf file s =
     (case config_base_dir cf of
        None \<Rightarrow> True
      | Some base \<Rightarrow>
          if \<not> config_write_base_only cf \<or> s = None then True
          else if has_substring ''../'' file then False
          else if file = [] \<or> hd file \<noteq> CHR ''/'' then True
          else if length file < length base + 1 then False
          else if take (length base) file \<noteq> base then False
          else file ! length base = CHR ''/'')"

definition get_abs_path :: "config \<Rightarrow> string \<Rightarrow> string" where
  "get_abs_path cf filename =
     (case config_base_dir cf of
        None \<Rightarrow> filename
      | Some base \<Rightarrow> if filename \<noteq> [] \<and> hd filename = CHR ''/'' then filename else base @ ''/'' @ filename)"

section \<open>The journal\<close>

definition JOURNAL_MAX :: int where
  "JOURNAL_MAX = 1024 * 1024 * 1024"

definition journal_close :: "journal \<Rightarrow> journal" where
  "journal_close j = j\<lparr>journal_fh := False, journal_size := 0\<rparr>"

text \<open>A file that cannot be opened turns the journal off and the flush at the shutdown on.\<close>

definition journal_new_file :: "env \<Rightarrow> daemon \<Rightarrow> daemon" where
  "journal_new_file e d =
     (let j = journal_close (d_journal d)
      in if can_open_journal e
         then d\<lparr>d_journal := j\<lparr>journal_fh := True, journal_size := 0, journal_cur := journal_cur j @ [[]]\<rparr>\<rparr>
         else d\<lparr>d_journal := j, config_flush_at_shutdown := True\<rparr>)"

definition journal_rotate :: "env \<Rightarrow> daemon \<Rightarrow> daemon" where
  "journal_rotate e d =
     (if \<not> config_has_journal (conf e) then d
      else let d1 = d\<lparr>stats_journal_rotate := u64 (stats_journal_rotate d + 1)\<rparr>;
               j = journal_close (d_journal d1)
           in journal_new_file e (d1\<lparr>d_journal := j\<lparr>journal_old := journal_cur j, journal_cur := []\<rparr>\<rparr>))"

definition journal_write :: "env \<Rightarrow> string \<Rightarrow> string \<Rightarrow> daemon \<Rightarrow> daemon" where
  "journal_write e cmd args d =
     (let j = d_journal d; line = cmd @ [blank] @ args; chars = int (length line) + 1
      in if \<not> journal_fh j then d
         else let j1 = j\<lparr>journal_cur := butlast (journal_cur j) @ [last (journal_cur j) @ [line]],
                         journal_size := journal_size j + chars\<rparr>;
                  d1 = d\<lparr>d_journal := j1\<rparr>;
                  d2 = (if JOURNAL_MAX < journal_size j1 then journal_new_file e d1 else d1)
              in d2\<lparr>stats_journal_bytes := u64 (stats_journal_bytes d2 + chars)\<rparr>)"

section \<open>Handlers on the cache\<close>

definition with_cache :: "(cache \<Rightarrow> cache) \<Rightarrow> daemon \<Rightarrow> daemon" where
  "with_cache f d = d\<lparr>d_cache := f (d_cache d)\<rparr>"

definition wipe :: "env \<Rightarrow> addr \<Rightarrow> time_t \<Rightarrow> cache \<Rightarrow> cache" where
  "wipe e a when c = wipe_ci_values (config_write_jitter (conf e)) (random e) a when c"

definition flush_values :: "env \<Rightarrow> cint \<Rightarrow> daemon \<Rightarrow> daemon" where
  "flush_values e max_age d = with_cache (flush_old_values (config_flush_interval (conf e))
     (config_write_jitter (conf e)) (foreach e) (time_now e) max_age) d"

text \<open>The file of a request, for the handlers that start with it.\<close>

definition ENOENT :: int where
  "ENOENT = 2"

definition EACCES :: int where
  "EACCES = 13"

text \<open>\<open>flush_file\<close>: \<open>ENOENT\<close>, 0, or an item to wait for.\<close>

datatype flush_result = Flush_status int | Flush_wait addr

definition flush_file :: "string \<Rightarrow> conn \<Rightarrow> daemon \<Rightarrow> flush_result \<times> daemon" where
  "flush_file file k d =
     (let c = d_cache d; a = g_tree_lookup c file; ci = item c a
      in if a = 0 then (Flush_status ENOENT, d)
         else if ci_values ci \<noteq> [] \<and> \<not> suspended ci
         then (Flush_wait a, with_cache (upd a (flushed_update (\<lambda>w. w @ [k])) \<circ> put_first a) d)
         else (Flush_status 0, d))"

definition handle_request_flush :: "env \<Rightarrow> string option \<Rightarrow> listen_socket option \<Rightarrow> time_t \<Rightarrow> string \<Rightarrow> daemon \<Rightarrow> response" where
  "handle_request_flush e syntax s now buffer d =
     (case buffer_get_field buffer of
        None \<Rightarrow> syntax_error s syntax d
      | Some (pbuffile, rest) \<Rightarrow>
          let d1 = d\<lparr>stats_flush_received := u64 (stats_flush_received d + 1)\<rparr>; file = get_abs_path (conf e) pbuffile
          in if \<not> check_file_access (conf e) file s
             then reply s RESP_ERR (file @ '': '' @ strerror e EACCES @ [NL]) d1
             else (case flush_file file (case s of None \<Rightarrow> 0 | Some k \<Rightarrow> sock_id k) d1 of
                     (Flush_wait a, d2) \<Rightarrow>
                       (case send_response s RESP_OK (''Successfully flushed '' @ file @ ''.'' @ [NL]) of
                          (r, s') \<Rightarrow> Waits a r s' d2)
                   | (Flush_status st, d2) \<Rightarrow>
                       if st = 0 then reply s RESP_OK (''Successfully flushed '' @ file @ ''.'' @ [NL]) d2
                       else if regular_file e file then reply s RESP_OK (''Nothing to flush: '' @ file @ ''.'' @ [NL]) d2
                       else reply s RESP_ERR (''No such file: '' @ file @ ''.'' @ [NL]) d2))"

definition handle_request_flushall :: "env \<Rightarrow> listen_socket option \<Rightarrow> daemon \<Rightarrow> response" where
  "handle_request_flushall e s d = reply s RESP_OK (''Started flush.'' @ [NL]) (flush_values e (- 1) d)"

definition add_lines :: "string list \<Rightarrow> listen_socket option \<Rightarrow> listen_socket option" where
  "add_lines ls s = fold (\<lambda>l s. snd (add_response_info s (l @ [NL]))) ls s"

definition handle_request_pending :: "env \<Rightarrow> string option \<Rightarrow> listen_socket option \<Rightarrow> string \<Rightarrow> daemon \<Rightarrow> response" where
  "handle_request_pending e syntax s buffer d =
     (case buffer_get_field buffer of
        None \<Rightarrow> syntax_error s syntax d
      | Some (pbuffile, rest) \<Rightarrow>
          let c = d_cache d; a = g_tree_lookup c (get_abs_path (conf e) pbuffile)
          in reply (if a = 0 then s else add_lines (ci_values (item c a)) s) RESP_OK (''updates pending'' @ [NL]) d)"

definition handle_request_forget :: "env \<Rightarrow> string option \<Rightarrow> listen_socket option \<Rightarrow> string \<Rightarrow> daemon \<Rightarrow> response" where
  "handle_request_forget e syntax s buffer d =
     (case buffer_get_field buffer of
        None \<Rightarrow> syntax_error s syntax d
      | Some (pbuffile, rest) \<Rightarrow>
          let file = get_abs_path (conf e) pbuffile
          in if \<not> check_file_access (conf e) file s
             then reply s RESP_ERR (file @ '': '' @ strerror e EACCES @ [NL]) d
             else case g_tree_remove file (d_cache d) of (found, c) \<Rightarrow>
               let d1 = d\<lparr>d_cache := c\<rparr>
               in if found
                  then reply s RESP_OK (''Gone!'' @ [NL]) (if s = None then d1 else journal_write e ''forget'' file d1)
                  else reply s RESP_ERR (strerror e ENOENT @ [NL]) d1)"

text \<open>The walk along the queue; the number of steps is bounded by the counter of its items.\<close>

fun queue_lines :: "nat \<Rightarrow> cache \<Rightarrow> addr \<Rightarrow> string list" where
  "queue_lines 0 c a = []"
| "queue_lines (Suc n) c a =
     (if a = 0 then []
      else (int_string (s32 (int (length (ci_values (item c a))))) @ [blank] @ ci_file (item c a))
        # queue_lines n c (ci_next (item c a)))"

definition handle_request_queue :: "listen_socket option \<Rightarrow> daemon \<Rightarrow> response" where
  "handle_request_queue s d =
     (let c = d_cache d
      in reply (add_lines (queue_lines (nat (stats_queue_length c)) c (cache_queue_head c)) s) RESP_OK (''in queue.'' @ [NL]) d)"

text \<open>\<open>WROTE\<close> occurs in journals only.\<close>

definition handle_request_wrote :: "env \<Rightarrow> listen_socket option \<Rightarrow> time_t \<Rightarrow> string \<Rightarrow> daemon \<Rightarrow> response" where
  "handle_request_wrote e s now buffer d =
     (let a = g_tree_lookup (d_cache d) (cstr buffer)
      in Replied 0 s (if a = 0 then d else with_cache (remove_from_queue a \<circ> wipe e a now) d))"

section \<open>Updates\<close>

text \<open>The loop over the values of a request, from the time of the last update on: the values that are accepted, the
  new time, and what ends the loop.\<close>

datatype update_end = All_taken | No_timestamp string | Illegal_time dbl dbl

function update_loop :: "dbl \<Rightarrow> string \<Rightarrow> string list \<times> dbl \<times> update_end" where
  "update_loop lst buffer =
     (case buffer_get_field buffer of
        None \<Rightarrow> ([], lst, All_taken)
      | Some (val, rest) \<Rightarrow>
          (case rrd_strtodbl val of (code, stamp, eostamp) \<Rightarrow>
             if code \<noteq> 1 \<or> hd eostamp \<noteq> CHR '':'' then ([], lst, No_timestamp val)
             else if stamp \<le> lst then ([], lst, Illegal_time stamp lst)
             else (case update_loop stamp rest of (vs, l, r) \<Rightarrow> (val # vs, l, r))))"
  by pat_completeness auto
termination by (relation "measure (length \<circ> snd)") (auto dest: buffer_get_field_shorter)

declare update_loop.simps [simp del]

text \<open>\<open>update_lookup\<close> is the part up to the first look into the tree; \<open>update_values\<close> the part from the journal to the
  response, which runs under the same lock as the look into the tree that has found the item.\<close>

datatype lookup_result =
    Lookup_reply response
  | Lookup_found addr string daemon
  | Lookup_missing string string daemon

definition update_lookup :: "env \<Rightarrow> string option \<Rightarrow> listen_socket option \<Rightarrow> string \<Rightarrow> daemon \<Rightarrow> lookup_result" where
  "update_lookup e syntax s buffer d =
     (case buffer_get_field buffer of
        None \<Rightarrow> Lookup_reply (syntax_error s syntax d)
      | Some (pbuffile, rest) \<Rightarrow>
          let d1 = d\<lparr>stats_updates_received := u64 (stats_updates_received d + 1)\<rparr>;
              file = get_abs_path (conf e) pbuffile; a = g_tree_lookup (d_cache d1) file
          in if \<not> check_file_access (conf e) file s
             then Lookup_reply (reply s RESP_ERR (file @ '': '' @ strerror e EACCES @ [NL]) d1)
             else if a = 0 then Lookup_missing file rest d1
             else Lookup_found a rest d1)"

definition orig_buf :: "string \<Rightarrow> string" where
  "orig_buf buffer = cstr (take (min RRD_CMD_MAX (length buffer) - 1) buffer)"

definition update_values ::
  "env \<Rightarrow> listen_socket option \<Rightarrow> time_t \<Rightarrow> string \<Rightarrow> string \<Rightarrow> addr \<Rightarrow> daemon \<Rightarrow> response" where
  "update_values e s now orig rest a d =
     (let d1 = (if s = None then d else journal_write e ''update'' orig d);
          (vs, stamp, res) = update_loop (last_update_stamp (item (d_cache d1) a)) rest;
          d2 = with_cache (upd a (\<lambda>ci. ci\<lparr>ci_values := ci_values ci @ vs, last_update_stamp := stamp\<rparr>)) d1;
          ci = item (d_cache d2) a;
          d3 = (if config_write_interval (conf e) \<le> now - last_flush_time ci \<and> \<not> in_queue ci \<and> \<not> suspended ci \<and> ci_values ci \<noteq> []
                then with_cache (put_last a) d2 else d2)
      in case res of
           No_timestamp val \<Rightarrow> reply s RESP_ERR (''Cannot find timestamp in '' @ [CHR 0x27] @ val @ [CHR 0x27] @ ''!'' @ [NL]) d2
         | Illegal_time t l \<Rightarrow>
             reply s RESP_ERR (''illegal attempt to update using time '' @ show_lf e t @ '' when last update time is '' @
               show_lf e l @ '' (minimum one second step)'' @ [NL]) d2
         | All_taken \<Rightarrow>
             if vs = [] then reply s RESP_ERR (''No values updated.'' @ [NL]) d3
             else reply s RESP_OK (''errors, enqueued '' @ int_string (int (length vs)) @ '' value(s).'' @ [NL]) d3)"

text \<open>A file that is not in the tree is looked at without the lock; \<open>update_prepare\<close> makes its item.\<close>

definition new_item :: "env \<Rightarrow> string \<Rightarrow> time_t \<Rightarrow> time_t \<Rightarrow> cache_item_t" where
  "new_item e file now last_up =
     zero_item\<lparr>ci_file := file, last_update_stamp := dint last_up, in_tree := True,
       last_flush_time := (if 0 < config_write_jitter (conf e) then now + cmod (random e) (config_write_jitter (conf e)) else now)\<rparr>"

definition update_prepare ::
  "env \<Rightarrow> listen_socket option \<Rightarrow> time_t \<Rightarrow> string \<Rightarrow> daemon \<Rightarrow> response + addr \<times> daemon" where
  "update_prepare e s now file d =
     (case find_file e file of
        Stat_failed err \<Rightarrow>
          Inl (if err = ENOENT then reply s RESP_ERR (''No such file: '' @ file @ [NL]) d
               else reply s RESP_ERR (''stat failed with error '' @ int_string err @ ''.'' @ [NL]) d)
      | Not_regular \<Rightarrow> Inl (reply s RESP_ERR (''Not a regular file: '' @ file @ [NL]) d)
      | Not_accessible msg \<Rightarrow> Inl (reply s RESP_ERR (''Cannot read/write '' @ file @ '': '' @ msg @ [NL]) d)
      | Not_readable msg \<Rightarrow>
          Inl (reply s RESP_ERR (if malloc e (items (d_cache d)) = 0 then ''malloc failed.'' @ [NL] else ''RRD Error: '' @ msg @ [NL]) d)
      | Last_update last_up \<Rightarrow>
          let a = malloc e (items (d_cache d))
          in if a = 0 then Inl (reply s RESP_ERR (''malloc failed.'' @ [NL]) d)
             else if dint last_up < 1 then Inl (reply s RESP_ERR (''Error: rrdcached: Invalid timestamp returned'' @ [NL]) d)
             else Inr (a, with_cache (\<lambda>c. c\<lparr>items := (items c)(a \<mapsto> new_item e file now last_up)\<rparr>) d))"

text \<open>Then, with the lock again, the item enters the tree, unless another update has added one in the meantime.\<close>

definition update_insert ::
  "env \<Rightarrow> listen_socket option \<Rightarrow> time_t \<Rightarrow> string \<Rightarrow> string \<Rightarrow> string \<Rightarrow> addr \<Rightarrow> daemon \<Rightarrow> response" where
  "update_insert e s now orig file rest a d =
     (let c = d_cache d; tmp = g_tree_lookup c file;
          (b, d1) = (if tmp = 0 then (a, d\<lparr>d_cache := c\<lparr>cache_tree := (cache_tree c)(file \<mapsto> a)\<rparr>\<rparr>)
                     else (tmp, with_cache (free_cache_item a) d))
      in if state (d_cache d1) = SHUTDOWN then Replied (- 1) s d1
         else update_values e s now orig rest b d1)"

definition handle_request_update ::
  "env \<Rightarrow> string option \<Rightarrow> listen_socket option \<Rightarrow> time_t \<Rightarrow> string \<Rightarrow> daemon \<Rightarrow> response" where
  "handle_request_update e syntax s now buffer d =
     (case update_lookup e syntax s buffer d of
        Lookup_reply r \<Rightarrow> r
      | Lookup_found a rest d1 \<Rightarrow> update_values e s now (orig_buf buffer) rest a d1
      | Lookup_missing file rest d1 \<Rightarrow>
          (case update_prepare e s now file d1 of
             Inl r \<Rightarrow> r
           | Inr (a, d2) \<Rightarrow> update_insert e s now (orig_buf buffer) file rest a d2))"

section \<open>Suspended files\<close>

text \<open>The handlers of this section look up an item and change its flags without the lock of the cache. \<open>set_suspended\<close> is the change
  when nobody else accesses the item meanwhile. In the code it is a load and a store of all flags
  (\<open>flags_load\<close>, \<open>flags_store\<close>), between which another thread may change them.\<close>

definition set_suspended :: "bool \<Rightarrow> addr \<Rightarrow> daemon \<Rightarrow> daemon" where
  "set_suspended b a d = with_cache (upd a (suspended_update (\<lambda>_. b))) d"

definition flags_load :: "addr \<Rightarrow> daemon \<Rightarrow> bool \<times> bool" where
  "flags_load a d = (let i = item (d_cache d) a in (in_tree i, in_queue i))"

definition flags_store :: "bool \<Rightarrow> bool \<times> bool \<Rightarrow> addr \<Rightarrow> daemon \<Rightarrow> daemon" where
  "flags_store b flags a d =
     with_cache (upd a (\<lambda>i. i\<lparr>suspended := b, in_tree := fst flags, in_queue := snd flags\<rparr>)) d"

text \<open>\<open>buffer_get_cache_item\<close> yields the item and the name of its file; without an item the handlers return -1, whatever
  \<open>buffer_get_cache_item\<close> has sent.\<close>

definition buffer_get_cache_item ::
  "env \<Rightarrow> string option \<Rightarrow> listen_socket option \<Rightarrow> string \<Rightarrow> daemon \<Rightarrow> listen_socket option + addr \<times> string" where
  "buffer_get_cache_item e syntax s buffer d =
     (case buffer_get_field buffer of
        None \<Rightarrow> (case syntax_error s syntax d of Replied _ s' _ \<Rightarrow> Inl s' | Waits _ _ s' _ \<Rightarrow> Inl s')
      | Some (pbuffile, rest) \<Rightarrow>
          let file = get_abs_path (conf e) pbuffile; a = g_tree_lookup (d_cache d) file
          in if a = 0 then Inl (snd (send_response s RESP_ERR (file @ '' - '' @ strerror e ENOENT @ [NL])))
             else Inr (a, file))"

definition handle_request_suspend :: "env \<Rightarrow> string option \<Rightarrow> listen_socket option \<Rightarrow> string \<Rightarrow> daemon \<Rightarrow> response" where
  "handle_request_suspend e syntax s buffer d =
     (case buffer_get_cache_item e syntax s buffer d of
        Inl s' \<Rightarrow> Replied (- 1) s' d
      | Inr (a, file) \<Rightarrow>
          if suspended (item (d_cache d) a) then reply s RESP_OK (file @ '' already suspended'' @ [NL]) d
          else reply s RESP_OK (file @ '' suspended'' @ [NL]) (set_suspended True a d))"

definition handle_request_resume :: "env \<Rightarrow> string option \<Rightarrow> listen_socket option \<Rightarrow> string \<Rightarrow> daemon \<Rightarrow> response" where
  "handle_request_resume e syntax s buffer d =
     (case buffer_get_cache_item e syntax s buffer d of
        Inl s' \<Rightarrow> Replied (- 1) s' d
      | Inr (a, file) \<Rightarrow>
          if \<not> suspended (item (d_cache d) a) then reply s RESP_OK (file @ '' not suspended'' @ [NL]) d
          else reply s RESP_OK (file @ '' resumed'' @ [NL]) (set_suspended False a d))"

definition tree_callback_suspend :: "bool \<Rightarrow> string \<times> addr \<Rightarrow> daemon \<times> int \<Rightarrow> daemon \<times> int" where
  "tree_callback_suspend b entry acc =
     (case acc of (d, n) \<Rightarrow>
        if suspended (item (d_cache d) (snd entry)) \<noteq> b then (set_suspended b (snd entry) d, n + 1) else (d, n))"

definition handle_request_suspendall :: "env \<Rightarrow> listen_socket option \<Rightarrow> daemon \<Rightarrow> response" where
  "handle_request_suspendall e s d =
     (case fold (tree_callback_suspend True) (foreach e (cache_tree (d_cache d))) (d, 0) of
        (d1, n) \<Rightarrow> reply s RESP_OK (int_string n @ '' rrds suspend'' @ [NL]) d1)"

definition handle_request_resumeall :: "env \<Rightarrow> listen_socket option \<Rightarrow> daemon \<Rightarrow> response" where
  "handle_request_resumeall e s d =
     (case fold (tree_callback_suspend False) (foreach e (cache_tree (d_cache d))) (d, 0) of
        (d1, n) \<Rightarrow> reply s RESP_OK (int_string n @ '' rrds resumed'' @ [NL]) d1)"

section \<open>Other requests\<close>

definition handle_request_stats :: "env \<Rightarrow> listen_socket option \<Rightarrow> daemon \<Rightarrow> response" where
  "handle_request_stats e s d =
     (let c = d_cache d; line = (\<lambda>t n. t @ '': '' @ int_string n)
      in reply (add_lines
           [line ''QueueLength'' (stats_queue_length c), line ''UpdatesReceived'' (stats_updates_received d),
            line ''FlushesReceived'' (stats_flush_received d), line ''UpdatesWritten'' (stats_updates_written d),
            line ''DataSetsWritten'' (stats_data_sets_written d),
            line ''TreeNodesNumber'' (int (length (foreach e (cache_tree c)))),
            line ''TreeDepth'' (int (tree_height e (cache_tree c))), line ''JournalBytes'' (stats_journal_bytes d),
            line ''JournalRotate'' (stats_journal_rotate d)] s) RESP_OK (''Statistics follow'' @ [NL]) d)"

text \<open>\<open>BATCH\<close> and its end; both need a connection.\<close>

definition handle_batch_start :: "env \<Rightarrow> listen_socket option \<Rightarrow> daemon \<Rightarrow> response" where
  "handle_batch_start e s d =
     (case s of
        None \<Rightarrow> Replied (- 1) None d
      | Some sock \<Rightarrow>
          if batch_start sock \<noteq> 0 then reply s RESP_ERR (''Already in BATCH'' @ [NL]) d
          else case send_response s RESP_OK (''Go ahead.  End with dot '' @ [CHR 0x27] @ ''.'' @ [CHR 0x27] @ '' on its own line.'' @ [NL]) of
            (r, s') \<Rightarrow> Replied r (map_option (\<lambda>k. k\<lparr>batch_start := time_now e, batch_cmd := 0\<rparr>) s') d)"

definition batch_done :: "listen_socket option \<Rightarrow> daemon \<Rightarrow> response" where
  "batch_done s d = reply (map_option (\<lambda>k. k\<lparr>batch_start := 0, batch_cmd := 0\<rparr>) s) RESP_OK (''errors'' @ [NL]) d"

section \<open>Commands\<close>

text \<open>Name, contexts and syntax of a command. \<open>CMD_CONTEXT_ANY\<close> is all three contexts.\<close>

datatype cmd_context = CMD_CONTEXT_CLIENT | CMD_CONTEXT_BATCH | CMD_CONTEXT_JOURNAL

record command_t =
  cmd :: string
  cmd_contexts :: "cmd_context list"
  cmd_syntax :: "string option"

abbreviation "any_context \<equiv> [CMD_CONTEXT_CLIENT, CMD_CONTEXT_BATCH, CMD_CONTEXT_JOURNAL]"
abbreviation "client_batch \<equiv> [CMD_CONTEXT_CLIENT, CMD_CONTEXT_BATCH]"

definition list_of_commands :: "command_t list" where
  "list_of_commands = map (\<lambda>(n, cs, sy). \<lparr>cmd = n, cmd_contexts = cs, cmd_syntax = map_option (\<lambda>t. t @ [NL]) sy\<rparr>)
     [(''UPDATE'', any_context, Some ''UPDATE <filename> <values> [<values> ...]''),
      (''WROTE'', [CMD_CONTEXT_JOURNAL], None),
      (''TUNE'', [CMD_CONTEXT_CLIENT], Some ''TUNE <filename> [options]''),
      (''DUMP'', [CMD_CONTEXT_CLIENT], Some ''DUMP <filename> [-h none|xsd|dtd]''),
      (''FLUSH'', client_batch, Some ''FLUSH <filename>''),
      (''FLUSHALL'', [CMD_CONTEXT_CLIENT], Some ''FLUSHALL''),
      (''PENDING'', [CMD_CONTEXT_CLIENT], Some ''PENDING <filename>''),
      (''FORGET'', any_context, Some ''FORGET <filename>''),
      (''QUEUE'', [CMD_CONTEXT_CLIENT], Some ''QUEUE''),
      (''STATS'', [CMD_CONTEXT_CLIENT], Some ''STATS''),
      (''HELP'', [CMD_CONTEXT_CLIENT], Some ''HELP [<command>]''),
      (''PING'', [CMD_CONTEXT_CLIENT], Some ''PING''),
      (''BATCH'', [CMD_CONTEXT_CLIENT], Some ''BATCH''),
      (''.'', [CMD_CONTEXT_BATCH], None),
      (''FETCH'', [CMD_CONTEXT_CLIENT], Some ''FETCH <file> <CF> [<start> [<end>] [<column>...]]''),
      (''FETCHBIN'', [CMD_CONTEXT_CLIENT], Some ''FETCHBIN <file> <CF> [<start> [<end>] [<column>...]]''),
      (''INFO'', [CMD_CONTEXT_CLIENT], Some ''INFO <filename>''),
      (''FIRST'', [CMD_CONTEXT_CLIENT], Some ''FIRST <filename> <rra index>''),
      (''LAST'', [CMD_CONTEXT_CLIENT], Some ''LAST <filename>''),
      (''CREATE'', client_batch, Some ''CREATE <filename> [-b start] [-s step] [-O] <DS definitions> <RRA definitions>''),
      (''LIST'', [CMD_CONTEXT_CLIENT], Some ''LIST [RECURSIVE] /[<path>]''),
      (''SUSPEND'', client_batch, Some ''SUSPEND <filename>''),
      (''RESUME'', client_batch, Some ''RESUME <filename>''),
      (''SUSPENDALL'', client_batch, Some ''SUSPENDALL''),
      (''RESUMEALL'', client_batch, Some ''RESUMEALL''),
      (''QUIT'', client_batch, Some ''QUIT'')]"

definition same_nocase :: "string \<Rightarrow> string \<Rightarrow> bool" where
  "same_nocase a b \<longleftrightarrow> map to_lower a = map to_lower b"

fun find_index :: "nat \<Rightarrow> command_t list \<Rightarrow> string \<Rightarrow> nat option" where
  "find_index i [] name = None"
| "find_index i (c # cs) name = (if same_nocase name (cmd c) then Some i else find_index (Suc i) cs name)"

definition find_command_index :: "string \<Rightarrow> nat option" where
  "find_command_index name = find_index 0 list_of_commands name"

definition find_command :: "string \<Rightarrow> command_t option" where
  "find_command name = map_option (nth list_of_commands) (find_command_index name)"

text \<open>1 for allowed, 0 for denied, -1 for an unknown command.\<close>

definition socket_permission_check :: "listen_socket option \<Rightarrow> string \<Rightarrow> int" where
  "socket_permission_check s name =
     (case s of
        None \<Rightarrow> 1
      | Some sock \<Rightarrow>
          if same_nocase ''QUIT'' name \<or> same_nocase ''HELP'' name then 1
          else (case find_command_index (if name = ''.'' then ''BATCH'' else name) of
                  None \<Rightarrow> - 1
                | Some i \<Rightarrow> if bit (permissions sock) i then 1 else 0))"

definition socket_permission_add :: "listen_socket \<Rightarrow> string \<Rightarrow> listen_socket option" where
  "socket_permission_add sock name =
     map_option (\<lambda>i. sock\<lparr>permissions := set_bit i (permissions sock)\<rparr>) (find_command_index name)"

definition socket_permission_clear :: "listen_socket \<Rightarrow> listen_socket" where
  "socket_permission_clear sock = sock\<lparr>permissions := 0\<rparr>"

definition socket_permission_copy :: "listen_socket \<Rightarrow> listen_socket \<Rightarrow> listen_socket" where
  "socket_permission_copy dest src = dest\<lparr>permissions := permissions src\<rparr>"

definition socket_permission_set_all :: "listen_socket \<Rightarrow> listen_socket" where
  "socket_permission_set_all sock =
     fold (\<lambda>i k. k\<lparr>permissions := set_bit i (permissions k)\<rparr>) [0..<length list_of_commands] (socket_permission_clear sock)"

definition command_check_context :: "listen_socket option \<Rightarrow> command_t \<Rightarrow> bool" where
  "command_check_context s c =
     ((case s of None \<Rightarrow> CMD_CONTEXT_JOURNAL
       | Some sock \<Rightarrow> if batch_start sock \<noteq> 0 then CMD_CONTEXT_BATCH else CMD_CONTEXT_CLIENT) \<in> set (cmd_contexts c))"

text \<open>The handler of a command.\<close>

definition dispatch :: "env \<Rightarrow> command_t \<Rightarrow> listen_socket option \<Rightarrow> time_t \<Rightarrow> string \<Rightarrow> daemon \<Rightarrow> response" where
  "dispatch e c s now buffer d =
     (let n = cmd c; sy = cmd_syntax c
      in if n = ''UPDATE'' then handle_request_update e sy s now buffer d
         else if n = ''WROTE'' then handle_request_wrote e s now buffer d
         else if n = ''FLUSH'' then handle_request_flush e sy s now buffer d
         else if n = ''FLUSHALL'' then handle_request_flushall e s d
         else if n = ''PENDING'' then handle_request_pending e sy s buffer d
         else if n = ''FORGET'' then handle_request_forget e sy s buffer d
         else if n = ''QUEUE'' then handle_request_queue s d
         else if n = ''STATS'' then handle_request_stats e s d
         else if n = ''PING'' then reply s RESP_OK (''PONG'' @ [NL]) d
         else if n = ''BATCH'' then handle_batch_start e s d
         else if n = ''.'' then batch_done s d
         else if n = ''SUSPEND'' then handle_request_suspend e sy s buffer d
         else if n = ''RESUME'' then handle_request_resume e sy s buffer d
         else if n = ''SUSPENDALL'' then handle_request_suspendall e s d
         else if n = ''RESUMEALL'' then handle_request_resumeall e s d
         else if n = ''QUIT'' then Replied (- 1) s d
         else other_handler e n s now buffer d)"

definition count_batch :: "listen_socket option \<Rightarrow> listen_socket option" where
  "count_batch s = map_option (\<lambda>k. if batch_start k \<noteq> 0 then k\<lparr>batch_cmd := s32 (batch_cmd k + 1)\<rparr> else k) s"

text \<open>What \<open>handle_request\<close> finds before it calls a handler: a response or the command, the socket and the rest.\<close>

definition admit :: "listen_socket option \<Rightarrow> string \<Rightarrow> daemon \<Rightarrow> response + command_t \<times> listen_socket option \<times> string" where
  "admit s buffer d =
     (case buffer_get_field buffer of
        None \<Rightarrow> Inl (Replied (- 1) s d)
      | Some (cmd_str, rest) \<Rightarrow>
          let s1 = count_batch s
          in case find_command cmd_str of
               None \<Rightarrow> Inl (reply s1 RESP_ERR (''Unknown command: '' @ cmd_str @ [NL]) d)
             | Some c \<Rightarrow>
                 if socket_permission_check s1 (cmd c) = 0 then Inl (reply s1 RESP_ERR (''Permission denied.'' @ [NL]) d)
                 else if \<not> command_check_context s1 c
                 then Inl (reply s1 RESP_ERR (''Can'' @ [CHR 0x27] @ ''t use '' @ [CHR 0x27] @ cmd_str @ [CHR 0x27] @ '' here.'' @ [NL]) d)
                 else Inr (c, s1, rest))"

definition handle_request :: "env \<Rightarrow> listen_socket option \<Rightarrow> time_t \<Rightarrow> string \<Rightarrow> daemon \<Rightarrow> response" where
  "handle_request e s now buffer d =
     (case admit s buffer d of
        Inl r \<Rightarrow> r
      | Inr (c, s1, rest) \<Rightarrow> dispatch e c s1 now rest d)"

section \<open>Replay of a journal\<close>

text \<open>\<open>fgets\<close> reads at most \<open>RRD_CMD_MAX - 1\<close> bytes of a line at a time.\<close>

function fgets_chunks :: "string \<Rightarrow> string list" where
  "fgets_chunks t = (if t = [] then [] else take (RRD_CMD_MAX - 1) t # fgets_chunks (drop (RRD_CMD_MAX - 1) t))"
  by pat_completeness auto
termination by (relation "measure length") (auto simp: RRD_CMD_MAX_def)

declare fgets_chunks.simps [simp del]

definition replay_entry :: "env \<Rightarrow> time_t \<Rightarrow> string \<Rightarrow> daemon \<times> nat \<times> nat \<Rightarrow> daemon \<times> nat \<times> nat" where
  "replay_entry e now entry acc =
     (case acc of (d, ok, failed) \<Rightarrow>
        if cstr entry = [] then (d, ok, failed)
        else if last (cstr entry) \<noteq> NL then (d, ok, Suc failed)
        else case handle_request e None now (butlast (cstr entry) @ [NUL]) d of
               Replied r _ d1 \<Rightarrow> if r = 0 then (d1, Suc ok, failed) else (d1, ok, Suc failed)
             | Waits _ _ _ d1 \<Rightarrow> (d1, ok, failed))"

text \<open>The lines of a journal, each of which ends with a newline.\<close>

definition journal_replay :: "env \<Rightarrow> string list \<Rightarrow> daemon \<Rightarrow> bool \<times> daemon" where
  "journal_replay e lines d =
     (case fold (replay_entry e (time_now e)) (concat (map (\<lambda>l. fgets_chunks (l @ [NL])) lines)) (d, 0, 0) of
        (d1, ok, failed) \<Rightarrow> (0 < ok, d1))"

section \<open>The threads that write\<close>

text \<open>A queue thread takes the first item of the queue: its file and values are written without the lock.\<close>

definition queue_take :: "env \<Rightarrow> daemon \<Rightarrow> (string \<times> string list) \<times> daemon" where
  "queue_take e d =
     (let c = d_cache d; a = cache_queue_head c; ci = item c a
      in ((ci_file ci, ci_values ci),
          with_cache (remove_from_queue a \<circ> wipe e a (time_now e) \<circ> assert (ci_values ci \<noteq> [])) d))"

text \<open>After the update, which has returned \<open>status\<close>: the journal, those who wait, and the statistics.\<close>

definition queue_written :: "env \<Rightarrow> string \<Rightarrow> string list \<Rightarrow> int \<Rightarrow> daemon \<Rightarrow> daemon" where
  "queue_written e file vals status d =
     (let d1 = journal_write e ''wrote'' file d;
          a = g_tree_lookup (d_cache d1) file;
          d2 = (if a = 0 then d1 else with_cache (broadcast a) d1)
      in if status = 0
         then d2\<lparr>stats_updates_written := u64 (stats_updates_written d2 + 1),
                 stats_data_sets_written := u64 (stats_data_sets_written d2 + int (length vals))\<rparr>
         else d2)"

text \<open>The condition of the loop of the queue threads. A thread that has waited for the queue to be filled does not test it
  again before it takes an item.\<close>

definition queue_runs :: "daemon \<Rightarrow> bool" where
  "queue_runs d \<longleftrightarrow> state (d_cache d) \<noteq> SHUTDOWN \<or> cache_queue_head (d_cache d) \<noteq> 0 \<and> config_flush_at_shutdown d"

text \<open>The flush thread: a round of its loop that is due, and its end.\<close>

definition flush_round :: "env \<Rightarrow> daemon \<Rightarrow> daemon" where
  "flush_round e d = journal_rotate e (flush_values e (config_write_interval (conf e)) d)"

definition flush_thread_end :: "env \<Rightarrow> daemon \<Rightarrow> daemon" where
  "flush_thread_end e d =
     with_cache (state_update (\<lambda>_. SHUTDOWN)) (if config_flush_at_shutdown d then flush_values e (- 1) d else d)"

text \<open>The signals: \<open>SIGINT\<close> and \<open>SIGTERM\<close> run \<open>sig_common\<close>, \<open>SIGUSR1\<close> and \<open>SIGUSR2\<close> first set or clear \<open>config_flush_at_shutdown\<close>.\<close>

definition sig_usr :: "bool \<Rightarrow> daemon \<Rightarrow> daemon" where
  "sig_usr b d = d\<lparr>config_flush_at_shutdown := b\<rparr>"

definition sig_common :: "daemon \<Rightarrow> daemon" where
  "sig_common d = with_cache (\<lambda>c. if state c = RUNNING then c\<lparr>state := FLUSHING\<rparr> else c) d"

end
