(* ===== verification/Rrd_Daemon_Steps.thy ===== *)
theory Rrd_Daemon_Steps
  imports Rrd_Daemon "HOL-Library.Multiset" "HOL-Library.List_Lexorder" "HOL-Library.Char_ord"
begin

text \<open>
  The daemon as a transition system: requests, the queue threads that write and the flush thread take turns on
  the cache. Every section of the code that holds the lock of the cache is one step. The theory shows that
  the system implements a buffer of pending values per file, and what follows from it for the values that are
  written, for \<open>FLUSH\<close>, for the end of the daemon and for the files a connection can reach.
\<close>

section \<open>What the handlers do to the cache\<close>

primrec resp_daemon :: "response \<Rightarrow> daemon" where
  "resp_daemon (Replied r s d) = d"
| "resp_daemon (Waits a r s d) = d"

named_theorems daemon_simps

lemma reply_daemon [daemon_simps]: "resp_daemon (reply s rc text d) = d"
  by (simp add: reply_def split: prod.split)

lemma syntax_error_daemon [daemon_simps]: "resp_daemon (syntax_error s sy d) = d"
  by (simp add: syntax_error_def daemon_simps)

lemma journal_new_file_cache [daemon_simps]: "d_cache (journal_new_file e d) = d_cache d"
  by (simp add: journal_new_file_def Let_def)

lemma journal_write_cache [daemon_simps]: "d_cache (journal_write e c args d) = d_cache d"
  by (simp add: journal_write_def Let_def daemon_simps)

lemma journal_rotate_cache [daemon_simps]: "d_cache (journal_rotate e d) = d_cache d"
  by (simp add: journal_rotate_def Let_def daemon_simps)

lemma with_cache_cache [daemon_simps]: "d_cache (with_cache f d) = f (d_cache d)"
  by (simp add: with_cache_def)

lemma assert_True: "b \<Longrightarrow> assert b c = c"
  by (simp add: assert_def)

text \<open>A change of the daemon that leaves every cached value where it is.\<close>

definition quiet :: "daemon \<Rightarrow> daemon \<Rightarrow> bool" where
  "quiet d d' \<longleftrightarrow> cache_ok (d_cache d') \<and> cached (d_cache d') = cached (d_cache d)"

lemma quiet_refl: "cache_ok (d_cache d) \<Longrightarrow> d_cache d' = d_cache d \<Longrightarrow> quiet d d'"
  by (simp add: quiet_def)

lemma quietD: "quiet d d' \<Longrightarrow> cache_ok (d_cache d')" "quiet d d' \<Longrightarrow> cached (d_cache d') = cached (d_cache d)"
  by (simp_all add: quiet_def)

lemma put_quiet:
  assumes "cache_ok c" "cache_tree c f = Some a"
  shows "cache_ok (put_first a c)" "cached (put_first a c) = cached c" "cache_tree (put_first a c) = cache_tree c"
    "cache_ok (put_last a c)" "cached (put_last a c) = cached c"
  using enqueue_ok [OF assms] same_content_cached [OF enqueue_same] enqueue_same
  by (simp_all add: put_first_def put_last_def same_content_def)

lemma mark_ok:
  assumes "cache_ok c" "cache_tree c f = Some a" "\<And>i. ci_values (g i) = ci_values i"
    "\<And>i. ci_prev (g i) = ci_prev i" "\<And>i. ci_next (g i) = ci_next i" "\<And>i. in_queue (g i) = in_queue i"
    "\<And>i. ci_file (g i) = ci_file i" "\<And>i. in_tree (g i) = in_tree i"
  shows "cache_ok (upd a g c)" "cached (upd a g c) = cached c"
proof -
  show "cache_ok (upd a g c)" by (rule upd_ok [OF assms(1,4-8)]) (simp add: assms(3))
  show "cached (upd a g c) = cached c"
    using upd_cached [OF cache_ok_tree [OF assms(1)] assms(2)] assms(2,3) by (auto simp: cached_def)
qed

lemma flush_file_quiet: "cache_ok (d_cache d) \<Longrightarrow> quiet d (snd (flush_file f k d))"
proof -
  assume ok: "cache_ok (d_cache d)"
  define a where "a = g_tree_lookup (d_cache d) f"
  show ?thesis
  proof (cases "a \<noteq> 0 \<and> ci_values (item (d_cache d) a) \<noteq> [] \<and> \<not> suspended (item (d_cache d) a)")
    case True
    then have t: "cache_tree (d_cache d) f = Some a" using lookup_Some [of "d_cache d" f] by (simp add: a_def)
    note p = put_quiet [OF ok t]
    have t': "cache_tree (put_first a (d_cache d)) f = Some a" by (simp add: p(3) t)
    note m = mark_ok [OF p(1) t', where g = "flushed_update (\<lambda>w. w @ [k])"]
    show ?thesis using True m p(2)
      by (simp add: flush_file_def Let_def a_def [symmetric] quiet_def daemon_simps)
  next
    case False
    then show ?thesis using ok by (auto simp: flush_file_def Let_def a_def [symmetric] intro: quiet_refl)
  qed
qed

lemma flush_values_quiet: "cache_ok (d_cache d) \<Longrightarrow> foreach_ok (foreach e) \<Longrightarrow> quiet d (flush_values e m d)"
  using flush_old_values_ok [of "d_cache d" "foreach e"] by (simp add: quiet_def flush_values_def daemon_simps)

lemma set_suspended_quiet: "cache_ok (d_cache d) \<Longrightarrow> cache_tree (d_cache d) f = Some a \<Longrightarrow> quiet d (set_suspended b a d)"
  using mark_ok [of "d_cache d" f a "suspended_update (\<lambda>_. b)"] by (simp add: quiet_def set_suspended_def daemon_simps)

lemma item_other [simp]: "item (c\<lparr>state := st\<rparr>) = item c" "item (c\<lparr>awake := w\<rparr>) = item c"
  by (simp_all add: item_def fun_eq_iff)

lemma cached_other [simp]: "cached (c\<lparr>state := st\<rparr>) = cached c" "cached (c\<lparr>awake := w\<rparr>) = cached c"
  by (auto simp: cached_def fun_eq_iff split: option.split)

lemma broadcast_ok:
  assumes "cache_ok c" "cache_tree c f = Some a"
  shows "cache_ok (broadcast a c)" "cached (broadcast a c) = cached c"
proof -
  let ?c = "c\<lparr>awake := awake c @ flushed (item c a)\<rparr>"
  have ok: "cache_ok ?c" using assms(1) by (simp add: cache_ok_def cache_inv_def queue_rep_def tree_ok_def has_values_def)
  show "cache_ok (broadcast a c)" "cached (broadcast a c) = cached c"
    using mark_ok [OF ok, of f a "flushed_update (\<lambda>_. [])"] assms(2) by (simp_all add: broadcast_def)
qed

lemma state_ok: "cache_ok c \<Longrightarrow> cache_ok (c\<lparr>state := st\<rparr>) \<and> cached (c\<lparr>state := st\<rparr>) = cached c"
  by (simp add: cache_ok_def cache_inv_def queue_rep_def tree_ok_def has_values_def)

lemma queue_written_quiet: "cache_ok (d_cache d) \<Longrightarrow> quiet d (queue_written e f vs st d)"
  using broadcast_ok [of "d_cache d" f] lookup_Some [of "d_cache d" f]
  by (simp add: queue_written_def Let_def quiet_def daemon_simps)

lemma suspend_fold_quiet:
  assumes "cache_ok (d_cache d)" "\<forall>(k, a) \<in> set es. cache_tree (d_cache d) k = Some a"
  shows "quiet d (fst (fold (tree_callback_suspend b) es (d, n)))"
  using assms
proof (induction es arbitrary: d n)
  case Nil
  then show ?case by (simp add: quiet_def)
next
  case (Cons x es)
  obtain k a where x: "x = (k, a)" by (cases x)
  have ka: "cache_tree (d_cache d) k = Some a" using Cons.prems(2) x by simp
  have q: "quiet d (set_suspended b a d)" by (rule set_suspended_quiet [OF Cons.prems(1) ka])
  have t: "cache_tree (d_cache (set_suspended b a d)) = cache_tree (d_cache d)" by (simp add: set_suspended_def daemon_simps)
  have cb: "tree_callback_suspend b x (d, n) =
      (if suspended (item (d_cache d) a) \<noteq> b then (set_suspended b a d, n + 1) else (d, n))"
    by (simp add: tree_callback_suspend_def x)
  show ?case
  proof (cases "suspended (item (d_cache d) a) \<noteq> b")
    case True
    have "quiet (set_suspended b a d) (fst (fold (tree_callback_suspend b) es (set_suspended b a d, n + 1)))"
      by (rule Cons.IH) (use q Cons.prems(2) t in \<open>auto simp: quiet_def\<close>)
    with q True show ?thesis by (simp add: cb quiet_def)
  next
    case False
    then show ?thesis using Cons by (simp add: cb)
  qed
qed

lemma foreach_entries: "foreach_ok fe \<Longrightarrow> cache_ok c \<Longrightarrow> \<forall>(k, a) \<in> set (fe (cache_tree c)). cache_tree c k = Some a"
  using cache_ok_tree [of c] by (auto simp: foreach_ok_def tree_ok_def)

text \<open>The handlers other than \<open>UPDATE\<close>, \<open>FORGET\<close> and \<open>WROTE\<close>.\<close>

definition quiet_commands :: "string list" where
  "quiet_commands = [''FLUSH'', ''FLUSHALL'', ''PENDING'', ''QUEUE'', ''STATS'', ''PING'', ''BATCH'', ''.'',
     ''SUSPEND'', ''RESUME'', ''SUSPENDALL'', ''RESUMEALL'', ''QUIT'']"

lemma flush_handler_quiet:
  assumes "cache_ok (d_cache d)"
  shows "quiet d (resp_daemon (handle_request_flush e sy s now b d))"
proof -
  define d1 where "d1 = d\<lparr>stats_flush_received := u64 (stats_flush_received d + 1)\<rparr>"
  have ok: "cache_ok (d_cache d1)" using assms by (simp add: d1_def)
  have q: "quiet d d'" if "quiet d1 d'" for d' using that by (simp add: quiet_def d1_def)
  have r: "quiet d d1" by (rule quiet_refl [OF assms]) (simp add: d1_def)
  show ?thesis
  proof (cases "buffer_get_field b")
    case None
    then show ?thesis by (simp add: handle_request_flush_def daemon_simps quiet_refl [OF assms])
  next
    case (Some p)
    define f where "f = get_abs_path (conf e) (fst p)"
    define k where "k = (case s of None \<Rightarrow> 0 | Some k \<Rightarrow> sock_id k)"
    obtain x d2 where x: "flush_file f k d1 = (x, d2)" by (cases "flush_file f k d1")
    have q2: "quiet d d2" by (rule q) (use flush_file_quiet [OF ok, of f k] x in simp)
    show ?thesis
      by (cases p; cases x) (use q2 r x Some in \<open>auto simp: handle_request_flush_def Let_def d1_def [symmetric]
        f_def k_def daemon_simps split: prod.split\<close>)
  qed
qed

lemma cache_item_found: "buffer_get_cache_item e sy s b d = Inr (a, f) \<Longrightarrow> cache_tree (d_cache d) f = Some a"
  by (auto simp: buffer_get_cache_item_def Let_def lookup_Some split: option.splits prod.splits if_splits response.splits)

lemma suspend_handlers_quiet:
  assumes "cache_ok (d_cache d)"
  shows "quiet d (resp_daemon (handle_request_suspend e sy s b d))" "quiet d (resp_daemon (handle_request_resume e sy s b d))"
  using assms set_suspended_quiet [OF assms cache_item_found] quiet_refl [OF assms]
  by (auto simp: handle_request_suspend_def handle_request_resume_def daemon_simps split: sum.split)

lemma suspend_all_handlers_quiet:
  assumes "cache_ok (d_cache d)" "foreach_ok (foreach e)"
  shows "quiet d (resp_daemon (handle_request_suspendall e s d))" "quiet d (resp_daemon (handle_request_resumeall e s d))"
proof -
  have "quiet d (fst (fold (tree_callback_suspend b) (foreach e (cache_tree (d_cache d))) (d, 0)))" for b
    by (rule suspend_fold_quiet [OF assms(1) foreach_entries [OF assms(2,1)]])
  then have q: "quiet d d1" if "fold (tree_callback_suspend b) (foreach e (cache_tree (d_cache d))) (d, 0) = (d1, n)" for b d1 n
    using that by (metis fst_conv)
  then show "quiet d (resp_daemon (handle_request_suspendall e s d))" "quiet d (resp_daemon (handle_request_resumeall e s d))"
    by (simp_all add: handle_request_suspendall_def handle_request_resumeall_def daemon_simps split: prod.split)
qed

lemma quiet_dispatch:
  assumes ok: "cache_ok (d_cache d)" and fe: "foreach_ok (foreach e)" and c: "cmd c \<in> set quiet_commands"
  shows "quiet d (resp_daemon (dispatch e c s now b d))"
proof -
  note r = quiet_refl [OF ok]
  have "quiet d (resp_daemon (handle_request_pending e sy s b d))" for sy
    by (auto simp: handle_request_pending_def Let_def daemon_simps r split: option.split prod.split)
  moreover have "quiet d (resp_daemon (handle_batch_start e s d))"
    by (auto simp: handle_batch_start_def daemon_simps r split: option.split prod.split)
  moreover have "quiet d (resp_daemon (handle_request_flushall e s d))"
    using flush_values_quiet [OF ok fe] by (simp add: handle_request_flushall_def daemon_simps)
  moreover have "quiet d (resp_daemon (handle_request_queue s d))" "quiet d (resp_daemon (handle_request_stats e s d))"
    "quiet d (resp_daemon (batch_done s d))" "quiet d (resp_daemon (reply s rc t d))" "quiet d (resp_daemon (Replied x s d))" for rc t x
    by (simp_all add: handle_request_queue_def handle_request_stats_def batch_done_def Let_def daemon_simps r)
  moreover note flush_handler_quiet [OF ok] suspend_handlers_quiet [OF ok] suspend_all_handlers_quiet [OF ok fe]
  ultimately show ?thesis using c unfolding dispatch_def Let_def quiet_commands_def by auto
qed

text \<open>The values a request is going to add to the item at \<open>a\<close>.\<close>

definition accepted_values :: "daemon \<Rightarrow> addr \<Rightarrow> string \<Rightarrow> string list" where
  "accepted_values d a rest = fst (update_loop (last_update_stamp (item (d_cache d) a)) rest)"

definition adds :: "string \<Rightarrow> string list \<Rightarrow> daemon \<Rightarrow> daemon \<Rightarrow> bool" where
  "adds f vs d d' \<longleftrightarrow> cache_ok (d_cache d') \<and> cached (d_cache d') = (cached (d_cache d))(f := cached (d_cache d) f @ vs)"

lemma update_values_adds:
  assumes ok: "cache_ok (d_cache d)" and f: "cache_tree (d_cache d) f = Some a"
  shows "adds f (accepted_values d a rest) d (resp_daemon (update_values e s now orig rest a d))"
proof -
  define d1 where "d1 = (if s = None then d else journal_write e ''update'' orig d)"
  have c1: "d_cache d1 = d_cache d" by (simp add: d1_def daemon_simps)
  obtain vs stamp res where l: "update_loop (last_update_stamp (item (d_cache d) a)) rest = (vs, stamp, res)"
    by (metis prod_cases3)
  define g :: "cache_item_t \<Rightarrow> cache_item_t" where "g = (\<lambda>ci. ci\<lparr>ci_values := ci_values ci @ vs, last_update_stamp := stamp\<rparr>)"
  define d2 where "d2 = with_cache (upd a g) d1"
  have c2: "d_cache d2 = upd a g (d_cache d)" by (simp add: d2_def daemon_simps c1)
  have ok2: "cache_ok (d_cache d2)" unfolding c2 by (rule upd_ok [OF ok]) (simp_all add: g_def)
  have "cached (d_cache d) f = ci_values (item (d_cache d) a)" using f by (simp add: cached_def)
  then have a2: "adds f vs d d2" using ok2 upd_cached [OF cache_ok_tree [OF ok] f, of g] by (simp add: adds_def c2 g_def)
  have f2: "cache_tree (d_cache d2) f = Some a" by (simp add: c2 f)
  have a3: "adds f vs d (with_cache (put_last a) d2)"
    using a2 put_quiet(4,5) [OF ok2 f2] by (simp add: adds_def daemon_simps)
  show ?thesis unfolding update_values_def Let_def d1_def [symmetric] c1 l prod.case g_def [symmetric] d2_def [symmetric]
    using a2 a3 by (auto simp: accepted_values_def l daemon_simps split: update_end.split)
qed

text \<open>\<open>malloc\<close> never returns memory that is in use.\<close>

definition malloc_ok :: "((addr \<Rightarrow> cache_item_t option) \<Rightarrow> addr) \<Rightarrow> bool" where
  "malloc_ok m \<longleftrightarrow> (\<forall>h. m h \<noteq> 0 \<longrightarrow> h (m h) = None)"

definition env_ok :: "env \<Rightarrow> bool" where
  "env_ok e \<longleftrightarrow> malloc_ok (malloc e) \<and> foreach_ok (foreach e)"

lemma lookup_reply_quiet:
  "cache_ok (d_cache d) \<Longrightarrow> update_lookup e sy s b d = Lookup_reply r \<Longrightarrow> quiet d (resp_daemon r)"
  by (auto simp: update_lookup_def Let_def daemon_simps quiet_def split: option.splits prod.splits if_splits)

lemma lookup_found_item:
  "update_lookup e sy s b d = Lookup_found a rest d1 \<Longrightarrow> d_cache d1 = d_cache d \<and>
     (\<exists>p. buffer_get_field b = Some (p, rest) \<and> cache_tree (d_cache d) (get_abs_path (conf e) p) = Some a \<and>
       check_file_access (conf e) (get_abs_path (conf e) p) s)"
  by (auto simp: update_lookup_def Let_def lookup_Some split: option.splits prod.splits if_splits)

lemma lookup_missing_item:
  "update_lookup e sy s b d = Lookup_missing f rest d1 \<Longrightarrow> d_cache d1 = d_cache d \<and> check_file_access (conf e) f s \<and>
     (\<exists>p. buffer_get_field b = Some (p, rest) \<and> f = get_abs_path (conf e) p)"
  by (auto simp: update_lookup_def Let_def split: option.splits prod.splits if_splits)

lemma prepare_reply_quiet: "cache_ok (d_cache d) \<Longrightarrow> update_prepare e s now f d = Inl r \<Longrightarrow> quiet d (resp_daemon r)"
  by (auto simp: update_prepare_def Let_def daemon_simps quiet_def split: file_found.splits if_splits)

text \<open>The section of \<open>UPDATE\<close> that adds a file.\<close>

definition update_new :: "env \<Rightarrow> listen_socket option \<Rightarrow> time_t \<Rightarrow> string \<Rightarrow> string \<Rightarrow> string \<Rightarrow> daemon \<Rightarrow> response" where
  "update_new e s now orig f rest d =
     (case update_prepare e s now f d of Inl r \<Rightarrow> r | Inr (a, d2) \<Rightarrow> update_insert e s now orig f rest a d2)"

definition new_values :: "env \<Rightarrow> listen_socket option \<Rightarrow> time_t \<Rightarrow> string \<Rightarrow> string \<Rightarrow> daemon \<Rightarrow> string list" where
  "new_values e s now f rest d =
     (case update_prepare e s now f d of
        Inl r \<Rightarrow> []
      | Inr (a, d2) \<Rightarrow>
          if state (d_cache d) = SHUTDOWN then []
          else accepted_values d2 (if g_tree_lookup (d_cache d) f = 0 then a else g_tree_lookup (d_cache d) f) rest)"

lemma new_item_fields:
  "\<not> in_queue (new_item e f now lst)" "ci_prev (new_item e f now lst) = 0" "ci_next (new_item e f now lst) = 0"
  "in_tree (new_item e f now lst)" "ci_file (new_item e f now lst) = f" "ci_values (new_item e f now lst) = []"
  by (simp_all add: new_item_def zero_item_def)

lemma prepare_item:
  assumes "update_prepare e s now f d = Inr (a, d2)" "malloc_ok (malloc e)"
  shows "a \<noteq> 0 \<and> items (d_cache d) a = None \<and>
    (\<exists>lst. d2 = with_cache (\<lambda>c. c\<lparr>items := (items c)(a \<mapsto> new_item e f now lst)\<rparr>) d)"
  using assms by (auto simp: update_prepare_def Let_def malloc_ok_def split: file_found.splits if_splits)

lemma adds_Nil: "quiet d d' \<Longrightarrow> adds f [] d d'"
  by (simp add: quiet_def adds_def)

lemma adds_quiet_trans: "quiet d d' \<Longrightarrow> adds f vs d' d'' \<Longrightarrow> adds f vs d d''"
  by (simp add: quiet_def adds_def)

lemma update_new_adds:
  assumes ok: "cache_ok (d_cache d)" and m: "malloc_ok (malloc e)"
  shows "adds f (new_values e s now f rest d) d (resp_daemon (update_new e s now orig f rest d))"
proof (cases "update_prepare e s now f d")
  case (Inl r)
  then show ?thesis using prepare_reply_quiet [OF ok Inl] by (simp add: update_new_def new_values_def adds_Nil)
next
  case (Inr p)
  obtain a d2 where p: "p = (a, d2)" by (cases p)
  obtain lst where a: "a \<noteq> 0" "items (d_cache d) a = None"
    and d2: "d2 = with_cache (\<lambda>c. c\<lparr>items := (items c)(a \<mapsto> new_item e f now lst)\<rparr>) d"
    using prepare_item [OF Inr [unfolded p] m] by blast
  let ?i = "new_item e f now lst"
  have ct: "cache_tree (d_cache d2) = cache_tree (d_cache d)" "state (d_cache d2) = state (d_cache d)"
    by (simp_all add: d2 daemon_simps)
  have lk: "g_tree_lookup (d_cache d2) f = g_tree_lookup (d_cache d) f" by (simp add: g_tree_lookup_def ct)
  show ?thesis
  proof (cases "g_tree_lookup (d_cache d) f = 0")
    case True
    then have none: "cache_tree (d_cache d) f = None" using lookup_found [OF ok] by simp
    define d3 where "d3 = d2\<lparr>d_cache := (d_cache d2)\<lparr>cache_tree := (cache_tree (d_cache d2))(f \<mapsto> a)\<rparr>\<rparr>"
    have c3: "d_cache d3 = (d_cache d)\<lparr>items := (items (d_cache d))(a \<mapsto> ?i), cache_tree := (cache_tree (d_cache d))(f \<mapsto> a)\<rparr>"
      by (simp add: d3_def d2 daemon_simps)
    note ins = insert_ok [where i = ?i, OF ok a(2,1) new_item_fields(1-6) none, folded c3]
    have q: "quiet d d3" using ins(1,2) by (simp add: quiet_def)
    have t3: "cache_tree (d_cache d3) f = Some a" by (simp add: c3)
    have it: "item (d_cache d3) a = item (d_cache d2) a" using ins(3) by (simp add: d2 daemon_simps)
    have "adds f (accepted_values d2 a rest) d (resp_daemon (update_values e s now orig rest a d3))"
      using adds_quiet_trans [OF q update_values_adds [OF quietD(1) [OF q] t3]] by (simp add: accepted_values_def it)
    moreover have "state (d_cache d3) = state (d_cache d)" by (simp add: c3)
    ultimately show ?thesis using True q adds_Nil
      by (simp add: update_new_def new_values_def Inr p update_insert_def Let_def lk d3_def [symmetric])
  next
    case False
    define b where "b = g_tree_lookup (d_cache d) f"
    define d3 where "d3 = with_cache (free_cache_item a) d2"
    have c3: "d_cache d3 = free_cache_item a ((d_cache d)\<lparr>items := (items (d_cache d))(a \<mapsto> ?i)\<rparr>)"
      by (simp add: d3_def d2 daemon_simps)
    note gu = give_up_ok [where i = ?i, OF ok a(2,1) new_item_fields(1-3), folded c3]
    have q: "quiet d d3" using gu(1,2) by (simp add: quiet_def)
    have tb: "cache_tree (d_cache d) f = Some b" unfolding b_def by (rule lookup_Some [OF False])
    then have t3: "cache_tree (d_cache d3) f = Some b" by (simp add: gu(3))
    have "b \<noteq> a" using tree_okD [OF cache_ok_tree [OF ok] tb] a(2) by auto
    then have "map_option bare (items (d_cache d3) b) = map_option bare (items (d_cache d2) b)"
      using free_cache_item_at(3) [OF a(1) \<open>b \<noteq> a\<close>, of "d_cache d2"] by (simp add: d3_def daemon_simps)
    then have "last_update_stamp (item (d_cache d3) b) = last_update_stamp (item (d_cache d2) b)"
      by (cases "items (d_cache d3) b"; cases "items (d_cache d2) b") (auto simp: item_def dest: bare_fields(6))
    then have "adds f (accepted_values d2 b rest) d (resp_daemon (update_values e s now orig rest b d3))"
      using adds_quiet_trans [OF q update_values_adds [OF quietD(1) [OF q] t3]] by (simp add: accepted_values_def)
    then show ?thesis using False q adds_Nil gu(4)
      by (simp add: update_new_def new_values_def Inr p update_insert_def Let_def lk d3_def [symmetric] b_def [symmetric])
  qed
qed

lemma handle_update_parts:
  "handle_request_update e sy s now b d =
    (case update_lookup e sy s b d of
       Lookup_reply r \<Rightarrow> r
     | Lookup_found a rest d1 \<Rightarrow> update_values e s now (orig_buf b) rest a d1
     | Lookup_missing f rest d1 \<Rightarrow> update_new e s now (orig_buf b) f rest d1)"
  by (simp add: handle_request_update_def update_new_def split: lookup_result.split)

text \<open>Values are given up by \<open>FORGET\<close> and, in a journal, by \<open>WROTE\<close>.\<close>

definition drops :: "string \<Rightarrow> daemon \<Rightarrow> daemon \<Rightarrow> bool" where
  "drops f d d' \<longleftrightarrow> cache_ok (d_cache d') \<and> cached (d_cache d') = (cached (d_cache d))(f := [])"

lemma forget_drops:
  assumes "cache_ok (d_cache d)"
  shows "quiet d (resp_daemon (handle_request_forget e sy s b d)) \<or>
    (\<exists>p rest. buffer_get_field b = Some (p, rest) \<and> check_file_access (conf e) (get_abs_path (conf e) p) s \<and>
       drops (get_abs_path (conf e) p) d (resp_daemon (handle_request_forget e sy s b d)))"
proof (cases "buffer_get_field b")
  case None
  then show ?thesis using assms by (simp add: handle_request_forget_def daemon_simps quiet_def)
next
  case (Some pr)
  obtain p rest where pr: "pr = (p, rest)" by (cases pr)
  let ?f = "get_abs_path (conf e) p"
  show ?thesis
  proof (cases "check_file_access (conf e) ?f s")
    case True
    have "d_cache (resp_daemon (handle_request_forget e sy s b d)) = snd (g_tree_remove ?f (d_cache d))"
      using True by (simp add: handle_request_forget_def Some pr Let_def daemon_simps split: prod.split)
    then show ?thesis using g_tree_remove_ok [OF assms] True Some pr by (simp add: drops_def)
  next
    case False
    then show ?thesis using assms by (simp add: handle_request_forget_def Some pr Let_def daemon_simps quiet_def)
  qed
qed

lemma wrote_drops: "cache_ok (d_cache d) \<Longrightarrow> drops (cstr b) d (resp_daemon (handle_request_wrote e s now b d))"
proof (cases "g_tree_lookup (d_cache d) (cstr b) = 0")
  case True
  moreover assume ok: "cache_ok (d_cache d)"
  ultimately have "cached (d_cache d) (cstr b) = []" using lookup_found [OF ok] by (simp add: cached_def)
  with True ok show ?thesis by (auto simp: drops_def handle_request_wrote_def)
next
  case False
  assume ok: "cache_ok (d_cache d)"
  show ?thesis using take_ok [OF ok lookup_Some [OF False]] False
    by (simp add: drops_def handle_request_wrote_def Let_def daemon_simps wipe_def)
qed

text \<open>What a queue thread takes is all that is cached for a file.\<close>

lemma queue_head_item:
  assumes "cache_ok c" "cache_queue_head c \<noteq> 0"
  shows "cache_tree c (ci_file (item c (cache_queue_head c))) = Some (cache_queue_head c)"
    "ci_values (item c (cache_queue_head c)) \<noteq> []"
proof -
  obtain xs where inv: "cache_inv c xs" using assms(1) by (auto simp: cache_ok_def)
  have h: "cache_queue_head c = first_of xs 0" using cache_invD(1) [OF inv] by (simp add: queue_rep_def)
  then have "cache_queue_head c \<in> set xs" using first_of_in assms(2) by simp
  then show "cache_tree c (ci_file (item c (cache_queue_head c))) = Some (cache_queue_head c)"
    "ci_values (item c (cache_queue_head c)) \<noteq> []"
    using cache_invD(3,4) [OF inv] by (auto simp: has_values_def)
qed

lemma queue_take_drops:
  assumes ok: "cache_ok (d_cache d)" and h: "cache_queue_head (d_cache d) \<noteq> 0" and t: "queue_take e d = ((f, vs), d')"
  shows "vs = cached (d_cache d) f" "vs \<noteq> []" "drops f d d'"
proof -
  note q = queue_head_item [OF ok h]
  have f: "f = ci_file (item (d_cache d) (cache_queue_head (d_cache d)))"
    "vs = ci_values (item (d_cache d) (cache_queue_head (d_cache d)))" using t by (auto simp: queue_take_def Let_def)
  show "vs = cached (d_cache d) f" "vs \<noteq> []" using q by (simp_all add: f cached_def)
  have "d' = snd (queue_take e d)" using t by simp
  then show "drops f d d'" using take_ok [OF ok q(1)] q(2)
    by (simp add: drops_def queue_take_def Let_def daemon_simps f(1) assert_True wipe_def)
qed

section \<open>The steps of the daemon\<close>

text \<open>The state: the daemon and the batches that queue threads have taken and not written yet. The events name what
  happens to values.\<close>

type_synonym batch = "string \<times> string list"
type_synonym system = "daemon \<times> batch list"

datatype event =
    Accept string "string list"
  | Drop string
  | Take string "string list"
  | Write string "string list"
  | Unlocked
  | Other

definition forget_event :: "env \<Rightarrow> listen_socket option \<Rightarrow> string \<Rightarrow> event" where
  "forget_event e s b =
     (case buffer_get_field b of
        None \<Rightarrow> Other
      | Some (p, rest) \<Rightarrow>
          if check_file_access (conf e) (get_abs_path (conf e) p) s then Drop (get_abs_path (conf e) p) else Other)"

text \<open>\<open>n\<close> queue threads. An \<open>UPDATE\<close> of a file that is not known is two steps (\<open>missing\<close>, \<open>insert\<close>), between which
  others run; \<open>insert\<close> allows any request. The handlers that are not modelled touch the cache by \<open>flush_file\<close> only.
  \<open>take\<close> does not ask for the condition of the loop, which is not tested after a wait. \<open>written\<close> ends the
  work of a queue thread on one of its batches. \<open>SUSPEND\<close> and its relatives do not hold the lock; their
  steps have an event of their own, and are what these requests do when nobody else accesses the items
  meanwhile.\<close>

definition unlocked_commands :: "string list" where
  "unlocked_commands = [''SUSPEND'', ''RESUME'', ''SUSPENDALL'', ''RESUMEALL'']"

inductive sys_step :: "nat \<Rightarrow> system \<Rightarrow> event \<Rightarrow> system \<Rightarrow> bool" for n where
  refused: "admit (Some k) b d = Inl r \<Longrightarrow> sys_step n (d, w) Other (resp_daemon r, w)"
| replied: "admit (Some k) b d = Inr (c, s, args) \<Longrightarrow> cmd c = ''UPDATE'' \<Longrightarrow>
    update_lookup e (cmd_syntax c) s args d = Lookup_reply r \<Longrightarrow> sys_step n (d, w) Other (resp_daemon r, w)"
| missing: "admit (Some k) b d = Inr (c, s, args) \<Longrightarrow> cmd c = ''UPDATE'' \<Longrightarrow>
    update_lookup e (cmd_syntax c) s args d = Lookup_missing f rest d1 \<Longrightarrow> sys_step n (d, w) Other (d1, w)"
| found: "admit (Some k) b d = Inr (c, s, args) \<Longrightarrow> cmd c = ''UPDATE'' \<Longrightarrow>
    update_lookup e (cmd_syntax c) s args d = Lookup_found a rest d1 \<Longrightarrow>
    sys_step n (d, w) (Accept (ci_file (item (d_cache d) a)) (accepted_values d1 a rest))
      (resp_daemon (update_values e s now (orig_buf args) rest a d1), w)"
| insert: "env_ok e \<Longrightarrow>
    sys_step n (d, w) (Accept f (new_values e s now f rest d)) (resp_daemon (update_new e s now orig f rest d), w)"
| forget: "admit (Some k) b d = Inr (c, s, args) \<Longrightarrow> cmd c = ''FORGET'' \<Longrightarrow>
    sys_step n (d, w) (forget_event e s args) (resp_daemon (dispatch e c s now args d), w)"
| quiet_request: "env_ok e \<Longrightarrow> admit (Some k) b d = Inr (c, s, args) \<Longrightarrow> cmd c \<in> set quiet_commands \<Longrightarrow>
    cmd c \<notin> set unlocked_commands \<Longrightarrow> sys_step n (d, w) Other (resp_daemon (dispatch e c s now args d), w)"
| unlocked_request: "env_ok e \<Longrightarrow> admit (Some k) b d = Inr (c, s, args) \<Longrightarrow> cmd c \<in> set unlocked_commands \<Longrightarrow>
    sys_step n (d, w) Unlocked (resp_daemon (dispatch e c s now args d), w)"
| flush_other: "sys_step n (d, w) Other (snd (flush_file f k d), w)"
| flush_round: "env_ok e \<Longrightarrow> state (d_cache d) = RUNNING \<Longrightarrow> sys_step n (d, w) Other (flush_round e d, w)"
| flush_end: "env_ok e \<Longrightarrow> state (d_cache d) \<noteq> RUNNING \<Longrightarrow> sys_step n (d, w) Other (flush_thread_end e d, w)"
| signal: "sys_step n (d, w) Other (sig_common d, w)"
| signal_usr: "sys_step n (d, w) Other (sig_usr flush d, w)"
| take: "length w < n \<Longrightarrow> cache_queue_head (d_cache d) \<noteq> 0 \<Longrightarrow> queue_take e d = ((f, vs), d1) \<Longrightarrow>
    sys_step n (d, w) (Take f vs) (d1, w @ [(f, vs)])"
| written: "sys_step n (d, us @ (f, vs) # ws) (Write f vs) (queue_written e f vs status d, us @ ws)"

inductive sys_run :: "nat \<Rightarrow> system \<Rightarrow> event list \<Rightarrow> system \<Rightarrow> bool" for n s where
  started: "sys_run n s [] s"
| more: "sys_run n s evs s' \<Longrightarrow> sys_step n s' ev s'' \<Longrightarrow> sys_run n s (evs @ [ev]) s''"

text \<open>What the daemon promises: a list of pending values for every file, from which whole batches are taken, at most
  \<open>n\<close> at a time.\<close>

type_synonym buffer = "(string \<Rightarrow> string list) \<times> batch list"

inductive buffer_step :: "nat \<Rightarrow> buffer \<Rightarrow> event \<Rightarrow> buffer \<Rightarrow> bool" for n where
  b_accept: "buffer_step n (p, w) (Accept f vs) (p(f := p f @ vs), w)"
| b_drop: "buffer_step n (p, w) (Drop f) (p(f := []), w)"
| b_take: "length w < n \<Longrightarrow> p f \<noteq> [] \<Longrightarrow> buffer_step n (p, w) (Take f (p f)) (p(f := []), w @ [(f, p f)])"
| b_write: "buffer_step n (p, us @ (f, vs) # ws) (Write f vs) (p, us @ ws)"
| b_unlocked: "buffer_step n (p, w) Unlocked (p, w)"
| b_other: "buffer_step n (p, w) Other (p, w)"

definition buffer_of :: "system \<Rightarrow> buffer" where
  "buffer_of s = (cached (d_cache (fst s)), snd s)"

lemma quiet_sim: "quiet d d' \<Longrightarrow> cache_ok (d_cache d') \<and> buffer_step n (buffer_of (d, w)) Other (buffer_of (d', w))"
  by (simp add: quiet_def buffer_of_def b_other)

lemma unlocked_quiet: "c \<in> set unlocked_commands \<Longrightarrow> c \<in> set quiet_commands"
  by (auto simp: unlocked_commands_def quiet_commands_def)

lemma adds_sim: "adds f vs d d' \<Longrightarrow> cache_ok (d_cache d') \<and> buffer_step n (buffer_of (d, w)) (Accept f vs) (buffer_of (d', w))"
  by (simp add: adds_def buffer_of_def b_accept)

lemma admit_refused_daemon: "admit s b d = Inl r \<Longrightarrow> resp_daemon r = d"
  by (auto simp: admit_def Let_def daemon_simps split: option.splits prod.splits if_splits)

lemma adds_cong: "d_cache d1 = d_cache d \<Longrightarrow> adds f vs d1 d' = adds f vs d d'"
  by (simp add: adds_def)

lemma forget_sim:
  assumes "cache_ok (d_cache d)"
  shows "cache_ok (d_cache (resp_daemon (handle_request_forget e sy s b d))) \<and>
    buffer_step n (buffer_of (d, w)) (forget_event e s b) (buffer_of (resp_daemon (handle_request_forget e sy s b d), w))"
proof (cases "\<exists>p rest. buffer_get_field b = Some (p, rest) \<and> check_file_access (conf e) (get_abs_path (conf e) p) s")
  case True
  then obtain p rest where p: "buffer_get_field b = Some (p, rest)" "check_file_access (conf e) (get_abs_path (conf e) p) s"
    by blast
  let ?f = "get_abs_path (conf e) p"
  have "d_cache (resp_daemon (handle_request_forget e sy s b d)) = snd (g_tree_remove ?f (d_cache d))"
    using p by (simp add: handle_request_forget_def Let_def daemon_simps split: prod.split)
  then show ?thesis using g_tree_remove_ok [OF assms] p by (simp add: forget_event_def buffer_of_def b_drop)
next
  case False
  then have "quiet d (resp_daemon (handle_request_forget e sy s b d))" using forget_drops [OF assms] by blast
  moreover have "forget_event e s b = Other" using False by (auto simp: forget_event_def split: option.split)
  ultimately show ?thesis using quiet_sim by simp
qed

lemma flush_thread_quiet:
  assumes "cache_ok (d_cache d)" "foreach_ok (foreach e)"
  shows "quiet d (flush_round e d)" "quiet d (flush_thread_end e d)"
  using flush_values_quiet [OF assms] state_ok assms(1)
  by (auto simp: quiet_def flush_round_def flush_thread_end_def daemon_simps)

lemma sys_step_sim:
  assumes "sys_step n s ev s'" "cache_ok (d_cache (fst s))"
  shows "cache_ok (d_cache (fst s')) \<and> buffer_step n (buffer_of s) ev (buffer_of s')"
  using assms
proof cases
  case (refused k b d r w)
  then show ?thesis using assms(2) admit_refused_daemon [OF refused(4)] by (simp add: b_other buffer_of_def)
next
  case (replied k b d c s args e r w)
  have "quiet d (resp_daemon r)" by (rule lookup_reply_quiet [OF _ replied(6)]) (use assms(2) replied(1) in simp)
  then show ?thesis unfolding replied(1-3) fst_conv by (rule quiet_sim)
next
  case (missing k b d c s args e f rest d1 w)
  have "quiet d d1" by (rule quiet_refl) (use assms(2) missing(1) lookup_missing_item [OF missing(6)] in simp_all)
  then show ?thesis unfolding missing(1-3) fst_conv by (rule quiet_sim)
next
  case (found k b d c s args e a rest d1 w now)
  have ok: "cache_ok (d_cache d)" using assms(2) found(1) by simp
  obtain p where l: "d_cache d1 = d_cache d" "cache_tree (d_cache d) (get_abs_path (conf e) p) = Some a"
    using lookup_found_item [OF found(6)] by blast
  have f: "get_abs_path (conf e) p = ci_file (item (d_cache d) a)" using tree_item(2) [OF cache_ok_tree [OF ok] l(2)] by simp
  have "adds (ci_file (item (d_cache d) a)) (accepted_values d1 a rest) d1
      (resp_daemon (update_values e s now (orig_buf args) rest a d1))"
    by (rule update_values_adds) (use ok l f in simp_all)
  then have "adds (ci_file (item (d_cache d) a)) (accepted_values d1 a rest) d
      (resp_daemon (update_values e s now (orig_buf args) rest a d1))" by (simp only: adds_cong [OF l(1)])
  then show ?thesis unfolding found(1-3) fst_conv by (rule adds_sim)
next
  case (insert e d w f s now rest orig)
  have "adds f (new_values e s now f rest d) d (resp_daemon (update_new e s now orig f rest d))"
    by (rule update_new_adds) (use assms(2) insert in \<open>simp_all add: env_ok_def\<close>)
  then show ?thesis unfolding insert(1-3) fst_conv by (rule adds_sim)
next
  case (forget k b d c s args w e now)
  then have d: "dispatch e c s now args d = handle_request_forget e (cmd_syntax c) s args d" by (simp add: dispatch_def Let_def)
  show ?thesis using forget_sim assms(2) forget by (simp add: d)
next
  case (quiet_request e k b d c s args w now)
  have "quiet d (resp_daemon (dispatch e c s now args d))"
    by (rule quiet_dispatch) (use assms(2) quiet_request in \<open>simp_all add: env_ok_def\<close>)
  then show ?thesis unfolding quiet_request(1-3) fst_conv by (rule quiet_sim)
next
  case (unlocked_request e k b d c s args w now)
  have "quiet d (resp_daemon (dispatch e c s now args d))"
    by (rule quiet_dispatch) (use assms(2) unlocked_request unlocked_quiet in \<open>simp_all add: env_ok_def\<close>)
  then show ?thesis by (simp add: unlocked_request(1-3) quiet_def buffer_of_def b_unlocked)
next
  case (flush_other d w f k)
  have "quiet d (snd (flush_file f k d))" by (rule flush_file_quiet) (use assms(2) flush_other(1) in simp)
  then show ?thesis unfolding flush_other(1-3) fst_conv by (rule quiet_sim)
next
  case (flush_round e d w)
  have "quiet d (flush_round e d)" by (rule flush_thread_quiet) (use assms(2) flush_round in \<open>simp_all add: env_ok_def\<close>)
  then show ?thesis unfolding flush_round(1-3) fst_conv by (rule quiet_sim)
next
  case (flush_end e d w)
  have "quiet d (flush_thread_end e d)" by (rule flush_thread_quiet) (use assms(2) flush_end in \<open>simp_all add: env_ok_def\<close>)
  then show ?thesis unfolding flush_end(1-3) fst_conv by (rule quiet_sim)
next
  case (signal d w)
  have "quiet d (sig_common d)" using assms(2) signal(1) state_ok by (simp add: quiet_def sig_common_def daemon_simps)
  then show ?thesis unfolding signal(1-3) fst_conv by (rule quiet_sim)
next
  case (signal_usr d w flush)
  have "quiet d (sig_usr flush d)" using assms(2) signal_usr(1) by (simp add: quiet_def sig_usr_def)
  then show ?thesis unfolding signal_usr(1-3) fst_conv by (rule quiet_sim)
next
  case (take w d e f vs d1)
  have ok: "cache_ok (d_cache d)" using assms(2) take(1) by simp
  note q = queue_take_drops [OF ok take(5,6)]
  show ?thesis using b_take [of w n "cached (d_cache d)" f] q take(4) by (simp add: take(1-3) buffer_of_def drops_def)
next
  case (written d us f vs ws e status)
  then show ?thesis using assms(2) queue_written_quiet [of d e f vs status] by (simp add: quiet_def buffer_of_def b_write)
qed

section \<open>The values that are written\<close>

primrec accepts :: "event list \<Rightarrow> batch list" where
  "accepts [] = []"
| "accepts (ev # evs) = (case ev of Accept f vs \<Rightarrow> (f, vs) # accepts evs | _ \<Rightarrow> accepts evs)"

primrec takes :: "event list \<Rightarrow> batch list" where
  "takes [] = []"
| "takes (ev # evs) = (case ev of Take f vs \<Rightarrow> (f, vs) # takes evs | _ \<Rightarrow> takes evs)"

primrec writes :: "event list \<Rightarrow> batch list" where
  "writes [] = []"
| "writes (ev # evs) = (case ev of Write f vs \<Rightarrow> (f, vs) # writes evs | _ \<Rightarrow> writes evs)"

definition of_file :: "string \<Rightarrow> batch list \<Rightarrow> string list" where
  "of_file f bs = concat (map snd (filter (\<lambda>b. fst b = f) bs))"

lemma events_append [simp]:
  "accepts (xs @ ys) = accepts xs @ accepts ys" "takes (xs @ ys) = takes xs @ takes ys" "writes (xs @ ys) = writes xs @ writes ys"
  by (induction xs) (simp_all split: event.split)

lemma of_file_simps [simp]:
  "of_file f [] = []" "of_file f (xs @ ys) = of_file f xs @ of_file f ys"
  "of_file f ((g, vs) # xs) = (if g = f then vs else []) @ of_file f xs"
  by (simp_all add: of_file_def)

lemma of_file_mset:
  assumes "mset xs = mset ys"
  shows "mset (of_file f xs) = mset (of_file f ys)"
proof -
  have e: "mset (of_file f zs) = (\<Sum>b \<in># mset zs. mset (if fst b = f then snd b else []))" for zs
    by (induction zs) (auto simp: of_file_def)
  show ?thesis unfolding e assms ..
qed

text \<open>A run of the buffer.\<close>

inductive buffer_run :: "nat \<Rightarrow> event list \<Rightarrow> buffer \<Rightarrow> bool" for n where
  b_started: "buffer_run n [] (\<lambda>_. [], [])"
| b_more: "buffer_run n evs s \<Longrightarrow> buffer_step n s ev s' \<Longrightarrow> buffer_run n (evs @ [ev]) s'"

inductive_cases buffer_step_cases: "buffer_step n s ev s'"

lemma buffer_run_batches:
  assumes "buffer_run n evs s"
  shows "mset (takes evs) = mset (writes evs) + mset (snd s) \<and> length (snd s) \<le> n"
  using assms by induction (auto elim!: buffer_step_cases)

lemma buffer_run_order:
  assumes "buffer_run n evs s" "n = 1"
  shows "takes evs = writes evs @ snd s"
  using assms
proof (induction rule: buffer_run.induct)
  case (b_more evs s ev s')
  have "length (snd s) \<le> 1" using buffer_run_batches [OF b_more.hyps(1)] b_more.prems by simp
  then show ?case using b_more by (auto elim!: buffer_step_cases simp: Suc_le_eq)
qed simp

lemma buffer_run_values:
  assumes "buffer_run n evs s" "Drop f \<notin> set evs"
  shows "of_file f (accepts evs) = of_file f (takes evs) @ fst s f"
  using assms
proof (induction rule: buffer_run.induct)
  case (b_more evs s ev s')
  then have ih: "of_file f (accepts evs) = of_file f (takes evs) @ fst s f" and nd: "ev \<noteq> Drop f" by auto
  from b_more.hyps(2) show ?case using ih nd by cases auto
qed simp

text \<open>The daemon starts with an empty cache.\<close>

definition empty_daemon :: "daemon \<Rightarrow> bool" where
  "empty_daemon d \<longleftrightarrow> cache_ok (d_cache d) \<and> cached (d_cache d) = (\<lambda>_. [])"

lemma sys_run_sim:
  assumes "sys_run n (d, []) evs s" "empty_daemon d"
  shows "cache_ok (d_cache (fst s)) \<and> buffer_run n evs (buffer_of s)"
  using assms(1)
proof induction
  case started
  then show ?case using assms(2) by (simp add: empty_daemon_def buffer_of_def b_started)
next
  case (more evs s' ev s'')
  then show ?case using sys_step_sim [OF more.hyps(2)] b_more by blast
qed

text \<open>A daemon with an empty cache, and an environment: the trees are visited in the order of the keys, and there is
  memory for two items.\<close>

definition sample_config :: config where
  "sample_config = \<lparr>config_write_interval = 0, config_write_jitter = 0, config_flush_interval = 3600,
     config_base_dir = Some ''/rrd'', config_write_base_only = True, config_has_journal = False\<rparr>"

definition sorted_entries :: "(string \<Rightarrow> addr option) \<Rightarrow> (string \<times> addr) list" where
  "sorted_entries m = map (\<lambda>k. (k, the (m k))) (sorted_list_of_set (dom m))"

declare sorted_entries_def [code del]

definition sample_env :: env where
  "sample_env = \<lparr>conf = sample_config, time_now = 100, random = 0,
     malloc = (\<lambda>h. if h 1 = None then 1 else if h 2 = None then 2 else 0),
     foreach = sorted_entries,
     find_file = (\<lambda>_. Last_update 10), regular_file = (\<lambda>_. True), strerror = (\<lambda>_. ''error''),
     show_lf = (\<lambda>_. ''0''), tree_height = (\<lambda>_. 0), can_open_journal = False,
     other_handler = (\<lambda>n s now b d. Replied 0 s d)\<rparr>"

definition start_daemon :: daemon where
  "start_daemon = \<lparr>d_cache = \<lparr>items = (\<lambda>_. None), cache_tree = (\<lambda>_. None), cache_queue_head = 0, cache_queue_tail = 0,
       state = RUNNING, stats_queue_length = 0, aborted = False, awake = []\<rparr>,
     d_journal = \<lparr>journal_old = [], journal_cur = [], journal_fh = False, journal_size = 0\<rparr>,
     config_flush_at_shutdown = True, stats_updates_received = 0, stats_flush_received = 0, stats_updates_written = 0,
     stats_data_sets_written = 0, stats_journal_bytes = 0, stats_journal_rotate = 0\<rparr>"

lemma sample_env_ok: "env_ok sample_env"
proof -
  have "foreach_ok (foreach sample_env)"
    by (auto simp: foreach_ok_def sorted_entries_def sample_env_def comp_def dom_def)
  then show ?thesis by (simp add: env_ok_def malloc_ok_def sample_env_def)
qed

lemma start_empty: "empty_daemon start_daemon"
proof -
  have "cache_inv (d_cache start_daemon) []" by (simp add: start_daemon_def cache_inv_def queue_rep_def tree_ok_def)
  then show ?thesis by (auto simp: empty_daemon_def cache_ok_def cached_def start_daemon_def)
qed

definition f_rrd :: string where "f_rrd = ''/rrd/f''"

definition arg :: "string \<Rightarrow> string" where "arg v = v @ [NUL]"

text \<open>One update is accepted and taken, a second one accepted meanwhile.\<close>

definition sample_d1 :: daemon where
  "sample_d1 = resp_daemon (update_new sample_env None 100 [] f_rrd (arg ''20:1'') start_daemon)"

definition sample_d2 :: daemon where
  "sample_d2 = snd (queue_take sample_env sample_d1)"

definition sample_d3 :: daemon where
  "sample_d3 = resp_daemon (update_new sample_env None 100 [] f_rrd (arg ''30:2'') sample_d2)"

text \<open>The caches of these daemons, with one item at address 1.\<close>

definition one_item :: "string list \<Rightarrow> dbl \<Rightarrow> bool \<Rightarrow> cache" where
  "one_item vs stamp q = \<lparr>items = [1 \<mapsto> zero_item\<lparr>ci_file := f_rrd, ci_values := vs, last_flush_time := 100,
       last_update_stamp := stamp, in_tree := True, in_queue := q\<rparr>], cache_tree = [f_rrd \<mapsto> 1],
     cache_queue_head = (if q then 1 else 0), cache_queue_tail = (if q then 1 else 0), state = RUNNING,
     stats_queue_length = (if q then 1 else 0), aborted = False, awake = []\<rparr>"

lemma sample_loops:
  "update_loop (dint 10) (arg ''20:1'') = ([''20:1''], dint 20, All_taken)"
  "update_loop (dint 20) (arg ''30:2'') = ([''30:2''], dint 30, All_taken)"
  by code_simp+

lemma sample_numbers: "\<not> dint 10 < 1" "u64 1 = 1" "u64 0 = 0"
  by code_simp+

lemmas sample_eval = sample_env_def sample_config_def one_item_def zero_item_def update_new_def new_values_def
  update_prepare_def update_insert_def update_values_def accepted_values_def new_item_def g_tree_lookup_def
  item_def upd_def put_last_def put_first_def enqueue_cache_item_def remove_from_queue_def free_cache_item_def broadcast_def
  queue_take_def wipe_def wipe_ci_values_def assert_def with_cache_def cached_def flush_file_def queue_runs_def reply_def send_response_def sample_loops sample_numbers

lemma sample_d1_cache: "d_cache sample_d1 = one_item [''20:1''] (dint 20) True"
  "new_values sample_env None 100 f_rrd (arg ''20:1'') start_daemon = [''20:1'']"
  by (simp_all add: sample_d1_def start_daemon_def sample_eval)

lemma sample_take_1: "queue_take sample_env sample_d1 = ((f_rrd, [''20:1'']), sample_d2)" "queue_runs sample_d1"
  "cache_queue_head (d_cache sample_d1) \<noteq> 0" "d_cache sample_d2 = one_item [] (dint 20) False"
  by (simp_all add: sample_d2_def sample_d1_cache sample_eval)

lemma sample_d3_cache: "d_cache sample_d3 = one_item [''30:2''] (dint 30) True"
  "new_values sample_env None 100 f_rrd (arg ''30:2'') sample_d2 = [''30:2'']"
  by (simp_all add: sample_d3_def sample_take_1(4) sample_eval)

lemma sample_take_3: "fst (queue_take sample_env sample_d3) = (f_rrd, [''30:2''])" "queue_runs sample_d3"
  "cache_queue_head (d_cache sample_d3) \<noteq> 0"
  by (simp_all add: sample_d3_cache sample_eval)

lemma queue_written_cache:
  "d_cache (queue_written e f vs st d) =
     (if g_tree_lookup (d_cache d) f = 0 then d_cache d else broadcast (g_tree_lookup (d_cache d) f) (d_cache d))"
  by (simp add: queue_written_def Let_def daemon_simps)

lemma sample_flush: "fst (flush_file f_rrd 7 sample_d3) = Flush_wait 1"
  "awake (d_cache (queue_written sample_env f_rrd vs st (snd (flush_file f_rrd 7 sample_d3)))) = [7]"
  "cached (d_cache (queue_written sample_env f_rrd vs st (snd (flush_file f_rrd 7 sample_d3)))) f_rrd = [''30:2'']"
  "cached (d_cache sample_d3) f_rrd = [''30:2'']"
  by (simp_all add: sample_d3_cache queue_written_cache sample_eval)

lemma sample_run:
  assumes "0 < n"
  shows "sys_run n (start_daemon, []) [Accept f_rrd [''20:1''], Take f_rrd [''20:1''], Accept f_rrd [''30:2'']]
    (sample_d3, [(f_rrd, [''20:1''])])"
proof -
  have a: "sys_step n (start_daemon, []) (Accept f_rrd [''20:1'']) (sample_d1, [])"
    using sys_step.insert [OF sample_env_ok, of n start_daemon "[]" f_rrd None 100 "arg ''20:1''" "[]"]
    by (simp add: sample_d1_cache(2) sample_d1_def)
  have b: "sys_step n (sample_d1, []) (Take f_rrd [''20:1'']) (sample_d2, [(f_rrd, [''20:1''])])"
    using sys_step.take [of "[]" n sample_d1 sample_env] sample_take_1 assms by simp
  have c: "sys_step n (sample_d2, [(f_rrd, [''20:1''])]) (Accept f_rrd [''30:2'']) (sample_d3, [(f_rrd, [''20:1''])])"
    using sys_step.insert [OF sample_env_ok, of n sample_d2 "[(f_rrd, [''20:1''])]" f_rrd None 100 "arg ''30:2''" "[]"]
    by (simp add: sample_d3_cache(2) sample_d3_def)
  show ?thesis using more [OF more [OF more [OF started a] b] c] by simp
qed

text \<open>C2: The daemon implements a buffer of pending values. In whatever order requests, queue threads, the flush thread and signals
  do what they do under the lock of the cache, no assertion of the code fails, the queue, the tree and the
  items stay consistent, and what happens to values is what a list per file would do: an accepted update
  appends, \<open>FORGET\<close> empties, and a queue thread takes all values of one file, which are some. This is for
  runs without \<open>SUSPEND\<close>, \<open>RESUME\<close>, \<open>SUSPENDALL\<close> and \<open>RESUMEALL\<close>, which change flags without the lock
  and can destroy the queue (\<open>suspend_race\<close>).\<close>

theorem daemon_refines_buffer:
  assumes "empty_daemon d" "sys_run n (d, []) evs (d', w)" "Unlocked \<notin> set evs"
  shows "cache_ok (d_cache d') \<and> \<not> aborted (d_cache d') \<and> buffer_run n evs (cached (d_cache d'), w)"
  using sys_run_sim [OF assms(2,1)] cache_ok_aborted by (simp add: buffer_of_def)

theorem daemon_refines_buffer_witness:
  "buffer_run 1 [Accept f_rrd [''20:1''], Take f_rrd [''20:1''], Accept f_rrd [''30:2'']]
     (cached (d_cache sample_d3), [(f_rrd, [''20:1''])])"
  using daemon_refines_buffer [OF start_empty sample_run [of 1]] by simp

text \<open>What goes wrong when \<open>SUSPEND\<close> is not alone. It loads the flags of an item, an update puts the item into the queue, and the store of
  the old flags removes the mark: the item is at the head of the queue and not marked as queued.\<close>

lemma suspend_alone:
  assumes "items (d_cache d) a = Some i"
  shows "flags_store b (flags_load a d) a d = set_suspended b a d"
  using assms by (simp add: flags_store_def flags_load_def set_suspended_def with_cache_def upd_def item_def Let_def)

lemma suspend_race:
  "cache_queue_head (d_cache (flags_store True (flags_load 1 sample_d2) 1 sample_d3)) = 1"
  "\<not> in_queue (item (d_cache (flags_store True (flags_load 1 sample_d2) 1 sample_d3)) 1)"
  "\<not> cache_ok (d_cache (flags_store True (flags_load 1 sample_d2) 1 sample_d3))"
proof -
  let ?d = "flags_store True (flags_load 1 sample_d2) 1 sample_d3"
  show h: "cache_queue_head (d_cache ?d) = 1" and q: "\<not> in_queue (item (d_cache ?d) 1)"
    by (simp_all add: flags_store_def flags_load_def sample_take_1(4) sample_d3_cache sample_eval)
  show "\<not> cache_ok (d_cache ?d)"
  proof
    assume "cache_ok (d_cache ?d)"
    then obtain xs where inv: "cache_inv (d_cache ?d) xs" by (auto simp: cache_ok_def)
    have "cache_queue_head (d_cache ?d) = first_of xs 0" using cache_invD(1) [OF inv] by (simp add: queue_rep_def)
    then have x: "1 \<in> set xs" using h by (cases xs) simp_all
    then obtain i where "items (d_cache ?d) 1 = Some i" using linked_dom [OF queue_repD(3) [OF cache_invD(1) [OF inv]]] by auto
    then show False using queue_repD(5) [OF cache_invD(1) [OF inv]] q x by (simp add: item_def)
  qed
qed

text \<open>C6: No value gets lost or is written twice: for a file that is never forgotten, the values that have been
  accepted are, as a multiset, those passed to \<open>rrd_update_r\<close>, those a queue thread is about to pass and those in
  the cache, with any number of queue threads. (\<open>SUSPEND\<close> and its relatives count as one step each.)\<close>

theorem no_value_lost:
  assumes "empty_daemon d" "sys_run n (d, []) evs (d', w)" "Drop f \<notin> set evs"
  shows "mset (of_file f (accepts evs)) =
    mset (of_file f (writes evs)) + mset (of_file f w) + mset (cached (d_cache d') f)"
proof -
  have run: "buffer_run n evs (cached (d_cache d'), w)" using sys_run_sim [OF assms(2,1)] by (simp add: buffer_of_def)
  have "mset (takes evs) = mset (writes evs @ w)" using buffer_run_batches [OF run] by simp
  from of_file_mset [OF this, of f] show ?thesis using buffer_run_values [OF run assms(3)] by simp
qed

theorem no_value_lost_witness:
  "mset [''20:1'', ''30:2''] = mset [''20:1''] + mset (cached (d_cache sample_d3) f_rrd)"
  using no_value_lost [OF start_empty sample_run [of 2], of f_rrd] by simp

text \<open>C7: With one queue thread the values of a file are written in the order in which they were accepted. (\<open>SUSPEND\<close>
  and its relatives count as one step each.)\<close>

theorem written_in_order:
  assumes "empty_daemon d" "sys_run 1 (d, []) evs (d', w)" "Drop f \<notin> set evs"
  shows "of_file f (accepts evs) = of_file f (writes evs) @ of_file f w @ cached (d_cache d') f"
proof -
  have run: "buffer_run 1 evs (cached (d_cache d'), w)" using sys_run_sim [OF assms(2,1)] by (simp add: buffer_of_def)
  show ?thesis using buffer_run_values [OF run assms(3)] buffer_run_order [OF run] by simp
qed

theorem written_in_order_witness:
  "[''20:1'', ''30:2''] = [''20:1''] @ cached (d_cache sample_d3) f_rrd"
  using written_in_order [OF start_empty sample_run, of f_rrd] by simp

text \<open>With two queue threads this fails: the second batch of a file can be written before the first one, which is then
  older than the last update of the file and refused by \<open>rrd_update_r\<close>.\<close>

lemma two_threads_out_of_order:
  "\<exists>evs s. sys_run 2 (start_daemon, []) evs s \<and> Drop f_rrd \<notin> set evs \<and>
     of_file f_rrd (accepts evs) = [''20:1'', ''30:2''] \<and> of_file f_rrd (writes evs) = [''30:2'', ''20:1'']"
proof -
  let ?b1 = "(f_rrd, [''20:1''])" and ?b2 = "(f_rrd, [''30:2''])"
  obtain d4 where "queue_take sample_env sample_d3 = (?b2, d4)" using sample_take_3(1) by (cases "queue_take sample_env sample_d3") simp
  then have t: "sys_step 2 (sample_d3, [?b1]) (Take f_rrd [''30:2'']) (d4, [?b1] @ [?b2])"
    by (intro sys_step.take) (use sample_take_3 in simp_all)
  define d5 where "d5 = queue_written sample_env f_rrd [''30:2''] 0 d4"
  have w1: "sys_step 2 (d4, [?b1] @ [?b2]) (Write f_rrd [''30:2'']) (d5, [?b1])"
    using sys_step.written [of 2 d4 "[?b1]" f_rrd "[''30:2'']" "[]" sample_env 0] by (simp add: d5_def)
  have w2: "sys_step 2 (d5, [?b1]) (Write f_rrd [''20:1'']) (queue_written sample_env f_rrd [''20:1''] 0 d5, [])"
    using sys_step.written [of 2 d5 "[]" f_rrd "[''20:1'']" "[]" sample_env 0] by simp
  have "sys_run 2 (start_daemon, []) ([Accept f_rrd [''20:1''], Take f_rrd [''20:1''], Accept f_rrd [''30:2'']] @
      [Take f_rrd [''30:2'']] @ [Write f_rrd [''30:2'']] @ [Write f_rrd [''20:1'']]) (queue_written sample_env f_rrd [''20:1''] 0 d5, [])"
    using more [OF more [OF more [OF sample_run t] w1] w2] by simp
  then show ?thesis by (intro exI conjI) (assumption | simp)+
qed

text \<open>A connection that waits in \<open>FLUSH\<close> is woken by the end of an earlier batch too, with values of the file still
  in the cache.\<close>

lemma flush_answers_early:
  "\<exists>evs d w. sys_run 1 (start_daemon, []) evs (d, w) \<and> awake (d_cache d) = [7] \<and> cached (d_cache d) f_rrd = [''30:2''] \<and>
     fst (flush_file f_rrd 7 sample_d3) = Flush_wait 1 \<and> writes evs = [(f_rrd, [''20:1''])]"
proof -
  define d4 where "d4 = snd (flush_file f_rrd 7 sample_d3)"
  define d5 where "d5 = queue_written sample_env f_rrd [''20:1''] 0 d4"
  have f: "sys_step 1 (sample_d3, [(f_rrd, [''20:1''])]) Other (d4, [(f_rrd, [''20:1''])])"
    unfolding d4_def by (rule sys_step.flush_other)
  have w: "sys_step 1 (d4, [(f_rrd, [''20:1''])]) (Write f_rrd [''20:1'']) (d5, [])"
    using sys_step.written [of 1 d4 "[]" f_rrd "[''20:1'']" "[]" sample_env 0] by (simp add: d5_def)
  have "sys_run 1 (start_daemon, []) ([Accept f_rrd [''20:1''], Take f_rrd [''20:1''], Accept f_rrd [''30:2'']] @
      [Other] @ [Write f_rrd [''20:1'']]) (d5, [])"
    using more [OF more [OF sample_run f] w] by simp
  moreover have "awake (d_cache d5) = [7]" "cached (d_cache d5) f_rrd = [''30:2'']"
    "fst (flush_file f_rrd 7 sample_d3) = Flush_wait 1" unfolding d5_def d4_def by (rule sample_flush)+
  ultimately show ?thesis by (intro exI conjI) (assumption | simp)+
qed

section \<open>Flushing\<close>

lemma put_first_head: "a \<noteq> 0 \<Longrightarrow> ci_values (item c a) \<noteq> [] \<Longrightarrow> cache_queue_head (put_first a c) = a"
  by (auto simp: put_first_def enqueue_cache_item_def Let_def)

text \<open>C19: A file for which \<open>FLUSH\<close> waits is the next one a queue thread takes, with all its values.\<close>

theorem flush_is_next:
  assumes "cache_ok (d_cache d)" "flush_file f k d = (Flush_wait a, d')"
  shows "cached (d_cache d) f \<noteq> [] \<and> fst (queue_take e d') = (f, cached (d_cache d) f) \<and> k \<in> set (flushed (item (d_cache d') a))"
proof -
  let ?c = "d_cache d"
  have a: "a = g_tree_lookup ?c f" "a \<noteq> 0" "ci_values (item ?c a) \<noteq> []"
    and d': "d_cache d' = upd a (flushed_update (\<lambda>w. w @ [k])) (put_first a ?c)"
    using assms(2) by (auto simp: flush_file_def Let_def daemon_simps split: if_splits)
  have t: "cache_tree ?c f = Some a" using lookup_Some a(1,2) by metis
  have t': "cache_tree (put_first a ?c) f = Some a" using put_quiet(3) [OF assms(1) t] t by simp
  obtain i where i: "items (put_first a ?c) a = Some i" "ci_file i = f"
    using tree_okD [OF cache_ok_tree [OF put_quiet(1) [OF assms(1) t]] t'] by blast
  have "ci_values i = cached (put_first a ?c) f" using t' i(1) by (simp add: cached_def)
  then have v: "ci_values i = cached ?c f" by (simp add: put_quiet(2) [OF assms(1) t])
  have h: "cache_queue_head (d_cache d') = a" using put_first_head [OF a(2,3)] by (simp add: d')
  have it: "item (d_cache d') a = i\<lparr>flushed := flushed i @ [k]\<rparr>" by (simp add: d' item_def i(1))
  have "cached ?c f \<noteq> []" using a(3) t by (simp add: cached_def)
  then show ?thesis by (simp add: queue_take_def Let_def h it i(2) v)
qed

theorem flush_is_next_witness:
  "fst (queue_take sample_env (snd (flush_file f_rrd 7 sample_d3))) = (f_rrd, [''30:2''])"
proof -
  have ok: "cache_ok (d_cache sample_d3)" using sys_run_sim [OF sample_run [of 1] start_empty] by simp
  show ?thesis using flush_is_next [OF ok, of f_rrd 7 1 "snd (flush_file f_rrd 7 sample_d3)" sample_env] sample_flush(1,4)
    by (simp add: prod_eq_iff)
qed

section \<open>The end of the daemon\<close>

text \<open>A queue thread that runs alone, for at most \<open>n\<close> rounds of its loop; \<open>upd_r\<close> is what \<open>rrd_update_r\<close> returns.\<close>

primrec drain :: "nat \<Rightarrow> env \<Rightarrow> (batch \<Rightarrow> int) \<Rightarrow> daemon \<Rightarrow> batch list \<times> daemon" where
  "drain 0 e upd_r d = ([], d)"
| "drain (Suc n) e upd_r d =
     (if queue_runs d \<and> cache_queue_head (d_cache d) \<noteq> 0
      then let (b, d1) = queue_take e d;
               (bs, d2) = drain n e upd_r (queue_written e (fst b) (snd b) (upd_r b) d1)
           in (b # bs, d2)
      else ([], d))"

definition batch_of :: "cache \<Rightarrow> addr \<Rightarrow> batch" where
  "batch_of c a = (ci_file (item c a), ci_values (item c a))"

lemma broadcast_inv: "cache_inv c xs \<Longrightarrow> cache_inv (broadcast a c) xs \<and> (\<forall>b. batch_of (broadcast a c) b = batch_of c b)"
proof -
  assume inv: "cache_inv c xs"
  have b: "batch_of (broadcast a c) b = batch_of c b \<and> in_tree (item (broadcast a c) b) = in_tree (item c b)" for b
    by (auto simp: batch_of_def broadcast_def item_def split: option.split)
  have bf: "ci_values (item (broadcast a c) x) = ci_values (item c x)" "ci_file (item (broadcast a c) x) = ci_file (item c x)" for x
    using b [of x] by (simp_all add: batch_of_def)
  have "queue_rep (c\<lparr>awake := awake c @ flushed (item c a)\<rparr>) xs" using cache_invD(1) [OF inv] by (simp add: queue_rep_def)
  then have "queue_rep (broadcast a c) xs" unfolding broadcast_def by (rule upd_rep) simp_all
  moreover have "tree_ok (broadcast a c)" using cache_invD(2) [OF inv] by (fastforce simp: tree_ok_def broadcast_def)
  moreover have "cache_tree (broadcast a c) = cache_tree c" by (simp add: broadcast_def)
  ultimately show ?thesis using b inv by (simp add: cache_inv_def has_values_def bf)
qed

lemma take_batches:
  fixes j r tm
  assumes inv: "cache_inv c (a # xs)"
  defines "c' \<equiv> remove_from_queue a (wipe_ci_values j r a tm c)"
  shows "cache_inv c' xs" "b \<in> set xs \<Longrightarrow> batch_of c' b = batch_of c b" "state c' = state c"
proof -
  note rep = cache_invD(1) [OF inv]
  have d: "a \<notin> set xs" using queue_repD(2) [OF rep] by simp
  obtain i where i: "items c a = Some i" using linked_dom [OF queue_repD(3) [OF rep]] by fastforce
  have "cache_tree c (ci_file i) = Some a" using cache_invD(4) [OF inv, of a] i by simp
  from take_inv(1) [OF inv i this] show "cache_inv c' xs" using d by (simp add: c'_def)
  have same: "same_content (wipe_ci_values j r a tm c) c'" unfolding c'_def by (rule remove_from_queue_same)
  show "batch_of c' b = batch_of c b" if "b \<in> set xs"
  proof -
    have "b \<noteq> a" using that d by blast
    then have "item (wipe_ci_values j r a tm c) b = item c b" by (simp add: item_def)
    then show ?thesis by (simp add: batch_of_def same_content_fields(1,2) [OF same])
  qed
  show "state c' = state c" using same by (simp add: same_content_def wipe_ci_values_def)
qed

lemma journal_write_shutdown: "config_flush_at_shutdown d \<Longrightarrow> config_flush_at_shutdown (journal_write e c args d)"
  by (simp add: journal_write_def journal_new_file_def Let_def)

lemma written_batches:
  assumes "cache_inv (d_cache d) xs" "config_flush_at_shutdown d"
  shows "cache_inv (d_cache (queue_written e f vs st d)) xs" "batch_of (d_cache (queue_written e f vs st d)) b = batch_of (d_cache d) b"
    "config_flush_at_shutdown (queue_written e f vs st d)"
  using broadcast_inv [OF assms(1)] assms journal_write_shutdown [OF assms(2)]
  by (simp_all add: queue_written_def Let_def daemon_simps with_cache_def)

lemma queue_take_head:
  assumes "cache_inv (d_cache d) (a # xs)"
  shows "queue_take e d = (batch_of (d_cache d) a, with_cache (remove_from_queue a \<circ> wipe e a (time_now e)) d)"
proof -
  have "cache_queue_head (d_cache d) = a" using cache_invD(1) [OF assms] by (simp add: queue_rep_def)
  moreover have "ci_values (item (d_cache d) a) \<noteq> []" using cache_invD(3) [OF assms] by (simp add: has_values_def)
  ultimately show ?thesis by (simp add: queue_take_def Let_def batch_of_def with_cache_def assert_True)
qed

lemma drain_all:
  assumes "cache_inv (d_cache d) xs" "config_flush_at_shutdown d" "state (d_cache d) = SHUTDOWN"
  shows "\<exists>d'. drain (length xs) e upd_r d = (map (batch_of (d_cache d)) xs, d') \<and> cache_queue_head (d_cache d') = 0 \<and> \<not> queue_runs d'"
  using assms
proof (induction xs arbitrary: d)
  case Nil
  then show ?case by (simp add: cache_inv_def queue_rep_def queue_runs_def)
next
  case (Cons a xs)
  define d1 where "d1 = with_cache (remove_from_queue a \<circ> wipe e a (time_now e)) d"
  let ?b = "batch_of (d_cache d) a"
  define d2 where "d2 = queue_written e (fst ?b) (snd ?b) (upd_r ?b) d1"
  have h: "cache_queue_head (d_cache d) = a" "a \<noteq> 0"
    using cache_invD(1) [OF Cons.prems(1)] queue_repD(4) [OF cache_invD(1) [OF Cons.prems(1)]] by (auto simp: queue_rep_def)
  note t = take_batches [OF Cons.prems(1), where j = "config_write_jitter (conf e)" and r = "random e" and tm = "time_now e"]
  have c1: "d_cache d1 = remove_from_queue a (wipe_ci_values (config_write_jitter (conf e)) (random e) a (time_now e) (d_cache d))"
    by (simp add: d1_def daemon_simps wipe_def)
  have i1: "cache_inv (d_cache d1) xs" "config_flush_at_shutdown d1" using t(1) Cons.prems(2) c1 by (simp_all add: d1_def with_cache_def)
  note w = written_batches [OF i1, of e "fst ?b" "snd ?b" "upd_r ?b", folded d2_def]
  have s2: "state (d_cache d2) = SHUTDOWN" using t(3) c1 Cons.prems(3) by (simp add: d2_def queue_written_cache broadcast_def)
  obtain d' where ih: "drain (length xs) e upd_r d2 = (map (batch_of (d_cache d2)) xs, d')" "cache_queue_head (d_cache d') = 0" "\<not> queue_runs d'"
    using Cons.IH [OF w(1,3) s2] by blast
  have "map (batch_of (d_cache d2)) xs = map (batch_of (d_cache d)) xs" using t(2) w(2) by (simp add: c1)
  moreover have "queue_runs d" using h Cons.prems(2) by (simp add: queue_runs_def)
  ultimately show ?case using ih h
    by (simp add: queue_take_head [OF Cons.prems(1)] d1_def [symmetric] d2_def [symmetric])
qed

text \<open>Flushing old values only removes entries of the tree.\<close>

lemma g_tree_remove_sub: "cache_tree (snd (g_tree_remove k c)) g = Some b \<Longrightarrow> cache_tree c g = Some b"
  using free_cache_item_at(2) by (auto simp: g_tree_remove_def free_cache_item_def split: option.splits if_splits)

lemma remove_keys_sub: "cache_tree (fold remove_key ks c) g = Some b \<Longrightarrow> cache_tree c g = Some b"
proof (induction ks arbitrary: c)
  case (Cons k ks)
  then have "cache_tree (remove_key k c) g = Some b" by simp
  then have "cache_tree (snd (g_tree_remove k c)) g = Some b"
    by (simp add: remove_key_def assert_def split: prod.splits if_splits)
  then show ?case by (rule g_tree_remove_sub)
qed simp

lemma callback_tree: "cache_tree (fst (fold (tree_callback_flush fi now t) es (c, ks))) = cache_tree c"
proof (induction es arbitrary: c ks)
  case (Cons x es)
  obtain c' ks' where x: "tree_callback_flush fi now t x (c, ks) = (c', ks')" by (cases "tree_callback_flush fi now t x (c, ks)")
  have "cache_tree c' = cache_tree c" using x enqueue_same [of c]
    by (auto simp: tree_callback_flush_def Let_def assert_def same_content_def split: prod.splits if_splits)
  then show ?case using Cons.IH [of c' ks'] by (simp add: x)
qed simp

lemma flush_old_values_sub: "cache_tree (flush_old_values fi j fe now m c) g = Some b \<Longrightarrow> cache_tree c g = Some b"
proof -
  assume g: "cache_tree (flush_old_values fi j fe now m c) g = Some b"
  define t where "t = (if 0 < m then now - m else now + 2 * j + 1)"
  obtain c1 ks where f: "fold (tree_callback_flush fi now t) (fe (cache_tree c)) (c, []) = (c1, ks)" by fastforce
  have "cache_tree c1 g = Some b" by (rule remove_keys_sub) (use g f in \<open>simp add: flush_old_values_def t_def\<close>)
  then show ?thesis using callback_tree [of fi now t "fe (cache_tree c)" c "[]"] f by simp
qed

text \<open>What is due is in the queue afterwards.\<close>

lemma flush_all_queue:
  assumes ok: "cache_ok (d_cache d)" and fe: "foreach_ok (foreach e)" and st: "state (d_cache d) \<noteq> RUNNING"
  shows "\<exists>ys. cache_inv (d_cache (flush_values e m d)) ys \<and>
    (\<forall>f a. cache_tree (d_cache d) f = Some a \<and> cached (d_cache d) f \<noteq> [] \<and> \<not> suspended (item (d_cache d) a) \<longrightarrow>
       (f, cached (d_cache d) f) \<in> set (map (batch_of (d_cache (flush_values e m d))) ys))"
proof -
  let ?c = "d_cache d" and ?c' = "d_cache (flush_values e m d)"
  obtain xs where "cache_inv ?c xs" using ok by (auto simp: cache_ok_def)
  from flush_old_values_inv [OF this fe] obtain ys t where ys: "cache_inv ?c' ys" "cached ?c' = cached ?c"
    "{a. \<exists>k. cache_tree ?c k = Some a \<and> flush_due ?c t a} \<subseteq> set ys"
    unfolding flush_values_def daemon_simps by blast
  have "(f, cached ?c f) \<in> set (map (batch_of ?c') ys)"
    if f: "cache_tree ?c f = Some a" "cached ?c f \<noteq> []" "\<not> suspended (item ?c a)" for f a
  proof -
    have "flush_due ?c t a" using f st by (simp add: flush_due_def has_values_def cached_def)
    then have a: "a \<in> set ys" using ys(3) f(1) by blast
    let ?g = "ci_file (item ?c' a)"
    have g: "cache_tree ?c' ?g = Some a" by (rule cache_invD(4) [OF ys(1) a])
    have "cache_tree ?c ?g = Some a" by (rule flush_old_values_sub) (use g in \<open>simp add: flush_values_def daemon_simps\<close>)
    then have "?g = f" using tree_inj [OF cache_ok_tree [OF ok] f(1)] by simp
    moreover have "ci_values (item ?c' a) = cached ?c ?g"
      using g unfolding ys(2) [symmetric] by (simp add: cached_def)
    ultimately show ?thesis using a by (force simp: batch_of_def)
  qed
  then show ?thesis using ys(1) by blast
qed

text \<open>C17: At the end of the daemon, with the flush at the shutdown configured, the flush thread puts every file with values
  that is not suspended into the queue, and a queue thread that runs alone passes all their values to
  \<open>rrd_update_r\<close>. After as many rounds as files are queued the queue is empty and the condition of the
  thread's loop is false.\<close>

theorem shutdown_writes_all:
  assumes "cache_ok (d_cache d)" "foreach_ok (foreach e)" "state (d_cache d) \<noteq> RUNNING" "config_flush_at_shutdown d"
  shows "\<exists>bs d'. drain (nat (stats_queue_length (d_cache (flush_thread_end e d)))) e upd_r (flush_thread_end e d) = (bs, d') \<and>
    cache_queue_head (d_cache d') = 0 \<and> \<not> queue_runs d' \<and>
    (\<forall>f a. cache_tree (d_cache d) f = Some a \<and> cached (d_cache d) f \<noteq> [] \<and> \<not> suspended (item (d_cache d) a) \<longrightarrow>
       (f, cached (d_cache d) f) \<in> set bs)"
proof -
  let ?d1 = "flush_values e (- 1) d" and ?d2 = "flush_thread_end e d"
  obtain ys where ys: "cache_inv (d_cache ?d1) ys"
    "\<forall>f a. cache_tree (d_cache d) f = Some a \<and> cached (d_cache d) f \<noteq> [] \<and> \<not> suspended (item (d_cache d) a) \<longrightarrow>
       (f, cached (d_cache d) f) \<in> set (map (batch_of (d_cache ?d1)) ys)"
    using flush_all_queue [OF assms(1-3)] by blast
  have c2: "d_cache ?d2 = (d_cache ?d1)\<lparr>state := SHUTDOWN\<rparr>" using assms(4) by (simp add: flush_thread_end_def daemon_simps)
  have inv: "cache_inv (d_cache ?d2) ys"
    using ys(1) unfolding c2 by (simp add: cache_inv_def queue_rep_def tree_ok_def has_values_def)
  have sh: "config_flush_at_shutdown ?d2" using assms(4) by (simp add: flush_thread_end_def with_cache_def flush_values_def)
  have b: "batch_of (d_cache ?d2) = batch_of (d_cache ?d1)" by (simp add: c2 batch_of_def fun_eq_iff)
  have len: "nat (stats_queue_length (d_cache ?d2)) = length ys" using cache_invD(1) [OF inv] by (simp add: queue_rep_def)
  have "state (d_cache ?d2) = SHUTDOWN" by (simp add: c2)
  from drain_all [OF inv sh this, of e upd_r] show ?thesis using ys(2) unfolding len b by blast
qed

definition stopping_daemon :: daemon where
  "stopping_daemon = with_cache (\<lambda>_. one_item [''20:1''] 0 False\<lparr>state := FLUSHING\<rparr>) start_daemon"

lemma stopping_ok: "cache_ok (d_cache stopping_daemon)"
proof -
  have "cache_inv (d_cache stopping_daemon) []"
    by (simp add: stopping_daemon_def daemon_simps one_item_def cache_inv_def queue_rep_def tree_ok_def zero_item_def dom_def)
  then show ?thesis by (rule cache_okI)
qed

theorem shutdown_writes_all_witness:
  "\<exists>bs d'. drain (nat (stats_queue_length (d_cache (flush_thread_end sample_env stopping_daemon)))) sample_env (\<lambda>_. 0)
      (flush_thread_end sample_env stopping_daemon) = (bs, d') \<and> cache_queue_head (d_cache d') = 0 \<and> \<not> queue_runs d' \<and> (f_rrd, [''20:1'']) \<in> set bs"
proof -
  have c: "d_cache stopping_daemon = one_item [''20:1''] 0 False\<lparr>state := FLUSHING\<rparr>" by (simp add: stopping_daemon_def daemon_simps)
  have "foreach_ok (foreach sample_env)" using sample_env_ok by (simp add: env_ok_def)
  moreover have "state (d_cache stopping_daemon) \<noteq> RUNNING" by (simp add: c)
  moreover have "config_flush_at_shutdown stopping_daemon" by (simp add: stopping_daemon_def with_cache_def start_daemon_def)
  moreover have "cache_tree (d_cache stopping_daemon) f_rrd = Some 1" "cached (d_cache stopping_daemon) f_rrd = [''20:1'']"
    "\<not> suspended (item (d_cache stopping_daemon) 1)" by (simp_all add: c one_item_def cached_def item_def zero_item_def)
  ultimately show ?thesis using shutdown_writes_all [OF stopping_ok, of sample_env "\<lambda>_. 0"] by fastforce
qed

end
