(* ===== verification/Rrd_Access.thy ===== *)
theory Rrd_Access
  imports Rrd_Daemon_Steps
begin

text \<open>
  What a connection to the daemon can reach: the commands its permissions allow (option \<open>-P\<close>), and with the options
  \<open>-b\<close> and \<open>-B\<close> only files under the base directory.
\<close>

section \<open>The base directory\<close>

lemma substring_append: "has_substring p ys \<Longrightarrow> has_substring p (xs @ ys)"
  by (induction xs) simp_all

lemma access_in_base:
  assumes "config_base_dir cf = Some base" "config_write_base_only cf" "check_file_access cf (get_abs_path cf p) (Some k)"
  shows "prefix (base @ ''/'') (get_abs_path cf p) \<and> \<not> has_substring ''../'' (get_abs_path cf p)"
proof (cases "p \<noteq> [] \<and> hd p = CHR ''/''")
  case True
  then have f: "get_abs_path cf p = p" by (simp add: get_abs_path_def assms(1))
  have l: "length base < length p" "take (length base) p = base" "p ! length base = CHR ''/''" "\<not> has_substring ''../'' p"
    using assms True by (auto simp: check_file_access_def f split: if_splits)
  have "p = base @ [p ! length base] @ drop (Suc (length base)) p" using id_take_nth_drop [OF l(1)] l(2) by simp
  then have "prefix (base @ [p ! length base]) p" by (metis append.assoc prefixI)
  then show ?thesis using l(3,4) by (simp add: f)
next
  case False
  then have f: "get_abs_path cf p = base @ ''/'' @ p" by (simp add: get_abs_path_def assms(1))
  show ?thesis using assms by (auto simp: check_file_access_def f split: if_splits)
qed

text \<open>A request changes the values of a file only if its name has passed \<open>check_file_access\<close>.\<close>

definition touched :: "env \<Rightarrow> listen_socket option \<Rightarrow> string \<Rightarrow> bool" where
  "touched e s g \<longleftrightarrow> (\<exists>p. g = get_abs_path (conf e) p) \<and> check_file_access (conf e) g s"

lemma adds_touch: "adds f vs d d' \<Longrightarrow> cached (d_cache d') g \<noteq> cached (d_cache d) g \<Longrightarrow> g = f"
  by (auto simp: adds_def split: if_splits)

lemma update_touch:
  assumes ok: "cache_ok (d_cache d)" and e: "env_ok e"
    and ch: "cached (d_cache (resp_daemon (handle_request_update e sy s now b d))) g \<noteq> cached (d_cache d) g"
  shows "touched e s g"
proof (cases "update_lookup e sy s b d")
  case (Lookup_reply r)
  then show ?thesis using ch lookup_reply_quiet [OF ok Lookup_reply] by (simp add: handle_update_parts quiet_def)
next
  case (Lookup_found a rest d1)
  obtain p where l: "d_cache d1 = d_cache d" "cache_tree (d_cache d) (get_abs_path (conf e) p) = Some a"
    "check_file_access (conf e) (get_abs_path (conf e) p) s" using lookup_found_item [OF Lookup_found] by blast
  have "adds (get_abs_path (conf e) p) (accepted_values d1 a rest) d1 (resp_daemon (update_values e s now (orig_buf b) rest a d1))"
    by (rule update_values_adds) (use ok l in simp_all)
  from adds_touch [OF this, of g] have "g = get_abs_path (conf e) p" using ch by (simp add: handle_update_parts Lookup_found l(1))
  then show ?thesis using l(3) by (auto simp: touched_def)
next
  case (Lookup_missing f rest d1)
  obtain p where l: "d_cache d1 = d_cache d" "check_file_access (conf e) f s" "f = get_abs_path (conf e) p"
    using lookup_missing_item [OF Lookup_missing] by blast
  have "adds f (new_values e s now f rest d1) d1 (resp_daemon (update_new e s now (orig_buf b) f rest d1))"
    by (rule update_new_adds) (use ok l(1) e in \<open>simp_all add: env_ok_def\<close>)
  from adds_touch [OF this, of g] have "g = f" using ch by (simp add: handle_update_parts Lookup_missing l(1))
  then show ?thesis using l(2,3) by (auto simp: touched_def)
qed

lemma forget_touch:
  assumes "cache_ok (d_cache d)" "cached (d_cache (resp_daemon (handle_request_forget e sy s b d))) g \<noteq> cached (d_cache d) g"
  shows "touched e s g"
  using forget_drops [OF assms(1), of e sy s b] assms(2) by (auto simp: quiet_def drops_def touched_def split: if_splits)

text \<open>The commands whose handlers are modelled.\<close>

definition modelled_commands :: "string list" where
  "modelled_commands = quiet_commands @ [''UPDATE'', ''FORGET'', ''WROTE'']"

lemma find_index_Some: "find_index k cs name = Some j \<Longrightarrow> k \<le> j \<and> j - k < length cs \<and> same_nocase name (cmd (cs ! (j - k)))"
proof (induction cs arbitrary: k)
  case (Cons c cs)
  show ?case
  proof (cases "same_nocase name (cmd c)")
    case False
    then have "Suc k \<le> j \<and> j - Suc k < length cs \<and> same_nocase name (cmd (cs ! (j - Suc k)))" using Cons by simp
    moreover from this have "j - k = Suc (j - Suc k)" by linarith
    ultimately show ?thesis by simp
  qed (use Cons in simp)
qed simp

lemma find_command_Some: "find_command name = Some c \<Longrightarrow> c \<in> set list_of_commands \<and> same_nocase name (cmd c)"
  using find_index_Some [of 0 list_of_commands name] by (auto simp: find_command_def find_command_index_def)

lemma admit_command:
  assumes "admit s b d = Inr (c, s1, args)"
  shows "s1 = count_batch s" "c \<in> set list_of_commands" "command_check_context s1 c" "socket_permission_check s1 (cmd c) \<noteq> 0"
  using assms find_command_Some by (auto simp: admit_def Let_def split: option.splits prod.splits if_splits)

lemma wrote_not_admitted: "admit (Some k) b d = Inr (c, s1, args) \<Longrightarrow> cmd c \<noteq> ''WROTE''"
  using admit_command(1-3) [of "Some k" b d c s1 args]
  by (auto simp: list_of_commands_def command_check_context_def count_batch_def split: if_splits)

text \<open>C18: With \<open>-B\<close> a client cannot reach beyond the base directory: whatever a connection sends to the handlers that are
  modelled, a file whose cached values the request changes has a name that starts with the base directory and does not contain
  \<open>../\<close>.\<close>

theorem requests_stay_in_base:
  assumes "cache_ok (d_cache d)" "env_ok e" "config_base_dir (conf e) = Some base" "config_write_base_only (conf e)"
    and "\<forall>c s args. admit (Some k) buf d = Inr (c, s, args) \<longrightarrow> cmd c \<in> set modelled_commands"
    and ch: "cached (d_cache (resp_daemon (handle_request e (Some k) now buf d))) g \<noteq> cached (d_cache d) g"
  shows "prefix (base @ ''/'') g \<and> \<not> has_substring ''../'' g"
proof (cases "admit (Some k) buf d")
  case (Inl r)
  then show ?thesis using ch admit_refused_daemon [OF Inl] by (simp add: handle_request_def)
next
  case (Inr x)
  then obtain c s args where a: "admit (Some k) buf d = Inr (c, s, args)" by (cases x) auto
  have d: "handle_request e (Some k) now buf d = dispatch e c s now args d" by (simp add: handle_request_def a)
  obtain k1 where s: "s = Some k1" using admit_command(1) [OF a] by (simp add: count_batch_def)
  have "cmd c \<notin> set quiet_commands" using quiet_dispatch [OF assms(1) _ _, of e c s now args] ch assms(2) d
    by (auto simp: quiet_def env_ok_def)
  then consider "cmd c = ''UPDATE''" | "cmd c = ''FORGET''"
    using assms(5) a wrote_not_admitted [OF a] by (auto simp: modelled_commands_def)
  then have "touched e s g"
  proof cases
    case 1
    then show ?thesis using update_touch [OF assms(1,2), of "cmd_syntax c" s now args g] ch d by (simp add: dispatch_def Let_def)
  next
    case 2
    then show ?thesis using forget_touch [OF assms(1), of e "cmd_syntax c" s args g] ch d by (simp add: dispatch_def Let_def)
  qed
  then show ?thesis using access_in_base [OF assms(3,4), of _ k1] by (auto simp: touched_def s)
qed

text \<open>An update by a connection that is allowed everything.\<close>

definition sample_socket :: listen_socket where
  "sample_socket = \<lparr>sock_id = 7, batch_start = 0, batch_cmd = 0, wbuf_data = None, wbuf_capacity = 0, permissions = - 1,
     out = [], overrun = False\<rparr>"

definition sample_request :: string where
  "sample_request = ''update f 20:1'' @ [NUL]"

lemma sample_admit:
  "(case admit (Some sample_socket) sample_request start_daemon of Inl _ \<Rightarrow> None | Inr (c, s, args) \<Rightarrow> Some (cmd c)) = Some ''UPDATE''"
  by code_simp

lemma sample_accepted:
  "cached (d_cache (resp_daemon (handle_request sample_env (Some sample_socket) 100 sample_request start_daemon))) f_rrd = [''20:1'']"
  by code_simp

theorem requests_stay_in_base_witness: "prefix (''/rrd'' @ ''/'') f_rrd \<and> \<not> has_substring ''../'' f_rrd"
proof -
  have ok: "cache_ok (d_cache start_daemon)" "cached (d_cache start_daemon) f_rrd = []" using start_empty by (simp_all add: empty_daemon_def)
  have cf: "config_base_dir (conf sample_env) = Some ''/rrd''" "config_write_base_only (conf sample_env)"
    by (simp_all add: sample_env_def sample_config_def)
  have "\<forall>c s args. admit (Some sample_socket) sample_request start_daemon = Inr (c, s, args) \<longrightarrow> cmd c \<in> set modelled_commands"
    using sample_admit by (auto simp: modelled_commands_def)
  moreover have "cached (d_cache (resp_daemon (handle_request sample_env (Some sample_socket) 100 sample_request start_daemon))) f_rrd \<noteq>
      cached (d_cache start_daemon) f_rrd" unfolding ok(2) sample_accepted by simp
  ultimately show ?thesis by (rule requests_stay_in_base [OF ok(1) sample_env_ok cf])
qed

section \<open>Permissions\<close>

text \<open>The argument of \<open>-P\<close> is cut into words by \<open>strtok_r\<close>.\<close>

function strtok_words :: "string \<Rightarrow> string list" where
  "strtok_words t =
     (let u = dropWhile (\<lambda>x. x = CHR '','' \<or> x = blank) t; w = takeWhile (\<lambda>x. x \<noteq> CHR '','' \<and> x \<noteq> blank) u
      in if u = [] then [] else w # strtok_words (drop (length w) u))"
  by pat_completeness auto
termination
proof (relation "measure length", goal_cases)
  case (2 t u w)
  then have "w \<noteq> []" using hd_dropWhile [of "\<lambda>x. x = CHR '','' \<or> x = blank" t] by (simp add: takeWhile_eq_Nil_iff)
  then have "length (drop (length w) u) < length u" using 2 by (cases w) auto
  moreover have "length u \<le> length t" using 2(1) length_dropWhile_le by blast
  ultimately show ?case by simp
qed simp

declare strtok_words.simps [simp del]

definition grant :: "string list \<Rightarrow> listen_socket \<Rightarrow> listen_socket" where
  "grant names sock = fold (\<lambda>nm k. case socket_permission_add k nm of None \<Rightarrow> k | Some k' \<Rightarrow> k') names sock"

definition option_P :: "string \<Rightarrow> listen_socket \<Rightarrow> listen_socket" where
  "option_P optarg sock = grant (strtok_words optarg) (socket_permission_clear sock)"

lemma grant_bit:
  "i < 32 \<Longrightarrow> bit (permissions (grant names sock)) i \<longleftrightarrow>
     bit (permissions sock) i \<or> (\<exists>nm \<in> set names. find_command_index nm = Some i)"
proof (induction names arbitrary: sock)
  case (Cons nm names)
  let ?k = "case socket_permission_add sock nm of None \<Rightarrow> sock | Some k' \<Rightarrow> k'"
  have "bit (permissions ?k) i \<longleftrightarrow> bit (permissions sock) i \<or> find_command_index nm = Some i"
    using Cons.prems by (auto simp: socket_permission_add_def bit_set_bit_iff split: option.split)
  then show ?case using Cons.IH [OF Cons.prems, of ?k] by (auto simp: grant_def)
qed (simp add: grant_def)

lemma same_nocase_trans: "same_nocase a b \<Longrightarrow> same_nocase a c \<longleftrightarrow> same_nocase b c"
  by (simp add: same_nocase_def)

text \<open>The names of the table are different, and there are fewer than 32.\<close>

lemma command_names: "distinct (map (map to_lower \<circ> cmd) list_of_commands)" "length list_of_commands = 26"
  by code_simp+

lemma find_command_index_same:
  assumes "c \<in> set list_of_commands" "find_command_index (cmd c) = Some i"
  shows "find_command_index nm = Some i \<longleftrightarrow> same_nocase nm (cmd c)" "i < 26"
proof -
  have nocase: "find_command_index nm = find_command_index nm'" if "same_nocase nm nm'" for nm nm'
  proof -
    have "find_index k cs nm = find_index k cs nm'" for k cs 
      by (induction cs arbitrary: k) (simp_all add: same_nocase_trans [OF that])
    then show ?thesis by (simp add: find_command_index_def)
  qed
  have i: "i < length list_of_commands" "same_nocase (cmd c) (cmd (list_of_commands ! i))"
    using find_index_Some [of 0 list_of_commands "cmd c" i] assms(2) by (simp_all add: find_command_index_def)
  show "i < 26" using i(1) by (simp add: command_names)
  show "find_command_index nm = Some i \<longleftrightarrow> same_nocase nm (cmd c)"
  proof
    assume "find_command_index nm = Some i"
    then have "same_nocase nm (cmd (list_of_commands ! i))"
      using find_index_Some [of 0 list_of_commands nm i] by (simp add: find_command_index_def)
    then show "same_nocase nm (cmd c)" using i(2) by (simp add: same_nocase_def)
  next
    assume "same_nocase nm (cmd c)"
    then show "find_command_index nm = Some i" using nocase assms(2) by simp
  qed
qed
lemma option_P_bit:
  assumes c: "c \<in> set list_of_commands" and i: "find_command_index (cmd c) = Some i"
  shows "bit (permissions (option_P optarg sock)) i \<longleftrightarrow> (\<exists>nm \<in> set (strtok_words optarg). same_nocase nm (cmd c))"
  using grant_bit [of i "strtok_words optarg" "socket_permission_clear sock"] find_command_index_same [OF c i]
  by (simp add: option_P_def socket_permission_clear_def)

lemma command_found: "c \<in> set list_of_commands \<Longrightarrow> same_nocase nm (cmd c) \<Longrightarrow> find_command nm = Some c"
proof -
  assume c: "c \<in> set list_of_commands" and nm: "same_nocase nm (cmd c)"
  have "find_index k cs nm \<noteq> None" if "c \<in> set cs" for k cs using that nm by (induction cs arbitrary: k) auto
  then obtain c' where c': "find_command nm = Some c'"
    using c by (fastforce simp: find_command_def find_command_index_def)
  have "(map to_lower \<circ> cmd) c' = (map to_lower \<circ> cmd) c"
    using find_command_Some [OF c'] nm by (simp add: same_nocase_def)
  then have "c' = c" using command_names(1) c find_command_Some [OF c'] by (auto simp: distinct_map inj_on_def)
  then show ?thesis using c' by simp
qed

lemma always_allowed: "c \<in> set list_of_commands \<Longrightarrow> cmd c \<notin> {''QUIT'', ''HELP''} \<Longrightarrow>
    \<not> same_nocase ''QUIT'' (cmd c) \<and> \<not> same_nocase ''HELP'' (cmd c)"
proof -
  have "\<forall>c \<in> set list_of_commands. cmd c \<notin> {''QUIT'', ''HELP''} \<longrightarrow> \<not> same_nocase ''QUIT'' (cmd c) \<and> \<not> same_nocase ''HELP'' (cmd c)"
    by code_simp
  then show "c \<in> set list_of_commands \<Longrightarrow> cmd c \<notin> {''QUIT'', ''HELP''} \<Longrightarrow> ?thesis" by blast
qed

text \<open>Whether the argument of \<open>-P\<close> allows a command: \<open>QUIT\<close> and \<open>HELP\<close> always, the end of a batch with \<open>BATCH\<close>, any other if it
  is named.\<close>

definition granted :: "string \<Rightarrow> string \<Rightarrow> bool" where
  "granted optarg n \<longleftrightarrow> n = ''QUIT'' \<or> n = ''HELP'' \<or>
     (\<exists>w \<in> set (strtok_words optarg). same_nocase w (if n = ''.'' then ''BATCH'' else n))"

lemma batch_command: "\<exists>b \<in> set list_of_commands. cmd b = ''BATCH''"
  by (simp add: list_of_commands_def)

lemma permission_check:
  assumes c: "c \<in> set list_of_commands" and p: "permissions k = permissions (option_P optarg sock)"
  shows "socket_permission_check (Some k) (cmd c) = (if granted optarg (cmd c) then 1 else 0)"
proof (cases "cmd c \<in> {''QUIT'', ''HELP''}")
  case True
  then show ?thesis by (auto simp: socket_permission_check_def granted_def same_nocase_def)
next
  case False
  obtain b where b: "b \<in> set list_of_commands" "cmd b = (if cmd c = ''.'' then ''BATCH'' else cmd c)"
    using c batch_command by (metis (full_types))
  have "same_nocase (cmd b) (cmd b)" by (simp add: same_nocase_def)
  then obtain i where i: "find_command_index (cmd b) = Some i" using command_found [OF b(1)] by (auto simp: find_command_def)
  show ?thesis using always_allowed [OF c] False option_P_bit [OF b(1) i, of optarg sock] i
    by (simp add: socket_permission_check_def granted_def p b(2))
qed

text \<open>C21: The permissions of a socket are those of the option \<open>-P\<close>. A request for a command of the table, in any letter case,
  goes to the handler of the command, with the rest of the line, if the option grants it and its place (in
  or outside of a batch) is right. If the option does not grant it, the answer is that the permission is
  denied, and the daemon stays as it is. The option grants the commands it names, the end of a batch with
  \<open>BATCH\<close>, and always \<open>QUIT\<close> and \<open>HELP\<close> (rrdcached.pod, -P).\<close>

theorem permissions_respected:
  assumes "c \<in> set list_of_commands" "buffer_get_field buf = Some (nm, rest)" "same_nocase nm (cmd c)"
  shows "handle_request e (Some (option_P optarg sock)) now buf d =
    (let s = count_batch (Some (option_P optarg sock))
     in if \<not> granted optarg (cmd c) then reply s RESP_ERR (''Permission denied.'' @ [NL]) d
        else if command_check_context s c then dispatch e c s now rest d
        else reply s RESP_ERR (''Can'' @ [CHR 0x27] @ ''t use '' @ [CHR 0x27] @ nm @ [CHR 0x27] @ '' here.'' @ [NL]) d)"
proof -
  let ?k = "option_P optarg sock"
  obtain k1 where k1: "count_batch (Some ?k) = Some k1" "permissions k1 = permissions ?k" by (simp add: count_batch_def)
  show ?thesis using permission_check [OF assms(1) k1(2)] command_found [OF assms(1,3)]
    by (simp add: handle_request_def admit_def assms(2) Let_def k1(1))
qed

theorem permissions_respected_witness:
  "handle_request sample_env (Some (option_P ''FLUSH, pending'' sample_socket)) 100 sample_request start_daemon =
     reply (count_batch (Some (option_P ''FLUSH, pending'' sample_socket))) RESP_ERR (''Permission denied.'' @ [NL]) start_daemon \<and>
   handle_request sample_env (Some (option_P ''FLUSH, Update'' sample_socket)) 100 sample_request start_daemon =
     dispatch sample_env (hd list_of_commands) (count_batch (Some (option_P ''FLUSH, Update'' sample_socket))) 100 (''f 20:1'' @ [NUL]) start_daemon"
proof -
  have c: "hd list_of_commands \<in> set list_of_commands" by code_simp
  have f: "buffer_get_field sample_request = Some (''update'', ''f 20:1'' @ [NUL])" "same_nocase ''update'' (cmd (hd list_of_commands))"
    "\<not> granted ''FLUSH, pending'' (cmd (hd list_of_commands))" "granted ''FLUSH, Update'' (cmd (hd list_of_commands))" by code_simp+
  have "command_check_context (count_batch (Some (option_P ''FLUSH, Update'' sample_socket))) (hd list_of_commands)" by code_simp
  then show ?thesis
    using permissions_respected [OF c f(1,2), of sample_env "''FLUSH, pending''" sample_socket 100 start_daemon]
      permissions_respected [OF c f(1,2), of sample_env "''FLUSH, Update''" sample_socket 100 start_daemon] f(3,4)
    by (simp add: Let_def)
qed

end
