(* ===== verification/Spec2Isabelle.thy ===== *)
theory Spec2Isabelle
  imports Rrd_Rpn_Spec Rrd_Lifecycle Rrd_Access
begin

text \<open>
  \<^bold>\<open>A verification of the round robin database of rrdtool.\<close>

  RRDtool keeps time series in a file of fixed size. A database has data sources and archives
  (\<open>RRA\<close>); every archive is a ring buffer of rows with one value per source. A database is \<^emph>\<open>created\<close>
  (\<open>rrd_create.c\<close>) from definitions, possibly with a template and filled from other databases. An
  \<^emph>\<open>update\<close> (\<open>rrd_update.c\<close>) takes strings of a time and values, turns the readings into rates,
  accumulates them into one primary data point per step, consolidates several of these into a row and
  writes the rows; archives of the Holt-Winters family (\<open>rrd_hw*.c\<close>) predict the next value and mark
  failures; sources of type \<open>COMPUTE\<close> are programs in reverse Polish notation (\<open>rrd_rpncalc.c\<close>). A
  \<^emph>\<open>fetch\<close> (\<open>rrd_fetch.c\<close>) selects an archive and reads a time range back. \<open>rrd_resize.c\<close> changes the
  number of rows of an archive, \<open>rrd_tune.c\<close> the definitions in place. The \<^emph>\<open>caching daemon\<close>
  (\<open>rrd_daemon.c\<close>) takes updates over a line protocol (\<open>rrd_client.c\<close>), keeps them in memory and has
  threads that pass them to the update in batches.

  \<^bold>\<open>Theories\<close>, each opening with what it holds:

  \<^item> \<open>Rrd_Prelude\<close>, \<open>Rrd_Double\<close>: the integers of the LP64 platform as \<open>int\<close> with the wrap-around
    written out (\<open>u64\<close>, \<open>s64\<close>, \<open>s32\<close>, \<open>u16\<close>), strings, arrays, and the type \<open>dbl\<close> of IEEE doubles
    (exact rationals with round-to-nearest-even, infinities, a negative zero, one NaN).
  \<^item> \<open>Rrd_Strtod\<close>, \<open>Rrd_Diff\<close>: \<open>rrd_strtod.c\<close> and \<open>rrd_diff.c\<close>; \<open>Rrd_Quicksort\<close>: \<open>quicksort.c\<close>.
  \<^item> \<open>Rrd_Format\<close>, \<open>Rrd_File\<close>, \<open>Rrd_Sample\<close>: the structures of \<open>rrd_format.h\<close> as records, the layout
    invariant \<open>rrd_wf\<close>, the mapped data area with seek, read and write of \<open>rrd_open.c\<close> (an
    interpretation of the locale \<open>cell_store\<close>), and two small databases on which properties are
    evaluated.
  \<^item> \<open>Rrd_Parsetime\<close>: the scanner and the parser of at-style times, \<open>rrd_parsetime.c\<close>.
  \<^item> \<open>Rrd_Rpn_Ops\<close>, \<open>Rrd_Rpn_Parse\<close>: the compact form, the printer and the parser of RPN
    programs; \<open>Rrd_Rpn_Calc\<close>: \<open>rpn_calc\<close> with its growing array; \<open>Rrd_Rpn_Spec\<close>: the abstract machine
    on lists it refines.
  \<^item> \<open>Rrd_Hw_Math\<close>, \<open>Rrd_Hw_Update\<close>, \<open>Rrd_Fifo\<close>, \<open>Rrd_Hw\<close>: the additive and multiplicative
    Holt-Winters functions (interpretations of the locale \<open>hw_method\<close>), the five archive updates,
    the smoother's queue (an interpretation of \<open>fifo_queue\<close>), seasonal lookup, smoother, reset and
    dispatcher.
  \<^item> \<open>Rrd_Reading\<close>: templates, update strings, times; \<open>Rrd_Pdp\<close>: readings by data source type,
    elapsed steps, primary data points; \<open>Rrd_Cdp\<close>: consolidation, with the reference
    \<open>window_value\<close> and the locale \<open>selection\<close> for minimum and maximum.
  \<^item> \<open>Rrd_Update\<close>: the whole update as explicit state passing over the record \<open>ustate\<close>;
    \<open>Rrd_Update_Rows\<close>: what \<open>write_to_rras\<close> leaves in the ring buffers; \<open>Rrd_Update_Keeps\<close>: what
    every update keeps.
  \<^item> \<open>Rrd_Fetch\<close>: choice of the archive and reading of the rows, and that a fetch finds what
    updates have written.
  \<^item> \<open>Rrd_Create\<close>: definitions of data sources and archives, the initial state; \<open>Rrd_Coverage\<close>:
    which part of a time range is covered; \<open>Rrd_Prefill\<close>: rows and preparation areas from other
    databases, and \<open>rrd_create_r2\<close> as a whole.
  \<^item> \<open>Rrd_Resize\<close>: \<open>rrd_resize\<close>, and \<open>rrd_first_r\<close>, \<open>rrd_last_r\<close> and \<open>rrd_lastupdate_r\<close>; \<open>Rrd_Tune\<close>: the options of
    \<open>rrd_tune_r\<close> and the arguments of \<open>handle_modify\<close>.
  \<^item> \<open>Rrd_Lifecycle\<close>: the inductive predicate \<open>database\<close> of what creation, updates, resizing and tuning
    that does not rebuild can lead to.
  \<^item> \<open>Rrd_Cache\<close>: the store of cache items and its doubly linked queue (an interpretation of the
    locale \<open>work_queue\<close>); \<open>Rrd_Protocol\<close>: lines and fields on both sides of a connection; \<open>Rrd_Daemon\<close>:
    journal, handlers, commands and dispatcher; \<open>Rrd_Daemon_Steps\<close>: requests and threads as a step
    relation (\<open>sys_step\<close>) and the buffer it implements (\<open>buffer_step\<close>); \<open>Rrd_Access\<close>: what a connection
    can reach.

  \<^bold>\<open>Conventions.\<close> A C function becomes a HOL function of the same name; its loops become recursive
  functions or folds named after it. Functions that can fail return a sum with a type of errors
  (\<open>rrd_error\<close>, \<open>pt_error\<close>, \<open>tune_error\<close>, \<open>resize_error\<close>, ...) on the left, or, where the C code goes on
  after \<open>rrd_set_error\<close>, the content of the error slot beside the state. \<open>Undefined\<close> is what the C
  standard leaves undefined (an access outside an array). An archive or preparation area with an index
  out of range, which a wrong index of a dependent archive leads to, is an exception: the model leaves what
  is read there unspecified (\<open>Rrd_Hw_Update\<close>). Every loop of the model is total; the one
  walk that is bounded, along the queue of the daemon, is bounded by the length the queue keeps.
  \<open>malloc\<close> and opening a file are taken to succeed where a theory does not say otherwise, files are
  memory mapped, and debug output is left out.

  \<^bold>\<open>Parameters.\<close> The mathematical library, \<open>qsort\<close>, the clock and the time zone are the fields of
  \<open>rpn_env\<close>; the only fact used of them is that sorting keeps the number of elements (\<open>qsort_ok\<close>).
  \<open>time_env\<close> holds the current time, \<open>localtime\<close> and \<open>mktime\<close>; \<open>create_env\<close> the time of creation, the random
  numbers and \<open>sscanf\<close>; the \<open>qsort\<close> that orders candidates in creation and the memory behind an
  array are arguments of \<open>rrd_create_r2\<close>; nothing is assumed of these. \<open>daemon_env\<close> holds the
  configuration, clock and random numbers, the allocation of cache items, the order in which the tree
  is walked, what the file system says about a file, and the handlers that only pass a request on. Used
  of these is that an allocated item is new, that a walk of the tree visits each file once, and that
  those handlers change the cache by \<open>flush_file\<close> only.

  \<^bold>\<open>What is shown.\<close> Creation, updates, resizing and tuning that does not rebuild the
  database, successful or not, lead to well-formed databases only (C1, C14; the names of data
  sources can become equal, \<open>rename_duplicates\<close>), a new one is unknown everywhere (C9), and the time of the last update
  increases (C15). What an update writes is what a fetch returns, from the best archive (C3, C4, C8);
  rows are the consolidation of their data points, also for gaps filled in one call (C5, C13);
  resizing keeps the row of every time (C10) and tuning without a rebuild what a fetch gives (C11). The
  daemon refines a buffer of pending values per file (C2), as long as \<open>SUSPEND\<close>, \<open>RESUME\<close> and their
  variants, which change flags without the lock, are not used (\<open>suspend_race\<close>); steps are what a thread
  does while it holds the lock of the cache. No value is lost, values are written in order by a single
  queue thread, a file to be flushed is next and shutdown writes everything (C6, C7, C17, C19); its
  queue refines a list (C12), requests are read as they were written (C20) and a connection reaches
  only what its permissions and the base directory allow (C18, C21). The calculator refines a stack
  machine (C16), programs are printed and stored faithfully (C27, C28). Update strings, templates,
  rates, and counters that do not wrap (C22 to C26; a wrap is corrected by one too few,
  \<open>counter_difference\<close>), differences of long counters (C29, C30), Holt-Winters (C31, C32),
  the data area (C33), times (C34, C40), filling a new database (C35 to C37), the archives of a
  prediction (C38) and sorting (C39). Lemmas beside them show where the code departs from what it
  means to do.

  \<^bold>\<open>Not modelled.\<close> Graphs (\<open>rrd_graph*.c\<close>, \<open>rrd_gfx.c\<close>) and export, which draw and format with
  libraries; dump, restore and info, which read and write XML and lists; \<open>rrd_modify_r2\<close> of
  \<open>rrd_modify.c\<close>, which puts a database together again from its parts when \<open>rrd_tune\<close> has arguments for it; the handlers of the daemon that
  pass a request on (\<open>TUNE\<close>, \<open>DUMP\<close>, \<open>FETCH\<close>, \<open>FETCHBIN\<close>, \<open>INFO\<close>, \<open>FIRST\<close>, \<open>LAST\<close>, \<open>CREATE\<close>, \<open>LIST\<close>,
  \<open>HELP\<close>), its sockets and its options other than \<open>-P\<close>; the client's connections and its reading
  of replies; option parsing, the command line and the cgi; the language bindings; and the builds
  without \<open>mmap\<close> or with rados.
\<close>

end
